(* ===== verification/Prelude.thy ===== *)
theory Prelude
  imports Main "HOL-Library.Word"
begin

text \<open>
  Shared vocabulary of the development: the widths of Rust's integers, the shape of a
  fallible result (Rust's \<open>Result\<close>, with \<open>Inl\<close> for \<open>Err\<close> and \<open>Inr\<close> for \<open>Ok\<close>), the
  byte order conversions \<open>to_le_bytes\<close> / \<open>to_be_bytes\<close>, saturating arithmetic, a few
  list facts, and two interfaces that several components implement: a wire enumeration
  (a closed list of variants with distinct wire names) and a self-delimiting frame
  codec.
\<close>

section \<open>Types\<close>

type_synonym u8 = "8 word"
type_synonym u16 = "16 word"
type_synonym u32 = "32 word"
type_synonym u64 = "64 word"
type_synonym byte = "8 word"

named_theorems wire_simps \<open>equations for wire encodings and their decoders\<close>
named_theorems store_simps \<open>lookup-after-update equations of the model's stores\<close>

section \<open>Results\<close>

text \<open>Rust's question-mark operator: stop at the first error.\<close>

fun try_bind :: "'e + 'a \<Rightarrow> ('a \<Rightarrow> 'e + 'b) \<Rightarrow> 'e + 'b" where
  "try_bind (Inl e) f = Inl e"
| "try_bind (Inr x) f = f x"

lemma try_bind_Inr_iff: "try_bind r f = Inr y \<longleftrightarrow> (\<exists>x. r = Inr x \<and> f x = Inr y)"
  by (cases r) auto

lemma try_bind_Inl_iff:
  "try_bind r f = Inl e \<longleftrightarrow> r = Inl e \<or> (\<exists>x. r = Inr x \<and> f x = Inl e)"
  by (cases r) auto

definition ok_or :: "'a option \<Rightarrow> 'e \<Rightarrow> 'e + 'a" where
  "ok_or x e = (case x of None \<Rightarrow> Inl e | Some v \<Rightarrow> Inr v)"

lemma ok_or_simps [simp]: "ok_or None e = Inl e" "ok_or (Some v) e = Inr v"
  by (simp_all add: ok_or_def)

lemma ok_or_Inr_iff [simp]: "ok_or x e = Inr v \<longleftrightarrow> x = Some v"
  by (cases x) auto

lemma ok_or_Inl_iff [simp]: "ok_or x e = Inl e' \<longleftrightarrow> x = None \<and> e' = e"
  by (cases x) auto

text \<open>\<open>collect\<close> into a \<open>Result\<close>: the first error wins.\<close>

fun try_map :: "('a \<Rightarrow> 'e + 'b) \<Rightarrow> 'a list \<Rightarrow> 'e + 'b list" where
  "try_map f [] = Inr []"
| "try_map f (x # xs) = try_bind (f x) (\<lambda>y. try_bind (try_map f xs) (\<lambda>ys. Inr (y # ys)))"

lemma try_map_Inr_iff:
  "try_map f xs = Inr ys \<longleftrightarrow> list_all2 (\<lambda>x y. f x = Inr y) xs ys"
  by (induction xs arbitrary: ys) (auto simp: try_bind_Inr_iff list_all2_Cons1)

lemma try_map_all: "(\<And>x. x \<in> set xs \<Longrightarrow> f x = Inr (g x)) \<Longrightarrow> try_map f xs = Inr (map g xs)"
  by (induction xs) auto

section \<open>Joining strings\<close>

text \<open>\<open>[String]::join\<close>: the separator stands between the parts only.\<close>

fun join_with :: "string \<Rightarrow> string list \<Rightarrow> string" where
  "join_with sep [] = []"
| "join_with sep [s] = s"
| "join_with sep (s # s' # ss) = s @ sep @ join_with sep (s' # ss)"

section \<open>Saturating arithmetic\<close>

definition saturating_add :: "'a::len word \<Rightarrow> 'a word \<Rightarrow> 'a word" where
  "saturating_add a b = (if unat a + unat b < 2 ^ LENGTH('a) then a + b else - 1)"

definition saturating_sub :: "nat \<Rightarrow> nat \<Rightarrow> nat" where
  "saturating_sub a b = (if a < b then 0 else a - b)"

lemma unat_saturating_add:
  "unat (saturating_add a b) = min (unat a + unat b) (2 ^ LENGTH('a) - 1)"
  for a b :: "'a::len word"
proof (cases "unat a + unat b < 2 ^ LENGTH('a)")
  case True
  then show ?thesis by (simp add: saturating_add_def unat_word_ariths)
next
  case False
  then show ?thesis
    by (simp add: saturating_add_def unsigned_minus_1_eq_mask mask_eq_exp_minus_1)
qed

lemma saturating_sub_eq [simp]: "saturating_sub a b = a - b"
  by (simp add: saturating_sub_def)

section \<open>Byte order\<close>

text \<open>Little-endian base-256 digits of a natural number, and their value.\<close>

fun le_digits :: "nat \<Rightarrow> nat \<Rightarrow> byte list" where
  "le_digits 0 n = []"
| "le_digits (Suc k) n = of_nat (n mod 256) # le_digits k (n div 256)"

lemma le_digits_4:
  "le_digits 4 n = [of_nat (n mod 256), of_nat (n div 256 mod 256),
     of_nat (n div 256 div 256 mod 256), of_nat (n div 256 div 256 div 256 mod 256)]"
proof -
  have four: "(4 :: nat) = Suc (Suc (Suc (Suc 0)))" by simp
  show ?thesis by (simp only: four le_digits.simps)
qed

fun le_value :: "byte list \<Rightarrow> nat" where
  "le_value [] = 0"
| "le_value (b # bs) = unat b + 256 * le_value bs"

lemma length_le_digits [simp]: "length (le_digits k n) = k"
  by (induction k arbitrary: n) auto

lemma le_value_le_digits: "le_value (le_digits k n) = n mod 256 ^ k"
proof (induction k arbitrary: n)
  case 0
  show ?case by simp
next
  case (Suc k)
  have "le_value (le_digits (Suc k) n) = n mod 256 + 256 * (n div 256 mod 256 ^ k)"
    by (simp add: Suc.IH unat_of_nat take_bit_eq_mod)
  also have "\<dots> = n mod 256 ^ Suc k"
    by (simp add: mod_mult2_eq)
  finally show ?case .
qed

lemma le_value_bound: "le_value bs < 256 ^ length bs"
proof (induction bs)
  case (Cons b bs)
  have "unat b < 256"
    using unsigned_less [of b, where ?'a = nat] by simp
  with Cons.IH show ?case
    by (simp add: algebra_simps)
qed simp

lemma le_digits_le_value: "le_digits (length bs) (le_value bs) = bs"
proof (induction bs)
  case (Cons b bs)
  have "unat b < 256"
    using unsigned_less [of b, where ?'a = nat] by simp
  then show ?case
    by (simp add: Cons.IH)
qed simp

definition u32_to_be_bytes :: "u32 \<Rightarrow> byte list" where
  "u32_to_be_bytes w = rev (le_digits 4 (unat w))"

definition u32_from_be_bytes :: "byte list \<Rightarrow> u32" where
  "u32_from_be_bytes bs = of_nat (le_value (rev bs))"

definition u32_to_le_bytes :: "u32 \<Rightarrow> byte list" where
  "u32_to_le_bytes w = le_digits 4 (unat w)"

definition u32_from_le_bytes :: "byte list \<Rightarrow> u32" where
  "u32_from_le_bytes bs = of_nat (le_value bs)"

definition u64_to_le_bytes :: "u64 \<Rightarrow> byte list" where
  "u64_to_le_bytes w = le_digits 8 (unat w)"

definition u64_from_le_bytes :: "byte list \<Rightarrow> u64" where
  "u64_from_le_bytes bs = of_nat (le_value bs)"

lemma length_to_bytes [simp]:
  "length (u32_to_be_bytes w) = 4" "length (u32_to_le_bytes w) = 4"
  "length (u64_to_le_bytes v) = 8"
  by (simp_all add: u32_to_be_bytes_def u32_to_le_bytes_def u64_to_le_bytes_def)

lemma u32_lt: "unat (w :: u32) < 256 ^ 4"
  using unsigned_less [of w, where ?'a = nat] by simp

lemma u64_lt: "unat (w :: u64) < 256 ^ 8"
  using unsigned_less [of w, where ?'a = nat] by simp

lemma u32_be_roundtrip [wire_simps]: "u32_from_be_bytes (u32_to_be_bytes w) = w"
  using u32_lt [of w]
  by (simp add: u32_from_be_bytes_def u32_to_be_bytes_def le_value_le_digits)

lemma u32_le_roundtrip [wire_simps]: "u32_from_le_bytes (u32_to_le_bytes w) = w"
  using u32_lt [of w]
  by (simp add: u32_from_le_bytes_def u32_to_le_bytes_def le_value_le_digits)

lemma u64_le_roundtrip [wire_simps]: "u64_from_le_bytes (u64_to_le_bytes w) = w"
  using u64_lt [of w]
  by (simp add: u64_from_le_bytes_def u64_to_le_bytes_def le_value_le_digits)

lemma u32_to_le_from_le: "length bs = 4 \<Longrightarrow> u32_to_le_bytes (u32_from_le_bytes bs) = bs"
  using le_value_bound [of bs] le_digits_le_value [of bs]
  by (simp add: u32_to_le_bytes_def u32_from_le_bytes_def unat_of_nat take_bit_eq_mod)

section \<open>Lists\<close>

text \<open>\<open>splice\<close> overwrites a range of a list, as \<open>copy_from_slice\<close> into \<open>data[off..off+n]\<close>.\<close>

definition splice_at :: "nat \<Rightarrow> 'a list \<Rightarrow> 'a list \<Rightarrow> 'a list" where
  "splice_at off src xs = take off xs @ src @ drop (off + length src) xs"

definition slice_at :: "nat \<Rightarrow> nat \<Rightarrow> 'a list \<Rightarrow> 'a list" where
  "slice_at off n xs = take n (drop off xs)"

lemma length_splice_at [simp]:
  "off + length src \<le> length xs \<Longrightarrow> length (splice_at off src xs) = length xs"
  by (simp add: splice_at_def)

lemma length_slice [simp]: "off + n \<le> length xs \<Longrightarrow> length (slice_at off n xs) = n"
  by (simp add: slice_at_def)

lemma nth_splice_at:
  "off + length src \<le> length xs \<Longrightarrow> i < length xs \<Longrightarrow>
   splice_at off src xs ! i = (if off \<le> i \<and> i < off + length src then src ! (i - off) else xs ! i)"
  by (auto simp: splice_at_def nth_append)

lemma nth_slice: "off + n \<le> length xs \<Longrightarrow> i < n \<Longrightarrow> slice_at off n xs ! i = xs ! (off + i)"
  by (simp add: slice_at_def)

lemma slice_splice_same:
  "off + length src \<le> length xs \<Longrightarrow> slice_at off (length src) (splice_at off src xs) = src"
  by (simp add: slice_at_def splice_at_def)

lemma slice_splice_inside:
  assumes "off + length src \<le> length xs" "p + n \<le> length src"
  shows "slice_at (off + p) n (splice_at off src xs) = slice_at p n src"
  using assms by (intro nth_equalityI) (auto simp: nth_slice nth_splice_at)

lemma slice_splice_disjoint:
  assumes "off + length src \<le> length xs" "p + n \<le> length xs"
    and "p + n \<le> off \<or> off + length src \<le> p"
  shows "slice_at p n (splice_at off src xs) = slice_at p n xs"
  using assms by (intro nth_equalityI) (auto simp: nth_slice nth_splice_at)

lemma splice_at_adjacent:
  assumes "off + length a + length b \<le> length xs" "off' = off + length a"
  shows "splice_at off' b (splice_at off a xs) = splice_at off (a @ b) xs"
  using assms by (simp add: splice_at_def ac_simps)

lemma slice_at_slice_at:
  "p + k \<le> n \<Longrightarrow> slice_at p k (slice_at off n xs) = slice_at (off + p) k xs"
  by (simp add: slice_at_def drop_take add.commute min_def)

lemma slice_at_concat:
  assumes "\<And>x. length (g x) = k" "i < length xs"
  shows "slice_at (i * k) k (concat (map g xs)) = g (xs ! i)"
  using assms(2)
proof (induction xs arbitrary: i)
  case (Cons x xs)
  then show ?case
    by (cases i) (simp_all add: slice_at_def assms(1))
qed simp

lemma length_concat_map_const: "(\<And>x. length (g x) = k) \<Longrightarrow> length (concat (map g xs)) = length xs * k"
  by (induction xs) auto

lemma find_distinct_image:
  assumes "x \<in> set xs" "inj_on f (set xs)"
  shows "List.find (\<lambda>y. f x = f y) xs = Some x"
  using assms by (induction xs) (auto simp: inj_on_def)

lemma distinct_remdups_adj_sorted: "sorted xs \<Longrightarrow> distinct (remdups_adj xs)"
  by (induction xs rule: remdups_adj.induct) auto

section \<open>Wire enumerations\<close>

text \<open>
  Several wire-stable enums share one parser: walk the table of variants and return the
  first whose name equals the input.
\<close>

definition enum_from_str :: "'a list \<Rightarrow> ('a \<Rightarrow> string) \<Rightarrow> string \<Rightarrow> 'a option" where
  "enum_from_str all as_str s = List.find (\<lambda>p. s = as_str p) all"

locale wire_enum =
  fixes all :: "'a list"
    and as_str :: "'a \<Rightarrow> string"
  assumes complete: "x \<in> set all"
    and names_distinct: "distinct (map as_str all)"
begin

lemma as_str_inj: "as_str x = as_str y \<longleftrightarrow> x = y"
  using complete [of x] complete [of y] names_distinct
  by (auto simp: distinct_map dest: inj_onD)

lemma from_as_str: "enum_from_str all as_str (as_str x) = Some x"
  unfolding enum_from_str_def
  by (rule find_distinct_image) (auto simp: complete inj_on_def as_str_inj)

lemma from_str_iff: "enum_from_str all as_str s = Some x \<longleftrightarrow> s = as_str x"
proof
  assume "enum_from_str all as_str s = Some x"
  then show "s = as_str x"
    by (auto simp: enum_from_str_def find_Some_iff)
qed (simp add: from_as_str)

lemma from_str_None_iff: "enum_from_str all as_str s = None \<longleftrightarrow> s \<notin> range as_str"
  using complete by (auto simp: enum_from_str_def find_None_iff)

end

section \<open>Self-delimiting frames\<close>

text \<open>
  An encoder that may refuse a payload, and a decoder that reads one frame off the front
  of a buffer: \<open>Inr (Some (payload, rest))\<close> for a complete frame, the value \<open>more\<close> when
  the buffer ends inside a frame (\<open>Ok(None)\<close> for a buffering decoder, an end-of-file error
  for a blocking one). The laws are the round trip with any suffix, and that a strict
  prefix of a frame is never mistaken for a frame.
\<close>

fun enc_all :: "('p \<Rightarrow> 'e + 'b list) \<Rightarrow> 'p list \<Rightarrow> 'e + 'b list" where
  "enc_all enc [] = Inr []"
| "enc_all enc (p # ps) =
     try_bind (enc p) (\<lambda>w. try_bind (enc_all enc ps) (\<lambda>ws. Inr (w @ ws)))"

fun dec_n :: "('b list \<Rightarrow> 'e + ('p \<times> 'b list) option) \<Rightarrow> nat \<Rightarrow> 'b list \<Rightarrow> 'p list \<times> 'b list" where
  "dec_n dec 0 buf = ([], buf)"
| "dec_n dec (Suc n) buf =
     (case dec buf of
        Inr (Some (p, rest)) \<Rightarrow> (let (ps, r) = dec_n dec n rest in (p # ps, r))
      | _ \<Rightarrow> ([], buf))"

locale frame_codec =
  fixes enc :: "'p \<Rightarrow> 'e + 'b list"
    and dec :: "'b list \<Rightarrow> 'e + ('p \<times> 'b list) option"
    and more :: "'e + ('p \<times> 'b list) option"
  assumes dec_enc: "enc p = Inr w \<Longrightarrow> dec (w @ rest) = Inr (Some (p, rest))"
    and dec_prefix: "enc p = Inr (u @ v) \<Longrightarrow> v \<noteq> [] \<Longrightarrow> dec u = more"
    and more_not_frame: "more \<noteq> Inr (Some q)"
begin

lemma stream_roundtrip:
  "enc_all enc ps = Inr ws \<Longrightarrow> dec_n dec (length ps) (ws @ rest) = (ps, rest)"
proof (induction ps arbitrary: ws)
  case (Cons p ps)
  then obtain w ws' where w: "enc p = Inr w" and ws': "enc_all enc ps = Inr ws'"
    and ws: "ws = w @ ws'"
    by (auto simp: try_bind_Inr_iff)
  show ?case
    using dec_enc [OF w, of "ws' @ rest"] Cons.IH [OF ws'] by (simp add: ws)
qed simp

text \<open>No frame is a prefix of another: the stream parses in one way only.\<close>

lemma prefix_free:
  assumes "enc p = Inr w" "enc q = Inr (w @ v)"
  shows "v = [] \<and> p = q"
proof -
  have dw: "dec w = Inr (Some (p, []))"
    using dec_enc [OF assms(1), of "[]"] by simp
  have v: "v = []"
  proof (rule ccontr)
    assume "v \<noteq> []"
    from dec_prefix [OF assms(2) this] dw show False using more_not_frame by metis
  qed
  with dec_enc [of q w "[]"] assms(2) dw show ?thesis by simp
qed

end

end
