(* ===== verification/Core_Vocab.thy ===== *)
theory Core_Vocab
  imports Prelude
begin

text \<open>
  The shared vocabulary crate \<open>crates/sy-core\<close>: scheduling classes
  (\<open>priority.rs\<close>), wire error codes (\<open>error.rs\<close>), workload kinds, inputs and lifecycle
  states (\<open>workload.rs\<close>). Each enum is a datatype with the source's variants, its \<open>ALL\<close>
  table, \<open>as_str\<close> and \<open>FromStr\<close>; the three parsers are one interface
  (\<open>wire_enum\<close>), interpreted here on each.
\<close>

section \<open>Priority\<close>

datatype Priority = Realtime | Interactive | Background | Batch

definition Priority_ALL :: "Priority list" where
  "Priority_ALL = [Realtime, Interactive, Background, Batch]"

fun Priority_as_str :: "Priority \<Rightarrow> string" where
  "Priority_as_str Realtime = ''Realtime''"
| "Priority_as_str Interactive = ''Interactive''"
| "Priority_as_str Background = ''Background''"
| "Priority_as_str Batch = ''Batch''"

datatype parse_error =
    UnknownPriority string
  | UnknownErrorCode string
  | UnknownWorkload string

definition Priority_from_str :: "string \<Rightarrow> parse_error + Priority" where
  "Priority_from_str s = ok_or (enum_from_str Priority_ALL Priority_as_str s) (UnknownPriority s)"

section \<open>Error codes\<close>

datatype ErrorCode =
    Overloaded | Cancelled | Timeout | PolicyDenied | ConsentRequired
  | IncompatibleSchema | NotReady | NpuUnavailable | Internal | BadRequest

definition ErrorCode_ALL :: "ErrorCode list" where
  "ErrorCode_ALL =
     [Overloaded, Cancelled, Timeout, PolicyDenied, ConsentRequired,
      IncompatibleSchema, NotReady, NpuUnavailable, Internal, BadRequest]"

fun ErrorCode_as_str :: "ErrorCode \<Rightarrow> string" where
  "ErrorCode_as_str Overloaded = ''Overloaded''"
| "ErrorCode_as_str Cancelled = ''Cancelled''"
| "ErrorCode_as_str Timeout = ''Timeout''"
| "ErrorCode_as_str PolicyDenied = ''PolicyDenied''"
| "ErrorCode_as_str ConsentRequired = ''ConsentRequired''"
| "ErrorCode_as_str IncompatibleSchema = ''IncompatibleSchema''"
| "ErrorCode_as_str NotReady = ''NotReady''"
| "ErrorCode_as_str NpuUnavailable = ''NpuUnavailable''"
| "ErrorCode_as_str Internal = ''Internal''"
| "ErrorCode_as_str BadRequest = ''BadRequest''"

fun exit_code :: "ErrorCode \<Rightarrow> int" where
  "exit_code Internal = 1"
| "exit_code Timeout = 1"
| "exit_code Cancelled = 1"
| "exit_code BadRequest = 2"
| "exit_code IncompatibleSchema = 2"
| "exit_code NotReady = 4"
| "exit_code NpuUnavailable = 4"
| "exit_code Overloaded = 5"
| "exit_code ConsentRequired = 6"
| "exit_code PolicyDenied = 7"

definition ErrorCode_from_str :: "string \<Rightarrow> parse_error + ErrorCode" where
  "ErrorCode_from_str s =
     ok_or (enum_from_str ErrorCode_ALL ErrorCode_as_str s) (UnknownErrorCode s)"

section \<open>Workloads\<close>

datatype WorkloadKind = Embed | Rerank | Vad | Stt | Tts | Ocr | Clip | Denoise | EyeTrack

fun WorkloadKind_as_str :: "WorkloadKind \<Rightarrow> string" where
  "WorkloadKind_as_str Embed = ''embed''"
| "WorkloadKind_as_str Rerank = ''rerank''"
| "WorkloadKind_as_str Vad = ''vad''"
| "WorkloadKind_as_str Stt = ''stt''"
| "WorkloadKind_as_str Tts = ''tts''"
| "WorkloadKind_as_str Ocr = ''ocr''"
| "WorkloadKind_as_str Clip = ''clip''"
| "WorkloadKind_as_str Denoise = ''denoise''"
| "WorkloadKind_as_str EyeTrack = ''eye-track''"

definition WorkloadKind_ALL :: "WorkloadKind list" where
  "WorkloadKind_ALL = [Embed, Rerank, Vad, Stt, Tts, Ocr, Clip, Denoise, EyeTrack]"

definition WorkloadKind_from_str :: "string \<Rightarrow> parse_error + WorkloadKind" where
  "WorkloadKind_from_str s =
     ok_or (enum_from_str WorkloadKind_ALL WorkloadKind_as_str s) (UnknownWorkload s)"

text \<open>\<open>f32\<close> values are their 32-bit patterns: the modelled code only stores and moves them.\<close>

type_synonym f32 = u32

record SpeechSpan =
  start_ms :: u32
  end_ms :: u32
  prob :: f32

datatype WorkloadInput =
    InText string
  | InTextPair string string
  | InAudio "16 word list" u32
  | InImage "byte list"

datatype WorkloadOutput =
    OutVector "f32 list"
  | OutScore f32
  | OutText string
  | OutSpans "SpeechSpan list"
  | OutBytes "byte list"

datatype WorkloadState =
    NotPrepared
  | Loading
  | WsReady string
  | WsFailed string
  | Unavailable

fun is_ready :: "WorkloadState \<Rightarrow> bool" where
  "is_ready (WsReady _) = True"
| "is_ready _ = False"

section \<open>The three parsers implement one interface\<close>

interpretation prio: wire_enum Priority_ALL Priority_as_str
proof unfold_locales
  show "x \<in> set Priority_ALL" for x
    by (cases x) (simp_all add: Priority_ALL_def)
qed (simp add: Priority_ALL_def)

interpretation errcode: wire_enum ErrorCode_ALL ErrorCode_as_str
proof unfold_locales
  show "x \<in> set ErrorCode_ALL" for x
    by (cases x) (simp_all add: ErrorCode_ALL_def)
qed (simp add: ErrorCode_ALL_def)

interpretation wkind: wire_enum WorkloadKind_ALL WorkloadKind_as_str
proof unfold_locales
  show "x \<in> set WorkloadKind_ALL" for x
    by (cases x) (simp_all add: WorkloadKind_ALL_def)
qed (simp add: WorkloadKind_ALL_def)

lemma Priority_from_str_iff: "Priority_from_str s = Inr p \<longleftrightarrow> s = Priority_as_str p"
  by (simp add: Priority_from_str_def prio.from_str_iff)

lemma WorkloadKind_from_str_iff: "WorkloadKind_from_str s = Inr k \<longleftrightarrow> s = WorkloadKind_as_str k"
  by (simp add: WorkloadKind_from_str_def wkind.from_str_iff)

lemma ErrorCode_from_str_iff: "ErrorCode_from_str s = Inr c \<longleftrightarrow> s = ErrorCode_as_str c"
  by (simp add: ErrorCode_from_str_def errcode.from_str_iff)

section \<open>The order of the classes\<close>

text \<open>\<open>Priority::ALL\<close> lists the classes from highest to lowest; the position is the rank.\<close>

instantiation Priority :: linorder
begin

definition less_eq_Priority :: "Priority \<Rightarrow> Priority \<Rightarrow> bool" where
  "less_eq_Priority p q \<longleftrightarrow>
     (case p of Realtime \<Rightarrow> True
      | Interactive \<Rightarrow> q \<noteq> Realtime
      | Background \<Rightarrow> q = Background \<or> q = Batch
      | Batch \<Rightarrow> q = Batch)"

definition less_Priority :: "Priority \<Rightarrow> Priority \<Rightarrow> bool" where
  "less_Priority p q \<longleftrightarrow> p \<le> q \<and> p \<noteq> (q :: Priority)"

instance
proof
  fix x y z :: Priority
  show "(x < y) = (x \<le> y \<and> \<not> y \<le> x)"
    by (cases x; cases y) (simp_all add: less_Priority_def less_eq_Priority_def)
  show "x \<le> x"
    by (cases x) (simp_all add: less_eq_Priority_def)
  show "x \<le> z" if "x \<le> y" "y \<le> z"
    using that by (cases x; cases y; cases z) (simp_all add: less_eq_Priority_def)
  show "x = y" if "x \<le> y" "y \<le> x"
    using that by (cases x; cases y) (simp_all add: less_eq_Priority_def)
  show "x \<le> y \<or> y \<le> x"
    by (cases x; cases y) (simp_all add: less_eq_Priority_def)
qed

end

lemma Priority_less_simps [simp]:
  "Realtime < p \<longleftrightarrow> p \<noteq> Realtime"
  "\<not> p < Realtime"
  "p < Interactive \<longleftrightarrow> p = Realtime"
  "p < Background \<longleftrightarrow> p = Realtime \<or> p = Interactive"
  "p < Batch \<longleftrightarrow> p \<noteq> Batch"
  by (cases p; simp add: less_Priority_def less_eq_Priority_def)+

lemma Priority_ex: "(\<exists>c. P c) \<longleftrightarrow> P Realtime \<or> P Interactive \<or> P Background \<or> P Batch"
  by (metis Priority.exhaust)

lemma Priority_all: "(\<forall>c. P c) \<longleftrightarrow> P Realtime \<and> P Interactive \<and> P Background \<and> P Batch"
  by (metis Priority.exhaust)

lemma Priority_ALL_sorted: "sorted_wrt (<) Priority_ALL"
  by (simp add: Priority_ALL_def)

end
