(* ===== verification/Json.thy ===== *)
theory Json
  imports Prelude "HOL-Library.Monad_Syntax"
begin

text \<open>
  The JSON values the daemons exchange, as \<open>serde_json::Value\<close> represents them: a number
  is a non-negative integer of 64 bits, a negative one, or a double (its bit pattern);
  an object is an association list whose first entry for a key is the one \<open>get\<close> finds.
  The accessors are the ones the modelled code calls. Parsing and printing of JSON text
  is third-party code and stays a parameter wherever it is used.
\<close>

datatype json_number =
    PosInt u64
  | NegInt "64 word"
  | Float "64 word"

datatype json =
    JNull
  | JBool bool
  | JNumber json_number
  | JString string
  | JArray "json list"
  | JObject "(string \<times> json) list"

fun json_as_u64 :: "json \<Rightarrow> u64 option" where
  "json_as_u64 (JNumber (PosInt n)) = Some n"
| "json_as_u64 _ = None"

fun json_as_str :: "json \<Rightarrow> string option" where
  "json_as_str (JString s) = Some s"
| "json_as_str _ = None"

fun json_as_bool :: "json \<Rightarrow> bool option" where
  "json_as_bool (JBool b) = Some b"
| "json_as_bool _ = None"

fun json_as_array :: "json \<Rightarrow> json list option" where
  "json_as_array (JArray xs) = Some xs"
| "json_as_array _ = None"

fun json_as_object :: "json \<Rightarrow> (string \<times> json) list option" where
  "json_as_object (JObject m) = Some m"
| "json_as_object _ = None"

text \<open>\<open>Value::get\<close> with a string key: nothing on a value that is not an object.\<close>

fun json_get :: "json \<Rightarrow> string \<Rightarrow> json option" where
  "json_get (JObject m) k = map_of m k"
| "json_get _ k = None"

definition json_u32 :: "u32 \<Rightarrow> json" where
  "json_u32 n = JNumber (PosInt (ucast n))"

definition json_u64 :: "u64 \<Rightarrow> json" where
  "json_u64 n = JNumber (PosInt n)"

text \<open>Reading a \<open>u32\<close> field, as the derived deserialiser does: an integer in range.\<close>

definition json_to_u32 :: "json \<Rightarrow> u32 option" where
  "json_to_u32 v =
     (case json_as_u64 v of
        None \<Rightarrow> None
      | Some n \<Rightarrow> if unat n < 2 ^ 32 then Some (ucast n) else None)"

lemma json_to_u32_json_u32 [simp]: "json_to_u32 (json_u32 n) = Some n"
proof -
  have n: "unat n < 2 ^ 32"
    using unsigned_less [of n, where ?'a = nat] by simp
  then have "unat (ucast n :: u64) = unat n"
    by (simp add: unsigned_ucast_eq take_bit_nat_eq_self_iff)
  with n show ?thesis
    by (simp add: json_to_u32_def json_u32_def ucast_up_ucast_id is_up)
qed

lemma json_as_u64_json_u64 [simp]: "json_as_u64 (json_u64 n) = Some n"
  by (simp add: json_u64_def)

text \<open>
  Required and optional fields of a derived struct: a missing required field is an error,
  an optional field is absent when the key is missing or its value is \<open>null\<close>, and keys
  the struct does not name are ignored. Which of several shape errors is reported is the
  deserialiser's choice, so a shape error is just \<open>None\<close>.
\<close>

definition req_field :: "(json \<Rightarrow> 'a option) \<Rightarrow> json \<Rightarrow> string \<Rightarrow> 'a option" where
  "req_field conv v k = Option.bind (json_get v k) conv"

definition opt_field :: "(json \<Rightarrow> 'a option) \<Rightarrow> json \<Rightarrow> string \<Rightarrow> 'a option option" where
  "opt_field conv v k =
     (case json_get v k of
        None \<Rightarrow> Some None
      | Some JNull \<Rightarrow> Some None
      | Some x \<Rightarrow> map_option Some (conv x))"

lemma req_field_ok: "json_get v k = Some x \<Longrightarrow> conv x = Some y \<Longrightarrow> req_field conv v k = Some y"
  by (simp add: req_field_def)

lemma req_field_missing: "json_get v k = None \<Longrightarrow> req_field conv v k = None"
  by (simp add: req_field_def)

lemma opt_field_absent: "json_get v k = None \<Longrightarrow> opt_field conv v k = Some None"
  by (simp add: opt_field_def)

lemma opt_field_ok:
  "json_get v k = map_option f x \<Longrightarrow> (\<And>y. f y \<noteq> JNull) \<Longrightarrow> (\<And>y. conv (f y) = Some y) \<Longrightarrow>
   opt_field conv v k = Some x"
proof (cases x)
  case (Some y)
  assume g: "json_get v k = map_option f x" and nn: "\<And>y. f y \<noteq> JNull"
    and c: "\<And>y. conv (f y) = Some y"
  from nn [of y] c [of y] g Some show ?thesis
    by (cases "f y") (simp_all add: opt_field_def)
qed (simp add: opt_field_def)

text \<open>Serialising an optional field that is skipped when absent.\<close>

definition skip_none :: "string \<Rightarrow> ('a \<Rightarrow> json) \<Rightarrow> 'a option \<Rightarrow> (string \<times> json) list" where
  "skip_none k f x = (case x of None \<Rightarrow> [] | Some v \<Rightarrow> [(k, f v)])"

lemma skip_none_simps [simp]:
  "skip_none k f None = []" "skip_none k f (Some v) = [(k, f v)]"
  by (simp_all add: skip_none_def)

lemma map_of_skip_none [simp]:
  "map_of (skip_none k f x) k' = (if k = k' then map_option f x else None)"
  by (cases x) auto

end
