(* ===== verification/Ipc_Envelope.thy ===== *)
theory Ipc_Envelope
  imports Core_Vocab Json
begin

text \<open>
  The IPC v1 envelope (\<open>crates/sy-ipc/src/envelope.rs\<close>), the call builders
  (\<open>client.rs\<close>, \<open>blocking.rs\<close>) and the streaming event (\<open>stream.rs\<close>). A ULID is its 128-bit
  value; its text form is third-party code, so the printer and parser are parameters
  (\<open>ulid_str\<close>, \<open>ulid_parse\<close>). The derived serialisers are written out on JSON values.
\<close>

type_synonym ulid = "128 word"

definition SCHEMA_VERSION :: u32 where
  "SCHEMA_VERSION = 1"

record Request =
  schema_version :: u32
  request_id :: ulid
  trace_id :: "string option"
  parent_span_id :: "string option"
  deadline_ms :: "u64 option"
  priority :: Priority
  req_method :: string
  req_params :: json

datatype BlobKind = Memfd

record BlobRef =
  blob_kind :: BlobKind
  blob_len :: u64
  sha256 :: string

record ErrorBody =
  code :: ErrorCode
  message :: string
  retry_after_ms :: "u64 option"
  details :: json

datatype Response =
    RespOk (resp_schema: u32) (resp_id: ulid) (resp_result: json) (resp_blob: "BlobRef option")
  | RespErr (resp_schema: u32) (resp_id: ulid) (resp_error: ErrorBody)

section \<open>Serialisation\<close>

definition Request_to_value :: "(ulid \<Rightarrow> string) \<Rightarrow> Request \<Rightarrow> json" where
  "Request_to_value ulid_str r = JObject
     ([(''schema_version'', json_u32 (schema_version r)),
       (''request_id'', JString (ulid_str (request_id r)))]
      @ skip_none ''trace_id'' JString (trace_id r)
      @ skip_none ''parent_span_id'' JString (parent_span_id r)
      @ skip_none ''deadline_ms'' json_u64 (deadline_ms r)
      @ [(''priority'', JString (Priority_as_str (priority r))),
         (''method'', JString (req_method r)),
         (''params'', req_params r)])"

definition json_to_ulid :: "(string \<Rightarrow> ulid option) \<Rightarrow> json \<Rightarrow> ulid option" where
  "json_to_ulid ulid_parse v = Option.bind (json_as_str v) ulid_parse"

definition json_to_priority :: "json \<Rightarrow> Priority option" where
  "json_to_priority v = Option.bind (json_as_str v) (enum_from_str Priority_ALL Priority_as_str)"

definition json_to_error_code :: "json \<Rightarrow> ErrorCode option" where
  "json_to_error_code v = Option.bind (json_as_str v) (enum_from_str ErrorCode_ALL ErrorCode_as_str)"

definition Request_from_value :: "(string \<Rightarrow> ulid option) \<Rightarrow> json \<Rightarrow> Request option" where
  "Request_from_value ulid_parse v = do {
     sv \<leftarrow> req_field json_to_u32 v ''schema_version'';
     rid \<leftarrow> req_field (json_to_ulid ulid_parse) v ''request_id'';
     tid \<leftarrow> opt_field json_as_str v ''trace_id'';
     span \<leftarrow> opt_field json_as_str v ''parent_span_id'';
     dl \<leftarrow> opt_field json_as_u64 v ''deadline_ms'';
     pr \<leftarrow> req_field json_to_priority v ''priority'';
     m \<leftarrow> req_field json_as_str v ''method'';
     ps \<leftarrow> req_field Some v ''params'';
     Some \<lparr>schema_version = sv, request_id = rid, trace_id = tid, parent_span_id = span,
           deadline_ms = dl, priority = pr, req_method = m, req_params = ps\<rparr> }"

definition BlobRef_to_value :: "BlobRef \<Rightarrow> json" where
  "BlobRef_to_value b = JObject
     [(''kind'', JString ''memfd''), (''len'', json_u64 (blob_len b)), (''sha256'', JString (sha256 b))]"

definition json_to_blob_kind :: "json \<Rightarrow> BlobKind option" where
  "json_to_blob_kind v = (if v = JString ''memfd'' then Some Memfd else None)"

definition BlobRef_from_value :: "json \<Rightarrow> BlobRef option" where
  "BlobRef_from_value v = do {
     k \<leftarrow> req_field json_to_blob_kind v ''kind'';
     l \<leftarrow> req_field json_as_u64 v ''len'';
     h \<leftarrow> req_field json_as_str v ''sha256'';
     Some \<lparr>blob_kind = k, blob_len = l, sha256 = h\<rparr> }"

definition ErrorBody_to_value :: "ErrorBody \<Rightarrow> json" where
  "ErrorBody_to_value e = JObject
     ([(''code'', JString (ErrorCode_as_str (code e))), (''message'', JString (message e))]
      @ skip_none ''retry_after_ms'' json_u64 (retry_after_ms e)
      @ [(''details'', details e)])"

definition ErrorBody_from_value :: "json \<Rightarrow> ErrorBody option" where
  "ErrorBody_from_value v = do {
     c \<leftarrow> req_field json_to_error_code v ''code'';
     m \<leftarrow> req_field json_as_str v ''message'';
     ra \<leftarrow> opt_field json_as_u64 v ''retry_after_ms'';
     Some \<lparr>code = c, message = m, retry_after_ms = ra,
           details = (case json_get v ''details'' of None \<Rightarrow> JNull | Some d \<Rightarrow> d)\<rparr> }"

fun Response_to_value :: "(ulid \<Rightarrow> string) \<Rightarrow> Response \<Rightarrow> json" where
  "Response_to_value ulid_str (RespOk sv rid res blob) = JObject
     ([(''schema_version'', json_u32 sv), (''request_id'', JString (ulid_str rid)), (''result'', res)]
      @ skip_none ''blob'' BlobRef_to_value blob)"
| "Response_to_value ulid_str (RespErr sv rid e) = JObject
     [(''schema_version'', json_u32 sv), (''request_id'', JString (ulid_str rid)),
      (''error'', ErrorBody_to_value e)]"

text \<open>Untagged: the \<open>Ok\<close> shape is tried first, then the \<open>Err\<close> shape.\<close>

definition Response_from_value :: "(string \<Rightarrow> ulid option) \<Rightarrow> json \<Rightarrow> Response option" where
  "Response_from_value ulid_parse v =
     (case do {
        sv \<leftarrow> req_field json_to_u32 v ''schema_version'';
        rid \<leftarrow> req_field (json_to_ulid ulid_parse) v ''request_id'';
        res \<leftarrow> req_field Some v ''result'';
        blob \<leftarrow> opt_field BlobRef_from_value v ''blob'';
        Some (RespOk sv rid res blob) } of
      Some r \<Rightarrow> Some r
    | None \<Rightarrow> do {
        sv \<leftarrow> req_field json_to_u32 v ''schema_version'';
        rid \<leftarrow> req_field (json_to_ulid ulid_parse) v ''request_id'';
        e \<leftarrow> req_field ErrorBody_from_value v ''error'';
        Some (RespErr sv rid e) })"

section \<open>The strict parser\<close>

datatype bad_request = NotJson | NotAnObject | WrongShape

datatype ParseRequestError =
    PreIncompatibleSchema "u32 option"
  | PreBadRequest bad_request

definition check_schema_version :: "(string \<times> json) list \<Rightarrow> ParseRequestError + unit" where
  "check_schema_version obj =
     (case map_of obj ''schema_version'' of
        None \<Rightarrow> Inl (PreIncompatibleSchema None)
      | Some sv \<Rightarrow>
          (case json_as_u64 sv of
             None \<Rightarrow> Inl (PreIncompatibleSchema None)
           | Some n \<Rightarrow>
               if n \<noteq> ucast SCHEMA_VERSION
               then Inl (PreIncompatibleSchema (if unat n < 2 ^ 32 then Some (ucast n) else None))
               else Inr ()))"

definition parse_request_strict ::
  "('bytes \<Rightarrow> json option) \<Rightarrow> (string \<Rightarrow> ulid option) \<Rightarrow> 'bytes \<Rightarrow> ParseRequestError + Request" where
  "parse_request_strict from_slice ulid_parse bytes =
     try_bind (ok_or (from_slice bytes) (PreBadRequest NotJson)) (\<lambda>v.
     try_bind (ok_or (json_as_object v) (PreBadRequest NotAnObject)) (\<lambda>obj.
     try_bind (check_schema_version obj) (\<lambda>_.
       ok_or (Request_from_value ulid_parse v) (PreBadRequest WrongShape))))"

section \<open>Building requests\<close>

record CallOpts =
  co_priority :: Priority
  co_deadline_ms :: "u64 option"
  co_trace_id :: "string option"
  co_parent_span_id :: "string option"
  co_request_id :: "ulid option"

definition DEFAULT_DEADLINE_MS :: u64 where
  "DEFAULT_DEADLINE_MS = 5000"

definition CallOpts_default :: CallOpts where
  "CallOpts_default = \<lparr>co_priority = Interactive, co_deadline_ms = Some DEFAULT_DEADLINE_MS,
     co_trace_id = None, co_parent_span_id = None, co_request_id = None\<rparr>"

text \<open>
  \<open>client.rs\<close>: \<open>fresh_ulid\<close> is \<open>Ulid::new()\<close>, \<open>ambient\<close> the trace id of the active span, and
  \<open>fresh_trace\<close> the one \<open>TraceId::default()\<close> mints.
\<close>

definition build_request ::
  "ulid \<Rightarrow> string option \<Rightarrow> string \<Rightarrow> string \<Rightarrow> json \<Rightarrow> CallOpts \<Rightarrow> Request" where
  "build_request fresh_ulid ambient fresh_trace meth params opts =
     \<lparr>schema_version = SCHEMA_VERSION,
      request_id = (case co_request_id opts of Some i \<Rightarrow> i | None \<Rightarrow> fresh_ulid),
      trace_id = Some (case co_trace_id opts of Some t \<Rightarrow> t
                       | None \<Rightarrow> (case ambient of Some t \<Rightarrow> t | None \<Rightarrow> fresh_trace)),
      parent_span_id = co_parent_span_id opts,
      deadline_ms = co_deadline_ms opts,
      priority = co_priority opts,
      req_method = meth,
      req_params = params\<rparr>"

text \<open>\<open>blocking.rs\<close>: the trace id is passed through, not minted.\<close>

definition blocking_build_request ::
  "ulid \<Rightarrow> string \<Rightarrow> json \<Rightarrow> Priority \<Rightarrow> u64 option \<Rightarrow> ulid option \<Rightarrow> string option
   \<Rightarrow> string option \<Rightarrow> Request" where
  "blocking_build_request fresh_ulid meth params pr dl rid tid span =
     \<lparr>schema_version = SCHEMA_VERSION,
      request_id = (case rid of Some i \<Rightarrow> i | None \<Rightarrow> fresh_ulid),
      trace_id = tid, parent_span_id = span, deadline_ms = dl, priority = pr,
      req_method = meth, req_params = params\<rparr>"

section \<open>Streaming events\<close>

record Event =
  ev_schema_version :: u32
  ev_request_id :: ulid
  ev_kind :: string
  ev_params :: json

definition KIND_CLOSED :: string where
  "KIND_CLOSED = ''closed''"

definition Event_closed :: "ulid \<Rightarrow> Event" where
  "Event_closed rid = \<lparr>ev_schema_version = SCHEMA_VERSION, ev_request_id = rid,
     ev_kind = KIND_CLOSED, ev_params = JObject []\<rparr>"

definition is_closed :: "Event \<Rightarrow> bool" where
  "is_closed e \<longleftrightarrow> ev_kind e = KIND_CLOSED"

section \<open>Lemmas\<close>

lemma json_to_priority_str [simp]: "json_to_priority (JString (Priority_as_str p)) = Some p"
  by (simp add: json_to_priority_def prio.from_as_str)

lemma json_to_error_code_str [simp]: "json_to_error_code (JString (ErrorCode_as_str c)) = Some c"
  by (simp add: json_to_error_code_def errcode.from_as_str)

lemma json_to_ulid_str:
  "ulid_parse (ulid_str i) = Some i \<Longrightarrow> json_to_ulid ulid_parse (JString (ulid_str i)) = Some i"
  by (simp add: json_to_ulid_def)

lemma Request_value_roundtrip:
  assumes "ulid_parse (ulid_str (request_id r)) = Some (request_id r)"
  shows "Request_from_value ulid_parse (Request_to_value ulid_str r) = Some r"
proof -
  let ?v = "Request_to_value ulid_str r"
  have 1: "req_field json_to_u32 ?v ''schema_version'' = Some (schema_version r)"
    by (simp add: req_field_def Request_to_value_def)
  have 2: "req_field (json_to_ulid ulid_parse) ?v ''request_id'' = Some (request_id r)"
    by (simp add: req_field_def Request_to_value_def json_to_ulid_str assms)
  have 3: "opt_field json_as_str ?v ''trace_id'' = Some (trace_id r)"
    by (rule opt_field_ok [where f = JString])
      (auto simp: Request_to_value_def map_add_def split: option.splits)
  have 4: "opt_field json_as_str ?v ''parent_span_id'' = Some (parent_span_id r)"
    by (rule opt_field_ok [where f = JString])
      (auto simp: Request_to_value_def map_add_def split: option.splits)
  have 5: "opt_field json_as_u64 ?v ''deadline_ms'' = Some (deadline_ms r)"
    by (rule opt_field_ok [where f = json_u64])
      (auto simp: Request_to_value_def map_add_def json_u64_def split: option.splits)
  have 6: "req_field json_to_priority ?v ''priority'' = Some (priority r)"
    by (simp add: req_field_def Request_to_value_def map_add_def)
  have 7: "req_field json_as_str ?v ''method'' = Some (req_method r)"
    by (simp add: req_field_def Request_to_value_def map_add_def)
  have 8: "req_field Some ?v ''params'' = Some (req_params r)"
    by (simp add: req_field_def Request_to_value_def map_add_def)
  show ?thesis
    by (simp add: Request_from_value_def 1 2 3 4 5 6 7 8)
qed

lemma BlobRef_value_roundtrip [simp]: "BlobRef_from_value (BlobRef_to_value b) = Some b"
  by (cases b; cases "blob_kind b")
    (simp add: BlobRef_from_value_def BlobRef_to_value_def req_field_def json_to_blob_kind_def)

lemma BlobRef_not_null [simp]: "BlobRef_to_value b \<noteq> JNull"
  by (simp add: BlobRef_to_value_def)

lemma ErrorBody_value_roundtrip [simp]: "ErrorBody_from_value (ErrorBody_to_value e) = Some e"
proof -
  let ?v = "ErrorBody_to_value e"
  have 1: "req_field json_to_error_code ?v ''code'' = Some (code e)"
    by (simp add: req_field_def ErrorBody_to_value_def)
  have 2: "req_field json_as_str ?v ''message'' = Some (message e)"
    by (simp add: req_field_def ErrorBody_to_value_def)
  have 3: "opt_field json_as_u64 ?v ''retry_after_ms'' = Some (retry_after_ms e)"
    by (rule opt_field_ok [where f = json_u64])
      (auto simp: ErrorBody_to_value_def map_add_def json_u64_def split: option.splits)
  have 4: "json_get ?v ''details'' = Some (details e)"
    by (simp add: ErrorBody_to_value_def map_add_def)
  show ?thesis
    by (simp add: ErrorBody_from_value_def 1 2 3 4)
qed

lemma Response_value_roundtrip:
  assumes "ulid_parse (ulid_str (resp_id r)) = Some (resp_id r)"
  shows "Response_from_value ulid_parse (Response_to_value ulid_str r) = Some r"
proof (cases r)
  case (RespOk sv rid res blob)
  let ?v = "Response_to_value ulid_str r"
  have "opt_field BlobRef_from_value ?v ''blob'' = Some blob"
    by (rule opt_field_ok [where f = BlobRef_to_value])
      (auto simp: RespOk map_add_def BlobRef_not_null split: option.splits)
  with RespOk assms show ?thesis
    by (simp add: Response_from_value_def req_field_def json_to_ulid_def)
next
  case (RespErr sv rid e)
  with assms show ?thesis
    by (simp add: Response_from_value_def req_field_def json_to_ulid_def)
qed

lemma check_schema_version_iff:
  "check_schema_version obj = Inr () \<longleftrightarrow>
   Option.bind (map_of obj ''schema_version'') json_as_u64 = Some (ucast SCHEMA_VERSION)"
  by (auto simp: check_schema_version_def split: option.splits)

section \<open>Properties\<close>

lemma parse_strict_schema:
  assumes "parse_request_strict from_slice ulid_parse bytes = Inr r"
  shows "schema_version r = SCHEMA_VERSION"
proof -
  from assms obtain v obj where v: "json_as_object v = Some obj"
    and c: "check_schema_version obj = Inr ()" and r: "Request_from_value ulid_parse v = Some r"
    by (auto simp: parse_request_strict_def try_bind_Inr_iff)
  from v have obj: "v = JObject obj" by (cases v) auto
  from c obtain sv where sv: "map_of obj ''schema_version'' = Some sv"
    and n: "json_as_u64 sv = Some (ucast SCHEMA_VERSION)"
    by (auto simp: check_schema_version_iff bind_eq_Some_conv)
  from r obj sv have "json_to_u32 sv = Some (schema_version r)"
    by (auto simp: Request_from_value_def bind_eq_Some_conv req_field_def)
  with n show ?thesis
    by (simp add: json_to_u32_def SCHEMA_VERSION_def)
qed

text \<open>
  The strict parser admits version 1 only: a JSON object whose \<open>schema_version\<close> is
  missing, not a non-negative integer, or another number is answered with
  \<open>IncompatibleSchema\<close> whatever its other fields are, and every request it does return
  carries version 1.
\<close>

theorem parse_strict_only_v1:
  assumes "from_slice bytes = Some (JObject obj)"
  shows "(Option.bind (map_of obj ''schema_version'') json_as_u64 \<noteq> Some 1 \<longrightarrow>
            (\<exists>got. parse_request_strict from_slice ulid_parse bytes = Inl (PreIncompatibleSchema got)))
       \<and> (\<forall>r. parse_request_strict from_slice ulid_parse bytes = Inr r \<longrightarrow> schema_version r = 1)"
proof (intro conjI impI allI)
  assume "Option.bind (map_of obj ''schema_version'') json_as_u64 \<noteq> Some 1"
  then show "\<exists>got. parse_request_strict from_slice ulid_parse bytes = Inl (PreIncompatibleSchema got)"
    using assms
    by (auto simp: parse_request_strict_def check_schema_version_def SCHEMA_VERSION_def
        split: option.splits)
next
  fix r
  assume "parse_request_strict from_slice ulid_parse bytes = Inr r"
  from parse_strict_schema [OF this] show "schema_version r = 1"
    by (simp add: SCHEMA_VERSION_def)
qed

theorem parse_strict_only_v1_witness:
  "\<exists>got. parse_request_strict (\<lambda>_ :: unit. Some (JObject [(''schema_version'', json_u32 2)]))
           (\<lambda>_. None) () = Inl (PreIncompatibleSchema got)"
  using parse_strict_only_v1 [of "\<lambda>_ :: unit. Some (JObject [(''schema_version'', json_u32 2)])" "()"
      "[(''schema_version'', json_u32 2)]" "\<lambda>_. None"]
  by (simp add: json_u32_def)

text \<open>
  A request serialised by the client and parsed by the strict parser is the same
  request, optional fields included, when it carries version 1 and its ULID text parses
  back to its id.
\<close>

theorem request_wire_roundtrip:
  assumes "schema_version r = SCHEMA_VERSION"
    and "ulid_parse (ulid_str (request_id r)) = Some (request_id r)"
    and "from_slice bytes = Some (Request_to_value ulid_str r)"
  shows "parse_request_strict from_slice ulid_parse bytes = Inr r"
  using assms Request_value_roundtrip [of ulid_parse ulid_str r, OF assms(2)]
  by (simp add: parse_request_strict_def check_schema_version_def Request_to_value_def
      json_u32_def SCHEMA_VERSION_def)

theorem request_wire_roundtrip_witness:
  "let r = blocking_build_request 7 ''agt.list'' (JObject []) Batch None None None (Some ''ab'') in
   parse_request_strict (\<lambda>_ :: unit. Some (Request_to_value (\<lambda>_. ''7'') r)) (\<lambda>_. Some 7) () = Inr r"
  unfolding Let_def
  by (rule request_wire_roundtrip [where ulid_str = "\<lambda>_. ''7''"])
    (simp_all add: blocking_build_request_def)

text \<open>
  The untagged response envelope is unambiguous: what \<open>Ok\<close> or \<open>Err\<close> serialises to
  deserialises to the same variant with the same fields, blob and retry hint included.
\<close>

theorem response_wire_roundtrip:
  assumes "ulid_parse (ulid_str (resp_id r)) = Some (resp_id r)"
  shows "Response_from_value ulid_parse (Response_to_value ulid_str r) = Some r"
  using assms by (rule Response_value_roundtrip)

theorem response_wire_roundtrip_witness:
  "Response_from_value (\<lambda>_. Some 9) (Response_to_value (\<lambda>_. ''9'')
     (RespErr 1 9 \<lparr>code = Overloaded, message = ''busy'', retry_after_ms = Some 200, details = JNull\<rparr>)) =
   Some (RespErr 1 9 \<lparr>code = Overloaded, message = ''busy'', retry_after_ms = Some 200, details = JNull\<rparr>)"
  by (rule response_wire_roundtrip) simp

end
