(* ===== verification/Ipc_Cancel.thy ===== *)
theory Ipc_Cancel
  imports Ipc_Envelope
begin

text \<open>
  The cancellation registry (\<open>crates/sy-ipc/src/cancel.rs\<close>): a shared map from request id
  to a cancellation token and an epoch. Tokens are shared objects, so the model keeps a
  store of them: a token is an index, and \<open>cancelled\<close> records which have been cancelled. A
  guard is the value \<open>register\<close> returns; dropping it removes the mapping when the epochs
  agree.
\<close>

type_synonym token = nat

record RegEntry =
  entry_token :: token
  entry_epoch :: u64

record CancelRegistry =
  inner :: "ulid \<Rightarrow> RegEntry option"
  cancelled :: "token \<Rightarrow> bool"
  next_token :: token

record CancelGuard =
  guard_id :: ulid
  guard_epoch :: u64
  guard_token :: token

definition new_registry :: CancelRegistry where
  "new_registry = \<lparr>inner = Map.empty, cancelled = (\<lambda>_. False), next_token = 0\<rparr>"

definition register :: "ulid \<Rightarrow> CancelRegistry \<Rightarrow> CancelGuard \<times> CancelRegistry" where
  "register i r =
     (let t = next_token r;
          epoch = (case inner r i of Some e \<Rightarrow> entry_epoch e + 1 | None \<Rightarrow> 0)
      in (\<lparr>guard_id = i, guard_epoch = epoch, guard_token = t\<rparr>,
          r\<lparr>inner := (inner r)(i \<mapsto> \<lparr>entry_token = t, entry_epoch = epoch\<rparr>),
            next_token := Suc t\<rparr>))"

definition cancel :: "ulid \<Rightarrow> CancelRegistry \<Rightarrow> bool \<times> CancelRegistry" where
  "cancel i r =
     (case inner r i of
        Some e \<Rightarrow> (True, r\<lparr>cancelled := (cancelled r)(entry_token e := True)\<rparr>)
      | None \<Rightarrow> (False, r))"

definition drop_guard :: "CancelGuard \<Rightarrow> CancelRegistry \<Rightarrow> CancelRegistry" where
  "drop_guard g r =
     (case inner r (guard_id g) of
        Some e \<Rightarrow> if entry_epoch e = guard_epoch g
                  then r\<lparr>inner := (inner r)(guard_id g := None)\<rparr> else r
      | None \<Rightarrow> r)"

definition is_cancelled :: "token \<Rightarrow> CancelRegistry \<Rightarrow> bool" where
  "is_cancelled t r = cancelled r t"

section \<open>Running a worker under a guard\<close>

datatype 'r Dispatched = Completed 'r | WasCancelled

text \<open>
  One poll of the \<open>biased\<close> select: the environment has run (other tasks may have cancelled,
  registered or dropped), the cancellation branch is polled first, then the worker; a
  worker that finishes is still reported as cancelled when the token is cancelled by then.
  \<open>None\<close> means that the given polls were not enough.
\<close>

type_synonym 'r poll = "(CancelRegistry \<Rightarrow> CancelRegistry) \<times> (CancelRegistry \<Rightarrow> 'r option \<times> CancelRegistry)"

fun dispatch_polls ::
  "token \<Rightarrow> 'r poll list \<Rightarrow> CancelRegistry \<Rightarrow> 'r Dispatched option \<times> CancelRegistry" where
  "dispatch_polls t [] r = (None, r)"
| "dispatch_polls t ((env, worker) # ps) r =
     (let r1 = env r in
      if is_cancelled t r1 then (Some WasCancelled, r1)
      else (case worker r1 of
              (Some x, r2) \<Rightarrow> (Some (if is_cancelled t r2 then WasCancelled else Completed x), r2)
            | (None, r2) \<Rightarrow> dispatch_polls t ps r2))"

definition dispatch_with_cancel ::
  "CancelGuard \<Rightarrow> 'r poll list \<Rightarrow> CancelRegistry \<Rightarrow> 'r Dispatched option \<times> CancelRegistry" where
  "dispatch_with_cancel g ps r =
     (case dispatch_polls (guard_token g) ps r of
        (None, r1) \<Rightarrow> (None, r1)
      | (Some d, r1) \<Rightarrow> (Some d, drop_guard g r1))"

section \<open>Well-formedness\<close>

text \<open>Tokens in the map were handed out, and different ids hold different tokens.\<close>

definition reg_wf :: "CancelRegistry \<Rightarrow> bool" where
  "reg_wf r \<longleftrightarrow>
     (\<forall>i e. inner r i = Some e \<longrightarrow> entry_token e < next_token r) \<and>
     (\<forall>t. cancelled r t \<longrightarrow> t < next_token r) \<and>
     (\<forall>i j e f. inner r i = Some e \<longrightarrow> inner r j = Some f \<longrightarrow> entry_token e = entry_token f \<longrightarrow> i = j)"

lemma new_registry_wf [simp]: "reg_wf new_registry"
  by (simp add: reg_wf_def new_registry_def)

lemma register_wf: "reg_wf r \<Longrightarrow> reg_wf (snd (register i r))"
  by (fastforce simp: reg_wf_def register_def Let_def less_Suc_eq split: if_splits)

lemma cancel_wf: "reg_wf r \<Longrightarrow> reg_wf (snd (cancel i r))"
  by (auto simp: reg_wf_def cancel_def split: option.splits)

lemma drop_guard_wf: "reg_wf r \<Longrightarrow> reg_wf (drop_guard g r)"
  by (auto simp: reg_wf_def drop_guard_def split: option.splits)

lemma register_lookup [store_simps]:
  "inner (snd (register i r)) j =
     (if j = i then Some \<lparr>entry_token = guard_token (fst (register i r)),
                          entry_epoch = guard_epoch (fst (register i r))\<rparr> else inner r j)"
  by (simp add: register_def Let_def)

lemma register_frame [store_simps]:
  "cancelled (snd (register i r)) = cancelled r"
  "guard_id (fst (register i r)) = i"
  "guard_token (fst (register i r)) = next_token r"
  by (simp_all add: register_def Let_def)

lemma cancel_lookup [store_simps]: "inner (snd (cancel i r)) = inner r"
  by (simp add: cancel_def split: option.splits)

lemma drop_guard_lookup [store_simps]:
  "inner (drop_guard g r) j =
     (if j = guard_id g \<and> map_option entry_epoch (inner r j) = Some (guard_epoch g) then None
      else inner r j)"
  by (auto simp: drop_guard_def split: option.splits)

lemma dispatch_completed_not_cancelled:
  "dispatch_polls t ps r = (Some (Completed x), r') \<Longrightarrow> \<not> is_cancelled t r'"
  by (induction t ps r rule: dispatch_polls.induct)
    (auto simp: Let_def split: if_splits prod.splits option.splits)

text \<open>A guard is current when the map still holds its own entry.\<close>

definition current :: "CancelGuard \<Rightarrow> CancelRegistry \<Rightarrow> bool" where
  "current g r \<longleftrightarrow>
     inner r (guard_id g) = Some \<lparr>entry_token = guard_token g, entry_epoch = guard_epoch g\<rparr>"

lemma register_current: "current (fst (register i r)) (snd (register i r))"
  by (simp add: current_def register_def Let_def)

lemma cancel_current:
  "current g r \<Longrightarrow> fst (cancel (guard_id g) r) \<and> is_cancelled (guard_token g) (snd (cancel (guard_id g) r))"
  by (simp add: current_def cancel_def is_cancelled_def)

lemma current_other: "current g r \<Longrightarrow> i \<noteq> guard_id g \<Longrightarrow>
    current g (snd (register i r)) \<and> current g (snd (cancel i r))"
  by (simp add: current_def store_simps)

section \<open>The registry with its live guards\<close>

text \<open>
  Interleavings of the server: a state is the registry with the guards that are still
  alive; a step registers a request, cancels one, or drops a live guard.
\<close>

inductive reg_step :: "CancelRegistry \<times> CancelGuard list \<Rightarrow> CancelRegistry \<times> CancelGuard list \<Rightarrow> bool" where
  step_register: "register i r = (g, r') \<Longrightarrow> reg_step (r, gs) (r', g # gs)"
| step_cancel: "cancel i r = (b, r') \<Longrightarrow> reg_step (r, gs) (r', gs)"
| step_drop: "g \<in> set gs \<Longrightarrow> reg_step (r, gs) (drop_guard g r, remove1 g gs)"

inductive reg_reachable :: "CancelRegistry \<times> CancelGuard list \<Rightarrow> bool" where
  reach_init: "reg_reachable (new_registry, [])"
| reach_step: "reg_reachable s \<Longrightarrow> reg_step s s' \<Longrightarrow> reg_reachable s'"

definition reg_inv :: "CancelRegistry \<times> CancelGuard list \<Rightarrow> bool" where
  "reg_inv s \<longleftrightarrow> reg_wf (fst s) \<and>
     (\<forall>i e. inner (fst s) i = Some e \<longrightarrow>
        (\<exists>g \<in> set (snd s). guard_id g = i \<and> guard_token g = entry_token e \<and> guard_epoch g = entry_epoch e))"

lemma reg_inv_register: "reg_inv (r, gs) \<Longrightarrow> register i r = (g, r') \<Longrightarrow> reg_inv (r', g # gs)"
  using register_wf [of r i] register_lookup [of i r] register_frame(2) [of i r]
  by (auto simp: reg_inv_def split: if_splits)

lemma reg_inv_cancel: "reg_inv (r, gs) \<Longrightarrow> cancel i r = (b, r') \<Longrightarrow> reg_inv (r', gs)"
  using cancel_wf [of r i] cancel_lookup [of i r] by (auto simp: reg_inv_def)

lemma reg_inv_drop:
  assumes "reg_inv (r, gs)" "g \<in> set gs"
  shows "reg_inv (drop_guard g r, remove1 g gs)"
  unfolding reg_inv_def fst_conv snd_conv
proof (intro conjI allI impI)
  show "reg_wf (drop_guard g r)"
    using assms by (simp add: reg_inv_def drop_guard_wf)
  fix i e
  assume e: "inner (drop_guard g r) i = Some e"
  then have old: "inner r i = Some e"
    and keep: "i = guard_id g \<Longrightarrow> entry_epoch e \<noteq> guard_epoch g"
    by (auto simp: drop_guard_lookup split: if_splits)
  from assms(1) old obtain h where h: "h \<in> set gs" "guard_id h = i"
    "guard_token h = entry_token e" "guard_epoch h = entry_epoch e"
    by (auto simp: reg_inv_def)
  then have "h \<noteq> g"
    using keep by auto
  with h(1) have "h \<in> set (remove1 g gs)"
    by simp
  with h show "\<exists>h \<in> set (remove1 g gs). guard_id h = i \<and> guard_token h = entry_token e \<and>
      guard_epoch h = entry_epoch e"
    by blast
qed

lemma reg_step_inv: "reg_step s s' \<Longrightarrow> reg_inv s \<Longrightarrow> reg_inv s'"
  by (induction rule: reg_step.induct) (auto intro: reg_inv_register reg_inv_cancel reg_inv_drop)

lemma reg_reachable_inv: "reg_reachable s \<Longrightarrow> reg_inv s"
proof (induction rule: reg_reachable.induct)
  case reach_init
  show ?case by (simp add: reg_inv_def) (simp add: new_registry_def)
next
  case (reach_step s s')
  then show ?case by (blast intro: reg_step_inv)
qed

section \<open>Properties\<close>



text \<open>
  No mapping outlives its guard: in every interleaving of registrations, cancellations
  and guard drops, each entry of the map belongs to a guard that is still alive, so the map
  is empty when no request is in flight.
\<close>

theorem registry_no_leak:
  assumes "reg_reachable (r, gs)"
  shows "dom (inner r) \<subseteq> guard_id ` set gs \<and> (gs = [] \<longrightarrow> inner r = Map.empty)"
  using reg_reachable_inv [OF assms] by (fastforce simp: reg_inv_def)

theorem registry_no_leak_witness:
  "reg_reachable (drop_guard (fst (register 5 new_registry)) (snd (register 5 new_registry)), []) \<and>
   inner (drop_guard (fst (register 5 new_registry)) (snd (register 5 new_registry))) = Map.empty"
proof -
  let ?g = "fst (register 5 new_registry)" and ?r = "snd (register 5 new_registry)"
  have "reg_reachable (?r, [?g])"
    by (rule reach_step [OF reach_init]) (rule step_register, simp)
  from reach_step [OF this step_drop [of ?g "[?g]" ?r]]
  have h: "reg_reachable (drop_guard ?g ?r, [])" by simp
  show ?thesis
    using h registry_no_leak [OF h] by simp
qed

text \<open>
  A re-registration is protected while the older entry is in place: after registering
  the same id twice, dropping the first guard changes nothing, and the second request can
  still be cancelled (the epochs differ even when the counter wraps).
\<close>

theorem stale_drop_harmless:
  assumes "register i r = (g1, r1)" "register i r1 = (g2, r2)"
  shows "drop_guard g1 r2 = r2 \<and> current g2 (drop_guard g1 r2)"
  using assms by (auto simp: register_def drop_guard_def current_def Let_def)

theorem stale_drop_harmless_witness:
  "let (g1, r1) = register 5 new_registry; (g2, r2) = register 5 r1 in
   drop_guard g1 r2 = r2 \<and> current g2 (drop_guard g1 r2)"
proof -
  obtain g1 r1 where 1: "register 5 new_registry = (g1, r1)" by fastforce
  obtain g2 r2 where 2: "register 5 r1 = (g2, r2)" by fastforce
  show ?thesis
    using stale_drop_harmless [OF 1 2] by (auto simp: 1 2)
qed

text \<open>
  The protection ends when the newer guard is dropped first. The epoch of an id starts
  again at zero once its entry is gone, so a guard left over from the first registration
  has the epoch of a third one, and dropping it evicts the third request's live mapping:
  a cancel for that request is then answered \<open>false\<close> and does not reach its token.
\<close>

theorem stale_guard_evicts_live_entry:
  assumes "inner r i = None" "\<not> cancelled r (Suc (Suc (next_token r)))"
    and "register i r = (g1, r1)" "register i r1 = (g2, r2)"
    and "register i (drop_guard g2 r2) = (g3, r3)"
  shows "current g3 r3 \<and> \<not> current g3 (drop_guard g1 r3) \<and>
    cancel i (drop_guard g1 r3) = (False, drop_guard g1 r3) \<and>
    \<not> is_cancelled (guard_token g3) (snd (cancel i (drop_guard g1 r3)))"
  using assms
  by (auto simp: register_def drop_guard_def current_def cancel_def is_cancelled_def Let_def)

theorem stale_guard_evicts_live_entry_witness:
  "let (g1, r1) = register 5 new_registry; (g2, r2) = register 5 r1;
       (g3, r3) = register 5 (drop_guard g2 r2) in
   current g3 r3 \<and> cancel 5 (drop_guard g1 r3) = (False, drop_guard g1 r3)"
proof -
  obtain g1 r1 where 1: "register 5 new_registry = (g1, r1)" by fastforce
  obtain g2 r2 where 2: "register 5 r1 = (g2, r2)" by fastforce
  obtain g3 r3 where 3: "register 5 (drop_guard g2 r2) = (g3, r3)" by fastforce
  have "inner new_registry 5 = None" "\<not> cancelled new_registry (Suc (Suc (next_token new_registry)))"
    by (simp_all add: new_registry_def)
  from stale_guard_evicts_live_entry [OF this 1 2 3] show ?thesis
    by (simp add: 1 2 3)
qed

end
