(* ===== verification/Ipc_Frame.thy ===== *)
theory Ipc_Frame
  imports Core_Vocab
begin

text \<open>
  Framing of IPC v1 (\<open>crates/sy-ipc/src/blocking.rs\<close>, \<open>codec.rs\<close>, \<open>stream.rs\<close>): a 4-byte
  big-endian length and that many bytes of JSON. The synchronous helpers are modelled on
  byte lists (what was written, what is left to read). The asynchronous codecs wrap
  \<open>tokio_util\<close>'s length-delimited codec and \<open>serde_json\<close>, which are parameters; the
  blocking framing is an instance of the frame interface.
\<close>

section \<open>Blocking frames\<close>

datatype io_error = InvalidData | UnexpectedEof

text \<open>\<open>write_frame\<close> appends to the writer; a payload longer than \<open>u32::MAX\<close> is refused.\<close>

definition write_frame :: "byte list \<Rightarrow> byte list \<Rightarrow> io_error + byte list" where
  "write_frame w payload =
     (if length payload < 2 ^ 32
      then Inr (w @ u32_to_be_bytes (of_nat (length payload)) @ payload)
      else Inl InvalidData)"

text \<open>\<open>read_exact\<close>: the next \<open>n\<close> bytes, or an end-of-file error.\<close>

definition read_exact :: "nat \<Rightarrow> byte list \<Rightarrow> io_error + byte list \<times> byte list" where
  "read_exact n r = (if n \<le> length r then Inr (take n r, drop n r) else Inl UnexpectedEof)"

definition read_frame :: "byte list \<Rightarrow> io_error + byte list \<times> byte list" where
  "read_frame r =
     try_bind (read_exact 4 r) (\<lambda>(header, r1).
       read_exact (unat (u32_from_be_bytes header)) r1)"

lemma read_exact_append: "length a = n \<Longrightarrow> read_exact n (a @ b) = Inr (a, b)"
  by (auto simp: read_exact_def)

lemma unat_of_nat_u32: "n < 2 ^ 32 \<Longrightarrow> unat (of_nat n :: u32) = n"
  by (simp add: unat_of_nat take_bit_nat_eq_self)

lemma read_frame_write_frame:
  assumes "write_frame [] p = Inr w"
  shows "read_frame (w @ rest) = Inr (p, rest)"
proof -
  from assms have len: "length p < 2 ^ 32"
    and w: "w = u32_to_be_bytes (of_nat (length p)) @ p"
    by (auto simp: write_frame_def split: if_splits)
  show ?thesis
    using len by (simp add: w read_frame_def read_exact_append u32_be_roundtrip unat_of_nat_u32)
qed

lemma read_frame_prefix:
  assumes "write_frame [] p = Inr (u @ v)" "v \<noteq> []"
  shows "read_frame u = Inl UnexpectedEof"
proof -
  from assms have len: "length p < 2 ^ 32"
    and w: "u @ v = u32_to_be_bytes (of_nat (length p)) @ p"
    by (auto simp: write_frame_def split: if_splits)
  show ?thesis
  proof (cases "length u < 4")
    case True
    then show ?thesis by (simp add: read_frame_def read_exact_def)
  next
    case False
    from w have "take 4 (u @ v) = u32_to_be_bytes (of_nat (length p))" by simp
    with False have h: "take 4 u = u32_to_be_bytes (of_nat (length p))" by simp
    from arg_cong [OF w, of length] assms(2) have "length (drop 4 u) < length p"
      using False by (cases v) auto
    with False h len show ?thesis
      by (simp add: read_frame_def read_exact_def u32_be_roundtrip unat_of_nat_u32)
  qed
qed

interpretation blk: frame_codec "write_frame []" "\<lambda>r. map_sum id Some (read_frame r)" "Inl UnexpectedEof"
proof unfold_locales
  show "map_sum id Some (read_frame (w @ rest)) = Inr (Some (p, rest))"
    if "write_frame [] p = Inr w" for p w rest
    using read_frame_write_frame [OF that] by simp
  show "map_sum id Some (read_frame u) = Inl UnexpectedEof"
    if "write_frame [] p = Inr (u @ v)" "v \<noteq> []" for p u v
    using read_frame_prefix [OF that] by simp
qed simp

section \<open>JSON over frames\<close>

text \<open>
  \<open>write_request\<close>, \<open>write_event\<close> and the readers: \<open>serde_json::to_vec\<close> and \<open>from_slice\<close> are
  parameters (\<open>to_vec\<close> may fail, and so may \<open>from_slice\<close>).
\<close>

definition write_json :: "('m \<Rightarrow> byte list option) \<Rightarrow> byte list \<Rightarrow> 'm \<Rightarrow> io_error + byte list" where
  "write_json to_vec w m =
     try_bind (ok_or (to_vec m) InvalidData) (\<lambda>bytes. write_frame w bytes)"

definition read_json :: "(byte list \<Rightarrow> 'm option) \<Rightarrow> byte list \<Rightarrow> io_error + 'm \<times> byte list" where
  "read_json from_slice r =
     try_bind (read_frame r) (\<lambda>(payload, rest).
       try_bind (ok_or (from_slice payload) InvalidData) (\<lambda>m. Inr (m, rest)))"

text \<open>
  The asynchronous codecs (\<open>RequestCodec\<close>, \<open>ResponseCodec\<close>, \<open>EventCodec\<close>) differ only in the
  message type. \<open>ld_encode\<close> and \<open>ld_decode\<close> are \<open>LengthDelimitedCodec\<close>'s operations; the
  first argument is the configured \<open>max_frame_length\<close> (\<open>None\<close>: the crate's default).
\<close>

type_synonym ld_encoder = "nat option \<Rightarrow> byte list \<Rightarrow> byte list \<Rightarrow> io_error + byte list"
type_synonym ld_decoder = "nat option \<Rightarrow> byte list \<Rightarrow> io_error + (byte list \<times> byte list) option"

definition encode_json ::
  "ld_encoder \<Rightarrow> ('m \<Rightarrow> byte list option) \<Rightarrow> nat option \<Rightarrow> 'm \<Rightarrow> byte list \<Rightarrow> io_error + byte list" where
  "encode_json ld_encode to_vec codec item dst =
     try_bind (ok_or (to_vec item) InvalidData) (\<lambda>bytes. ld_encode codec bytes dst)"

definition decode_json ::
  "ld_decoder \<Rightarrow> (byte list \<Rightarrow> 'm option) \<Rightarrow> nat option \<Rightarrow> byte list \<Rightarrow> io_error + ('m \<times> byte list) option" where
  "decode_json ld_decode from_slice codec src =
     try_bind (ld_decode codec src) (\<lambda>r.
       case r of
         None \<Rightarrow> Inr None
       | Some (frame, rest) \<Rightarrow>
           try_bind (ok_or (from_slice frame) InvalidData) (\<lambda>item. Inr (Some (item, rest))))"

definition with_max_frame_length :: "nat \<Rightarrow> nat option" where
  "with_max_frame_length n = Some n"

definition default_codec :: "nat option" where
  "default_codec = None"

lemma read_json_write_json:
  assumes "write_json to_vec [] m = Inr w" "\<And>b. to_vec m = Some b \<Longrightarrow> from_slice b = Some m"
  shows "read_json from_slice (w @ rest) = Inr (m, rest)"
  using assms
  by (auto simp: write_json_def read_json_def try_bind_Inr_iff read_frame_write_frame)

lemma decode_encode_json:
  assumes "encode_json ld_encode to_vec codec m [] = Inr w"
    and "\<And>b. to_vec m = Some b \<Longrightarrow> from_slice b = Some m"
    and "\<And>b w rest. ld_encode codec b [] = Inr w \<Longrightarrow> ld_decode codec (w @ rest) = Inr (Some (b, rest))"
  shows "decode_json ld_decode from_slice codec (w @ rest) = Inr (Some (m, rest))"
  using assms by (auto simp: encode_json_def decode_json_def try_bind_Inr_iff)

section \<open>Properties\<close>

text \<open>
  C31. Any sequence of payloads written by \<open>write_frame\<close> onto one connection is read back by
  repeated \<open>read_frame\<close> as the same sequence, with the bytes that follow left in place.
\<close>

theorem frames_stream_roundtrip:
  assumes "enc_all (write_frame []) ps = Inr ws"
  shows "dec_n (\<lambda>r. map_sum id Some (read_frame r)) (length ps) (ws @ rest) = (ps, rest)"
  using assms by (rule blk.stream_roundtrip)

theorem frames_stream_roundtrip_witness:
  "enc_all (write_frame []) [[7], []] = Inr [0, 0, 0, 1, 7, 0, 0, 0, 0] \<and>
   dec_n (\<lambda>r. map_sum id Some (read_frame r)) (Suc (Suc 0)) [0, 0, 0, 1, 7, 0, 0, 0, 0, 9] = ([[7], []], [9])"
proof -
  have h: "enc_all (write_frame []) [[7], []] = Inr [0, 0, 0, 1, 7, 0, 0, 0, 0]"
    by (simp add: write_frame_def u32_to_be_bytes_def le_digits_4)
  show ?thesis
    using h frames_stream_roundtrip [OF h, of "[9]"] by simp
qed

text \<open>
  A reader that stops inside a frame reports an end of file and nothing else: a strict
  prefix of a written frame never yields a payload, and no frame is a prefix of another.
\<close>

theorem frames_truncation_detected:
  assumes "write_frame [] p = Inr w"
  shows "(\<forall>u v. w = u @ v \<longrightarrow> v \<noteq> [] \<longrightarrow> read_frame u = Inl UnexpectedEof)
    \<and> (\<forall>q v. write_frame [] q = Inr (w @ v) \<longrightarrow> v = [] \<and> p = q)"
  using assms read_frame_prefix blk.prefix_free by blast

theorem frames_truncation_detected_witness:
  "write_frame [] [7, 8] = Inr [0, 0, 0, 2, 7, 8] \<and> read_frame [0, 0, 0, 2, 7] = Inl UnexpectedEof"
proof -
  have h: "write_frame [] [7, 8] = Inr [0, 0, 0, 2, 7, 8]"
    by (simp add: write_frame_def u32_to_be_bytes_def le_digits_4)
  have "[0, 0, 0, 2, 7, 8] = [0, 0, 0, 2, 7] @ [8 :: byte]" by simp
  with h frames_truncation_detected [OF h] show ?thesis by blast
qed

text \<open>
  The asynchronous and the blocking side speak the same bytes: with a length-delimited
  encoder that writes the 4-byte big-endian length and the payload (its documented
  behaviour for this configuration), a message encoded by the codec is what the blocking
  reader decodes, and the rest of the stream is untouched.
\<close>

theorem codec_blocking_interop:
  assumes enc: "encode_json ld_encode to_vec codec m [] = Inr w"
    and serde: "\<And>b. to_vec m = Some b \<Longrightarrow> from_slice b = Some m"
    and ld: "\<And>b w. ld_encode codec b [] = Inr w \<Longrightarrow>
               length b < 2 ^ 32 \<and> w = u32_to_be_bytes (of_nat (length b)) @ b"
  shows "read_json from_slice (w @ rest) = Inr (m, rest)"
proof -
  from enc obtain b where b: "to_vec m = Some b" "ld_encode codec b [] = Inr w"
    by (auto simp: encode_json_def try_bind_Inr_iff)
  from ld [OF b(2)] have "write_json to_vec [] m = Inr w"
    using b(1) by (simp add: write_json_def write_frame_def)
  then show ?thesis
    using serde by (rule read_json_write_json)
qed

theorem codec_blocking_interop_witness:
  "read_json (\<lambda>b. if b = [5, 6] then Some True else None) ([0, 0, 0, 2, 5, 6] @ [9]) = Inr (True, [9])"
proof -
  let ?enc = "\<lambda>(c :: nat option) b dst. write_frame dst b"
  have h: "encode_json ?enc (\<lambda>_. Some [5, 6]) None True [] = Inr [0, 0, 0, 2, 5, 6]"
    by (simp add: encode_json_def write_frame_def u32_to_be_bytes_def le_digits_4)
  show ?thesis
    by (rule codec_blocking_interop [OF h]) (auto simp: write_frame_def split: if_splits)
qed

end
