(* ===== verification/Ipc_Server.thy ===== *)
theory Ipc_Server
  imports Ipc_Cancel Ipc_Frame "HOL-Library.Char_ord" "HOL-Library.List_Lexorder"
begin

text \<open>
  The server side of IPC v1: the reserved methods every daemon answers
  (\<open>crates/sy-ipc/src/reserved.rs\<close>), the peer admission gate and the connection loop
  (\<open>server.rs\<close>), and the endpoint table (\<open>paths.rs\<close>). Handlers thread a state; the request
  stream is the list of decode results the framed reader yields.
\<close>

section \<open>Reserved methods\<close>

definition PROTOCOL_VERSION :: u32 where
  "PROTOCOL_VERSION = 1"

record BuildInfo =
  build_name :: string
  build_version :: string
  git_sha :: string

record Capabilities =
  streaming :: bool
  priority_classes :: "Priority list"

definition Capabilities_baseline :: Capabilities where
  "Capabilities_baseline = \<lparr>streaming = False, priority_classes = Priority_ALL\<rparr>"

datatype HealthState = HsReady | HsDegraded | HsStarting | HsFailed

fun HealthState_str :: "HealthState \<Rightarrow> string" where
  "HealthState_str HsReady = ''ready''"
| "HealthState_str HsDegraded = ''degraded''"
| "HealthState_str HsStarting = ''starting''"
| "HealthState_str HsFailed = ''failed''"

record HealthSnapshot =
  hs_state :: HealthState
  status_line :: string
  queue_depth :: u32
  warm_models :: "string list"

record SystemMethods =
  sm_build_info :: BuildInfo
  sm_health_fn :: "unit \<Rightarrow> HealthSnapshot"
  sm_capabilities :: Capabilities
  sm_daemon_methods :: "string list"

definition SYSTEM_METHODS :: "string list" where
  "SYSTEM_METHODS =
     [''system.describe'', ''system.health'', ''system.cancel'',
      ''system.mon.snapshot'', ''system.mon.subscribe'', ''system.mon.history'']"

definition describe_methods :: "SystemMethods \<Rightarrow> string list" where
  "describe_methods sm = remdups_adj (sort (SYSTEM_METHODS @ sm_daemon_methods sm))"

definition sys_ok :: "ulid \<Rightarrow> json \<Rightarrow> Response" where
  "sys_ok rid result = RespOk SCHEMA_VERSION rid result None"

definition err_response :: "ulid \<Rightarrow> ErrorCode \<Rightarrow> string \<Rightarrow> Response" where
  "err_response rid c msg =
     RespErr SCHEMA_VERSION rid \<lparr>code = c, message = msg, retry_after_ms = None, details = JNull\<rparr>"

definition Capabilities_to_value :: "Capabilities \<Rightarrow> json" where
  "Capabilities_to_value c = JObject
     [(''streaming'', JBool (streaming c)),
      (''priority_classes'', JArray (map (JString \<circ> Priority_as_str) (priority_classes c)))]"

definition BuildInfo_to_value :: "BuildInfo \<Rightarrow> json" where
  "BuildInfo_to_value b = JObject
     [(''name'', JString (build_name b)), (''version'', JString (build_version b)),
      (''git_sha'', JString (git_sha b))]"

definition HealthSnapshot_to_value :: "HealthSnapshot \<Rightarrow> json" where
  "HealthSnapshot_to_value h = JObject
     [(''state'', JString (HealthState_str (hs_state h))), (''status_line'', JString (status_line h)),
      (''queue_depth'', json_u32 (queue_depth h)),
      (''warm_models'', JArray (map JString (warm_models h)))]"

definition sys_describe :: "SystemMethods \<Rightarrow> Request \<Rightarrow> Response" where
  "sys_describe sm req = sys_ok (request_id req) (JObject
     [(''protocol_version'', json_u32 PROTOCOL_VERSION),
      (''methods'', JArray (map JString (describe_methods sm))),
      (''capabilities'', Capabilities_to_value (sm_capabilities sm)),
      (''build_info'', BuildInfo_to_value (sm_build_info sm))])"

text \<open>\<open>to_value\<close> is \<open>serde_json::to_value\<close>; it may refuse, and the code answers \<open>Internal\<close>.\<close>

definition sys_health ::
  "(HealthSnapshot \<Rightarrow> json option) \<Rightarrow> SystemMethods \<Rightarrow> Request \<Rightarrow> Response" where
  "sys_health to_value sm req =
     (case to_value (sm_health_fn sm ()) of
        Some result \<Rightarrow> sys_ok (request_id req) result
      | None \<Rightarrow> err_response (request_id req) Internal ''serialise health snapshot'')"

text \<open>
  \<open>CancelParams\<close>: an object with the field, or (as every derived struct accepts) an array
  holding exactly that field.
\<close>

definition cancel_params :: "(string \<Rightarrow> ulid option) \<Rightarrow> json \<Rightarrow> ulid option" where
  "cancel_params ulid_parse v =
     (case v of
        JObject _ \<Rightarrow> req_field (json_to_ulid ulid_parse) v ''target_request_id''
      | JArray [x] \<Rightarrow> json_to_ulid ulid_parse x
      | _ \<Rightarrow> None)"

definition sys_cancel ::
  "(string \<Rightarrow> ulid option) \<Rightarrow> (ulid \<Rightarrow> string) \<Rightarrow> CancelRegistry \<Rightarrow> Request \<Rightarrow> Response \<times> CancelRegistry" where
  "sys_cancel ulid_parse ulid_str reg req =
     (case cancel_params ulid_parse (req_params req) of
        None \<Rightarrow> (err_response (request_id req) BadRequest ''system.cancel params'', reg)
      | Some target \<Rightarrow>
          (let (was, reg') = cancel target reg in
           (sys_ok (request_id req) (JObject
              [(''target_request_id'', JString (ulid_str target)), (''cancelled'', JBool was)]), reg')))"

definition try_handle ::
  "(HealthSnapshot \<Rightarrow> json option) \<Rightarrow> (string \<Rightarrow> ulid option) \<Rightarrow> (ulid \<Rightarrow> string) \<Rightarrow> SystemMethods
   \<Rightarrow> CancelRegistry \<Rightarrow> Request \<Rightarrow> (Response \<times> CancelRegistry) option" where
  "try_handle to_value ulid_parse ulid_str sm reg req =
     (if req_method req = ''system.describe'' then Some (sys_describe sm req, reg)
      else if req_method req = ''system.health'' then Some (sys_health to_value sm req, reg)
      else if req_method req = ''system.cancel'' then Some (sys_cancel ulid_parse ulid_str reg req)
      else None)"

definition MON_SECONDS_MIN :: u32 where
  "MON_SECONDS_MIN = 1"

definition MON_SECONDS_MAX :: u32 where
  "MON_SECONDS_MAX = 600"

record MonHistoryParams =
  mh_metric :: string
  mh_seconds :: u32

definition mon_history_validate :: "MonHistoryParams \<Rightarrow> string + unit" where
  "mon_history_validate p =
     (if mh_seconds p < MON_SECONDS_MIN \<or> mh_seconds p > MON_SECONDS_MAX
      then Inl ''seconds out of range [1, 600]'' else Inr ())"

section \<open>Admission and the connection loop\<close>

record PeerCredentials =
  peer_pid :: "int option"
  peer_uid :: u32
  peer_gid :: u32

definition same_euid_authorize :: "u32 \<Rightarrow> PeerCredentials option \<Rightarrow> bool" where
  "same_euid_authorize euid cred = (case cred of None \<Rightarrow> False | Some p \<Rightarrow> peer_uid p = euid)"

text \<open>The accept loop: a connection is spawned when the authorizer admits its peer.\<close>

fun serve :: "(PeerCredentials option \<Rightarrow> bool) \<Rightarrow> (PeerCredentials option \<times> 'c) list \<Rightarrow> 'c list" where
  "serve authorize [] = []"
| "serve authorize ((cred, stream) # cs) =
     (if \<not> authorize cred then serve authorize cs else stream # serve authorize cs)"

definition count_error :: "Request \<Rightarrow> Response \<Rightarrow> (string \<times> string) list" where
  "count_error req resp =
     (case resp of RespErr _ _ e \<Rightarrow> [(req_method req, ErrorCode_as_str (code e))] | _ \<Rightarrow> [])"

text \<open>
  The loop of one connection: the result is what was sent, the error-counter increments in
  order, and the handler's final state. A decode error or a failed send ends it.
\<close>

fun serve_connection ::
  "('s \<Rightarrow> Request \<Rightarrow> Response \<times> 's) \<Rightarrow> (Response \<Rightarrow> bool) \<Rightarrow> (io_error + Request) list \<Rightarrow> 's
   \<Rightarrow> Response list \<times> (string \<times> string) list \<times> 's" where
  "serve_connection handle send_ok [] s = ([], [], s)"
| "serve_connection handle send_ok (Inl _ # ds) s = ([], [], s)"
| "serve_connection handle send_ok (Inr req # ds) s =
     (let (resp, s1) = handle s req; errs = count_error req resp in
      if send_ok resp
      then (let (out, errs', s2) = serve_connection handle send_ok ds s1 in (resp # out, errs @ errs', s2))
      else ([], errs, s1))"

section \<open>Endpoints\<close>

definition ENDPOINTS :: "string list" where
  "ENDPOINTS = [''agt'', ''aiplane'', ''knowledge'', ''stack'']"

text \<open>A path is its component list; \<open>xdg\<close> is \<open>XDG_RUNTIME_DIR\<close>, \<open>uid_dir\<close> the \<open>/run/user\<close> fallback.\<close>

definition runtime_dir :: "string option \<Rightarrow> string \<Rightarrow> string" where
  "runtime_dir xdg uid_dir = (case xdg of Some d \<Rightarrow> if d \<noteq> [] then d else uid_dir | None \<Rightarrow> uid_dir)"

definition for_endpoint :: "string option \<Rightarrow> string \<Rightarrow> string \<Rightarrow> string list option" where
  "for_endpoint xdg uid_dir name =
     (let rt = runtime_dir xdg uid_dir in
      if name = ''knowledge'' then Some [rt, ''sy-knowledge.sock'']
      else if name = ''aiplane'' then Some [rt, ''sy-aiplane.sock'']
      else if name = ''agt'' then Some [rt, ''sy-agentd.sock'']
      else if name = ''stack'' then Some [rt, ''sy'', ''stackbar.sock'']
      else None)"

section \<open>Lemmas\<close>

lemma serve_eq: "serve authorize cs = map snd (filter (authorize \<circ> fst) cs)"
  by (induction authorize cs rule: serve.induct) auto

text \<open>The handler run over a list of requests, and the requests before the first decode error.\<close>

fun run_handler :: "('s \<Rightarrow> Request \<Rightarrow> Response \<times> 's) \<Rightarrow> Request list \<Rightarrow> 's \<Rightarrow> Response list \<times> 's" where
  "run_handler handle [] s = ([], s)"
| "run_handler handle (q # qs) s =
     (let (resp, s1) = handle s q; (out, s2) = run_handler handle qs s1 in (resp # out, s2))"

fun decoded_prefix :: "('e + 'q) list \<Rightarrow> 'q list" where
  "decoded_prefix (Inr q # ds) = q # decoded_prefix ds"
| "decoded_prefix _ = []"

lemma serve_connection_run:
  "(\<And>resp. send_ok resp) \<Longrightarrow>
   fst (serve_connection handle send_ok ds s) = fst (run_handler handle (decoded_prefix ds) s) \<and>
   snd (snd (serve_connection handle send_ok ds s)) = snd (run_handler handle (decoded_prefix ds) s)"
  by (induction handle send_ok ds s rule: serve_connection.induct)
    (auto simp: Let_def split: prod.splits)

lemma run_handler_length: "length (fst (run_handler handle qs s)) = length qs"
  by (induction handle qs s rule: run_handler.induct) (auto split: prod.splits)

lemma set_describe_methods:
  "set (describe_methods sm) = set SYSTEM_METHODS \<union> set (sm_daemon_methods sm)"
  by (simp add: describe_methods_def)

lemma describe_methods_strict: "sorted_wrt (<) (describe_methods sm)"
proof -
  have "sorted (describe_methods sm)" "distinct (describe_methods sm)"
    by (simp_all add: describe_methods_def sorted_remdups_adj distinct_remdups_adj_sorted)
  then show ?thesis
    by (simp add: strict_sorted_iff)
qed

section \<open>Properties\<close>

text \<open>
  The connection loop answers exactly the requests that were decoded before the first
  malformed frame, one response each and in order, and runs the handler on no other
  request: what follows a malformed frame has no effect.
\<close>

theorem connection_serves_decoded_prefix:
  assumes "\<And>resp. send_ok resp"
    and "serve_connection handle send_ok ds s = (out, errs, s')"
  shows "(out, s') = run_handler handle (decoded_prefix ds) s \<and>
         length out = length (decoded_prefix ds) \<and>
         serve_connection handle send_ok (map Inr (decoded_prefix ds)) s = (out, errs, s')"
proof -
  have eq: "(out, s') = run_handler handle (decoded_prefix ds) s"
    using serve_connection_run [OF assms(1), where handle = handle and ds = ds and s = s] assms(2) by (simp add: prod_eq_iff)
  have "serve_connection handle send_ok (map Inr (decoded_prefix ds)) s =
      serve_connection handle send_ok ds s" for ds s
    by (induction handle send_ok ds s rule: serve_connection.induct)
      (auto simp: Let_def split: prod.splits)
  with eq assms(2) show ?thesis
    using run_handler_length [of handle "decoded_prefix ds" s] by (metis fst_conv)
qed

theorem connection_serves_decoded_prefix_witness:
  "let req = blocking_build_request 7 ''x'' JNull Batch None None None None;
       handle = (\<lambda>(n :: nat) q. (sys_ok (request_id q) JNull, Suc n)) in
   serve_connection handle (\<lambda>_. True) [Inr req, Inl InvalidData, Inr req] 0 = ([sys_ok 7 JNull], [], 1) \<and>
   ([sys_ok 7 JNull], 1) = run_handler handle (decoded_prefix [Inr req, Inl InvalidData, Inr req]) 0"
proof -
  let ?req = "blocking_build_request 7 ''x'' JNull Batch None None None None"
  let ?handle = "\<lambda>(n :: nat) q. (sys_ok (request_id q) JNull, Suc n)"
  have h: "serve_connection ?handle (\<lambda>_. True) [Inr ?req, Inl InvalidData, Inr ?req] 0 =
      ([sys_ok 7 JNull], [], 1)"
    by (simp add: blocking_build_request_def count_error_def sys_ok_def)
  show ?thesis
    using h connection_serves_decoded_prefix [OF _ h] by (simp add: Let_def)
qed

text \<open>
  \<open>system.cancel\<close> reaches exactly its target: when the target is registered the answer
  says so and its token is cancelled; when it is not, or the parameters do not parse, the
  registry is unchanged, and malformed parameters are a \<open>BadRequest\<close>.
\<close>

theorem system_cancel_effect:
  assumes "req_method req = ''system.cancel''"
    and "try_handle to_value ulid_parse ulid_str sm reg req = Some (resp, reg')"
  shows "resp_id resp = request_id req \<and>
    (case cancel_params ulid_parse (req_params req) of
       None \<Rightarrow> reg' = reg \<and> (\<exists>sv i e. resp = RespErr sv i e \<and> code e = BadRequest)
     | Some target \<Rightarrow>
         (case inner reg target of
            None \<Rightarrow> reg' = reg \<and> json_get (resp_result resp) ''cancelled'' = Some (JBool False)
          | Some e \<Rightarrow> inner reg' = inner reg \<and> is_cancelled (entry_token e) reg' \<and>
                      (\<forall>t. t \<noteq> entry_token e \<longrightarrow> is_cancelled t reg' = is_cancelled t reg) \<and>
                      json_get (resp_result resp) ''cancelled'' = Some (JBool True)))"
  using assms
  by (auto simp: try_handle_def sys_cancel_def cancel_def sys_ok_def err_response_def is_cancelled_def
      split: option.splits prod.splits)

theorem system_cancel_effect_witness:
  "let (g, reg) = register 5 new_registry;
       req = blocking_build_request 7 ''system.cancel''
               (JObject [(''target_request_id'', JString ''5'')]) Interactive None None None None;
       r = try_handle (Some \<circ> HealthSnapshot_to_value) (\<lambda>_. Some 5) (\<lambda>_. ''5'')
             \<lparr>sm_build_info = \<lparr>build_name = [], build_version = [], git_sha = []\<rparr>,
              sm_health_fn = (\<lambda>_. \<lparr>hs_state = HsReady, status_line = [], queue_depth = 0, warm_models = []\<rparr>),
              sm_capabilities = Capabilities_baseline, sm_daemon_methods = []\<rparr> reg req in
   \<exists>resp reg'. r = Some (resp, reg') \<and> is_cancelled (guard_token g) reg'"
proof -
  let ?sm = "\<lparr>sm_build_info = \<lparr>build_name = [], build_version = [], git_sha = []\<rparr>,
              sm_health_fn = (\<lambda>_. \<lparr>hs_state = HsReady, status_line = [], queue_depth = 0, warm_models = []\<rparr>),
              sm_capabilities = Capabilities_baseline, sm_daemon_methods = []\<rparr>"
  let ?req = "blocking_build_request 7 ''system.cancel''
               (JObject [(''target_request_id'', JString ''5'')]) Interactive None None None None"
  obtain g reg where reg: "register 5 new_registry = (g, reg)" by fastforce
  have m: "req_method ?req = ''system.cancel''"
    by (simp add: blocking_build_request_def)
  obtain resp reg' where h: "try_handle (Some \<circ> HealthSnapshot_to_value) (\<lambda>_. Some 5) (\<lambda>_. ''5'') ?sm reg ?req
      = Some (resp, reg')"
    using m by (cases "sys_cancel (\<lambda>_. Some 5) (\<lambda>_. ''5'') reg ?req") (auto simp: try_handle_def)
  have "cancel_params (\<lambda>_. Some 5) (req_params ?req) = Some 5"
    by (simp add: cancel_params_def blocking_build_request_def req_field_def json_to_ulid_def)
  moreover have "inner reg 5 = Some \<lparr>entry_token = guard_token g, entry_epoch = guard_epoch g\<rparr>"
    using register_current [of 5 new_registry] by (simp add: reg current_def store_simps)
      (metis fst_conv reg register_frame(2))
  ultimately have "is_cancelled (guard_token g) reg'"
    using system_cancel_effect [OF m h] by simp
  then show ?thesis
    using h by (auto simp: reg Let_def)
qed

text \<open>
  The method list a daemon advertises is strictly increasing in byte order, so each
  name appears once, and holds exactly the reserved names and the daemon's own.
\<close>

theorem describe_methods_spec:
  "sorted_wrt (<) (describe_methods sm) \<and>
   set (describe_methods sm) = set SYSTEM_METHODS \<union> set (sm_daemon_methods sm)"
  by (simp add: describe_methods_strict set_describe_methods)

text \<open>
  Only peers whose kernel-reported uid equals the daemon's effective uid are served,
  in the order they connected; a peer without credentials never is.
\<close>

theorem admission_same_euid:
  "serve (same_euid_authorize euid) cs =
     map snd (filter (\<lambda>c. \<exists>p. fst c = Some p \<and> peer_uid p = euid) cs)"
  by (simp add: serve_eq comp_def same_euid_authorize_def split: option.splits)
    (metis (mono_tags, lifting) option.case_eq_if option.collapse option.sel option.simps(3))

end
