(* ===== verification/Scheduler.thy ===== *)
theory Scheduler
  imports Ipc_Envelope "HOL-Library.Multiset"
begin

text \<open>
  The four-class scheduler of the AI plane
  (\<open>crates/sy-aiplane/src/aiplane/scheduler.rs\<close>, \<open>error.rs\<close>): admission into bounded
  queues, the dispatcher loop, one run of a request and the hard-escape watchdog. The
  backend (\<open>AiplaneDispatch::batch\<close>) is a parameter. The dispatcher is given twice: as the
  loop body on a quiet system (\<open>dispatch_once\<close>), and as a step relation in which callers
  admit and cancel between any two polls.
\<close>

section \<open>Errors\<close>

datatype AiplaneError =
    AeOverloaded Priority nat u64
  | AeCancelled
  | AeWorkloadFailed string

fun wire_code :: "AiplaneError \<Rightarrow> ErrorCode" where
  "wire_code (AeOverloaded _ _ _) = Overloaded"
| "wire_code AeCancelled = Cancelled"
| "wire_code (AeWorkloadFailed _) = Internal"

fun ae_retry_after_ms :: "AiplaneError \<Rightarrow> u64 option" where
  "ae_retry_after_ms (AeOverloaded _ _ ms) = Some ms"
| "ae_retry_after_ms _ = None"

section \<open>Admission\<close>

definition CAP_REALTIME :: nat where "CAP_REALTIME = 4"
definition CAP_INTERACTIVE :: nat where "CAP_INTERACTIVE = 32"
definition CAP_BACKGROUND :: nat where "CAP_BACKGROUND = 256"
definition CAP_BATCH :: nat where "CAP_BATCH = 4096"

definition OVERLOADED_RETRY_AFTER_MS :: u64 where
  "OVERLOADED_RETRY_AFTER_MS = 200"

text \<open>Durations in milliseconds.\<close>

definition HARD_ESCAPE_THRESHOLD :: nat where "HARD_ESCAPE_THRESHOLD = 200"
definition HARD_ESCAPE_TICK :: nat where "HARD_ESCAPE_TICK = 50"

fun queue_cap :: "Priority \<Rightarrow> nat" where
  "queue_cap Realtime = CAP_REALTIME"
| "queue_cap Interactive = CAP_INTERACTIVE"
| "queue_cap Background = CAP_BACKGROUND"
| "queue_cap Batch = CAP_BATCH"

datatype TimeoutAction = Reject | Delay

fun policy :: "Priority \<Rightarrow> TimeoutAction" where
  "policy Realtime = Reject"
| "policy Interactive = Reject"
| "policy Background = Delay"
| "policy Batch = Delay"

record SchedRequest =
  sr_id :: ulid
  sr_workload :: WorkloadKind
  sr_inputs :: "WorkloadInput list"
  sr_class :: Priority
  sr_queued_at :: nat
  sr_deadline :: "nat option"
  sr_cancel :: nat

record Scheduler =
  realtime_q :: "SchedRequest list"
  interactive_q :: "SchedRequest list"
  background_q :: "SchedRequest list"
  batch_q :: "SchedRequest list"
  receivers_alive :: bool

definition Scheduler_new :: Scheduler where
  "Scheduler_new = \<lparr>realtime_q = [], interactive_q = [], background_q = [], batch_q = [],
     receivers_alive = True\<rparr>"

fun sender_for :: "Scheduler \<Rightarrow> Priority \<Rightarrow> SchedRequest list" where
  "sender_for s Realtime = realtime_q s"
| "sender_for s Interactive = interactive_q s"
| "sender_for s Background = background_q s"
| "sender_for s Batch = batch_q s"

fun set_queue :: "Priority \<Rightarrow> SchedRequest list \<Rightarrow> Scheduler \<Rightarrow> Scheduler" where
  "set_queue Realtime q s = s\<lparr>realtime_q := q\<rparr>"
| "set_queue Interactive q s = s\<lparr>interactive_q := q\<rparr>"
| "set_queue Background q s = s\<lparr>background_q := q\<rparr>"
| "set_queue Batch q s = s\<lparr>batch_q := q\<rparr>"

lemma sender_for_set_queue [simp, store_simps]:
  "sender_for (set_queue c q s) d = (if d = c then q else sender_for s d)"
  by (cases c; cases d) simp_all

lemma receivers_alive_set_queue [simp]: "receivers_alive (set_queue c q s) = receivers_alive s"
  by (cases c) simp_all

lemma set_queue_id [simp]: "set_queue c (sender_for s c) s = s"
  by (cases c) simp_all

text \<open>
  A send on a bounded channel: refused when the receiver is gone, full at capacity.
  \<open>Blocks\<close> is a sender waiting for space.
\<close>

datatype admit_outcome = Admitted | Refused AiplaneError | Blocks

definition admit :: "SchedRequest \<Rightarrow> Scheduler \<Rightarrow> admit_outcome \<times> Scheduler" where
  "admit req s =
     (let class = sr_class req; q = sender_for s class;
          gone = AeWorkloadFailed ''scheduler dispatcher gone'' in
      case policy class of
        Reject \<Rightarrow>
          if \<not> receivers_alive s then (Refused gone, s)
          else if length q < queue_cap class then (Admitted, set_queue class (q @ [req]) s)
          else (Refused (AeOverloaded class (queue_cap class) OVERLOADED_RETRY_AFTER_MS), s)
      | Delay \<Rightarrow>
          if \<not> receivers_alive s then (Refused gone, s)
          else if length q < queue_cap class then (Admitted, set_queue class (q @ [req]) s)
          else (Blocks, s))"

definition queue_depths :: "Scheduler \<Rightarrow> Priority \<Rightarrow> nat" where
  "queue_depths s c = length (sender_for s c)"

section \<open>Running one request\<close>

type_synonym backend = "WorkloadKind \<Rightarrow> WorkloadInput list \<Rightarrow> string + WorkloadOutput list"
type_synonym reply = "AiplaneError + WorkloadOutput list"

datatype metric =
    QueueDepth Priority WorkloadKind nat
  | WorkloadLatency WorkloadKind
  | WorkloadCompleted WorkloadKind
  | WorkloadErrors WorkloadKind string

record InflightInfo =
  if_request_id :: ulid
  if_workload :: WorkloadKind
  if_class :: Priority
  if_started_at :: nat

record Dispatcher =
  sched :: Scheduler
  inflight :: "InflightInfo option"
  replies :: "(SchedRequest \<times> reply) list"
  metrics :: "metric list"
  cancelled_tokens :: "nat set"

definition publish_queue_depths :: "WorkloadKind \<Rightarrow> Scheduler \<Rightarrow> metric list" where
  "publish_queue_depths kind s =
     [QueueDepth Realtime kind (length (realtime_q s)),
      QueueDepth Interactive kind (length (interactive_q s)),
      QueueDepth Background kind (length (background_q s)),
      QueueDepth Batch kind (length (batch_q s))]"

text \<open>
  \<open>run_one\<close> up to the call of the backend: the flag says whether the request was answered
  without running it. The second part is what follows the call.
\<close>

definition run_one_begin :: "nat \<Rightarrow> SchedRequest \<Rightarrow> Dispatcher \<Rightarrow> bool \<times> Dispatcher" where
  "run_one_begin now req d =
     (let kind = sr_workload req;
          d1 = d\<lparr>metrics := metrics d @ publish_queue_depths kind (sched d)\<rparr> in
      if sr_cancel req \<in> cancelled_tokens d1
      then (True, d1\<lparr>metrics := metrics d1 @ [WorkloadErrors kind ''cancelled''],
                     replies := replies d1 @ [(req, Inl AeCancelled)]\<rparr>)
      else (False, d1\<lparr>inflight := Some \<lparr>if_request_id = sr_id req, if_workload = kind,
                        if_class = sr_class req, if_started_at = now\<rparr>\<rparr>))"

definition run_one_finish :: "backend \<Rightarrow> SchedRequest \<Rightarrow> Dispatcher \<Rightarrow> Dispatcher" where
  "run_one_finish backend req d =
     (let kind = sr_workload req; outcome = backend kind (sr_inputs req);
          ms = [WorkloadLatency kind,
                case outcome of Inr _ \<Rightarrow> WorkloadCompleted kind | Inl _ \<Rightarrow> WorkloadErrors kind ''failed''] in
      d\<lparr>inflight := None, metrics := metrics d @ ms,
        replies := replies d @ [(req, map_sum AeWorkloadFailed id outcome)]\<rparr>)"

definition run_one :: "backend \<Rightarrow> nat \<Rightarrow> SchedRequest \<Rightarrow> Dispatcher \<Rightarrow> Dispatcher" where
  "run_one backend now req d =
     (case run_one_begin now req d of
        (True, d1) \<Rightarrow> d1
      | (False, d1) \<Rightarrow> run_one_finish backend req d1)"

section \<open>The loop body\<close>

definition try_recv :: "Priority \<Rightarrow> Dispatcher \<Rightarrow> (SchedRequest \<times> Dispatcher) option" where
  "try_recv c d =
     (case sender_for (sched d) c of
        [] \<Rightarrow> None
      | r # rs \<Rightarrow> Some (r, d\<lparr>sched := set_queue c rs (sched d)\<rparr>))"

text \<open>One pass over the four polls with nothing else running; \<open>None\<close>: nothing is queued.\<close>

definition dispatch_once :: "backend \<Rightarrow> nat \<Rightarrow> Dispatcher \<Rightarrow> Dispatcher option" where
  "dispatch_once backend now d =
     (case try_recv Realtime d of Some (r, d1) \<Rightarrow> Some (run_one backend now r d1)
      | None \<Rightarrow> (case try_recv Interactive d of Some (r, d1) \<Rightarrow> Some (run_one backend now r d1)
      | None \<Rightarrow> (case try_recv Background d of Some (r, d1) \<Rightarrow> Some (run_one backend now r d1)
      | None \<Rightarrow> (case try_recv Batch d of Some (r, d1) \<Rightarrow> Some (run_one backend now r d1)
      | None \<Rightarrow> None))))"

fun dispatch_n :: "backend \<Rightarrow> nat \<Rightarrow> nat \<Rightarrow> Dispatcher \<Rightarrow> Dispatcher" where
  "dispatch_n backend now 0 d = d"
| "dispatch_n backend now (Suc n) d =
     (case dispatch_once backend now d of None \<Rightarrow> d | Some d1 \<Rightarrow> dispatch_n backend now n d1)"

section \<open>The watchdog\<close>

fun should_preempt :: "Priority \<Rightarrow> Scheduler \<Rightarrow> bool" where
  "should_preempt Realtime s = False"
| "should_preempt Interactive s = (realtime_q s \<noteq> [])"
| "should_preempt Background s = (realtime_q s \<noteq> [] \<or> interactive_q s \<noteq> [])"
| "should_preempt Batch s = (realtime_q s \<noteq> [] \<or> interactive_q s \<noteq> [] \<or> background_q s \<noteq> [])"

text \<open>
  One tick of \<open>hard_escape_loop\<close>: the cancel to send, if any, and the id remembered. The
  loop's exit test is on the number of owners of the inflight slot and is not part of it.
\<close>

definition hard_escape_tick ::
  "nat \<Rightarrow> ulid option \<Rightarrow> Dispatcher \<Rightarrow> (WorkloadKind \<times> ulid) option \<times> ulid option" where
  "hard_escape_tick now last_cancelled d =
     (case inflight d of
        None \<Rightarrow> (None, last_cancelled)
      | Some info \<Rightarrow>
          if Some (if_request_id info) = last_cancelled then (None, last_cancelled)
          else if now - if_started_at info < HARD_ESCAPE_THRESHOLD then (None, last_cancelled)
          else if \<not> should_preempt (if_class info) (sched d) then (None, last_cancelled)
          else (Some (if_workload info, if_request_id info), Some (if_request_id info)))"

fun hard_escape_ticks ::
  "ulid option \<Rightarrow> (nat \<times> Dispatcher) list \<Rightarrow> (WorkloadKind \<times> ulid) list" where
  "hard_escape_ticks last_cancelled [] = []"
| "hard_escape_ticks last_cancelled ((now, d) # obs) =
     (case hard_escape_tick now last_cancelled d of
        (None, l) \<Rightarrow> hard_escape_ticks l obs
      | (Some c, l) \<Rightarrow> c # hard_escape_ticks l obs)"

section \<open>The dispatcher among its callers\<close>

text \<open>
  The program counter of the dispatcher thread: polling one class, parked on the select,
  running a request, or gone. \<open>admitted\<close> records, in order, the requests that entered a
  queue; \<open>senders_alive\<close> turns false when the scheduler handle is dropped.
\<close>

datatype dpc = Polling Priority | Selecting | Running SchedRequest | Exited

record SchedSystem =
  disp :: Dispatcher
  dpc :: dpc
  admitted :: "SchedRequest list"
  senders_alive :: bool
  clock :: nat

fun after_empty :: "Priority \<Rightarrow> dpc" where
  "after_empty Realtime = Polling Interactive"
| "after_empty Interactive = Polling Background"
| "after_empty Background = Polling Batch"
| "after_empty Batch = Selecting"

definition begin_system :: "SchedRequest \<Rightarrow> Dispatcher \<Rightarrow> SchedSystem \<Rightarrow> SchedSystem" where
  "begin_system r d y =
     (case run_one_begin (clock y) r d of
        (True, d1) \<Rightarrow> y\<lparr>disp := d1, dpc := Polling Realtime\<rparr>
      | (False, d1) \<Rightarrow> y\<lparr>disp := d1, dpc := Running r\<rparr>)"

definition init_system :: SchedSystem where
  "init_system = \<lparr>disp = \<lparr>sched = Scheduler_new, inflight = None, replies = [], metrics = [],
       cancelled_tokens = {}\<rparr>, dpc = Polling Realtime, admitted = [], senders_alive = True, clock = 0\<rparr>"

inductive sched_step :: "backend \<Rightarrow> SchedSystem \<Rightarrow> SchedSystem \<Rightarrow> bool" for backend where
  caller_admits: "senders_alive y \<Longrightarrow> admit req (sched (disp y)) = (Admitted, s') \<Longrightarrow>
     sched_step backend y (y\<lparr>disp := (disp y)\<lparr>sched := s'\<rparr>, admitted := admitted y @ [req]\<rparr>)"
| caller_cancels:
     "sched_step backend y
        (y\<lparr>disp := (disp y)\<lparr>cancelled_tokens := insert t (cancelled_tokens (disp y))\<rparr>\<rparr>)"
| handle_dropped: "sched_step backend y (y\<lparr>senders_alive := False\<rparr>)"
| time_passes: "sched_step backend y (y\<lparr>clock := Suc (clock y)\<rparr>)"
| poll_hit: "dpc y = Polling c \<Longrightarrow> try_recv c (disp y) = Some (r, d) \<Longrightarrow>
     sched_step backend y (begin_system r d y)"
| poll_miss: "dpc y = Polling c \<Longrightarrow> try_recv c (disp y) = None \<Longrightarrow>
     sched_step backend y (y\<lparr>dpc := after_empty c\<rparr>)"
| select_hit: "dpc y = Selecting \<Longrightarrow> try_recv c (disp y) = Some (r, d) \<Longrightarrow>
     sched_step backend y (begin_system r d y)"
| select_gone: "dpc y = Selecting \<Longrightarrow> \<not> senders_alive y \<Longrightarrow> try_recv c (disp y) = None \<Longrightarrow>
     sched_step backend y (y\<lparr>dpc := Exited\<rparr>)"
| run_ends: "dpc y = Running r \<Longrightarrow>
     sched_step backend y (y\<lparr>disp := run_one_finish backend r (disp y), dpc := Polling Realtime\<rparr>)"

inductive sched_reachable :: "backend \<Rightarrow> SchedSystem \<Rightarrow> bool" for backend where
  sched_init: "sched_reachable backend init_system"
| sched_next: "sched_reachable backend y \<Longrightarrow> sched_step backend y z \<Longrightarrow> sched_reachable backend z"

section \<open>Lemmas\<close>

lemma queue_cap_pos [simp]: "0 < queue_cap c"
  by (cases c) (simp_all add: CAP_REALTIME_def CAP_INTERACTIVE_def CAP_BACKGROUND_def CAP_BATCH_def)

lemma admit_Admitted:
  "admit req s = (Admitted, s') \<longleftrightarrow>
   receivers_alive s \<and> length (sender_for s (sr_class req)) < queue_cap (sr_class req) \<and>
   s' = set_queue (sr_class req) (sender_for s (sr_class req) @ [req]) s"
  by (auto simp: admit_def Let_def split: TimeoutAction.splits if_splits)

lemma try_recv_Some:
  "try_recv c d = Some (r, d') \<longleftrightarrow>
   (\<exists>rs. sender_for (sched d) c = r # rs \<and> d' = d\<lparr>sched := set_queue c rs (sched d)\<rparr>)"
  by (auto simp: try_recv_def split: list.splits)

lemma try_recv_None: "try_recv c d = None \<longleftrightarrow> sender_for (sched d) c = []"
  by (auto simp: try_recv_def split: list.splits)

lemma run_one_begin_sched [simp]: "sched (snd (run_one_begin now req d)) = sched d"
  by (simp add: run_one_begin_def Let_def)

lemma run_one_finish_sched [simp]: "sched (run_one_finish backend req d) = sched d"
  by (simp add: run_one_finish_def Let_def)

lemma run_one_sched [simp]: "sched (run_one backend now req d) = sched d"
  by (simp add: run_one_def run_one_begin_def Let_def)

definition reply_for :: "backend \<Rightarrow> nat set \<Rightarrow> SchedRequest \<Rightarrow> reply" where
  "reply_for backend cs r =
     (if sr_cancel r \<in> cs then Inl AeCancelled
      else map_sum AeWorkloadFailed id (backend (sr_workload r) (sr_inputs r)))"

lemma run_one_replies:
  "replies (run_one backend now r d) = replies d @ [(r, reply_for backend (cancelled_tokens d) r)]"
  "cancelled_tokens (run_one backend now r d) = cancelled_tokens d"
  by (simp_all add: run_one_def run_one_begin_def run_one_finish_def reply_for_def Let_def)

definition all_queued :: "Scheduler \<Rightarrow> SchedRequest list" where
  "all_queued s = realtime_q s @ interactive_q s @ background_q s @ batch_q s"

lemma dispatch_once_None: "dispatch_once backend now d = None \<longleftrightarrow> all_queued (sched d) = []"
  by (auto simp: dispatch_once_def try_recv_def all_queued_def split: list.splits option.splits)

lemma dispatch_once_Some:
  assumes "all_queued (sched d) = r # rs"
  obtains d1 where "dispatch_once backend now d = Some d1" "all_queued (sched d1) = rs"
    "replies d1 = replies d @ [(r, reply_for backend (cancelled_tokens d) r)]"
    "cancelled_tokens d1 = cancelled_tokens d"
proof -
  define c where "c =
    (if realtime_q (sched d) \<noteq> [] then Realtime else if interactive_q (sched d) \<noteq> [] then Interactive
     else if background_q (sched d) \<noteq> [] then Background else Batch)"
  obtain q where q: "sender_for (sched d) c = r # q"
    using assms
    by (cases "realtime_q (sched d)"; cases "interactive_q (sched d)"; cases "background_q (sched d)")
      (simp_all add: c_def all_queued_def)
  let ?d = "d\<lparr>sched := set_queue c q (sched d)\<rparr>"
  have once: "dispatch_once backend now d = Some (run_one backend now r ?d)"
    using q by (auto simp: dispatch_once_def try_recv_def c_def split: if_splits)
  have rest: "all_queued (sched ?d) = rs"
    using assms q by (auto simp: all_queued_def c_def split: if_splits)
  show thesis
    using that [OF once] rest by (simp add: run_one_replies)
qed

lemma dispatch_n_all:
  "all_queued (sched d) = rs \<Longrightarrow>
   replies (dispatch_n backend now (length rs) d) =
     replies d @ map (\<lambda>r. (r, reply_for backend (cancelled_tokens d) r)) rs \<and>
   all_queued (sched (dispatch_n backend now (length rs) d)) = []"
proof (induction rs arbitrary: d)
  case (Cons r rs)
  obtain d1 where d1: "dispatch_once backend now d = Some d1" "all_queued (sched d1) = rs"
    "replies d1 = replies d @ [(r, reply_for backend (cancelled_tokens d) r)]"
    "cancelled_tokens d1 = cancelled_tokens d"
    using dispatch_once_Some [OF Cons.prems] .
  show ?case
    using Cons.IH [OF d1(2)] d1 by simp
qed simp

lemma should_preempt_iff:
  "should_preempt c s \<longleftrightarrow> (\<exists>c' < c. sender_for s c' \<noteq> [])"
  by (cases c) (simp_all add: Priority_ex)

section \<open>Invariant of the system\<close>

definition running :: "SchedSystem \<Rightarrow> SchedRequest list" where
  "running y = (case dpc y of Running r \<Rightarrow> [r] | _ \<Rightarrow> [])"

text \<open>Per class: answered, then running, then queued. This is the history of the class.\<close>

definition ledger :: "SchedSystem \<Rightarrow> Priority \<Rightarrow> SchedRequest list" where
  "ledger y c = filter (\<lambda>r. sr_class r = c) (map fst (replies (disp y)) @ running y)
                @ sender_for (sched (disp y)) c"

definition honest :: "backend \<Rightarrow> Dispatcher \<Rightarrow> bool" where
  "honest backend d \<longleftrightarrow>
     (\<forall>(r, res) \<in> set (replies d).
        res = Inl AeCancelled \<and> sr_cancel r \<in> cancelled_tokens d \<or>
        res = map_sum AeWorkloadFailed id (backend (sr_workload r) (sr_inputs r)))"

definition slot_ok :: "SchedSystem \<Rightarrow> bool" where
  "slot_ok y \<longleftrightarrow>
     map_option (\<lambda>i. (if_request_id i, if_workload i, if_class i)) (inflight (disp y)) =
     (case dpc y of Running r \<Rightarrow> Some (sr_id r, sr_workload r, sr_class r) | _ \<Rightarrow> None)"

definition sched_inv :: "backend \<Rightarrow> SchedSystem \<Rightarrow> bool" where
  "sched_inv backend y \<longleftrightarrow>
     (\<forall>c. length (sender_for (sched (disp y)) c) \<le> queue_cap c) \<and>
     (\<forall>c. ledger y c = filter (\<lambda>r. sr_class r = c) (admitted y)) \<and>
     honest backend (disp y) \<and> slot_ok y"

lemma sched_inv_init: "sched_inv backend init_system"
proof -
  have "sender_for Scheduler_new c = []" for c
    by (cases c) (simp_all add: Scheduler_new_def)
  then show ?thesis
    by (simp add: sched_inv_def init_system_def ledger_def running_def honest_def slot_ok_def)
qed

lemma sched_inv_class:
  assumes "sched_inv backend y" "r \<in> set (sender_for (sched (disp y)) c)"
  shows "sr_class r = c"
proof -
  have "r \<in> set (ledger y c)"
    using assms(2) by (simp add: ledger_def)
  moreover have "ledger y c = filter (\<lambda>r. sr_class r = c) (admitted y)"
    using assms(1) by (simp add: sched_inv_def)
  ultimately show ?thesis by simp
qed

lemma sched_inv_admit:
  assumes inv: "sched_inv backend y" and adm: "admit req (sched (disp y)) = (Admitted, s')"
  shows "sched_inv backend (y\<lparr>disp := (disp y)\<lparr>sched := s'\<rparr>, admitted := admitted y @ [req]\<rparr>)"
proof -
  from adm have s': "s' = set_queue (sr_class req) (sender_for (sched (disp y)) (sr_class req) @ [req]) (sched (disp y))"
    and room: "length (sender_for (sched (disp y)) (sr_class req)) < queue_cap (sr_class req)"
    by (simp_all add: admit_Admitted)
  show ?thesis
    using inv room by (auto simp: sched_inv_def s' ledger_def running_def honest_def slot_ok_def)
qed

text \<open>Taking the head of a queue and starting it, from a poll or from the select.\<close>

lemma sched_inv_begin:
  assumes inv: "sched_inv backend y" and pc: "\<And>r. dpc y \<noteq> Running r"
    and rcv: "try_recv c (disp y) = Some (r, d)"
  shows "sched_inv backend (begin_system r d y)"
proof -
  from rcv obtain rs where q: "sender_for (sched (disp y)) c = r # rs"
    and d: "d = (disp y)\<lparr>sched := set_queue c rs (sched (disp y))\<rparr>"
    by (auto simp: try_recv_Some)
  have cls: "sr_class r = c"
    using sched_inv_class [OF inv, of r c] q by simp
  have run: "running y = []"
    using pc by (auto simp: running_def split: dpc.splits)
  have slot: "inflight (disp y) = None"
    using inv pc by (auto simp: sched_inv_def slot_ok_def split: dpc.splits)
  have led: "ledger (begin_system r d y) k = ledger y k" for k
    using q cls run by (auto simp: begin_system_def run_one_begin_def d ledger_def running_def Let_def)
  have caps: "length (sender_for (sched (disp y)) k) \<le> queue_cap k" for k
    using inv by (simp add: sched_inv_def)
  have "length rs \<le> queue_cap c"
    using caps [of c] q by simp
  with caps have "length (sender_for (sched (disp (begin_system r d y))) k) \<le> queue_cap k" for k
    by (auto simp: begin_system_def run_one_begin_def d Let_def)
  moreover have "honest backend (disp (begin_system r d y))"
    using inv by (auto simp: sched_inv_def honest_def begin_system_def run_one_begin_def d Let_def)
  moreover have "slot_ok (begin_system r d y)"
    using slot by (auto simp: slot_ok_def begin_system_def run_one_begin_def d Let_def)
  moreover have "admitted (begin_system r d y) = admitted y"
    by (simp add: begin_system_def run_one_begin_def Let_def)
  ultimately show ?thesis
    using inv led by (simp add: sched_inv_def)
qed

lemma sched_inv_finish:
  assumes "sched_inv backend y" "dpc y = Running r"
  shows "sched_inv backend (y\<lparr>disp := run_one_finish backend r (disp y), dpc := Polling Realtime\<rparr>)"
  using assms
  by (auto simp: sched_inv_def ledger_def running_def honest_def slot_ok_def run_one_finish_def Let_def)

lemma sched_inv_move:
  "sched_inv backend y \<Longrightarrow> (\<And>r. dpc y \<noteq> Running r) \<Longrightarrow> (\<And>r. pc \<noteq> Running r) \<Longrightarrow>
   sched_inv backend (y\<lparr>dpc := pc\<rparr>)"
  by (cases "dpc y"; cases pc) (auto simp: sched_inv_def ledger_def running_def slot_ok_def)

lemma after_empty_not_running [simp]: "after_empty c \<noteq> Running r"
  by (cases c) simp_all

lemma sched_step_inv: "sched_step backend y z \<Longrightarrow> sched_inv backend y \<Longrightarrow> sched_inv backend z"
proof (induction rule: sched_step.induct)
  case (caller_admits y req s')
  then show ?case by (blast intro: sched_inv_admit)
next
  case (caller_cancels y t)
  then show ?case
    by (auto simp: sched_inv_def ledger_def running_def honest_def slot_ok_def)
next
  case (poll_hit y c r d)
  then show ?case by (intro sched_inv_begin) auto
next
  case (select_hit y c r d)
  then show ?case by (intro sched_inv_begin) auto
next
  case (poll_miss y c)
  then show ?case by (intro sched_inv_move) auto
next
  case (select_gone y c)
  then show ?case by (intro sched_inv_move) auto
next
  case (run_ends y r)
  then show ?case by (intro sched_inv_finish)
qed (simp_all add: sched_inv_def ledger_def running_def slot_ok_def)

lemma sched_reachable_inv: "sched_reachable backend y \<Longrightarrow> sched_inv backend y"
  by (induction rule: sched_reachable.induct) (auto intro: sched_inv_init sched_step_inv)

lemma reach_selecting: "sched_reachable backend (init_system\<lparr>dpc := Selecting\<rparr>)"
proof -
  have miss: "sched_step backend (init_system\<lparr>dpc := Polling c\<rparr>) (init_system\<lparr>dpc := after_empty c\<rparr>)" for c
  proof -
    have "try_recv c (disp (init_system\<lparr>dpc := Polling c\<rparr>)) = None"
      by (cases c) (simp_all add: try_recv_None init_system_def Scheduler_new_def)
    from poll_miss [OF _ this] show ?thesis by simp
  qed
  have go: "sched_reachable backend (init_system\<lparr>dpc := after_empty c\<rparr>)"
    if "sched_reachable backend (init_system\<lparr>dpc := Polling c\<rparr>)" for c
    using that miss by (rule sched_next)
  have "sched_reachable backend (init_system\<lparr>dpc := Polling Realtime\<rparr>)"
    using sched_init [of backend] by (simp add: init_system_def)
  from go [OF this] have "sched_reachable backend (init_system\<lparr>dpc := Polling Interactive\<rparr>)"
    by simp
  from go [OF this] have "sched_reachable backend (init_system\<lparr>dpc := Polling Background\<rparr>)"
    by simp
  from go [OF this] have "sched_reachable backend (init_system\<lparr>dpc := Polling Batch\<rparr>)"
    by simp
  from go [OF this] show ?thesis by simp
qed

lemma hard_escape_tick_fires:
  "hard_escape_tick now l d = (Some (k, i), l') \<longleftrightarrow>
   (\<exists>info. inflight d = Some info \<and> k = if_workload info \<and> i = if_request_id info \<and> l' = Some i \<and>
      l \<noteq> Some i \<and> HARD_ESCAPE_THRESHOLD \<le> now - if_started_at info \<and>
      (\<exists>c' < if_class info. sender_for (sched d) c' \<noteq> []))"
  by (auto simp: hard_escape_tick_def should_preempt_iff split: option.splits if_splits)

lemma hard_escape_tick_last: "hard_escape_tick now l d = (None, l') \<Longrightarrow> l' = l"
  by (auto simp: hard_escape_tick_def split: option.splits if_splits)

lemma hard_escape_ticks_quiet:
  "\<forall>(now, d) \<in> set obs. map_option if_request_id (inflight d) = Some i \<Longrightarrow>
   hard_escape_ticks (Some i) obs = []"
  by (induction obs) (auto simp: hard_escape_tick_def split: prod.splits option.splits)

section \<open>Properties\<close>



text \<open>
  C22. Every answer the dispatcher sends is either \<open>Cancelled\<close>, for a request whose token was
  cancelled, or what the backend returned for exactly that request's workload and inputs;
  and the inflight slot the watchdog reads names the request that is running, and is empty
  when none is.
\<close>

theorem scheduler_replies_honest:
  assumes "sched_reachable backend y"
  shows "(\<forall>(r, res) \<in> set (replies (disp y)).
            res = Inl AeCancelled \<and> sr_cancel r \<in> cancelled_tokens (disp y) \<or>
            res = map_sum AeWorkloadFailed id (backend (sr_workload r) (sr_inputs r)))
    \<and> (map_option if_request_id (inflight (disp y)) =
         (case dpc y of Running r \<Rightarrow> Some (sr_id r) | _ \<Rightarrow> None))"
proof -
  from sched_reachable_inv [OF assms] have "honest backend (disp y)" "slot_ok y"
    by (simp_all add: sched_inv_def)
  then show ?thesis
    by (auto simp: honest_def slot_ok_def split: dpc.splits)
qed

theorem scheduler_replies_honest_witness:
  "sched_reachable (\<lambda>_ _. Inr []) init_system \<and> map_option if_request_id (inflight (disp init_system)) = None"
  using scheduler_replies_honest [OF sched_init [of "\<lambda>_ _. Inr []"]] sched_init
  by (simp add: init_system_def)

text \<open>
  On a quiet system the dispatcher is a strict-priority queue: as many passes of the
  loop as there are queued requests answer all of them, every \<open>Realtime\<close> request before
  every \<open>Interactive\<close> one, then \<open>Background\<close>, then \<open>Batch\<close>, each class in arrival order; a
  request whose token is cancelled is answered \<open>Cancelled\<close> without reaching the backend.
\<close>

theorem dispatcher_drains_in_priority_order:
  "let rs = realtime_q (sched d) @ interactive_q (sched d) @ background_q (sched d) @ batch_q (sched d);
       d' = dispatch_n backend now (length rs) d in
   replies d' = replies d @ map (\<lambda>r. (r, if sr_cancel r \<in> cancelled_tokens d then Inl AeCancelled
       else map_sum AeWorkloadFailed id (backend (sr_workload r) (sr_inputs r)))) rs \<and>
   (\<forall>c. sender_for (sched d') c = [])"
  using dispatch_n_all [of d _ backend now, OF refl]
  by (simp add: Let_def all_queued_def reply_for_def Priority_all)

text \<open>
  Priority is strict only between polls. The four polls and the final select are
  separate moments, and the select takes any ready class: a \<open>Realtime\<close> request admitted
  after the polls came back empty can wait behind a \<open>Batch\<close> request admitted later.
\<close>

theorem select_can_invert_priority:
  assumes "sr_class r = Realtime" "sr_class b = Batch"
  shows "\<exists>y. sched_reachable backend y \<and> dpc y = Running b \<and> r \<in> set (realtime_q (sched (disp y)))
    \<and> admitted y = [r, b]"
proof -
  let ?y0 = "init_system\<lparr>dpc := Selecting\<rparr>"
  let ?s1 = "set_queue Realtime [r] Scheduler_new"
  let ?y1 = "?y0\<lparr>disp := (disp ?y0)\<lparr>sched := ?s1\<rparr>, admitted := [r]\<rparr>"
  let ?s2 = "set_queue Batch [b] ?s1"
  let ?y2 = "?y1\<lparr>disp := (disp ?y1)\<lparr>sched := ?s2\<rparr>, admitted := [r, b]\<rparr>"
  have "admit r Scheduler_new = (Admitted, ?s1)"
    using assms(1) by (simp add: admit_Admitted CAP_REALTIME_def) (simp add: Scheduler_new_def)
  then have "sched_step backend ?y0 ?y1"
    using caller_admits [of ?y0 r ?s1 backend] by (simp add: init_system_def)
  with reach_selecting have 1: "sched_reachable backend ?y1"
    by (rule sched_next)
  have "admit b ?s1 = (Admitted, ?s2)"
    using assms(2) by (simp add: admit_Admitted CAP_BATCH_def) (simp add: Scheduler_new_def)
  then have "sched_step backend ?y1 ?y2"
    using caller_admits [of ?y1 b ?s2 backend] by (simp add: init_system_def)
  with 1 have 2: "sched_reachable backend ?y2"
    by (rule sched_next)
  let ?d = "(disp ?y2)\<lparr>sched := set_queue Batch [] ?s2\<rparr>"
  have rcv: "try_recv Batch (disp ?y2) = Some (b, ?d)"
    by (simp add: try_recv_Some)
  have "sched_reachable backend (begin_system b ?d ?y2)"
    by (rule sched_next [OF 2 select_hit [OF _ rcv]]) simp
  moreover have "dpc (begin_system b ?d ?y2) = Running b"
    "r \<in> set (realtime_q (sched (disp (begin_system b ?d ?y2))))"
    "admitted (begin_system b ?d ?y2) = [r, b]"
    by (simp_all add: begin_system_def run_one_begin_def init_system_def Let_def)
  ultimately show ?thesis by blast
qed

theorem select_can_invert_priority_witness:
  "\<exists>y b. sr_class b = Batch \<and> sched_reachable (\<lambda>_ _. Inr []) y \<and> dpc y = Running b \<and>
     realtime_q (sched (disp y)) \<noteq> []"
proof -
  let ?req = "\<lambda>c. \<lparr>sr_id = 1, sr_workload = Vad, sr_inputs = [], sr_class = c, sr_queued_at = 0,
    sr_deadline = None, sr_cancel = 0\<rparr>"
  show ?thesis
    using select_can_invert_priority [of "?req Realtime" "?req Batch" "\<lambda>_ _. Inr []"]
    by (metis SchedRequest.select_convs(4) empty_iff empty_set)
qed

text \<open>
  Admission: a class that rejects never blocks its caller, and one that delays is never
  refused for load; a full queue of a rejecting class answers \<open>Overloaded\<close> with the class,
  its cap and the retry hint; anything but admission leaves the queues as they were.
\<close>

theorem admit_policy:
  assumes "receivers_alive s" "c = sr_class req" "q = sender_for s c"
  shows "admit req s =
    (if length q < queue_cap c then (Admitted, set_queue c (q @ [req]) s)
     else if c \<in> {Realtime, Interactive} then (Refused (AeOverloaded c (queue_cap c) 200), s)
     else (Blocks, s))"
  using assms
  by (cases "sr_class req") (simp_all add: admit_def Let_def OVERLOADED_RETRY_AFTER_MS_def)

theorem admit_policy_witness:
  "fst (admit \<lparr>sr_id = 1, sr_workload = Vad, sr_inputs = [], sr_class = Realtime, sr_queued_at = 0,
     sr_deadline = None, sr_cancel = 0\<rparr> Scheduler_new) = Admitted"
  using admit_policy [of Scheduler_new Realtime "\<lparr>sr_id = 1, sr_workload = Vad, sr_inputs = [],
     sr_class = Realtime, sr_queued_at = 0, sr_deadline = None, sr_cancel = 0\<rparr>" "[]"]
  by (simp add: Scheduler_new_def CAP_REALTIME_def)

text \<open>
  The watchdog cancels an inflight request exactly when it has run for at least the
  threshold, a strictly higher class has work waiting and this request was not the last one
  it cancelled. So a \<open>Realtime\<close> request is never preempted, and a request that stays
  inflight is cancelled at most once however often the watchdog looks.
\<close>

theorem watchdog_preempts_correctly:
  "(hard_escape_tick now l d = (Some (k, i), l') \<longleftrightarrow>
     (\<exists>info. inflight d = Some info \<and> k = if_workload info \<and> i = if_request_id info \<and> l' = Some i \<and>
        l \<noteq> Some i \<and> 200 \<le> now - if_started_at info \<and>
        (\<exists>c' < if_class info. sender_for (sched d) c' \<noteq> [])))
   \<and> ((\<forall>(now, d) \<in> set obs. map_option if_request_id (inflight d) = Some i) \<longrightarrow>
       length (hard_escape_ticks l obs) \<le> 1)"
proof (intro conjI impI)
  show "hard_escape_tick now l d = (Some (k, i), l') \<longleftrightarrow>
     (\<exists>info. inflight d = Some info \<and> k = if_workload info \<and> i = if_request_id info \<and> l' = Some i \<and>
        l \<noteq> Some i \<and> 200 \<le> now - if_started_at info \<and>
        (\<exists>c' < if_class info. sender_for (sched d) c' \<noteq> []))"
    by (simp add: hard_escape_tick_fires HARD_ESCAPE_THRESHOLD_def)
next
  assume "\<forall>(now, d) \<in> set obs. map_option if_request_id (inflight d) = Some i"
  then show "length (hard_escape_ticks l obs) \<le> 1"
  proof (induction obs arbitrary: l)
    case (Cons o1 obs)
    obtain t d1 where o1: "o1 = (t, d1)" by fastforce
    have i: "map_option if_request_id (inflight d1) = Some i"
      using Cons.prems o1 by simp
    show ?case
    proof (cases "hard_escape_tick t l d1")
      case (Pair fired l2)
      show ?thesis
      proof (cases fired)
        case None
        with Pair Cons show ?thesis by (simp add: o1)
      next
        case (Some kj)
        obtain k2 j where kj: "kj = (k2, j)" by fastforce
        with Pair Some i have "l2 = Some i"
          by (auto simp: hard_escape_tick_fires)
        then have "hard_escape_ticks l2 obs = []"
          using Cons.prems by (simp add: hard_escape_ticks_quiet)
        with Pair Some show ?thesis by (simp add: o1)
      qed
    qed
  qed simp
qed

theorem watchdog_preempts_correctly_witness:
  "let info = \<lparr>if_request_id = 9, if_workload = Embed, if_class = Background, if_started_at = 0\<rparr>;
       req = \<lparr>sr_id = 1, sr_workload = Vad, sr_inputs = [], sr_class = Realtime, sr_queued_at = 0,
              sr_deadline = None, sr_cancel = 0\<rparr>;
       d = (disp init_system)\<lparr>inflight := Some info, sched := Scheduler_new\<lparr>realtime_q := [req]\<rparr>\<rparr> in
   hard_escape_tick 250 None d = (Some (Embed, 9), Some 9) \<and>
   length (hard_escape_ticks None [(250, d), (300, d), (350, d)]) \<le> 1"
proof -
  let ?info = "\<lparr>if_request_id = 9, if_workload = Embed, if_class = Background, if_started_at = 0\<rparr>"
  let ?req = "\<lparr>sr_id = 1, sr_workload = Vad, sr_inputs = [], sr_class = Realtime, sr_queued_at = 0,
              sr_deadline = None, sr_cancel = 0\<rparr>"
  let ?d = "(disp init_system)\<lparr>inflight := Some ?info, sched := Scheduler_new\<lparr>realtime_q := [?req]\<rparr>\<rparr>"
  have "\<exists>c' < Background. sender_for (sched ?d) c' \<noteq> []"
    by (simp add: Priority_ex)
  moreover have "\<forall>(now, d) \<in> set [(250, ?d), (300, ?d), (350, ?d)]. map_option if_request_id (inflight d) = Some 9"
    by simp
  ultimately show ?thesis
    unfolding Let_def
    using watchdog_preempts_correctly [of 250 None ?d Embed 9 "Some 9" "[(250, ?d), (300, ?d), (350, ?d)]"]
    by (intro conjI) (simp, blast)
qed

end
