(* ===== verification/Ring.thy ===== *)
theory Ring
  imports Core_Vocab
begin

text \<open>
  The history ring of the monitor (\<open>crates/sy-core/src/mon/ring.rs\<close>): a fixed grid of
  \<open>n_secs\<close> rows of \<open>n_metrics\<close> floats in a file behind a 56-byte header, written by one
  process under an exclusive lock and read by others. The model keeps the file as its
  bytes, so that the mapped grid and the header are the same storage that a second open
  sees. An \<open>f32\<close> is its bit pattern, stored little-endian (the host order the code relies
  on). Arithmetic on \<open>u64\<close> and \<open>usize\<close> wraps, as in a release build. Failures of the file
  system other than a missing file and a held lock are not modelled.
\<close>

definition MAGIC :: "byte list" where
  "MAGIC = [115, 121, 45, 109, 111, 110, 45, 114, 105, 110, 103, 45, 118, 49] @ replicate 18 0"

definition HEADER_LEN :: nat where "HEADER_LEN = 56"
definition OFF_SEQ :: nat where "OFF_SEQ = 32"
definition OFF_N_SECS :: nat where "OFF_N_SECS = 40"
definition OFF_HEAD :: nat where "OFF_HEAD = 48"

datatype ring_error =
    ZeroShape | NoFile | LockHeld | WrongSize | ShortRead | BadMagic | CorruptShape
  | ShapeMismatch | BadRow | BadIndex | BusFault

text \<open>The file at the ring's path (\<open>None\<close>: absent) and whether some process holds its lock.\<close>

record RingFs =
  contents :: "byte list option"
  lock_held :: bool

record Ring =
  owns_lock :: bool
  n_secs :: u32
  n_metrics :: u32
  head :: u64
  seq :: u64

section \<open>Header\<close>

definition expected_len :: "u32 \<Rightarrow> u32 \<Rightarrow> u64" where
  "expected_len ns nm = of_nat HEADER_LEN + ucast ns * ucast nm * 4"

text \<open>A positioned write; writing past the end fills the gap with zeros.\<close>

definition pwrite :: "nat \<Rightarrow> byte list \<Rightarrow> byte list \<Rightarrow> byte list" where
  "pwrite off bs f = splice_at off bs (f @ replicate (off + length bs - length f) 0)"

definition init_file :: "u32 \<Rightarrow> u32 \<Rightarrow> u64 \<Rightarrow> byte list" where
  "init_file ns nm tot =
     pwrite 0 (MAGIC @ u64_to_le_bytes 0 @ u32_to_le_bytes ns @ u32_to_le_bytes nm @ u64_to_le_bytes 0)
       (replicate (unat tot) 0)"

definition read_header :: "byte list \<Rightarrow> ring_error + (u64 \<times> u32 \<times> u32 \<times> u64)" where
  "read_header f =
     (if length f < 32 then Inl ShortRead
      else if take 32 f \<noteq> MAGIC then Inl BadMagic
      else if length f < HEADER_LEN then Inl ShortRead
      else (let sq = u64_from_le_bytes (slice_at 32 8 f);
                ns = u32_from_le_bytes (slice_at 40 4 f);
                nm = u32_from_le_bytes (slice_at 44 4 f);
                hdv = u64_from_le_bytes (slice_at 48 8 f) in
            if ns = 0 \<or> nm = 0 then Inl CorruptShape else Inr (sq, ns, nm, hdv)))"

definition write_header :: "u64 \<Rightarrow> u32 \<Rightarrow> u32 \<Rightarrow> u64 \<Rightarrow> byte list \<Rightarrow> byte list" where
  "write_header sq ns nm hdv f =
     pwrite OFF_HEAD (u64_to_le_bytes hdv)
       (pwrite OFF_N_SECS (u32_to_le_bytes ns @ u32_to_le_bytes nm)
         (pwrite OFF_SEQ (u64_to_le_bytes sq) f))"

section \<open>Opening\<close>

text \<open>
  \<open>attach\<close>: what \<open>open\<close> and \<open>open_attach\<close> do once the file has the right size.
\<close>

definition check_header :: "bool \<Rightarrow> u32 \<Rightarrow> u32 \<Rightarrow> byte list \<Rightarrow> ring_error + Ring" where
  "check_header owns ns nm f =
     try_bind (read_header f) (\<lambda>(sq, dns, dnm, hdv).
       if dns \<noteq> ns \<or> dnm \<noteq> nm then Inl ShapeMismatch
       else Inr \<lparr>owns_lock = owns, n_secs = ns, n_metrics = nm, head = hdv, seq = sq\<rparr>)"

text \<open>A failing \<open>open\<close> releases the lock it took; a successful one keeps it.\<close>

definition ring_open :: "u32 \<Rightarrow> u32 \<Rightarrow> RingFs \<Rightarrow> (ring_error + Ring) \<times> RingFs" where
  "ring_open ns nm fs =
     (if ns = 0 \<or> nm = 0 then (Inl ZeroShape, fs)
      else (let tot = expected_len ns nm;
                f0 = (case contents fs of None \<Rightarrow> [] | Some f \<Rightarrow> f);
                fs0 = fs\<lparr>contents := Some f0\<rparr> in
            if lock_held fs0 then (Inl LockHeld, fs0)
            else if f0 \<noteq> [] \<and> length f0 \<noteq> unat tot then (Inl WrongSize, fs0)
            else (let f1 = (if f0 = [] then init_file ns nm tot else f0);
                      fs1 = fs0\<lparr>contents := Some f1\<rparr> in
                  case check_header True ns nm f1 of
                    Inl e \<Rightarrow> (Inl e, fs1)
                  | Inr r \<Rightarrow> (Inr r, fs1\<lparr>lock_held := True\<rparr>))))"

definition open_attach :: "u32 \<Rightarrow> u32 \<Rightarrow> RingFs \<Rightarrow> ring_error + Ring" where
  "open_attach ns nm fs =
     (if ns = 0 \<or> nm = 0 then Inl ZeroShape
      else (case contents fs of
              None \<Rightarrow> Inl NoFile
            | Some f \<Rightarrow> if length f \<noteq> unat (expected_len ns nm) then Inl WrongSize
                        else check_header False ns nm f))"

definition open_or_rebuild :: "u32 \<Rightarrow> u32 \<Rightarrow> RingFs \<Rightarrow> (ring_error + Ring) \<times> RingFs" where
  "open_or_rebuild ns nm fs =
     (case ring_open ns nm fs of
        (Inr r, fs') \<Rightarrow> (Inr r, fs')
      | (Inl _, fs') \<Rightarrow> ring_open ns nm (fs'\<lparr>contents := Some []\<rparr>))"

definition drop_ring :: "Ring \<Rightarrow> RingFs \<Rightarrow> RingFs" where
  "drop_ring r fs = (if owns_lock r then fs\<lparr>lock_held := False\<rparr> else fs)"

section \<open>Writing and reading rows\<close>

definition row_bytes :: "Ring \<Rightarrow> nat" where
  "row_bytes r = unat (n_metrics r) * 4"

definition bytemuck_cast :: "f32 list \<Rightarrow> byte list" where
  "bytemuck_cast row = concat (map u32_to_le_bytes row)"

text \<open>
  An access to the mapped grid faults when the file no longer reaches that far (it was
  truncated behind the mapping).
\<close>

definition grid_write :: "nat \<Rightarrow> byte list \<Rightarrow> byte list \<Rightarrow> ring_error + byte list" where
  "grid_write off bs f =
     (if HEADER_LEN + off + length bs \<le> length f then Inr (splice_at (HEADER_LEN + off) bs f)
      else Inl BusFault)"

definition grid_read :: "nat \<Rightarrow> nat \<Rightarrow> byte list \<Rightarrow> ring_error + byte list" where
  "grid_read off n f =
     (if HEADER_LEN + off + n \<le> length f then Inr (slice_at (HEADER_LEN + off) n f) else Inl BusFault)"

text \<open>The first half of \<open>push\<close>: the row goes into the grid, the header is untouched.\<close>

definition push_grid :: "f32 list \<Rightarrow> Ring \<Rightarrow> byte list \<Rightarrow> ring_error + byte list" where
  "push_grid row r f =
     (if length row \<noteq> unat (n_metrics r) then Inl BadRow
      else (let slot = unat (head r) mod unat (n_secs r); off = slot * row_bytes r in
            grid_write off (bytemuck_cast row) f))"

definition push :: "f32 list \<Rightarrow> Ring \<Rightarrow> byte list \<Rightarrow> ring_error + Ring \<times> byte list" where
  "push row r f =
     try_bind (push_grid row r f) (\<lambda>f1.
       let r1 = r\<lparr>head := head r + 1, seq := seq r + 1\<rparr> in
       Inr (r1, write_header (seq r1) (n_secs r1) (n_metrics r1) (head r1) f1))"

definition read_metric :: "nat \<Rightarrow> nat \<Rightarrow> Ring \<Rightarrow> byte list \<Rightarrow> ring_error + f32 list" where
  "read_metric idx up_to r f =
     (if idx \<ge> unat (n_metrics r) then Inl BadIndex
      else (let cap = unat (n_secs r); total_pushed = unat (head r);
                available = min total_pushed cap; want = min up_to available in
            if want = 0 then Inr []
            else (let start_slot = unat (of_nat total_pushed + of_nat cap - of_nat want :: u64) mod cap in
                  try_map (\<lambda>i. let slot = (start_slot + i) mod cap;
                                   off = slot * row_bytes r + idx * 4 in
                             map_sum id u32_from_le_bytes (grid_read off 4 f))
                    [0..<want])))"

section \<open>The header on disk\<close>

definition ring_fits :: "u32 \<Rightarrow> u32 \<Rightarrow> bool" where
  "ring_fits ns nm \<longleftrightarrow> ns \<noteq> 0 \<and> nm \<noteq> 0 \<and> HEADER_LEN + unat ns * unat nm * 4 < 2 ^ 64"

definition header_bytes :: "Ring \<Rightarrow> byte list" where
  "header_bytes r = u64_to_le_bytes (seq r) @ u32_to_le_bytes (n_secs r)
     @ u32_to_le_bytes (n_metrics r) @ u64_to_le_bytes (head r)"

definition file_ok :: "Ring \<Rightarrow> byte list \<Rightarrow> bool" where
  "file_ok r f \<longleftrightarrow> ring_fits (n_secs r) (n_metrics r) \<and>
     length f = HEADER_LEN + unat (n_secs r) * unat (n_metrics r) * 4 \<and>
     take 32 f = MAGIC \<and> slice_at 32 24 f = header_bytes r"

lemma length_MAGIC [simp]: "length MAGIC = 32"
  by (simp add: MAGIC_def)

lemma length_header_bytes [simp]: "length (header_bytes r) = 24"
  by (simp add: header_bytes_def)

lemma expected_len_unat:
  assumes "ring_fits ns nm"
  shows "unat (expected_len ns nm) = HEADER_LEN + unat ns * unat nm * 4"
proof -
  have e: "expected_len ns nm = of_nat (HEADER_LEN + unat ns * unat nm * 4)"
    by (simp add: expected_len_def)
  have "HEADER_LEN + unat ns * unat nm * 4 < 2 ^ 64"
    using assms by (simp add: ring_fits_def)
  then show ?thesis
    unfolding e by (subst unat_of_nat) (simp add: take_bit_nat_eq_self)
qed

lemma pwrite_inside: "off + length bs \<le> length f \<Longrightarrow> pwrite off bs f = splice_at off bs f"
  by (simp add: pwrite_def)

lemma write_header_eq:
  assumes "HEADER_LEN \<le> length f"
  shows "write_header sq ns nm hdv f =
    splice_at 32 (u64_to_le_bytes sq @ u32_to_le_bytes ns @ u32_to_le_bytes nm @ u64_to_le_bytes hdv) f"
  using assms
  by (simp add: write_header_def pwrite_inside splice_at_adjacent HEADER_LEN_def OFF_SEQ_def
      OFF_N_SECS_def OFF_HEAD_def)

lemma header_slices:
  assumes "slice_at 32 24 f = header_bytes r"
  shows "slice_at 32 8 f = u64_to_le_bytes (seq r)" "slice_at 40 4 f = u32_to_le_bytes (n_secs r)"
    "slice_at 44 4 f = u32_to_le_bytes (n_metrics r)" "slice_at 48 8 f = u64_to_le_bytes (head r)"
proof -
  have cut: "slice_at (32 + p) k f = slice_at p k (header_bytes r)" if "p + k \<le> 24" for p k
    using slice_at_slice_at [OF that, of 32 f] assms by simp
  show "slice_at 32 8 f = u64_to_le_bytes (seq r)"
    using cut [of 0 8] by (simp add: header_bytes_def slice_at_def)
  show "slice_at 40 4 f = u32_to_le_bytes (n_secs r)"
    using cut [of 8 4] by (simp add: header_bytes_def slice_at_def)
  show "slice_at 44 4 f = u32_to_le_bytes (n_metrics r)"
    using cut [of 12 4] by (simp add: header_bytes_def slice_at_def)
  show "slice_at 48 8 f = u64_to_le_bytes (head r)"
    using cut [of 16 8] by (simp add: header_bytes_def slice_at_def)
qed

lemma read_header_ok:
  assumes "file_ok r f"
  shows "read_header f = Inr (seq r, n_secs r, n_metrics r, head r)"
proof -
  from assms have len: "HEADER_LEN \<le> length f" and m: "take 32 f = MAGIC"
    and h: "slice_at 32 24 f = header_bytes r" and nz: "n_secs r \<noteq> 0" "n_metrics r \<noteq> 0"
    by (simp_all add: file_ok_def ring_fits_def)
  show ?thesis
    using len m nz header_slices [OF h]
    by (simp add: read_header_def HEADER_LEN_def wire_simps)
qed

lemma check_header_ok:
  "file_ok r f \<Longrightarrow> check_header b (n_secs r) (n_metrics r) f = Inr (r\<lparr>owns_lock := b\<rparr>)"
  by (simp add: check_header_def read_header_ok)

lemma init_file_ok:
  assumes "ring_fits ns nm"
  shows "file_ok \<lparr>owns_lock = b, n_secs = ns, n_metrics = nm, head = 0, seq = 0\<rparr>
           (init_file ns nm (expected_len ns nm))"
proof -
  let ?n = "unat (expected_len ns nm)"
  let ?z = "replicate ?n (0 :: byte)"
  let ?r = "\<lparr>owns_lock = b, n_secs = ns, n_metrics = nm, head = 0, seq = 0\<rparr>"
  have n: "?n = HEADER_LEN + unat ns * unat nm * 4"
    using assms by (rule expected_len_unat)
  have f: "init_file ns nm (expected_len ns nm) = splice_at 0 (MAGIC @ header_bytes ?r) ?z"
    using n by (simp add: init_file_def header_bytes_def pwrite_inside HEADER_LEN_def)
  have len: "length (splice_at 0 (MAGIC @ header_bytes ?r) ?z) = ?n"
    using n by (simp add: HEADER_LEN_def)
  have "take 32 (splice_at 0 (MAGIC @ header_bytes ?r) ?z) = MAGIC"
    by (simp add: splice_at_def)
  moreover have "slice_at 32 24 (splice_at 0 (MAGIC @ header_bytes ?r) ?z) = header_bytes ?r"
    by (simp add: splice_at_def slice_at_def)
  ultimately show ?thesis
    using assms n len by (simp add: file_ok_def f)
qed

section \<open>Representation of a history\<close>

definition grid_row :: "Ring \<Rightarrow> byte list \<Rightarrow> nat \<Rightarrow> byte list" where
  "grid_row r f k = slice_at (HEADER_LEN + k * row_bytes r) (row_bytes r) f"

text \<open>
  \<open>hist\<close> is every row pushed since the file was created; the last \<open>w\<close> of them (or all, if
  there are fewer) are in the grid, row \<open>j\<close> in slot \<open>j mod n_secs\<close>.
\<close>

definition ring_rep :: "nat \<Rightarrow> Ring \<Rightarrow> byte list \<Rightarrow> f32 list list \<Rightarrow> bool" where
  "ring_rep w r f hist \<longleftrightarrow> file_ok r f \<and> w \<le> unat (n_secs r) \<and>
     (\<forall>row \<in> set hist. length row = unat (n_metrics r)) \<and>
     length hist < 2 ^ 63 \<and> head r = of_nat (length hist) \<and>
     (\<forall>j < length hist. length hist \<le> j + w \<longrightarrow>
        grid_row r f (j mod unat (n_secs r)) = bytemuck_cast (hist ! j))"

lemma length_bytemuck_cast [simp]: "length (bytemuck_cast row) = length row * 4"
  by (simp add: bytemuck_cast_def length_concat_map_const)

lemma slice_bytemuck_cast:
  "i < length row \<Longrightarrow> slice_at (i * 4) 4 (bytemuck_cast row) = u32_to_le_bytes (row ! i)"
  unfolding bytemuck_cast_def by (rule slice_at_concat) simp_all

lemma rep_head: "ring_rep w r f hist \<Longrightarrow> unat (head r) = length hist"
  by (simp add: ring_rep_def unat_of_nat take_bit_nat_eq_self)

lemma slot_inside:
  assumes "k < ns"
  shows "k * (nm * 4) + nm * 4 \<le> ns * nm * (4 :: nat)"
proof -
  have "Suc k * (nm * 4) \<le> ns * (nm * 4)"
    using assms by (intro mult_le_mono1) simp
  then show ?thesis by (simp add: algebra_simps)
qed

lemma rows_disjoint:
  assumes "j \<noteq> k"
  shows "HEADER_LEN + j * b + b \<le> HEADER_LEN + k * b \<or> HEADER_LEN + k * b + b \<le> HEADER_LEN + j * (b :: nat)"
proof -
  consider "Suc j \<le> k" | "Suc k \<le> j"
    using assms by linarith
  then show ?thesis
  proof cases
    case 1
    from mult_le_mono1 [OF this, of b] show ?thesis by (simp add: algebra_simps)
  next
    case 2
    from mult_le_mono1 [OF this, of b] show ?thesis by (simp add: algebra_simps)
  qed
qed

lemma rep_row_inside:
  assumes "file_ok r f" "k < unat (n_secs r)"
  shows "HEADER_LEN + k * row_bytes r + row_bytes r \<le> length f"
  using assms slot_inside [of k "unat (n_secs r)" "unat (n_metrics r)"]
  by (simp add: file_ok_def row_bytes_def)

lemma push_grid_ok:
  assumes rep: "ring_rep w r f hist" and row: "length row = unat (n_metrics r)"
  shows "push_grid row r f =
    Inr (splice_at (HEADER_LEN + (length hist mod unat (n_secs r)) * row_bytes r) (bytemuck_cast row) f)"
proof -
  have ok: "file_ok r f"
    using rep by (simp add: ring_rep_def)
  then have "0 < unat (n_secs r)"
    by (simp add: file_ok_def ring_fits_def unat_gt_0)
  then have "length hist mod unat (n_secs r) < unat (n_secs r)"
    by simp
  from rep_row_inside [OF ok this] show ?thesis
    using row rep_head [OF rep] by (simp add: push_grid_def grid_write_def row_bytes_def Let_def)
qed

text \<open>The grid write alone: the header stays, and every other slot stays.\<close>

lemma push_grid_file:
  assumes rep: "ring_rep w r f hist" and row: "length row = unat (n_metrics r)"
    and f1: "push_grid row r f = Inr f1"
  shows "file_ok r f1"
    and "grid_row r f1 (length hist mod unat (n_secs r)) = bytemuck_cast row"
    and "k < unat (n_secs r) \<Longrightarrow> k \<noteq> length hist mod unat (n_secs r) \<Longrightarrow> grid_row r f1 k = grid_row r f k"
proof -
  let ?s = "length hist mod unat (n_secs r)"
  let ?off = "HEADER_LEN + ?s * row_bytes r"
  have ok: "file_ok r f"
    using rep by (simp add: ring_rep_def)
  then have s: "?s < unat (n_secs r)"
    by (simp add: file_ok_def ring_fits_def unat_gt_0)
  have f1': "f1 = splice_at ?off (bytemuck_cast row) f"
    using push_grid_ok [OF rep row] f1 by simp
  have len: "length (bytemuck_cast row) = row_bytes r"
    using row by (simp add: row_bytes_def)
  have inside: "?off + row_bytes r \<le> length f"
    using rep_row_inside [OF ok s] .
  have "take 32 f1 = take 32 f" "slice_at 32 24 f1 = slice_at 32 24 f"
    using slice_splice_disjoint [of ?off "bytemuck_cast row" f 0 32]
      slice_splice_disjoint [of ?off "bytemuck_cast row" f 32 24] inside len
    by (simp_all add: f1' slice_at_def HEADER_LEN_def)
  then show "file_ok r f1"
    using ok inside len by (simp add: file_ok_def f1')
  show "grid_row r f1 ?s = bytemuck_cast row"
    using slice_splice_same [of ?off "bytemuck_cast row" f] inside len
    by (simp add: grid_row_def f1')
  show "grid_row r f1 k = grid_row r f k" if "k < unat (n_secs r)" "k \<noteq> ?s"
    using slice_splice_disjoint [of ?off "bytemuck_cast row" f "HEADER_LEN + k * row_bytes r" "row_bytes r"]
      inside len rep_row_inside [OF ok that(1)] rows_disjoint [OF that(2), of "row_bytes r"]
    by (simp add: grid_row_def f1')
qed

lemma write_header_file:
  assumes "file_ok r f" "n_secs r' = n_secs r" "n_metrics r' = n_metrics r"
  shows "file_ok r' (write_header (seq r') (n_secs r') (n_metrics r') (head r') f)"
    and "k < unat (n_secs r) \<Longrightarrow>
      grid_row r' (write_header (seq r') (n_secs r') (n_metrics r') (head r') f) k = grid_row r f k"
proof -
  have len: "HEADER_LEN \<le> length f"
    using assms(1) by (simp add: file_ok_def)
  have eq: "write_header (seq r') (n_secs r') (n_metrics r') (head r') f = splice_at 32 (header_bytes r') f"
    using len by (simp add: write_header_eq header_bytes_def)
  have "take 32 (splice_at 32 (header_bytes r') f) = take 32 f"
    using len by (simp add: splice_at_def HEADER_LEN_def)
  moreover have "slice_at 32 24 (splice_at 32 (header_bytes r') f) = header_bytes r'"
    using slice_splice_same [of 32 "header_bytes r'" f] len by (simp add: HEADER_LEN_def)
  ultimately show "file_ok r' (write_header (seq r') (n_secs r') (n_metrics r') (head r') f)"
    unfolding eq using assms len by (simp add: file_ok_def HEADER_LEN_def)
  show "grid_row r' (write_header (seq r') (n_secs r') (n_metrics r') (head r') f) k = grid_row r f k"
    if "k < unat (n_secs r)"
    unfolding eq
    using slice_splice_disjoint [of 32 "header_bytes r'" f "HEADER_LEN + k * row_bytes r" "row_bytes r"]
      rep_row_inside [OF assms(1) that] len assms(3)
    by (simp add: grid_row_def row_bytes_def HEADER_LEN_def)
qed

lemma mod_slots_differ:
  assumes "j < n" "n < j + c" "0 < (c :: nat)"
  shows "j mod c \<noteq> n mod c"
proof
  assume "j mod c = n mod c"
  then have "c dvd n - j"
    using assms(1) by (metis less_or_eq_imp_le mod_eq_dvd_iff_nat)
  moreover have "0 < n - j" "n - j < c"
    using assms by auto
  ultimately show False
    by (simp add: nat_dvd_not_less)
qed

lemma rep_old_rows:
  assumes rep: "ring_rep w r f hist" and row: "length row = unat (n_metrics r)"
    and f1: "push_grid row r f = Inr f1"
    and j: "j < length hist" "length hist \<le> j + w" "length hist < j + unat (n_secs r)"
  shows "grid_row r f1 (j mod unat (n_secs r)) = bytemuck_cast (hist ! j)"
proof -
  have c: "0 < unat (n_secs r)"
    using rep by (simp add: ring_rep_def file_ok_def ring_fits_def unat_gt_0)
  have "j mod unat (n_secs r) \<noteq> length hist mod unat (n_secs r)"
    using mod_slots_differ [OF j(1,3) c] .
  then have "grid_row r f1 (j mod unat (n_secs r)) = grid_row r f (j mod unat (n_secs r))"
    using push_grid_file(3) [OF rep row f1] c by simp
  with rep j show ?thesis
    by (simp add: ring_rep_def)
qed

text \<open>A whole push appends to the history.\<close>

lemma push_rep:
  assumes rep: "ring_rep (unat (n_secs r)) r f hist" and row: "length row = unat (n_metrics r)"
    and room: "Suc (length hist) < 2 ^ 63"
  obtains r1 f1 where "push row r f = Inr (r1, f1)" "ring_rep (unat (n_secs r)) r1 f1 (hist @ [row])"
    "n_secs r1 = n_secs r" "n_metrics r1 = n_metrics r" "seq r1 = seq r + 1" "owns_lock r1 = owns_lock r"
proof -
  obtain g where g: "push_grid row r f = Inr g"
    using push_grid_ok [OF rep row] by simp
  let ?r = "r\<lparr>head := head r + 1, seq := seq r + 1\<rparr>"
  let ?f = "write_header (seq ?r) (n_secs ?r) (n_metrics ?r) (head ?r) g"
  have p: "push row r f = Inr (?r, ?f)"
    by (simp add: push_def g Let_def)
  have c: "0 < unat (n_secs r)"
    using rep by (simp add: ring_rep_def file_ok_def ring_fits_def unat_gt_0)
  note ok = push_grid_file(1) [OF rep row g]
  have hdr: "file_ok ?r ?f"
    using write_header_file(1) [OF ok, of ?r] by simp
  have grid: "grid_row ?r ?f k = grid_row r g k" if "k < unat (n_secs r)" for k
    using write_header_file(2) [OF ok, of ?r k] that by simp
  have rows: "grid_row ?r ?f (j mod unat (n_secs r)) = bytemuck_cast ((hist @ [row]) ! j)"
    if j: "j < Suc (length hist)" "Suc (length hist) \<le> j + unat (n_secs r)" for j
  proof (cases "j = length hist")
    case True
    then show ?thesis
      using push_grid_file(2) [OF rep row g] grid c by simp
  next
    case False
    with j have "j < length hist" "length hist \<le> j + unat (n_secs r)" "length hist < j + unat (n_secs r)"
      by auto
    from rep_old_rows [OF rep row g this] show ?thesis
      using grid c \<open>j < length hist\<close> by (simp add: nth_append)
  qed
  have "ring_rep (unat (n_secs r)) ?r ?f (hist @ [row])"
    using rep row room hdr rows by (auto simp: ring_rep_def)
  with p show thesis
    by (rule that) simp_all
qed

text \<open>A read returns the newest rows of the window, oldest first.\<close>

lemma start_slot_eq:
  assumes "want \<le> len" "want \<le> cap" "len < 2 ^ 63" "cap < 2 ^ 32" "0 < cap"
  shows "(unat (of_nat len + of_nat cap - of_nat want :: u64) mod cap + i) mod cap
    = (len - want + i) mod cap"
proof -
  have e: "(of_nat len + of_nat cap - of_nat want :: u64) = of_nat (len + cap - want)"
    using assms by (simp add: of_nat_diff)
  have "len + cap - want < 2 ^ 64"
    using assms by simp
  then have u: "unat (of_nat len + of_nat cap - of_nat want :: u64) = len + cap - want"
    unfolding e by (subst unat_of_nat) (simp add: take_bit_nat_eq_self)
  have k: "len + cap - want + i = len - want + i + cap"
    using assms(1) by simp
  show ?thesis
    unfolding u mod_add_left_eq k by simp
qed

lemma read_metric_rep:
  assumes rep: "ring_rep w r f hist" and idx: "idx < unat (n_metrics r)"
    and win: "min up_to (min (length hist) (unat (n_secs r))) \<le> w"
  shows "read_metric idx up_to r f =
    Inr (map (\<lambda>row. row ! idx)
      (drop (length hist - min up_to (min (length hist) (unat (n_secs r)))) hist))"
proof -
  let ?c = "unat (n_secs r)" and ?n = "length hist"
  define want where "want = min up_to (min ?n ?c)"
  have want: "want \<le> ?n" "want \<le> ?c" "want \<le> w"
    using win by (simp_all add: want_def)
  have ok: "file_ok r f" and small: "?n < 2 ^ 63"
    using rep by (simp_all add: ring_rep_def)
  have c: "0 < ?c" "?c < 2 ^ 32"
    using ok unsigned_less [of "n_secs r", where ?'a = nat]
    by (simp_all add: file_ok_def ring_fits_def unat_gt_0)
  have cell: "map_sum id u32_from_le_bytes (grid_read (((len + i) mod ?c) * row_bytes r + idx * 4) 4 f)
      = Inr (hist ! (len + i) ! idx)"
    if len: "len = ?n - want" and i: "i < want" for i len
  proof -
    let ?j = "len + i"
    have j: "?j < ?n" "?n \<le> ?j + w"
      using want i len by auto
    have row: "grid_row r f (?j mod ?c) = bytemuck_cast (hist ! ?j)"
      using rep j by (simp add: ring_rep_def)
    have rl: "length (hist ! ?j) = unat (n_metrics r)"
      using rep j(1) by (simp add: ring_rep_def)
    have in_row: "idx * 4 + 4 \<le> row_bytes r"
      using idx by (simp add: row_bytes_def)
    have inside: "HEADER_LEN + (?j mod ?c) * row_bytes r + row_bytes r \<le> length f"
      using rep_row_inside [OF ok, of "?j mod ?c"] c by simp
    have "slice_at (HEADER_LEN + (?j mod ?c) * row_bytes r + idx * 4) 4 f = u32_to_le_bytes (hist ! ?j ! idx)"
      using slice_at_slice_at [OF in_row, of "HEADER_LEN + (?j mod ?c) * row_bytes r" f] row idx rl
      by (simp add: grid_row_def slice_bytemuck_cast)
    then show ?thesis
      using inside in_row by (simp add: grid_read_def wire_simps add.assoc)
  qed
  have hd: "unat (head r) = ?n"
    using rep by (rule rep_head)
  have cells: "try_map (\<lambda>i. map_sum id u32_from_le_bytes
        (grid_read (((unat (of_nat ?n + of_nat ?c - of_nat want :: u64) mod ?c + i) mod ?c) * row_bytes r + idx * 4) 4 f))
        [0..<want] = Inr (map (\<lambda>i. hist ! (?n - want + i) ! idx) [0..<want])"
    using start_slot_eq [OF want(1,2) small c(2,1)] cell by (intro try_map_all) simp
  have "map (\<lambda>i. hist ! (?n - want + i) ! idx) [0..<want] = map (\<lambda>row. row ! idx) (drop (?n - want) hist)"
    using want(1) by (intro nth_equalityI) simp_all
  then show ?thesis
    using idx cells
    by (simp add: read_metric_def hd Let_def min.commute flip: want_def)
qed

fun push_all :: "f32 list list \<Rightarrow> Ring \<Rightarrow> byte list \<Rightarrow> ring_error + Ring \<times> byte list" where
  "push_all [] r f = Inr (r, f)"
| "push_all (row # rows) r f = try_bind (push row r f) (\<lambda>(r1, f1). push_all rows r1 f1)"

lemma push_all_rep:
  assumes "ring_rep (unat (n_secs r)) r f hist"
    and "\<forall>row \<in> set rows. length row = unat (n_metrics r)"
    and "length hist + length rows < 2 ^ 63"
  shows "\<exists>r1 f1. push_all rows r f = Inr (r1, f1) \<and> ring_rep (unat (n_secs r)) r1 f1 (hist @ rows) \<and>
    n_secs r1 = n_secs r \<and> n_metrics r1 = n_metrics r"
  using assms
proof (induction rows arbitrary: r f hist)
  case (Cons row rows)
  obtain r1 f1 where 1: "push row r f = Inr (r1, f1)" "ring_rep (unat (n_secs r)) r1 f1 (hist @ [row])"
    "n_secs r1 = n_secs r" "n_metrics r1 = n_metrics r"
  proof (rule push_rep [OF Cons.prems(1), of row])
    show "length row = unat (n_metrics r)" "Suc (length hist) < 2 ^ 63"
      using Cons.prems(2,3) by simp_all
  qed
  show ?case
    using Cons.IH [of r1 f1 "hist @ [row]"] 1 Cons.prems(2,3) by simp
qed auto

lemma fresh_rep:
  assumes "ring_fits ns nm"
  shows "ring_rep (unat ns) \<lparr>owns_lock = b, n_secs = ns, n_metrics = nm, head = 0, seq = 0\<rparr>
    (init_file ns nm (expected_len ns nm)) []"
  using init_file_ok [OF assms] by (simp add: ring_rep_def)

lemma ring_open_fresh:
  assumes "ring_fits ns nm" "contents fs = None \<or> contents fs = Some []" "\<not> lock_held fs"
  shows "ring_open ns nm fs =
    (Inr \<lparr>owns_lock = True, n_secs = ns, n_metrics = nm, head = 0, seq = 0\<rparr>,
     fs\<lparr>contents := Some (init_file ns nm (expected_len ns nm)), lock_held := True\<rparr>)"
  using assms check_header_ok [OF init_file_ok [OF assms(1), of True], of True]
  by (auto simp: ring_open_def ring_fits_def Let_def)

lemma file_ok_nonempty: "file_ok r f \<Longrightarrow> f \<noteq> []"
  by (auto simp: file_ok_def HEADER_LEN_def)

lemma ring_open_existing:
  assumes "file_ok r f" "contents fs = Some f" "\<not> lock_held fs"
  shows "ring_open (n_secs r) (n_metrics r) fs = (Inr (r\<lparr>owns_lock := True\<rparr>), fs\<lparr>lock_held := True\<rparr>)"
proof -
  have fits: "ring_fits (n_secs r) (n_metrics r)"
    using assms(1) by (simp add: file_ok_def)
  have len: "length f = unat (expected_len (n_secs r) (n_metrics r))"
    using assms(1) by (simp add: file_ok_def expected_len_unat)
  show ?thesis
    using assms fits len check_header_ok [OF assms(1), of True] file_ok_nonempty [OF assms(1)]
    by (simp add: ring_open_def ring_fits_def Let_def)
qed

section \<open>Properties\<close>

text \<open>
  C11. The ring is a bounded history: on a new file, after pushing any rows of the right
  width, a read of column \<open>idx\<close> returns that column of the last \<open>min(up_to, pushed,
  n_secs)\<close> rows, oldest first.
\<close>

theorem ring_reads_last_rows:
  assumes "ring_fits ns nm" "\<forall>row \<in> set rows. length row = unat nm" "length rows < 2 ^ 63"
    and "idx < unat nm"
  shows "\<exists>r f. push_all rows \<lparr>owns_lock = True, n_secs = ns, n_metrics = nm, head = 0, seq = 0\<rparr>
             (init_file ns nm (expected_len ns nm)) = Inr (r, f) \<and>
    read_metric idx up_to r f =
      Inr (map (\<lambda>row. row ! idx) (drop (length rows - min up_to (min (length rows) (unat ns))) rows))"
proof -
  let ?r = "\<lparr>owns_lock = True, n_secs = ns, n_metrics = nm, head = 0, seq = 0\<rparr>"
  have rep0: "ring_rep (unat (n_secs ?r)) ?r (init_file ns nm (expected_len ns nm)) []"
    using fresh_rep [OF assms(1), of True] by simp
  obtain r f where p: "push_all rows ?r (init_file ns nm (expected_len ns nm)) = Inr (r, f)"
    and rep: "ring_rep (unat ns) r f rows" and ns: "n_secs r = ns" "n_metrics r = nm"
    using push_all_rep [OF rep0, of rows] assms(2,3) by auto
  show ?thesis
    using p read_metric_rep [OF rep, of idx up_to] assms(4) ns by auto
qed

theorem ring_reads_last_rows_witness:
  "\<exists>r f. push_all [[1], [2], [3]] \<lparr>owns_lock = True, n_secs = 2, n_metrics = 1, head = 0, seq = 0\<rparr>
          (init_file 2 1 (expected_len 2 1)) = Inr (r, f) \<and> read_metric 0 9 r f = Inr [2, 3]"
  using ring_reads_last_rows [of 2 1 "[[1], [2], [3]]" 0 9]
  by (simp add: ring_fits_def HEADER_LEN_def)

text \<open>
  A writer that stops and comes back resumes: opening the file of a ring with history
  \<open>hist\<close> succeeds, restores head and sequence number, and represents the same history; a
  reader attaching without the lock sees it too.
\<close>

theorem ring_reopen_resumes:
  assumes "ring_rep w r f hist" "contents fs = Some f" "\<not> lock_held fs"
  shows "ring_open (n_secs r) (n_metrics r) fs = (Inr (r\<lparr>owns_lock := True\<rparr>), fs\<lparr>lock_held := True\<rparr>) \<and>
    ring_rep w (r\<lparr>owns_lock := True\<rparr>) f hist \<and>
    open_attach (n_secs r) (n_metrics r) (fs\<lparr>lock_held := True\<rparr>) = Inr (r\<lparr>owns_lock := False\<rparr>)"
proof -
  have ok: "file_ok r f"
    using assms(1) by (simp add: ring_rep_def)
  then have fits: "ring_fits (n_secs r) (n_metrics r)"
    and len: "length f = unat (expected_len (n_secs r) (n_metrics r))"
    by (simp_all add: file_ok_def expected_len_unat)
  have "open_attach (n_secs r) (n_metrics r) (fs\<lparr>lock_held := True\<rparr>) = Inr (r\<lparr>owns_lock := False\<rparr>)"
    using fits len assms(2) check_header_ok [OF ok, of False]
    by (simp add: open_attach_def ring_fits_def)
  moreover have "ring_rep w (r\<lparr>owns_lock := True\<rparr>) f hist"
    using assms(1) by (simp add: ring_rep_def file_ok_def header_bytes_def grid_row_def row_bytes_def)
  ultimately show ?thesis
    using ring_open_existing [OF ok assms(2,3)] by blast
qed

theorem ring_reopen_resumes_witness:
  "let f = init_file 2 1 (expected_len 2 1) in
   fst (ring_open 2 1 \<lparr>contents = Some f, lock_held = False\<rparr>) =
     Inr \<lparr>owns_lock = True, n_secs = 2, n_metrics = 1, head = 0, seq = 0\<rparr>"
proof -
  have "ring_fits 2 1" by (simp add: ring_fits_def HEADER_LEN_def)
  from ring_reopen_resumes [OF fresh_rep [OF this, of False],
      of "\<lparr>contents = Some (init_file 2 1 (expected_len 2 1)), lock_held = False\<rparr>"]
  show ?thesis by (simp add: Let_def)
qed

text \<open>
  A crash between the grid write and the header write of \<open>push\<close> loses only the row being
  written and the oldest row of a full window: with the old header, every read of at most
  \<open>n_secs - 1\<close> rows still returns the rows pushed before.
\<close>

theorem ring_crash_mid_push:
  assumes rep: "ring_rep (unat (n_secs r)) r f hist" and row: "length row = unat (n_metrics r)"
    and g: "push_grid row r f = Inr g"
    and q: "idx < unat (n_metrics r)" "up_to < unat (n_secs r)"
  shows "read_header g = Inr (seq r, n_secs r, n_metrics r, head r) \<and>
    read_metric idx up_to r g =
      Inr (map (\<lambda>row. row ! idx) (drop (length hist - min up_to (length hist)) hist))"
proof -
  have ok: "file_ok r g"
    using push_grid_file(1) [OF rep row g] .
  have "ring_rep (unat (n_secs r) - 1) r g hist"
    using rep ok rep_old_rows [OF rep row g] q(2) by (auto simp: ring_rep_def)
  from read_metric_rep [OF this q(1), of up_to] q(2)
  have "read_metric idx up_to r g =
      Inr (map (\<lambda>row. row ! idx) (drop (length hist - min up_to (min (length hist) (unat (n_secs r)))) hist))"
    by simp
  moreover have "min up_to (min (length hist) (unat (n_secs r))) = min up_to (length hist)"
    using q(2) by auto
  ultimately show ?thesis
    using read_header_ok [OF ok] by simp
qed

theorem ring_crash_mid_push_witness:
  "\<exists>g. push_grid [7] \<lparr>owns_lock = True, n_secs = 2, n_metrics = 1, head = 0, seq = 0\<rparr>
         (init_file 2 1 (expected_len 2 1)) = Inr g \<and> read_metric 0 1
         \<lparr>owns_lock = True, n_secs = 2, n_metrics = 1, head = 0, seq = 0\<rparr> g = Inr []"
proof -
  let ?r = "\<lparr>owns_lock = True, n_secs = 2, n_metrics = 1, head = 0, seq = 0\<rparr>"
  have fits: "ring_fits 2 1" by (simp add: ring_fits_def HEADER_LEN_def)
  have rep: "ring_rep (unat (n_secs ?r)) ?r (init_file 2 1 (expected_len 2 1)) []"
    using fresh_rep [OF fits, of True] by simp
  obtain g where g: "push_grid [7] ?r (init_file 2 1 (expected_len 2 1)) = Inr g"
    using push_grid_ok [OF rep, of "[7]"] by simp
  show ?thesis
    using g ring_crash_mid_push [OF rep _ g, of 0 1] by simp
qed

text \<open>
  \<open>open_or_rebuild\<close> always recovers an unlocked file: whatever bytes are there, it
  returns a ring of the requested shape whose file validates.
\<close>

theorem open_or_rebuild_recovers:
  assumes "ring_fits ns nm" "\<not> lock_held fs"
  shows "\<exists>r fs' f. open_or_rebuild ns nm fs = (Inr r, fs') \<and> n_secs r = ns \<and> n_metrics r = nm \<and>
    lock_held fs' \<and> contents fs' = Some f \<and> read_header f = Inr (seq r, ns, nm, head r)"
proof (cases "ring_open ns nm fs")
  case (Pair res fs')
  show ?thesis
  proof (cases res)
    case (Inl e)
    have lock: "\<not> lock_held fs'"
      using Pair Inl assms(2) by (auto simp: ring_open_def Let_def split: if_splits sum.splits)
    show ?thesis
      using ring_open_fresh [OF assms(1), of "fs'\<lparr>contents := Some []\<rparr>"] lock Pair Inl
        read_header_ok [OF init_file_ok [OF assms(1), of True]]
      by (simp add: open_or_rebuild_def)
  next
    case (Inr r)
    then show ?thesis
      using Pair by (auto simp: open_or_rebuild_def ring_open_def check_header_def try_bind_Inr_iff
          Let_def split: if_splits sum.splits)
  qed
qed

theorem open_or_rebuild_recovers_witness:
  "\<exists>r fs'. open_or_rebuild 2 1 \<lparr>contents = Some [1, 2, 3], lock_held = False\<rparr> = (Inr r, fs') \<and> n_secs r = 2"
  using open_or_rebuild_recovers [of 2 1 "\<lparr>contents = Some [1, 2, 3], lock_held = False\<rparr>"]
  by (auto simp: ring_fits_def HEADER_LEN_def)

text \<open>
  \<open>open_or_rebuild\<close> wipes on every error, a held lock included: called while another
  process owns a healthy ring, it fails with \<open>LockHeld\<close> but leaves the file empty, and the
  owner's next push faults on its mapping.
\<close>

theorem open_or_rebuild_wipes_locked_ring:
  assumes "ring_rep w r f hist" "contents fs = Some f" "lock_held fs" "length row = unat (n_metrics r)"
  shows "\<exists>fs'. open_or_rebuild (n_secs r) (n_metrics r) fs = (Inl LockHeld, fs') \<and>
    contents fs' = Some [] \<and> push row r [] = Inl BusFault"
proof -
  have nz: "n_secs r \<noteq> 0" "n_metrics r \<noteq> 0"
    using assms(1) by (simp_all add: ring_rep_def file_ok_def ring_fits_def)
  have "push row r [] = Inl BusFault"
    using assms(4) by (simp add: push_def push_grid_def grid_write_def HEADER_LEN_def Let_def)
  then show ?thesis
    using nz assms(2,3) by (simp add: open_or_rebuild_def ring_open_def Let_def)
qed

theorem open_or_rebuild_wipes_locked_ring_witness:
  "let f = init_file 2 1 (expected_len 2 1) in
   \<exists>fs'. open_or_rebuild 2 1 \<lparr>contents = Some f, lock_held = True\<rparr> = (Inl LockHeld, fs') \<and> contents fs' = Some []"
proof -
  have "ring_fits 2 1" by (simp add: ring_fits_def HEADER_LEN_def)
  from open_or_rebuild_wipes_locked_ring [OF fresh_rep [OF this, of True],
      of "\<lparr>contents = Some (init_file 2 1 (expected_len 2 1)), lock_held = True\<rparr>" "[7]"]
  show ?thesis by (auto simp: Let_def)
qed

end
