(* ===== verification/Btree_Map.thy ===== *)
theory Btree_Map
  imports Prelude "HOL-Library.Char_ord" "HOL-Library.List_Lexorder"
begin

text \<open>
  The ordered and the hashed maps of the Rust standard library, as far as the components use
  them.  A \<open>BTreeMap\<close> is an association list in strictly increasing key order, so iterating
  it is reading the list.  The contract the client components rely on is the locale
  \<open>ordered_map\<close>; the list implementation interprets it.
\<close>

section \<open>The contract\<close>

locale ordered_map =
  fixes inv :: "'m \<Rightarrow> bool"
    and empty :: 'm
    and insert :: "'k::linorder \<Rightarrow> 'v \<Rightarrow> 'm \<Rightarrow> 'm"
    and remove :: "'k \<Rightarrow> 'm \<Rightarrow> 'm"
    and get :: "'m \<Rightarrow> 'k \<Rightarrow> 'v option"
    and keys :: "'m \<Rightarrow> 'k list"
  assumes inv_empty: "inv empty"
    and inv_insert: "inv m \<Longrightarrow> inv (insert k v m)"
    and inv_remove: "inv m \<Longrightarrow> inv (remove k m)"
    and get_empty: "get empty k = None"
    and get_insert: "inv m \<Longrightarrow> get (insert k v m) = (get m)(k \<mapsto> v)"
    and get_remove: "inv m \<Longrightarrow> get (remove k m) = (get m)(k := None)"
    and keys_sorted: "inv m \<Longrightarrow> sorted_wrt (<) (keys m)"
    and keys_dom: "inv m \<Longrightarrow> set (keys m) = dom (get m)"
begin

lemma keys_distinct: "inv m \<Longrightarrow> distinct (keys m)"
  using keys_sorted strict_sorted_iff by blast

text \<open>Two maps with the same entries are iterated in the same order.\<close>

lemma keys_canonical:
  assumes "inv m" "inv n" "get m = get n"
  shows "keys m = keys n"
  using keys_sorted keys_dom assms by (metis strict_sorted_equal)

lemma keys_empty_iff: "inv m \<Longrightarrow> keys m = [] \<longleftrightarrow> get m = Map.empty"
  using keys_dom by (metis dom_eq_empty_conv set_empty)

lemma keys_remove_insert:
  assumes "inv m" "get m k = None"
  shows "keys (remove k (insert k v m)) = keys m"
  using assms by (intro keys_canonical) (auto simp: inv_insert inv_remove get_insert get_remove)

end

section \<open>The sorted association list\<close>

fun bt_insert :: "'k::linorder \<Rightarrow> 'v \<Rightarrow> ('k \<times> 'v) list \<Rightarrow> ('k \<times> 'v) list" where
  "bt_insert k v [] = [(k, v)]"
| "bt_insert k v ((k', v') # m) =
     (if k < k' then (k, v) # (k', v') # m
      else if k = k' then (k, v) # m
      else (k', v') # bt_insert k v m)"

definition bt_remove :: "'k \<Rightarrow> ('k \<times> 'v) list \<Rightarrow> ('k \<times> 'v) list" where
  "bt_remove k m = filter (\<lambda>e. fst e \<noteq> k) m"

definition bt_inv :: "('k::linorder \<times> 'v) list \<Rightarrow> bool" where
  "bt_inv m \<longleftrightarrow> sorted_wrt (<) (map fst m)"

lemma set_keys_bt_insert: "set (map fst (bt_insert k v m)) = {k} \<union> set (map fst m)"
  by (induction k v m rule: bt_insert.induct) (simp_all add: insert_commute)

lemma bt_inv_insert: "bt_inv m \<Longrightarrow> bt_inv (bt_insert k v m)"
proof (induction m)
  case (Cons e m)
  obtain k' v' where e: "e = (k', v')" by force
  have m: "bt_inv m" and k': "\<forall>x \<in> set (map fst m). k' < x"
    using Cons.prems by (simp_all add: bt_inv_def e)
  show ?case
    using Cons.IH [OF m] m k' set_keys_bt_insert [of k v m]
    by (auto simp: bt_inv_def e)
qed (simp add: bt_inv_def)

lemma map_of_bt_insert: "map_of (bt_insert k v m) = (map_of m)(k \<mapsto> v)"
  by (induction m) (auto simp: fun_eq_iff)

lemma map_of_bt_remove: "map_of (bt_remove k m) = (map_of m)(k := None)"
  by (induction m) (auto simp: fun_eq_iff bt_remove_def)

lemma bt_inv_remove: "bt_inv m \<Longrightarrow> bt_inv (bt_remove k m)"
  by (induction m) (auto simp: bt_inv_def bt_remove_def)

interpretation bt: ordered_map bt_inv "[]" bt_insert bt_remove map_of "map fst"
proof unfold_locales
  show "bt_inv []" by (simp add: bt_inv_def)
  show "sorted_wrt (<) (map fst m)" if "bt_inv m" for m :: "('a \<times> 'b) list"
    using that by (simp add: bt_inv_def)
qed (simp_all add: bt_inv_insert bt_inv_remove map_of_bt_insert map_of_bt_remove dom_map_of_conv_image_fst)

end
