(* ===== verification/Warm_Pool.thy ===== *)
theory Warm_Pool
  imports Core_Vocab Btree_Map
begin

text \<open>
  The warm pool of the AI plane (\<open>sy-aiplane/src/aiplane/warm_pool.rs\<close>) and the gate of
  degraded workers (\<open>degraded.rs\<close>).  An \<open>Instant\<close> is a count of milliseconds of the
  monotonic clock; the pool's clock is the argument \<open>now\<close> of the operations that read it.
\<close>

section \<open>Warm pool\<close>

definition LRU_MAX :: nat where "LRU_MAX = 3"

definition TTL_WARM_DURATION :: nat where "TTL_WARM_DURATION = 15 * 60 * 1000"

datatype Tier = AlwaysWarm | Ttl | Lru

fun tier_for :: "WorkloadKind \<Rightarrow> Tier" where
  "tier_for Vad = AlwaysWarm"
| "tier_for EyeTrack = AlwaysWarm"
| "tier_for Stt = Ttl"
| "tier_for Embed = Ttl"
| "tier_for Rerank = Lru"
| "tier_for Ocr = Lru"
| "tier_for Clip = Lru"
| "tier_for Tts = Lru"
| "tier_for Denoise = Lru"

record WarmPool =
  ttl_last_touched :: "WorkloadKind \<rightharpoonup> nat"
  lru :: "WorkloadKind list"
  ttl_duration :: nat
  max_lru :: nat

definition WarmPool_new :: WarmPool where
  "WarmPool_new = \<lparr>ttl_last_touched = Map.empty, lru = [], ttl_duration = TTL_WARM_DURATION,
     max_lru = LRU_MAX\<rparr>"

definition touch :: "nat \<Rightarrow> WorkloadKind \<Rightarrow> WarmPool \<Rightarrow> WorkloadKind option \<times> WarmPool" where
  "touch now kind p =
     (case tier_for kind of
        AlwaysWarm \<Rightarrow> (None, p)
      | Ttl \<Rightarrow> (None, p\<lparr>ttl_last_touched := (ttl_last_touched p)(kind \<mapsto> now)\<rparr>)
      | Lru \<Rightarrow>
          (let l = kind # filter (\<lambda>k. k \<noteq> kind) (lru p)
           in if length l > max_lru p then (Some (last l), p\<lparr>lru := butlast l\<rparr>)
              else (None, p\<lparr>lru := l\<rparr>)))"

text \<open>
  \<open>hash_order\<close> is the order in which the hash map is iterated: any enumeration of its keys.
  \<open>saturating_duration_since\<close> is the truncated subtraction of naturals.
\<close>

definition warm_kinds :: "WorkloadKind list \<Rightarrow> nat \<Rightarrow> WarmPool \<Rightarrow> WorkloadKind list" where
  "warm_kinds hash_order now p =
     remdups_adj (sort_key WorkloadKind_as_str
       ([Vad, EyeTrack]
        @ filter (\<lambda>k. case ttl_last_touched p k of None \<Rightarrow> False
            | Some t \<Rightarrow> now - t < ttl_duration p) hash_order
        @ lru p))"

definition warm_model_names :: "WorkloadKind list \<Rightarrow> nat \<Rightarrow> WarmPool \<Rightarrow> string list" where
  "warm_model_names hash_order now p = map WorkloadKind_as_str (warm_kinds hash_order now p)"

text \<open>A run of the pool: the touches with their instants, oldest first.\<close>

fun touches :: "(nat \<times> WorkloadKind) list \<Rightarrow> WarmPool \<Rightarrow> WarmPool" where
  "touches [] p = p"
| "touches ((now, k) # hist) p = touches hist (snd (touch now k p))"

section \<open>Degraded workers\<close>

type_synonym DegradedWorkers = "(string \<times> string) list"

definition record_degraded :: "WorkloadKind \<Rightarrow> string \<Rightarrow> DegradedWorkers \<Rightarrow> DegradedWorkers" where
  "record_degraded kind reason d = bt_insert (WorkloadKind_as_str kind) reason d"

definition clear_degraded :: "WorkloadKind \<Rightarrow> DegradedWorkers \<Rightarrow> bool \<times> DegradedWorkers" where
  "clear_degraded kind d =
     (map_of d (WorkloadKind_as_str kind) \<noteq> None, bt_remove (WorkloadKind_as_str kind) d)"

definition degraded_is_empty :: "DegradedWorkers \<Rightarrow> bool" where
  "degraded_is_empty d \<longleftrightarrow> d = []"

definition degraded_kinds :: "DegradedWorkers \<Rightarrow> string list" where
  "degraded_kinds d = map fst d"

definition degraded_summary :: "DegradedWorkers \<Rightarrow> string option" where
  "degraded_summary d =
     (if d = [] then None
      else Some (join_with ''; '' (map (\<lambda>(kind, reason). kind @ '' worker unavailable: '' @ reason) d)))"

section \<open>Recency\<close>

text \<open>The most recently used kinds of a history: its distinct kinds, last touch first.\<close>

definition recency :: "WorkloadKind list \<Rightarrow> WorkloadKind list" where
  "recency ks = rev (remdups ks)"

lemma remdups_snoc: "remdups (xs @ [x]) = filter (\<lambda>y. y \<noteq> x) (remdups xs) @ [x]"
  by (induction xs) auto

lemma recency_snoc: "recency (ks @ [k]) = k # filter (\<lambda>y. y \<noteq> k) (recency ks)"
  by (simp add: recency_def remdups_snoc rev_filter)

lemma distinct_recency [simp]: "distinct (recency ks)"
  by (simp add: recency_def)

text \<open>Dropping one element of a distinct list shortens its window by at most one.\<close>

lemma take_filter_window:
  assumes "distinct xs"
  shows "take n (filter (\<lambda>y. y \<noteq> k) (take (Suc n) xs)) = take n (filter (\<lambda>y. y \<noteq> k) xs)"
  using assms
proof (induction xs arbitrary: n)
  case (Cons x xs)
  show ?case
  proof (cases "x = k")
    case True
    then have "filter (\<lambda>y. y \<noteq> k) xs = xs" "filter (\<lambda>y. y \<noteq> k) (take n xs) = take n xs"
      using Cons.prems by (auto simp: filter_id_conv dest: in_set_takeD)
    then show ?thesis using True by simp
  next
    case False
    then show ?thesis using Cons by (cases n) simp_all
  qed
qed simp

lemma take_Cons_pop:
  "(if length (x # xs) > Suc n then butlast (x # xs) else x # xs) = x # take n xs"
  if "length xs \<le> Suc n"
proof (cases "length xs = Suc n")
  case True
  then show ?thesis by (simp add: butlast_conv_take take_Cons')
next
  case False
  then have "length xs \<le> n" using that by simp
  then show ?thesis by simp
qed

lemma length_filter_take: "length (filter P (take n xs)) \<le> n"
  by (rule order_trans [OF length_filter_le]) simp

lemma touch_lru:
  assumes "tier_for k = Lru" "lru p = take (Suc n) (recency ks)" "max_lru p = Suc n"
  shows "lru (snd (touch now k p)) = take (Suc n) (recency (ks @ [k]))"
proof -
  let ?l = "filter (\<lambda>y. y \<noteq> k) (lru p)"
  have "lru (snd (touch now k p)) = (if length (k # ?l) > Suc n then butlast (k # ?l) else k # ?l)"
    using assms(1,3) by (simp add: touch_def Let_def)
  also have "\<dots> = k # take n ?l"
    by (rule take_Cons_pop) (simp add: assms(2) length_filter_take del: take_Suc)
  also have "take n ?l = take n (filter (\<lambda>y. y \<noteq> k) (recency ks))"
    unfolding assms(2) by (rule take_filter_window) simp
  finally show ?thesis by (simp add: recency_snoc)
qed

section \<open>State after any history\<close>

definition last_touch :: "(nat \<times> WorkloadKind) list \<Rightarrow> WorkloadKind \<Rightarrow> nat option" where
  "last_touch hist k = map_of (rev (map (\<lambda>(t, k). (k, t)) hist)) k"

definition tier_history :: "Tier \<Rightarrow> (nat \<times> WorkloadKind) list \<Rightarrow> WorkloadKind list" where
  "tier_history t hist = filter (\<lambda>k. tier_for k = t) (map snd hist)"

lemma touches_append: "touches (h1 @ h2) p = touches h2 (touches h1 p)"
  by (induction h1 arbitrary: p) auto

definition pool_after :: "(nat \<times> WorkloadKind) list \<Rightarrow> WarmPool \<Rightarrow> bool" where
  "pool_after hist p \<longleftrightarrow>
     ttl_last_touched p = (\<lambda>k. if tier_for k = Ttl then last_touch hist k else None) \<and>
     lru p = take LRU_MAX (recency (tier_history Lru hist)) \<and>
     max_lru p = LRU_MAX \<and> ttl_duration p = TTL_WARM_DURATION"

lemma last_touch_snoc: "last_touch (hist @ [(now, k)]) = (last_touch hist)(k \<mapsto> now)"
  by (auto simp: last_touch_def fun_eq_iff)

lemma touch_pool_after:
  assumes "pool_after hist p"
  shows "pool_after (hist @ [(now, k)]) (snd (touch now k p))"
proof (cases "tier_for k")
  case Lru
  have "lru (snd (touch now k p)) = take (Suc 2) (recency (tier_history Lru hist @ [k]))"
    using assms Lru by (intro touch_lru) (simp_all add: pool_after_def LRU_MAX_def)
  then show ?thesis
    using assms Lru by (auto simp: pool_after_def touch_def Let_def tier_history_def last_touch_snoc
        fun_eq_iff LRU_MAX_def)
qed (use assms in \<open>auto simp: pool_after_def touch_def tier_history_def last_touch_snoc fun_eq_iff\<close>)

lemma touches_pool_after: "pool_after hist (touches hist WarmPool_new)"
proof (induction hist rule: rev_induct)
  case Nil
  show ?case
    by (simp add: pool_after_def WarmPool_new_def last_touch_def tier_history_def recency_def fun_eq_iff)
next
  case (snoc e hist)
  then show ?case
    by (cases e) (simp add: touches_append touch_pool_after)
qed

lemma warm_names_sorted: "sorted_wrt (<) (warm_model_names order now p)"
proof -
  let ?xs = "sort_key WorkloadKind_as_str ([Vad, EyeTrack]
        @ filter (\<lambda>k. case ttl_last_touched p k of None \<Rightarrow> False
            | Some t \<Rightarrow> now - t < ttl_duration p) order @ lru p)"
  have "warm_model_names order now p = remdups_adj (map WorkloadKind_as_str ?xs)"
    unfolding warm_model_names_def warm_kinds_def
    by (rule remdups_adj_map_injective [symmetric]) (simp add: inj_def wkind.as_str_inj)
  moreover have "sorted (map WorkloadKind_as_str ?xs)"
    by (rule sorted_sort_key)
  ultimately show ?thesis
    by (simp only: strict_sorted_iff sorted_remdups_adj distinct_remdups_adj_sorted)
qed

section \<open>The gate under any sequence of failures and recoveries\<close>

datatype gate_op = Record WorkloadKind string | Clear WorkloadKind

fun gate_apply :: "gate_op \<Rightarrow> DegradedWorkers \<Rightarrow> DegradedWorkers" where
  "gate_apply (Record k r) d = record_degraded k r d"
| "gate_apply (Clear k) d = snd (clear_degraded k d)"

fun gate_effect :: "WorkloadKind \<Rightarrow> gate_op \<Rightarrow> string option \<Rightarrow> string option" where
  "gate_effect k (Record k' r) old = (if k' = k then Some r else old)"
| "gate_effect k (Clear k') old = (if k' = k then None else old)"

definition gate_run :: "gate_op list \<Rightarrow> DegradedWorkers" where
  "gate_run ops = fold gate_apply ops []"

definition gate_reason :: "gate_op list \<Rightarrow> WorkloadKind \<Rightarrow> string option" where
  "gate_reason ops k = fold (gate_effect k) ops None"

lemma gate_apply_inv: "bt_inv d \<Longrightarrow> bt_inv (gate_apply g d)"
  by (cases g) (simp_all add: record_degraded_def clear_degraded_def bt.inv_insert bt.inv_remove)

lemma gate_apply_get:
  "bt_inv d \<Longrightarrow> map_of (gate_apply g d) (WorkloadKind_as_str k) =
     gate_effect k g (map_of d (WorkloadKind_as_str k))"
  by (cases g) (auto simp: record_degraded_def clear_degraded_def bt.get_insert bt.get_remove
      wkind.as_str_inj)

lemma gate_run_snoc: "gate_run (ops @ [g]) = gate_apply g (gate_run ops)"
  by (simp add: gate_run_def)

lemma gate_run_inv: "bt_inv (gate_run ops)"
  by (induction ops rule: rev_induct) (simp_all add: gate_run_snoc gate_apply_inv, simp add: gate_run_def bt.inv_empty)

lemma gate_run_get: "map_of (gate_run ops) (WorkloadKind_as_str k) = gate_reason ops k"
proof (induction ops rule: rev_induct)
  case (snoc g ops)
  then show ?case
    by (simp add: gate_run_snoc gate_apply_get gate_run_inv gate_reason_def)
qed (simp add: gate_run_def gate_reason_def)

lemma gate_apply_keys:
  "fst ` set d \<subseteq> range WorkloadKind_as_str \<Longrightarrow> fst ` set (gate_apply g d) \<subseteq> range WorkloadKind_as_str"
  using set_keys_bt_insert [of "WorkloadKind_as_str k" r d for k r]
  by (cases g) (auto simp: record_degraded_def clear_degraded_def bt_remove_def)

lemma gate_run_keys: "fst ` set (gate_run ops) \<subseteq> range WorkloadKind_as_str"
  by (induction ops rule: rev_induct) (simp_all add: gate_run_snoc gate_apply_keys, simp add: gate_run_def)

section \<open>Properties\<close>

text \<open>
  C33. After any history of touches the warm set is exactly: the two always-warm kinds, the
  TTL kinds whose last touch is less than fifteen minutes old, and the three most recently
  touched LRU kinds; the list is strictly sorted by name whatever the hash map's iteration
  order.
\<close>

theorem warm_set_tracks_history:
  assumes "set order = dom (ttl_last_touched (touches hist WarmPool_new))"
  shows "set (warm_kinds order now (touches hist WarmPool_new)) =
      {Vad, EyeTrack}
      \<union> {k. tier_for k = Ttl \<and> (\<exists>t. last_touch hist k = Some t \<and> now < t + 15 * 60 * 1000)}
      \<union> set (take 3 (recency (tier_history Lru hist)))
    \<and> sorted_wrt (<) (warm_model_names order now (touches hist WarmPool_new))"
proof -
  let ?p = "touches hist WarmPool_new"
  have p: "pool_after hist ?p"
    by (rule touches_pool_after)
  have "set (warm_kinds order now ?p) = {Vad, EyeTrack}
      \<union> {k \<in> set order. case ttl_last_touched ?p k of None \<Rightarrow> False | Some t \<Rightarrow> now - t < ttl_duration ?p}
      \<union> set (lru ?p)"
    unfolding warm_kinds_def remdups_adj_set set_sort by auto
  also have "{k \<in> set order. case ttl_last_touched ?p k of None \<Rightarrow> False | Some t \<Rightarrow> now - t < ttl_duration ?p}
      = {k. tier_for k = Ttl \<and> (\<exists>t. last_touch hist k = Some t \<and> now < t + 15 * 60 * 1000)}"
    using p unfolding assms
    by (auto simp: pool_after_def TTL_WARM_DURATION_def split: option.splits if_splits)
  finally show ?thesis
    using p warm_names_sorted by (simp add: pool_after_def LRU_MAX_def)
qed

theorem warm_set_tracks_history_witness:
  "set (warm_kinds [Embed] 900001
      (touches [(0, Ocr), (1, Embed), (2, Tts), (3, Clip), (4, Ocr), (5, Rerank)] WarmPool_new))
    = {Vad, EyeTrack, Embed, Clip, Ocr, Rerank} - {Embed}"
  using warm_set_tracks_history [of "[Embed]" "[(0, Ocr), (1, Embed), (2, Tts), (3, Clip), (4, Ocr), (5, Rerank)]" 900001]
  by (auto simp: touch_def WarmPool_new_def TTL_WARM_DURATION_def LRU_MAX_def Let_def last_touch_def
      recency_def tier_history_def split: if_splits)

text \<open>
  A touch evicts at most one kind, and exactly the least recently used one: only an LRU
  kind that is not in the window can push one out, and only when the window is full.
\<close>

theorem touch_evicts_least_recent:
  "fst (touch now k (touches hist WarmPool_new)) = Some v \<longleftrightarrow>
     tier_for k = Lru \<and> 3 \<le> length (recency (tier_history Lru hist)) \<and>
     k \<notin> set (take 3 (recency (tier_history Lru hist))) \<and>
     v = recency (tier_history Lru hist) ! 2"
proof -
  let ?p = "touches hist WarmPool_new" and ?r = "recency (tier_history Lru hist)"
  have l: "lru ?p = take 3 ?r" "max_lru ?p = 3"
    using touches_pool_after [of hist] by (simp_all add: pool_after_def LRU_MAX_def)
  show ?thesis
  proof (cases "tier_for k = Lru \<and> k \<notin> set (take 3 ?r)")
    case True
    then have f: "filter (\<lambda>y. y \<noteq> k) (take 3 ?r) = take 3 ?r"
      by (auto simp: filter_id_conv)
    have "last (k # take 3 ?r) = ?r ! 2" if "3 \<le> length ?r"
      using that by (subst last_conv_nth) auto
    then show ?thesis
      using True f by (auto simp: touch_def Let_def l)
  next
    case False
    have "length (filter (\<lambda>y. y \<noteq> k) (take 3 ?r)) < 3" if "k \<in> set (take 3 ?r)"
      using length_filter_less [of k "take 3 ?r" "\<lambda>y. y \<noteq> k"] that by simp
    then show ?thesis
      using False by (auto simp: touch_def Let_def l split: Tier.splits)
  qed
qed

text \<open>
  The degraded gate reports what the last event of each kind says: after any sequence of
  failures and recoveries a kind is listed iff its last event is a failure, with that
  failure's reason, in strictly increasing name order, and the summary is absent iff every
  failure has been cleared.
\<close>

theorem degraded_gate_heals:
  "map_of (gate_run ops) (WorkloadKind_as_str k) = gate_reason ops k \<and>
   sorted_wrt (<) (degraded_kinds (gate_run ops)) \<and>
   (degraded_summary (gate_run ops) = None \<longleftrightarrow> (\<forall>k. gate_reason ops k = None)) \<and>
   (fst (clear_degraded k (gate_run ops)) \<longleftrightarrow> gate_reason ops k \<noteq> None) \<and>
   \<not> fst (clear_degraded k (snd (clear_degraded k (gate_run ops))))"
proof -
  have "gate_run ops = [] \<longleftrightarrow> (\<forall>k. gate_reason ops k = None)"
  proof
    assume all: "\<forall>k. gate_reason ops k = None"
    show "gate_run ops = []"
    proof (rule ccontr)
      assume "gate_run ops \<noteq> []"
      then obtain e where "e \<in> set (gate_run ops)" by (cases "gate_run ops") auto
      moreover obtain k where "fst e = WorkloadKind_as_str k"
        using calculation gate_run_keys [of ops] by auto
      ultimately show False
        using all gate_run_get [of ops k] by (metis image_eqI map_of_eq_None_iff)
    qed
  qed (simp flip: gate_run_get)
  moreover have "sorted_wrt (<) (map fst (gate_run ops))"
    by (rule bt.keys_sorted [OF gate_run_inv])
  ultimately show ?thesis
    using gate_run_get [of ops k]
    by (simp add: degraded_kinds_def degraded_summary_def clear_degraded_def
        bt.get_remove [OF gate_run_inv] bt.inv_remove [OF gate_run_inv])
qed

end
