(* ===== verification/Paths.thy ===== *)
theory Paths
  imports Prelude
begin

text \<open>
  \<open>std::path\<close> on Unix, as far as the policy and the file manager use it: a path is its text,
  \<open>components\<close> is the normalised view (repeated separators and inner \<open>.\<close> vanish), and
  \<open>push\<close> appends with a separator or replaces when the argument is absolute.
\<close>

datatype component = RootDir | CurDir | ParentDir | Normal string

fun split_slash :: "string \<Rightarrow> string list" where
  "split_slash [] = [[]]"
| "split_slash (c # cs) =
     (if c = CHR ''/'' then [] # split_slash cs
      else (case split_slash cs of [] \<Rightarrow> [[c]] | s # ss \<Rightarrow> (c # s) # ss))"

definition has_root :: "string \<Rightarrow> bool" where
  "has_root p \<longleftrightarrow> (case p of [] \<Rightarrow> False | c # _ \<Rightarrow> c = CHR ''/'')"

definition seg_component :: "string \<Rightarrow> component" where
  "seg_component s = (if s = ''..'' then ParentDir else Normal s)"

definition body_components :: "string list \<Rightarrow> component list" where
  "body_components segs = map seg_component (filter (\<lambda>s. s \<noteq> [] \<and> s \<noteq> ''.'') segs)"

definition path_components :: "string \<Rightarrow> component list" where
  "path_components p =
     (if has_root p then [RootDir] else if hd (split_slash p) = ''.'' then [CurDir] else [])
     @ body_components (split_slash p)"

fun component_str :: "component \<Rightarrow> string" where
  "component_str RootDir = ''/''"
| "component_str CurDir = ''.''"
| "component_str ParentDir = ''..''"
| "component_str (Normal s) = s"

definition path_push :: "string \<Rightarrow> string \<Rightarrow> string" where
  "path_push buf p =
     (if has_root p then p
      else if buf \<noteq> [] \<and> last buf \<noteq> CHR ''/'' then buf @ ''/'' @ p
      else buf @ p)"

definition path_file_name :: "string \<Rightarrow> string option" where
  "path_file_name p =
     (case rev (path_components p) of Normal s # _ \<Rightarrow> Some s | _ \<Rightarrow> None)"

text \<open>\<open>rsplit_dot s\<close> splits at the last dot.\<close>

fun rsplit_dot :: "string \<Rightarrow> (string \<times> string) option" where
  "rsplit_dot [] = None"
| "rsplit_dot (c # cs) =
     (case rsplit_dot cs of
        Some (a, b) \<Rightarrow> Some (c # a, b)
      | None \<Rightarrow> if c = CHR ''.'' then Some ([], cs) else None)"

definition path_file_stem :: "string \<Rightarrow> string option" where
  "path_file_stem p =
     map_option (\<lambda>s. case rsplit_dot s of None \<Rightarrow> s | Some (a, _) \<Rightarrow> if a = [] then s else a)
       (path_file_name p)"

definition path_extension :: "string \<Rightarrow> string option" where
  "path_extension p = Option.bind (path_file_name p)
     (\<lambda>s. case rsplit_dot s of None \<Rightarrow> None | Some (a, b) \<Rightarrow> if a = [] then None else Some b)"

text \<open>
  \<open>Path::parent\<close>: the text up to the end of the component before the last one; trailing
  separators and \<open>.\<close> segments do not count.
\<close>

definition vanishes :: "string \<Rightarrow> bool" where
  "vanishes s \<longleftrightarrow> s = [] \<or> s = ''.''"

definition trim_right :: "string list \<Rightarrow> string list" where
  "trim_right segs = rev (dropWhile vanishes (rev segs))"

definition path_parent :: "string \<Rightarrow> string option" where
  "path_parent p =
     (let segs = split_slash p; first = hd segs; body = trim_right (tl segs) in
      if body \<noteq> [] then
        (let up = trim_right (butlast body) in
         Some (if has_root p \<and> up = [] then ''/'' else join_with ''/'' (first # up)))
      else if first = [] then None else Some [])"

section \<open>Components of a pushed path\<close>

lemma split_slash_not_Nil [simp]: "split_slash p \<noteq> []"
  by (cases p) (auto split: list.splits)

lemma split_slash_sep: "split_slash (a @ CHR ''/'' # b) = split_slash a @ split_slash b"
  by (induction a) (auto split: list.splits)

lemma split_slash_noslash: "CHR ''/'' \<notin> set s \<Longrightarrow> split_slash s = [s]"
  by (induction s) auto

lemma body_components_append [simp]: "body_components (a @ b) = body_components a @ body_components b"
  by (simp add: body_components_def)

lemma body_components_Nil [simp]: "body_components [] = []"
  by (simp add: body_components_def)

lemma hd_split_append: "a \<noteq> [] \<Longrightarrow> hd (split_slash (a @ CHR ''/'' # b)) = hd (split_slash a)"
  by (simp add: split_slash_sep)

lemma has_root_append: "a \<noteq> [] \<Longrightarrow> has_root (a @ b) = has_root a"
  by (cases a) (auto simp: has_root_def)

lemma path_components_join:
  assumes "a \<noteq> []"
  shows "path_components (a @ CHR ''/'' # b) = path_components a @ body_components (split_slash b)"
  using assms by (simp add: path_components_def has_root_append split_slash_sep)

text \<open>A component as it is iterated: no separator in it, and not one that vanishes.\<close>

definition plain_seg :: "string \<Rightarrow> bool" where
  "plain_seg s \<longleftrightarrow> s \<noteq> [] \<and> s \<noteq> ''.'' \<and> CHR ''/'' \<notin> set s"

lemma plain_seg_body: "plain_seg s \<Longrightarrow> body_components (split_slash s) = [seg_component s]"
  by (simp add: plain_seg_def split_slash_noslash body_components_def)

lemma plain_seg_no_root: "plain_seg s \<Longrightarrow> \<not> has_root s"
  by (cases s) (auto simp: plain_seg_def has_root_def)

lemma push_plain:
  assumes "plain_seg s" "buf \<noteq> []"
  shows "path_components (path_push buf s) = path_components buf @ [seg_component s]"
proof (cases "last buf = CHR ''/''")
  case False
  then show ?thesis
    using assms path_components_join [OF assms(2), of s]
    by (simp add: path_push_def plain_seg_no_root plain_seg_body)
next
  case True
  then obtain b where b: "buf = b @ [CHR ''/'']"
    using assms(2) by (metis append_butlast_last_id)
  have split: "split_slash (buf @ s) = split_slash b @ [s]" "split_slash buf = split_slash b @ [[]]"
    using assms(1) by (simp_all add: b split_slash_sep split_slash_noslash plain_seg_def)
  have "hd (split_slash (buf @ s)) = hd (split_slash buf)"
    by (simp add: split)
  then show ?thesis
    using assms True by (simp add: path_push_def plain_seg_no_root path_components_def has_root_append
        split body_components_def plain_seg_def)
qed

lemma push_absolute: "has_root p \<Longrightarrow> path_push buf p = p"
  by (simp add: path_push_def)

lemma push_nonempty: "s \<noteq> [] \<Longrightarrow> path_push buf s \<noteq> []"
  by (simp add: path_push_def)

lemma has_root_push: "buf \<noteq> [] \<Longrightarrow> has_root (path_push buf s) \<longleftrightarrow> has_root s \<or> has_root buf"
  by (simp add: path_push_def has_root_append)

section \<open>The components of a path\<close>

lemma split_slash_no_slash: "s \<in> set (split_slash p) \<Longrightarrow> CHR ''/'' \<notin> set s"
  by (induction p arbitrary: s) (auto split: list.splits if_splits)

definition inner_component :: "component \<Rightarrow> bool" where
  "inner_component c \<longleftrightarrow> plain_seg (component_str c) \<and> seg_component (component_str c) = c"

lemma body_inner: "c \<in> set (body_components (split_slash p)) \<Longrightarrow> inner_component c"
  by (auto simp: body_components_def inner_component_def seg_component_def plain_seg_def
      dest: split_slash_no_slash split: if_splits)

lemma path_components_inner:
  assumes "path_components p = c # cs" "d \<in> set cs"
  shows "inner_component d"
proof -
  have "d \<in> set (body_components (split_slash p))"
    using assms by (auto simp: path_components_def split: if_splits dest: arg_cong [of _ _ set])
  then show ?thesis by (rule body_inner)
qed

lemma path_components_single:
  assumes "path_components p = c # cs"
  shows "path_components (component_str c) = [c]" "component_str c \<noteq> []"
proof -
  have "c = RootDir \<or> c = CurDir \<or> inner_component c"
    using assms body_inner [of c p]
    by (auto simp: path_components_def split: if_splits dest: arg_cong [of _ _ set])
  then consider "c = RootDir" | "c = CurDir" | "inner_component c" by blast
  then have "path_components (component_str c) = [c] \<and> component_str c \<noteq> []"
  proof cases
    case 3
    then show ?thesis
      using plain_seg_body [of "component_str c"] plain_seg_no_root [of "component_str c"]
      by (auto simp: inner_component_def path_components_def plain_seg_def split_slash_noslash)
  qed (simp_all add: path_components_def has_root_def body_components_def)
  then show "path_components (component_str c) = [c]" "component_str c \<noteq> []"
    by simp_all
qed

text \<open>The parent has the same components but the last.\<close>

lemma split_join: "\<forall>s \<in> set segs. CHR ''/'' \<notin> set s \<Longrightarrow> segs \<noteq> [] \<Longrightarrow> split_slash (join_with ''/'' segs) = segs"
proof (induction "''/''" segs rule: join_with.induct)
  case (3 s s' ss)
  then show ?case
    using split_slash_sep [of s "join_with ''/'' (s' # ss)"] by (simp add: split_slash_noslash)
qed (auto simp: split_slash_noslash)

lemma body_trim_right: "body_components (trim_right segs) = body_components segs"
  by (induction segs rule: rev_induct) (auto simp: trim_right_def vanishes_def body_components_def)

lemma trim_right_last: "trim_right segs \<noteq> [] \<Longrightarrow> \<not> vanishes (last (trim_right segs))"
  unfolding trim_right_def
  by (metis hd_dropWhile hd_rev rev_is_Nil_conv rev_rev_ident)

lemma set_trim_right: "set (trim_right segs) \<subseteq> set segs"
  by (auto simp: trim_right_def dest: set_dropWhileD)

lemma has_root_split: "has_root p \<longleftrightarrow> hd (split_slash p) = [] \<and> p \<noteq> []"
  by (cases p) (auto simp: has_root_def split: list.splits)

lemma has_root_join:
  assumes "CHR ''/'' \<notin> set s"
  shows "has_root (join_with ''/'' (s # segs)) \<longleftrightarrow> s = [] \<and> segs \<noteq> []"
  using assms by (cases segs; cases s) (auto simp: has_root_def)

lemma path_components_segs:
  "path_components p =
     (if has_root p then [RootDir] else if hd (split_slash p) = ''.'' then [CurDir]
      else body_components [hd (split_slash p)])
     @ body_components (tl (split_slash p))"
proof -
  have "body_components (split_slash p)
      = body_components [hd (split_slash p)] @ body_components (tl (split_slash p))"
    by (metis append_Cons append_Nil body_components_append list.collapse split_slash_not_Nil)
  then show ?thesis
    by (auto simp: path_components_def has_root_split body_components_def)
qed

lemma path_parent_components:
  assumes "path_parent p = Some q"
  shows "path_components q = butlast (path_components p)"
proof -
  let ?f = "hd (split_slash p)" and ?b = "trim_right (tl (split_slash p))"
  have ns: "CHR ''/'' \<notin> set s" if "s \<in> set (split_slash p)" for s
    using that by (rule split_slash_no_slash)
  show ?thesis
  proof (cases "?b = []")
    case True
    then have "body_components (tl (split_slash p)) = []"
      using body_trim_right [of "tl (split_slash p)"] by simp
    with True assms show ?thesis
      by (auto simp: path_parent_def path_components_segs has_root_split Let_def split: if_splits)
        (auto simp: path_components_def has_root_def body_components_def)
  next
    case False
    let ?u = "trim_right (butlast ?b)"
    have last: "body_components [last ?b] = [seg_component (last ?b)]"
      using trim_right_last [OF False] by (simp add: vanishes_def body_components_def)
    have "body_components (tl (split_slash p)) = body_components ?u @ [seg_component (last ?b)]"
      by (metis False append_butlast_last_id body_components_append body_trim_right last)
    then have p: "butlast (path_components p)
        = (if has_root p then [RootDir] else if ?f = ''.'' then [CurDir] else body_components [?f])
          @ body_components ?u"
      by (simp add: path_components_segs butlast_append)
    have sub: "set ?u \<subseteq> set (split_slash p)"
      using set_trim_right [of "butlast ?b"] set_trim_right [of "tl (split_slash p)"]
      by (meson in_set_butlastD list.set_sel(2) split_slash_not_Nil subset_iff)
    then have segs: "split_slash (join_with ''/'' (?f # ?u)) = ?f # ?u"
      using ns by (intro split_join) auto
    have root: "has_root (join_with ''/'' (?f # ?u)) \<longleftrightarrow> ?f = [] \<and> ?u \<noteq> []"
      using sub ns by (intro has_root_join) auto
    have "p \<noteq> []" using False by (auto simp: trim_right_def)
    then have hr: "has_root p \<longleftrightarrow> ?f = []" by (simp add: has_root_split)
    have q: "q = (if has_root p \<and> ?u = [] then ''/'' else join_with ''/'' (?f # ?u))"
      using assms False by (simp add: path_parent_def Let_def)
    show ?thesis
    proof (cases "has_root p \<and> ?u = []")
      case True
      then show ?thesis
        using p q by (simp add: path_components_def has_root_def body_components_def)
    next
      case False
      then have eq: "q = join_with ''/'' (?f # ?u)"
        using q by argo
      then have "path_components q
          = (if has_root q then [RootDir] else if ?f = ''.'' then [CurDir] else body_components [?f])
            @ body_components ?u"
        unfolding eq by (subst path_components_segs) (simp add: segs)
      moreover have "has_root q \<longleftrightarrow> has_root p"
        using False eq root hr by auto
      ultimately show ?thesis using p by simp
    qed
  qed
qed

text \<open>Pushing inner components one after the other appends them.\<close>

lemma foldl_push_inner:
  assumes "buf \<noteq> []" "\<forall>c \<in> set cs. inner_component c"
  shows "path_components (foldl (\<lambda>out c. path_push out (component_str c)) buf cs) = path_components buf @ cs"
  using assms
proof (induction cs arbitrary: buf)
  case (Cons c cs)
  have "path_components (path_push buf (component_str c)) = path_components buf @ [c]"
    using Cons.prems push_plain [of "component_str c" buf] by (simp add: inner_component_def)
  moreover have "path_push buf (component_str c) \<noteq> []"
    using Cons.prems by (intro push_nonempty) (simp add: inner_component_def plain_seg_def)
  ultimately show ?case
    using Cons by simp
qed simp

end
