(* ===== verification/Policy.thy ===== *)
theory Policy
  imports Core_Vocab Paths Btree_Map
begin

text \<open>
  The agent sandbox policy (\<open>sy-agent/src/agt/policy/schema.rs\<close>, \<open>resolver.rs\<close>,
  \<open>grant.rs\<close>): profiles, the decision oracle, the search for the policy tree and
  time-bounded grants.  The TOML parser, the glob matcher of \<open>globset\<close> and SHA-256 are
  parameters; the file system is a map from paths to file contents.
\<close>

section \<open>Schema\<close>

datatype ConsentMode = Never | OncePerSession | EveryCall

record ExecAllow =
  bin :: string
  argv_globs :: "string list"

record NetAllow =
  host :: string
  port :: u16

record Profile =
  read_paths :: "string list"
  write_paths :: "string list"
  exec_allowlist :: "ExecAllow list"
  net_outbound_allowlist :: "NetAllow list"
  env_passthrough_allowlist :: "string list"
  max_runtime_seconds :: u64
  max_stdout_bytes :: u64
  max_memory_mb :: u64
  max_pids :: u64
  deny_network :: bool
  require_consent :: ConsentMode

definition Profile_default :: Profile where
  "Profile_default = \<lparr>read_paths = [], write_paths = [], exec_allowlist = [], net_outbound_allowlist = [],
     env_passthrough_allowlist = [], max_runtime_seconds = 0, max_stdout_bytes = 0, max_memory_mb = 0,
     max_pids = 0, deny_network = False, require_consent = OncePerSession\<rparr>"

section \<open>Resolver\<close>

datatype PolicyDecision = PolicyAllow | PolicyDeny | PolicyConsent string

record Resolver =
  profile :: Profile
  tool_overlays :: "(string \<times> Profile) list"

datatype policy_error = ReadProfile string | ParseProfile string | NoPolicyRoot

definition substitute_repo :: "string \<Rightarrow> string \<Rightarrow> string option \<Rightarrow> string" where
  "substitute_repo p repo home =
     foldl (\<lambda>out c.
         if component_str c = ''$REPO'' then path_push out repo
         else if component_str c = ''$HOME'' then
           (case home of Some h \<Rightarrow> path_push out h | None \<Rightarrow> path_push out (component_str c))
         else path_push out (component_str c))
       [] (path_components p)"

definition expand_repo :: "string \<Rightarrow> string option \<Rightarrow> Profile \<Rightarrow> Profile" where
  "expand_repo repo home pr =
     pr\<lparr>read_paths := map (\<lambda>p. substitute_repo p repo home) (read_paths pr),
        write_paths := map (\<lambda>p. substitute_repo p repo home) (write_paths pr)\<rparr>"

definition parse_profile ::
  "(string \<Rightarrow> Profile option) \<Rightarrow> (string \<rightharpoonup> string) \<Rightarrow> string \<Rightarrow> policy_error + Profile" where
  "parse_profile toml files path =
     try_bind (ok_or (files path) (ReadProfile path)) (\<lambda>txt. ok_or (toml txt) (ParseProfile path))"

definition Resolver_load ::
  "(string \<Rightarrow> Profile option) \<Rightarrow> (string \<rightharpoonup> string) \<Rightarrow> string option \<Rightarrow>
   string \<Rightarrow> string \<Rightarrow> string option \<Rightarrow> string \<Rightarrow> policy_error + Resolver" where
  "Resolver_load toml files home policy_root profile_name t repo =
     try_bind (parse_profile toml files
         (path_push (path_push policy_root ''profiles'') (profile_name @ ''.toml'')))
       (\<lambda>pr. try_bind
         (case t of None \<Rightarrow> Inr []
          | Some name \<Rightarrow>
              (let overlay_path = path_push (path_push policy_root ''tools'') (name @ ''.toml'')
               in if files overlay_path = None then Inr []
                  else try_bind (parse_profile toml files overlay_path)
                    (\<lambda>ov. Inr (bt_insert name (expand_repo repo home ov) []))))
         (\<lambda>ovs. Inr \<lparr>profile = expand_repo repo home pr, tool_overlays = ovs\<rparr>))"

definition effective_profile :: "Resolver \<Rightarrow> string \<Rightarrow> Profile" where
  "effective_profile r t =
     (let key = (case path_file_stem t of Some s \<Rightarrow> s | None \<Rightarrow> t)
      in case map_of (tool_overlays r) key of Some p \<Rightarrow> p | None \<Rightarrow> profile r)"

text \<open>\<open>glob\<close>: the compiled matcher of a pattern, or \<open>None\<close> when it does not build.\<close>

definition glob_match :: "(string \<Rightarrow> (string \<Rightarrow> bool) option) \<Rightarrow> string \<Rightarrow> string \<Rightarrow> bool" where
  "glob_match glob pattern s = (case glob pattern of None \<Rightarrow> False | Some m \<Rightarrow> m s)"

definition bin_matches :: "(string \<Rightarrow> (string \<Rightarrow> bool) option) \<Rightarrow> string \<Rightarrow> string \<Rightarrow> bool" where
  "bin_matches glob pattern t \<longleftrightarrow> (if pattern = t then True else glob_match glob pattern t)"

definition argv_glob_matches :: "(string \<Rightarrow> (string \<Rightarrow> bool) option) \<Rightarrow> string list \<Rightarrow> string \<Rightarrow> bool" where
  "argv_glob_matches glob globs argv_joined \<longleftrightarrow> list_ex (\<lambda>p. glob_match glob p argv_joined) globs"

definition matches_allowlist ::
  "(string \<Rightarrow> (string \<Rightarrow> bool) option) \<Rightarrow> ExecAllow list \<Rightarrow> string \<Rightarrow> string list \<Rightarrow> ExecAllow option" where
  "matches_allowlist glob allowlist t args =
     (let argv_joined = join_with '' '' args
      in List.find (\<lambda>e. bin_matches glob (bin e) t \<and> argv_glob_matches glob (argv_globs e) argv_joined) allowlist)"

definition decide ::
  "(string \<Rightarrow> (string \<Rightarrow> bool) option) \<Rightarrow> Resolver \<Rightarrow> string \<Rightarrow> string list \<Rightarrow> PolicyDecision" where
  "decide glob r t args =
     (let pr = effective_profile r t
      in if exec_allowlist pr = [] then PolicyDeny
         else case matches_allowlist glob (exec_allowlist pr) t args of
           Some _ \<Rightarrow>
             (case require_consent pr of
                EveryCall \<Rightarrow> PolicyConsent (''policy requires consent on every call to '' @ t)
              | _ \<Rightarrow> PolicyAllow)
         | None \<Rightarrow> PolicyConsent (t @ '' is not in the allowlist for this profile''))"

definition fingerprint ::
  "(byte list \<Rightarrow> string) \<Rightarrow> (Profile \<Rightarrow> byte list) \<Rightarrow> Resolver \<Rightarrow> string" where
  "fingerprint sha256_hex canonical_bytes r =
     sha256_hex (canonical_bytes (profile r)
       @ concat (map (\<lambda>(t, ov). map of_char t @ [0] @ canonical_bytes ov) (tool_overlays r)))"

definition resolve_profile ::
  "(string \<Rightarrow> Profile option) \<Rightarrow> (string \<rightharpoonup> string) \<Rightarrow> string option \<Rightarrow>
   string \<Rightarrow> string \<Rightarrow> string option \<Rightarrow> string \<Rightarrow> policy_error + Profile" where
  "resolve_profile toml files home policy_root profile_name t repo =
     try_bind (Resolver_load toml files home policy_root profile_name t repo)
       (\<lambda>r. Inr (effective_profile r (case t of Some n \<Rightarrow> n | None \<Rightarrow> [])))"

section \<open>Finding the policy tree\<close>

text \<open>Directories are named by their components; \<open>is_dir\<close> is the file system's answer.\<close>

definition policy_dir :: "component list \<Rightarrow> component list" where
  "policy_dir d = d @ [Normal ''configs'', Normal ''policy'']"

definition has_profiles :: "(component list \<Rightarrow> bool) \<Rightarrow> component list \<Rightarrow> bool" where
  "has_profiles is_dir c = is_dir (c @ [Normal ''profiles''])"

definition path_parent :: "component list \<Rightarrow> component list option" where
  "path_parent cs = (if cs = [] \<or> last cs = RootDir then None else Some (butlast cs))"

function walk_up :: "(component list \<Rightarrow> bool) \<Rightarrow> component list \<Rightarrow> component list option" where
  "walk_up is_dir d =
     (if has_profiles is_dir (policy_dir d) then Some (policy_dir d)
      else case path_parent d of None \<Rightarrow> None | Some p \<Rightarrow> walk_up is_dir p)"
  by pat_completeness auto
termination
  by (relation "measure (length \<circ> snd)") (auto simp: path_parent_def split: if_splits)

declare walk_up.simps [simp del]

definition resolve_policy_root ::
  "(component list \<Rightarrow> bool) \<Rightarrow> component list option \<Rightarrow> component list option \<Rightarrow> component list option \<Rightarrow>
   component list \<Rightarrow> policy_error + component list" where
  "resolve_policy_root is_dir sy_root xdg_config_home home cwd =
     (let try_sy = (case sy_root of Some r \<Rightarrow> if has_profiles is_dir (policy_dir r) then Some (policy_dir r) else None
                    | None \<Rightarrow> None);
          xdg = (case (case xdg_config_home of Some x \<Rightarrow> if x = [] then None else Some x | None \<Rightarrow> None) of
                   Some x \<Rightarrow> Some x
                 | None \<Rightarrow> map_option (\<lambda>h. h @ [Normal ''.config'']) home);
          try_xdg = (case xdg of Some x \<Rightarrow>
                       if has_profiles is_dir (x @ [Normal ''policy'']) then Some (x @ [Normal ''policy'']) else None
                     | None \<Rightarrow> None);
          packaged = [RootDir, Normal ''usr'', Normal ''share'', Normal ''sy'', Normal ''configs'', Normal ''policy'']
      in case try_sy of Some c \<Rightarrow> Inr c
         | None \<Rightarrow> (case try_xdg of Some c \<Rightarrow> Inr c
         | None \<Rightarrow> (case walk_up is_dir cwd of Some c \<Rightarrow> Inr c
         | None \<Rightarrow> if has_profiles is_dir packaged then Inr packaged else Inl NoPolicyRoot)))"

section \<open>Grants\<close>

record Grant =
  g_tool :: string
  g_scope :: string
  ttl_ms :: u64
  granted_at_ms :: u64
  granted_by_pid :: u32
  granted_by_tty :: "string option"

text \<open>\<open>u64::try_from(d.as_millis())\<close> with the maximum as fallback; times are from the epoch.\<close>

definition millis_u64 :: "nat \<Rightarrow> u64" where
  "millis_u64 ms = (if ms < 2 ^ 64 then of_nat ms else - 1)"

definition Grant_new_at ::
  "string \<Rightarrow> string \<Rightarrow> nat \<Rightarrow> u32 \<Rightarrow> string option \<Rightarrow> nat \<Rightarrow> Grant" where
  "Grant_new_at t scp ttl pid tty granted_at =
     \<lparr>g_tool = t, g_scope = scp, ttl_ms = millis_u64 ttl, granted_at_ms = millis_u64 granted_at,
      granted_by_pid = pid, granted_by_tty = tty\<rparr>"

definition is_active :: "Grant \<Rightarrow> nat \<Rightarrow> bool" where
  "is_active g now \<longleftrightarrow>
     granted_at_ms g \<le> millis_u64 now \<and>
     millis_u64 now < saturating_add (granted_at_ms g) (ttl_ms g)"

section \<open>Substitution\<close>

definition is_variable :: "component \<Rightarrow> bool" where
  "is_variable c \<longleftrightarrow> component_str c = ''$REPO'' \<or> component_str c = ''$HOME''"

lemma substitute_no_variable:
  assumes "\<forall>c \<in> set cs. \<not> is_variable c"
  shows "foldl (\<lambda>out c.
         if component_str c = ''$REPO'' then path_push out repo
         else if component_str c = ''$HOME'' then
           (case home of Some h \<Rightarrow> path_push out h | None \<Rightarrow> path_push out (component_str c))
         else path_push out (component_str c)) buf cs
     = foldl (\<lambda>out c. path_push out (component_str c)) buf cs"
  using assms by (intro foldl_cong) (auto simp: is_variable_def)

lemma rebuild_components:
  "path_components (foldl (\<lambda>out c. path_push out (component_str c)) [] (path_components p)) = path_components p"
proof (cases "path_components p")
  case Nil
  then show ?thesis by (simp add: path_components_def has_root_def body_components_def)
next
  case (Cons c cs)
  have "path_push [] (component_str c) = component_str c"
    by (simp add: path_push_def)
  then show ?thesis
    using path_components_single [OF Cons] path_components_inner [OF Cons]
    by (simp add: Cons foldl_push_inner)
qed

lemma suffix_inner:
  assumes "path_components p = pre @ c # cs"
  shows "\<forall>d \<in> set cs. inner_component d"
  using assms path_components_inner [of p] by (cases pre) auto

section \<open>The search walks to the nearest ancestor\<close>

lemma walk_up_Some:
  assumes "walk_up is_dir d = Some c"
  shows "\<exists>n \<le> length d. c = policy_dir (take n d) \<and> has_profiles is_dir c \<and>
    (\<forall>m. n < m \<and> m \<le> length d \<longrightarrow> \<not> has_profiles is_dir (policy_dir (take m d)))"
  using assms
proof (induction is_dir d rule: walk_up.induct)
  case (1 is_dir d)
  show ?case
  proof (cases "has_profiles is_dir (policy_dir d)")
    case True
    then show ?thesis
      using 1(2) by (intro exI [of _ "length d"]) (auto simp: walk_up.simps [of is_dir d])
  next
    case False
    then obtain p where p: "path_parent d = Some p" and w: "walk_up is_dir p = Some c"
      using 1(2) by (auto simp: walk_up.simps [of is_dir d] split: option.splits)
    have d: "d \<noteq> []" "p = take (length d - 1) d" "length p = length d - 1"
      using p by (auto simp: path_parent_def butlast_conv_take split: if_splits)
    obtain n where n: "n \<le> length p" "c = policy_dir (take n p)" "has_profiles is_dir c"
      "\<forall>m. n < m \<and> m \<le> length p \<longrightarrow> \<not> has_profiles is_dir (policy_dir (take m p))"
      using 1(1) [OF False p w] by blast
    have "\<not> has_profiles is_dir (policy_dir (take m d))" if "n < m" "m \<le> length d" for m
      using that n(4) d False by (cases "m = length d") (auto simp: min_def)
    then show ?thesis
      using n d by (intro exI [of _ n]) (auto simp: min_def)
  qed
qed

lemma walk_up_finds:
  assumes "has_profiles is_dir (policy_dir (take n d))" "n \<le> length d" "RootDir \<notin> set (drop n d)"
  shows "walk_up is_dir d \<noteq> None"
  using assms
proof (induction is_dir d rule: walk_up.induct)
  case (1 is_dir d)
  show ?case
  proof (cases "has_profiles is_dir (policy_dir d)")
    case False
    then have lt: "n < length d"
      using 1(2,3) by (cases "n = length d") auto
    then have "last d \<in> set (drop n d)" "d \<noteq> []"
      by (auto simp: last_drop [symmetric] simp del: last_drop)
    then have p: "path_parent d = Some (butlast d)"
      using 1(4) by (auto simp: path_parent_def)
    have "RootDir \<notin> set (drop n (butlast d))"
      using 1(4) by (auto simp: drop_butlast dest: in_set_butlastD)
    then have "walk_up is_dir (butlast d) \<noteq> None"
      using 1(1) [OF False p] 1(2) lt by (simp add: take_butlast)
    then show ?thesis
      using False p by (simp add: walk_up.simps [of is_dir d])
  qed (simp add: walk_up.simps [of is_dir d])
qed

section \<open>Properties\<close>

text \<open>
  The oracle's three answers: it denies exactly when the effective profile has no
  allow-list entry, allows exactly when some entry matches tool and arguments and the profile
  does not ask for consent on every call, and asks for consent otherwise.
\<close>

theorem decide_three_way:
  "(decide glob r t args = PolicyDeny \<longleftrightarrow> exec_allowlist (effective_profile r t) = []) \<and>
   (decide glob r t args = PolicyAllow \<longleftrightarrow>
      require_consent (effective_profile r t) \<noteq> EveryCall \<and>
      (\<exists>e. e \<in> set (exec_allowlist (effective_profile r t)) \<and>
         (bin e = t \<or> glob_match glob (bin e) t) \<and>
         (\<exists>g. g \<in> set (argv_globs e) \<and> glob_match glob g (join_with '' '' args))))"
proof -
  let ?pr = "effective_profile r t"
  have none: "matches_allowlist glob (exec_allowlist ?pr) t args = None \<longleftrightarrow>
      \<not> (\<exists>e \<in> set (exec_allowlist ?pr). (bin e = t \<or> glob_match glob (bin e) t) \<and>
         (\<exists>g \<in> set (argv_globs e). glob_match glob g (join_with '' '' args)))"
    by (auto simp: matches_allowlist_def find_None_iff bin_matches_def argv_glob_matches_def list_ex_iff)
  show ?thesis
    using none by (auto simp: decide_def Let_def split: option.splits ConsentMode.splits)
qed

text \<open>
  Denial by construction: when the loaded profile lists no executable and the tool has no
  overlay file, every call is denied, whatever its arguments and whatever the globs match.
\<close>

theorem strict_profile_denies_everything:
  assumes "Resolver_load toml files home root name (path_file_stem t) repo = Inr r"
    and "files (path_push (path_push root ''profiles'') (name @ ''.toml'')) = Some txt"
    and "toml txt = Some pr" and "exec_allowlist pr = []"
    and "\<forall>k. path_file_stem t = Some k \<longrightarrow>
           files (path_push (path_push root ''tools'') (k @ ''.toml'')) = None"
  shows "decide glob r t args = PolicyDeny"
proof -
  have "tool_overlays r = []" "profile r = expand_repo repo home pr"
    using assms(1-3,5) by (auto simp: Resolver_load_def parse_profile_def Let_def split: option.splits)
  then have "exec_allowlist (effective_profile r t) = []"
    using assms(4) by (simp add: effective_profile_def expand_repo_def)
  then show ?thesis by (simp add: decide_def)
qed

theorem strict_profile_denies_everything_witness:
  "\<exists>r. Resolver_load (\<lambda>_. Some Profile_default) [''/p/profiles/strict.toml'' \<mapsto> ''x = 1''] None ''/p'' ''strict''
        (path_file_stem ''/usr/bin/rg'') ''/r'' = Inr r \<and>
      decide (\<lambda>_. Some (\<lambda>_. True)) r ''/usr/bin/rg'' [''x''] = PolicyDeny"
proof -
  let ?files = "[''/p/profiles/strict.toml'' \<mapsto> ''x = 1'']"
  have stem: "path_file_stem ''/usr/bin/rg'' = Some ''rg''"
    by (simp add: path_file_stem_def path_file_name_def path_components_def has_root_def
        body_components_def seg_component_def)
  have load: "Resolver_load (\<lambda>_. Some Profile_default) ?files None ''/p'' ''strict''
      (path_file_stem ''/usr/bin/rg'') ''/r'' = Inr \<lparr>profile = expand_repo ''/r'' None Profile_default, tool_overlays = []\<rparr>"
    by (simp add: stem Resolver_load_def parse_profile_def path_push_def has_root_def)
  have "decide (\<lambda>_. Some (\<lambda>_. True)) \<lparr>profile = expand_repo ''/r'' None Profile_default, tool_overlays = []\<rparr>
      ''/usr/bin/rg'' [''x''] = PolicyDeny"
    by (rule strict_profile_denies_everything [OF load, of "''x = 1''" Profile_default])
      (simp_all add: stem path_push_def has_root_def Profile_default_def)
  with load show ?thesis by blast
qed

text \<open>
  Variable substitution in policy paths is anchored to whole components: a path without a
  variable component keeps its components (so \<open>$REPOSITORY\<close> is untouched), and for an
  absolute repository root the last \<open>$REPO\<close> component is replaced by the root's components
  followed by the rest of the path.
\<close>

theorem substitute_repo_anchored:
  "((\<exists>c. c \<in> set (path_components p) \<and> is_variable c) \<or>
      path_components (substitute_repo p repo home) = path_components p) \<and>
   (has_root repo \<and> path_components p = pre @ Normal ''$REPO'' # rest \<and> \<not> list_ex is_variable rest
      \<longrightarrow> path_components (substitute_repo p repo home) = path_components repo @ rest)"
proof (intro conjI impI)
  show "(\<exists>c. c \<in> set (path_components p) \<and> is_variable c) \<or>
      path_components (substitute_repo p repo home) = path_components p"
  proof (cases "\<forall>c \<in> set (path_components p). \<not> is_variable c")
    case True
    from substitute_no_variable [OF this] show ?thesis
      by (simp only: substitute_repo_def rebuild_components simp_thms)
  qed blast
next
  assume a: "has_root repo \<and> path_components p = pre @ Normal ''$REPO'' # rest \<and> \<not> list_ex is_variable rest"
  then have "repo \<noteq> []" by (auto simp: has_root_def)
  then show "path_components (substitute_repo p repo home) = path_components repo @ rest"
    using a suffix_inner [of p pre "Normal ''$REPO''" rest]
    by (simp add: substitute_repo_def push_absolute substitute_no_variable foldl_push_inner list_ex_iff)
qed

theorem substitute_repo_anchored_witness:
  "path_components (substitute_repo ''$REPO/src'' ''/w/app'' None)
     = [RootDir, Normal ''w'', Normal ''app'', Normal ''src'']"
  using substitute_repo_anchored [of "''$REPO/src''" "''/w/app''" None "[]" "[Normal ''src'']"]
  by (simp add: path_components_def has_root_def body_components_def seg_component_def is_variable_def)

text \<open>
  The policy tree found by walking up is the nearest one: without an override from the
  environment the result is the \<open>configs/policy\<close> of the deepest ancestor of the working
  directory that has profiles; a tree in any ancestor is found.
\<close>

theorem policy_root_nearest_ancestor:
  assumes "sy_root = None" "xdg = None" "home = None"
    and "n \<le> length cwd" "has_profiles is_dir (policy_dir (take n cwd))" "RootDir \<notin> set (drop n cwd)"
  shows "\<exists>m. n \<le> m \<and> m \<le> length cwd \<and>
    resolve_policy_root is_dir sy_root xdg home cwd = Inr (policy_dir (take m cwd)) \<and>
    has_profiles is_dir (policy_dir (take m cwd)) \<and>
    (\<forall>k. m < k \<and> k \<le> length cwd \<longrightarrow> \<not> has_profiles is_dir (policy_dir (take k cwd)))"
proof -
  obtain c where c: "walk_up is_dir cwd = Some c"
    using walk_up_finds [OF assms(5,4,6)] by auto
  from walk_up_Some [OF c] obtain m where m: "m \<le> length cwd" "c = policy_dir (take m cwd)"
    "has_profiles is_dir c" "\<forall>k. m < k \<and> k \<le> length cwd \<longrightarrow> \<not> has_profiles is_dir (policy_dir (take k cwd))"
    by blast
  have "n \<le> m"
    using m(4) assms(4,5) by (meson not_le)
  then show ?thesis
    using m c assms(1-3) by (intro exI [of _ m]) (simp add: resolve_policy_root_def)
qed

theorem policy_root_nearest_ancestor_witness:
  "\<exists>m. resolve_policy_root (\<lambda>c. c = [RootDir, Normal ''a'', Normal ''configs'', Normal ''policy'', Normal ''profiles''])
      None None None [RootDir, Normal ''a'', Normal ''b''] = Inr (policy_dir (take m [RootDir, Normal ''a'', Normal ''b'']))"
  using policy_root_nearest_ancestor [of None None None 2 "[RootDir, Normal ''a'', Normal ''b'']"
      "\<lambda>c. c = [RootDir, Normal ''a'', Normal ''configs'', Normal ''policy'', Normal ''profiles'']"]
  by (auto simp: has_profiles_def policy_dir_def)

text \<open>
  A grant is a half-open window that cannot wrap around: for times that fit in 64 bits it
  is active from its issue until its expiry, where the expiry saturates at the largest
  representable millisecond.
\<close>

theorem grant_window:
  assumes "granted_at < 2 ^ 64" "ttl < 2 ^ 64" "now < 2 ^ 64"
  shows "is_active (Grant_new_at t s ttl pid tty granted_at) now \<longleftrightarrow>
    granted_at \<le> now \<and> now < min (granted_at + ttl) (2 ^ 64 - 1)"
proof -
  have u: "unat (of_nat x :: u64) = x" if "x < 2 ^ 64" for x
    using that by (simp add: unat_of_nat take_bit_nat_eq_self)
  show ?thesis
    using assms by (simp add: is_active_def Grant_new_at_def millis_u64_def word_le_nat_alt word_less_nat_alt
        unat_saturating_add u)
qed

theorem grant_window_witness:
  "is_active (Grant_new_at ''rg'' ''/'' 500 1 None 1000) 1499 \<and>
   \<not> is_active (Grant_new_at ''rg'' ''/'' 500 1 None 1000) 1500"
  using grant_window [of 1000 500 1499 "''rg''" "''/''" 1 None] grant_window [of 1000 500 1500 "''rg''" "''/''" 1 None]
  by simp

end
