(* ===== verification/Text.thy ===== *)
theory Text
  imports Prelude
begin

text \<open>
  Text at the byte level, as the standard library treats it: UTF-8 validity
  (\<open>str::from_utf8\<close>), \<open>str::trim\<close> over every Unicode white space, decimal printing and
  \<open>parse::<usize>\<close>, \<open>split_once\<close>, and ASCII case folding.
\<close>

section \<open>Literals\<close>

definition bytes_of :: "string \<Rightarrow> byte list" where
  "bytes_of s = map of_char s"

section \<open>UTF-8\<close>

definition cont :: "byte \<Rightarrow> bool" where
  "cont b \<longleftrightarrow> 0x80 \<le> b \<and> b \<le> 0xBF"

text \<open>The length of the well-formed sequence at the head, by the table of the Unicode standard.\<close>

fun utf8_len :: "byte list \<Rightarrow> nat option" where
  "utf8_len [] = None"
| "utf8_len (a # bs) =
     (if a \<le> 0x7F then Some 1
      else case bs of
        [] \<Rightarrow> None
      | b # cs \<Rightarrow>
          if 0xC2 \<le> a \<and> a \<le> 0xDF then (if cont b then Some 2 else None)
          else case cs of
            [] \<Rightarrow> None
          | c # ds \<Rightarrow>
              if 0xE0 \<le> a \<and> a \<le> 0xEF then
                (if (if a = 0xE0 then 0xA0 \<le> b \<and> b \<le> 0xBF
                     else if a = 0xED then 0x80 \<le> b \<and> b \<le> 0x9F else cont b) \<and> cont c
                 then Some 3 else None)
              else case ds of
                [] \<Rightarrow> None
              | d # _ \<Rightarrow>
                  if 0xF0 \<le> a \<and> a \<le> 0xF4 then
                    (if (if a = 0xF0 then 0x90 \<le> b \<and> b \<le> 0xBF
                         else if a = 0xF4 then 0x80 \<le> b \<and> b \<le> 0x8F else cont b) \<and> cont c \<and> cont d
                     then Some 4 else None)
                  else None)"

lemma utf8_len_pos: "utf8_len bs = Some n \<Longrightarrow> 0 < n"
  by (cases bs) (auto split: if_splits list.splits)

function utf8_valid :: "byte list \<Rightarrow> bool" where
  "utf8_valid bs =
     (if bs = [] then True
      else case utf8_len bs of None \<Rightarrow> False | Some n \<Rightarrow> utf8_valid (drop n bs))"
  by pat_completeness auto
termination
  by (relation "measure length") (auto dest: utf8_len_pos)

declare utf8_valid.simps [simp del]

lemma utf8_valid_ascii: "\<forall>b \<in> set bs. b \<le> 0x7F \<Longrightarrow> utf8_valid bs"
  by (induction bs) (simp_all add: utf8_valid.simps [of "_ # _"] utf8_valid.simps [of "[]"])

section \<open>Trimming\<close>

text \<open>The encodings of the characters with the property \<open>White_Space\<close>.\<close>

definition ws_seqs :: "byte list list" where
  "ws_seqs =
     [[9], [10], [11], [12], [13], [32], [0xC2, 0x85], [0xC2, 0xA0], [0xE1, 0x9A, 0x80],
      [0xE2, 0x80, 0x80], [0xE2, 0x80, 0x81], [0xE2, 0x80, 0x82], [0xE2, 0x80, 0x83], [0xE2, 0x80, 0x84],
      [0xE2, 0x80, 0x85], [0xE2, 0x80, 0x86], [0xE2, 0x80, 0x87], [0xE2, 0x80, 0x88], [0xE2, 0x80, 0x89],
      [0xE2, 0x80, 0x8A], [0xE2, 0x80, 0xA8], [0xE2, 0x80, 0xA9], [0xE2, 0x80, 0xAF], [0xE2, 0x81, 0x9F],
      [0xE3, 0x80, 0x80]]"

definition strip_one :: "byte list list \<Rightarrow> byte list \<Rightarrow> byte list option" where
  "strip_one ws bs = map_option (\<lambda>w. drop (length w) bs) (List.find (\<lambda>w. w \<noteq> [] \<and> take (length w) bs = w) ws)"

lemma strip_one_shorter: "strip_one ws bs = Some r \<Longrightarrow> length r < length bs"
  by (cases bs) (auto simp: strip_one_def find_Some_iff)

function strip_all :: "byte list list \<Rightarrow> byte list \<Rightarrow> byte list" where
  "strip_all ws bs = (case strip_one ws bs of None \<Rightarrow> bs | Some r \<Rightarrow> strip_all ws r)"
  by pat_completeness auto
termination
  by (relation "measure (length \<circ> snd)") (auto dest: strip_one_shorter)

declare strip_all.simps [simp del]

definition trim_bytes :: "byte list \<Rightarrow> byte list" where
  "trim_bytes bs = rev (strip_all (map rev ws_seqs) (rev (strip_all ws_seqs bs)))"

lemma strip_all_stop: "strip_one ws bs = None \<Longrightarrow> strip_all ws bs = bs"
  by (simp add: strip_all.simps [of ws bs])

text \<open>A byte no white space starts or ends with.\<close>

definition solid :: "byte \<Rightarrow> bool" where
  "solid b \<longleftrightarrow> 33 \<le> b \<and> b \<le> 0x7F"

lemma ws_not_solid: "\<forall>w \<in> set ws_seqs. \<not> solid (hd w)" "\<forall>w \<in> set (map rev ws_seqs). \<not> solid (hd w)"
  by (simp_all add: ws_seqs_def solid_def)

lemma strip_one_solid:
  assumes "\<forall>w \<in> set ws. \<not> solid (hd w)" "solid b"
  shows "strip_one ws (b # bs) = None"
proof -
  have "hd w = b" if "w \<noteq> []" "take (length w) (b # bs) = w" for w
    using that by (cases w) auto
  then show ?thesis
    using assms by (auto simp: strip_one_def find_None_iff)
qed

lemmas solid_strip [simp] = strip_one_solid [OF ws_not_solid(1)] strip_one_solid [OF ws_not_solid(2)]

lemma strip_nil [simp]: "strip_one ws [] = None"
  by (auto simp: strip_one_def find_None_iff)

lemma trim_solid:
  assumes "bs = [] \<or> solid (hd bs) \<and> solid (last bs)"
  shows "trim_bytes bs = bs"
proof (cases "bs = []")
  case False
  then obtain x xs where x: "bs = x # xs" by (cases bs) auto
  obtain y ys where y: "rev bs = y # ys" using False by (cases "rev bs") auto
  then have "last bs = y" by (metis hd_rev list.sel(1))
  then have "solid x" "solid y"
    using assms x False by auto
  then have "strip_all ws_seqs bs = bs" "strip_all (map rev ws_seqs) (rev bs) = rev bs"
    unfolding y by (simp_all add: strip_all_stop x)
  then show ?thesis by (simp add: trim_bytes_def)
qed (simp add: trim_bytes_def strip_all_stop)

lemma strip_space: "strip_all ws_seqs (32 # bs) = strip_all ws_seqs bs"
  by (subst strip_all.simps) (simp add: strip_one_def ws_seqs_def)

lemma trim_space: "trim_bytes (32 # bs) = trim_bytes bs"
  by (simp add: trim_bytes_def strip_space)

section \<open>Decimal numbers\<close>

fun dec_digits :: "nat \<Rightarrow> nat list" where
  "dec_digits n = (if n < 10 then [n] else dec_digits (n div 10) @ [n mod 10])"

declare dec_digits.simps [simp del]

definition dec_value :: "nat list \<Rightarrow> nat" where
  "dec_value ds = foldl (\<lambda>a d. 10 * a + d) 0 ds"

lemma dec_value_digits [simp]: "dec_value (dec_digits n) = n"
proof (induction n rule: dec_digits.induct)
  case (1 n)
  then show ?case by (subst dec_digits.simps) (auto simp: dec_value_def)
qed

lemma dec_digits_less: "d \<in> set (dec_digits n) \<Longrightarrow> d < 10"
proof (induction n rule: dec_digits.induct)
  case (1 n)
  then show ?case by (subst (asm) dec_digits.simps) (auto split: if_splits)
qed

lemma dec_digits_nonempty [simp]: "dec_digits n \<noteq> []"
  by (subst dec_digits.simps) simp

lemma inj_dec_digits: "dec_digits m = dec_digits n \<longleftrightarrow> m = n"
  by (metis dec_value_digits)

text \<open>The printed number, as characters and as bytes.\<close>

definition nat_str :: "nat \<Rightarrow> string" where
  "nat_str n = map (\<lambda>d. char_of (48 + d)) (dec_digits n)"

lemma inj_nat_str: "nat_str m = nat_str n \<longleftrightarrow> m = n"
proof -
  have "inj_on (\<lambda>d. char_of (48 + d :: nat)) {..<10}"
    by (rule inj_onI) (auto dest!: arg_cong [of _ _ "of_char :: char \<Rightarrow> nat"] simp: of_char_of take_bit_nat_eq_self)
  then have "inj_on (map (\<lambda>d. char_of (48 + d :: nat))) (lists {..<10})"
    by (rule inj_on_map_lists)
  moreover have "dec_digits k \<in> lists {..<10}" for k
    using dec_digits_less by auto
  ultimately show ?thesis
    unfolding nat_str_def by (metis inj_dec_digits inj_onD)
qed

lemma last_nat_str: "nat_str n \<noteq> [] \<and> of_char (last (nat_str n)) < (58 :: nat)"
  using dec_digits_less [OF last_in_set [OF dec_digits_nonempty], of n]
  by (simp add: nat_str_def last_map of_char_of take_bit_nat_eq_self)

definition dec_bytes :: "nat \<Rightarrow> byte list" where
  "dec_bytes n = map (\<lambda>d. of_nat (48 + d)) (dec_digits n)"

definition is_digit_byte :: "byte \<Rightarrow> bool" where
  "is_digit_byte b \<longleftrightarrow> 48 \<le> b \<and> b \<le> 57"

text \<open>\<open>parse::<usize>\<close>: an optional plus sign, at least one digit, and no overflow.\<close>

definition parse_usize :: "byte list \<Rightarrow> nat option" where
  "parse_usize bs =
     (let ds = (if bs \<noteq> [] \<and> hd bs = 43 then tl bs else bs);
          v = dec_value (map (\<lambda>b. unat b - 48) ds)
      in if ds = [] \<or> \<not> list_all is_digit_byte ds \<or> v \<ge> 2 ^ 64 then None else Some v)"

lemma digit_byte:
  assumes "d < 10"
  shows "unat (of_nat (48 + d) :: byte) = 48 + d" "is_digit_byte (of_nat (48 + d))"
    "solid (of_nat (48 + d))" "(of_nat (48 + d) :: byte) \<noteq> 43"
proof -
  have "d \<in> {0,1,2,3,4,5,6,7,8,9}" using assms by auto
  then show "unat (of_nat (48 + d) :: byte) = 48 + d" "is_digit_byte (of_nat (48 + d))"
    "solid (of_nat (48 + d))" "(of_nat (48 + d) :: byte) \<noteq> 43"
    by (auto simp: is_digit_byte_def solid_def)
qed

lemma dec_bytes_nonempty [simp]: "dec_bytes n \<noteq> []"
  by (simp add: dec_bytes_def)

lemma dec_bytes_digit: "b \<in> set (dec_bytes n) \<Longrightarrow> is_digit_byte b \<and> solid b"
  using dec_digits_less [of _ n] digit_byte(2,3) by (auto simp: dec_bytes_def simp del: of_nat_add)

lemma parse_usize_dec_bytes:
  assumes "n < 2 ^ 64"
  shows "parse_usize (dec_bytes n) = Some n"
proof -
  have v: "map (\<lambda>b. unat b - 48) (dec_bytes n) = dec_digits n"
    using dec_digits_less [of _ n] digit_byte(1)
    by (auto simp: dec_bytes_def simp del: of_nat_add intro!: map_idI)
  obtain b bs where b: "dec_bytes n = b # bs"
    by (cases "dec_bytes n") auto
  then have "is_digit_byte b"
    using dec_bytes_digit [of b n] by simp
  then have "b \<noteq> 43" by (auto simp: is_digit_byte_def)
  then have "(if dec_bytes n \<noteq> [] \<and> hd (dec_bytes n) = 43 then tl (dec_bytes n) else dec_bytes n) = dec_bytes n"
    by (simp add: b)
  moreover have "list_all is_digit_byte (dec_bytes n)"
    using dec_bytes_digit by (auto simp: list_all_iff)
  ultimately show ?thesis
    using v assms by (simp add: parse_usize_def Let_def)
qed

section \<open>Splitting\<close>

fun split_once :: "byte \<Rightarrow> byte list \<Rightarrow> (byte list \<times> byte list) option" where
  "split_once c [] = None"
| "split_once c (b # bs) =
     (if b = c then Some ([], bs) else map_option (\<lambda>(x, y). (b # x, y)) (split_once c bs))"

lemma split_once_append: "c \<notin> set a \<Longrightarrow> split_once c (a @ c # b) = Some (a, b)"
  by (induction a) auto

text \<open>\<open>split("\r\n")\<close>.\<close>

fun split_crlf :: "byte list \<Rightarrow> byte list list" where
  "split_crlf [] = [[]]"
| "split_crlf [b] = [[b]]"
| "split_crlf (b # c # bs) =
     (if b = 13 \<and> c = 10 then [] # split_crlf bs
      else (case split_crlf (c # bs) of [] \<Rightarrow> [[b]] | l # ls \<Rightarrow> (b # l) # ls))"

lemma split_crlf_none: "13 \<notin> set bs \<Longrightarrow> split_crlf bs = [bs]"
  by (induction bs rule: split_crlf.induct) auto

definition ascii_lower :: "byte \<Rightarrow> byte" where
  "ascii_lower b = (if 65 \<le> b \<and> b \<le> 90 then b + 32 else b)"

definition eq_ignore_ascii_case :: "byte list \<Rightarrow> byte list \<Rightarrow> bool" where
  "eq_ignore_ascii_case a b \<longleftrightarrow> map ascii_lower a = map ascii_lower b"

section \<open>Lossy decoding\<close>

text \<open>\<open>from_utf8_lossy\<close>: every maximal ill-formed prefix of a sequence becomes one U+FFFD.\<close>

definition second_ok :: "byte \<Rightarrow> byte \<Rightarrow> bool" where
  "second_ok a b \<longleftrightarrow>
     (if a = 0xE0 then 0xA0 \<le> b \<and> b \<le> 0xBF
      else if a = 0xED then 0x80 \<le> b \<and> b \<le> 0x9F
      else if a = 0xF0 then 0x90 \<le> b \<and> b \<le> 0xBF
      else if a = 0xF4 then 0x80 \<le> b \<and> b \<le> 0x8F
      else 0xE0 \<le> a \<and> a \<le> 0xF4 \<and> cont b)"

definition bad_len :: "byte list \<Rightarrow> nat" where
  "bad_len bs = (case bs of
      a # b # cs \<Rightarrow> if \<not> second_ok a b then 1
        else (case cs of c # _ \<Rightarrow> if 0xF0 \<le> a \<and> cont c then 3 else 2 | [] \<Rightarrow> 2)
    | _ \<Rightarrow> 1)"

lemma bad_len_pos: "0 < bad_len bs"
  by (auto simp: bad_len_def split: list.splits)

function utf8_lossy :: "byte list \<Rightarrow> byte list" where
  "utf8_lossy bs =
     (if bs = [] then []
      else case utf8_len bs of
        Some n \<Rightarrow> take n bs @ utf8_lossy (drop n bs)
      | None \<Rightarrow> [0xEF, 0xBF, 0xBD] @ utf8_lossy (drop (bad_len bs) bs))"
  by pat_completeness auto
termination
  by (relation "measure length") (auto dest: utf8_len_pos simp: bad_len_pos)

declare utf8_lossy.simps [simp del]

lemma utf8_lossy_valid: "utf8_valid bs \<Longrightarrow> utf8_lossy bs = bs"
proof (induction bs rule: utf8_valid.induct)
  case (1 bs)
  then show ?case
    by (subst utf8_lossy.simps) (auto simp: utf8_valid.simps [of bs] split: option.splits)
qed

section \<open>Strings of characters\<close>

definition to_ascii_lowercase :: "string \<Rightarrow> string" where
  "to_ascii_lowercase = map (\<lambda>c. if 65 \<le> (of_char c :: nat) \<and> (of_char c :: nat) \<le> 90 then char_of (of_char c + 32 :: nat) else c)"

definition contains_str :: "string \<Rightarrow> string \<Rightarrow> bool" where
  "contains_str p s \<longleftrightarrow> list_ex (\<lambda>i. take (length p) (drop i s) = p) [0..<Suc (length s)]"

end
