(* ===== verification/Audit_Log.thy ===== *)
theory Audit_Log
  imports Core_Vocab Text
begin

text \<open>
  The audit log of the agent daemon (\<open>sy-agent/src/agt/audit/mod.rs\<close>, \<open>jsonl.rs\<close>,
  \<open>journald.rs\<close>): the record, the two sinks and the rotation of the JSONL file.  The
  directory is a map from the files the code names to their bytes.  \<open>serde_json::to_string\<close>
  and the zstd encoder are the parameters \<open>to_json\<close> and \<open>zstd\<close>.
\<close>

section \<open>Records\<close>

datatype AuditDecision = AuditAllow | AuditDeny | AuditConsent

fun AuditDecision_as_str :: "AuditDecision \<Rightarrow> string" where
  "AuditDecision_as_str AuditAllow = ''allow''"
| "AuditDecision_as_str AuditDeny = ''deny''"
| "AuditDecision_as_str AuditConsent = ''consent''"

text \<open>\<open>ts\<close> is the UTC time in milliseconds; a \<open>Ulid\<close> is its 128-bit value.\<close>

record AuditRecord =
  ts :: nat
  tool :: string
  policy_sha :: string
  decision :: AuditDecision
  argv :: "string list"
  request_id :: "128 word option"
  trace_id :: "string option"
  reason :: "string option"

definition AuditRecord_now ::
  "nat \<Rightarrow> string \<Rightarrow> string \<Rightarrow> AuditDecision \<Rightarrow> string list \<Rightarrow> AuditRecord" where
  "AuditRecord_now utc_now t sha d args =
     \<lparr>ts = utc_now, tool = t, policy_sha = sha, decision = d, argv = args,
      request_id = None, trace_id = None, reason = None\<rparr>"

definition with_request_id :: "128 word option \<Rightarrow> AuditRecord \<Rightarrow> AuditRecord" where
  "with_request_id i r = r\<lparr>request_id := i\<rparr>"

definition with_trace_id :: "string option \<Rightarrow> AuditRecord \<Rightarrow> AuditRecord" where
  "with_trace_id i r = r\<lparr>trace_id := i\<rparr>"

definition with_reason :: "string option \<Rightarrow> AuditRecord \<Rightarrow> AuditRecord" where
  "with_reason i r = r\<lparr>reason := i\<rparr>"

section \<open>Files\<close>

datatype audit_file = Live | Staged nat | Archive nat

definition LIVE_FILE_NAME :: string where "LIVE_FILE_NAME = ''audit.jsonl''"

fun file_name :: "audit_file \<Rightarrow> string" where
  "file_name Live = LIVE_FILE_NAME"
| "file_name (Archive n) = LIVE_FILE_NAME @ ''.'' @ nat_str n @ ''.zst''"
| "file_name (Staged n) = LIVE_FILE_NAME @ ''.'' @ nat_str n"

type_synonym audit_fs = "audit_file \<rightharpoonup> byte list"

datatype audit_error = NoSuchFile audit_file

definition ROTATE_THRESHOLD_BYTES :: nat where "ROTATE_THRESHOLD_BYTES = 64 * 1024 * 1024"

definition ARCHIVE_RETENTION :: nat where "ARCHIVE_RETENTION = 10"

text \<open>\<open>std::fs::rename\<close> replaces the destination; it fails when the source is missing.\<close>

definition fs_rename :: "audit_file \<Rightarrow> audit_file \<Rightarrow> audit_fs \<Rightarrow> audit_error + audit_fs" where
  "fs_rename src dst fs =
     (case fs src of None \<Rightarrow> Inl (NoSuchFile src)
      | Some b \<Rightarrow> Inr (fs(src := None, dst := Some b)))"

definition fs_remove :: "audit_file \<Rightarrow> audit_fs \<Rightarrow> audit_error + audit_fs" where
  "fs_remove f fs = (if fs f = None then Inl (NoSuchFile f) else Inr (fs(f := None)))"

section \<open>Rotation\<close>

fun shift_down :: "nat list \<Rightarrow> audit_fs \<Rightarrow> audit_error + audit_fs" where
  "shift_down [] fs = Inr fs"
| "shift_down (n # ns) fs =
     (if fs (Archive n) = None then shift_down ns fs
      else try_bind (fs_rename (Archive n) (Archive (n + 1)) fs) (shift_down ns))"

definition shift_archives :: "audit_fs \<Rightarrow> audit_error + audit_fs" where
  "shift_archives fs =
     try_bind (if fs (Archive ARCHIVE_RETENTION) \<noteq> None then fs_remove (Archive ARCHIVE_RETENTION) fs else Inr fs)
       (shift_down (rev [1..<ARCHIVE_RETENTION]))"

definition compress_archive ::
  "(byte list \<Rightarrow> byte list) \<Rightarrow> audit_file \<Rightarrow> audit_file \<Rightarrow> audit_fs \<Rightarrow> audit_error + audit_fs" where
  "compress_archive zstd inp out fs =
     (case fs inp of None \<Rightarrow> Inl (NoSuchFile inp) | Some b \<Rightarrow> Inr (fs(out \<mapsto> zstd b)))"

definition stage :: "audit_fs \<Rightarrow> audit_error + audit_fs" where
  "stage fs = try_bind (shift_archives fs) (fs_rename Live (Staged 1))"

definition rotate_log :: "(byte list \<Rightarrow> byte list) \<Rightarrow> audit_fs \<Rightarrow> audit_error + audit_fs" where
  "rotate_log zstd fs =
     try_bind (stage fs) (\<lambda>fs1.
     try_bind (compress_archive zstd (Staged 1) (Archive 1) fs1) (fs_remove (Staged 1)))"

definition rotate_if_needed :: "(byte list \<Rightarrow> byte list) \<Rightarrow> audit_fs \<Rightarrow> audit_error + audit_fs" where
  "rotate_if_needed zstd fs =
     (case fs Live of None \<Rightarrow> Inr fs
      | Some b \<Rightarrow> if length b \<le> ROTATE_THRESHOLD_BYTES then Inr fs else rotate_log zstd fs)"

definition line_of :: "(AuditRecord \<Rightarrow> byte list) \<Rightarrow> AuditRecord \<Rightarrow> byte list" where
  "line_of to_json r = to_json r @ [10]"

definition append_live :: "byte list \<Rightarrow> audit_fs \<Rightarrow> audit_fs" where
  "append_live bs fs = fs(Live \<mapsto> (case fs Live of None \<Rightarrow> [] | Some b \<Rightarrow> b) @ bs)"

definition emit_jsonl ::
  "(AuditRecord \<Rightarrow> byte list) \<Rightarrow> (byte list \<Rightarrow> byte list) \<Rightarrow> AuditRecord \<Rightarrow> audit_fs
     \<Rightarrow> audit_error + audit_fs" where
  "emit_jsonl to_json zstd r fs = rotate_if_needed zstd (append_live (line_of to_json r) fs)"

section \<open>The journald sink and the fire-and-forget emit\<close>

datatype AuditSinkError = NotAvailable | SendFailed string

definition SY_AUDIT_MESSAGE_ID :: string where
  "SY_AUDIT_MESSAGE_ID = ''7a1c5b3e9d4f4c2db8e6f1a290c4d51e''"

text \<open>The datagram: the message and its indexed fields (\<open>rfc3339\<close> and \<open>ulid_str\<close> print).\<close>

definition journald_entry ::
  "(nat \<Rightarrow> string) \<Rightarrow> (128 word \<Rightarrow> string) \<Rightarrow> AuditRecord \<Rightarrow> string \<times> (string \<times> string) list" where
  "journald_entry rfc3339 ulid_str r =
     (''sandbox '' @ AuditDecision_as_str (decision r) @ '' '' @ tool r,
      [(''MESSAGE_ID'', SY_AUDIT_MESSAGE_ID),
       (''SY_TOOL'', tool r),
       (''SY_POLICY_SHA'', policy_sha r),
       (''SY_DECISION'', AuditDecision_as_str (decision r)),
       (''SY_ARGV'', join_with '' '' (argv r)),
       (''SY_REQUEST_ID'', case request_id r of None \<Rightarrow> [] | Some u \<Rightarrow> ulid_str u),
       (''SY_TRACE_ID'', case trace_id r of None \<Rightarrow> [] | Some t \<Rightarrow> t),
       (''SY_REASON'', case reason r of None \<Rightarrow> [] | Some t \<Rightarrow> t),
       (''SY_TS'', rfc3339 (ts r))])"

record journal =
  socket_present :: bool
  send_error :: "string option"
  entries :: "(string \<times> (string \<times> string) list) list"

definition emit_journald ::
  "(nat \<Rightarrow> string) \<Rightarrow> (128 word \<Rightarrow> string) \<Rightarrow> AuditRecord \<Rightarrow> journal \<Rightarrow> (AuditSinkError option) \<times> journal" where
  "emit_journald rfc3339 ulid_str r j =
     (if \<not> socket_present j then (Some NotAvailable, j)
      else case send_error j of Some e \<Rightarrow> (Some (SendFailed e), j)
      | None \<Rightarrow> (None, j\<lparr>entries := entries j @ [journald_entry rfc3339 ulid_str r]\<rparr>))"

text \<open>
  \<open>emit\<close>: a failing sink is logged and the other still runs.  A failed rotation leaves the
  directory with the line appended, as the append comes first.
\<close>

definition emit_audit ::
  "(AuditRecord \<Rightarrow> byte list) \<Rightarrow> (byte list \<Rightarrow> byte list) \<Rightarrow> (nat \<Rightarrow> string) \<Rightarrow> (128 word \<Rightarrow> string) \<Rightarrow>
   AuditRecord \<Rightarrow> audit_fs \<times> journal \<Rightarrow> audit_fs \<times> journal" where
  "emit_audit to_json zstd rfc3339 ulid_str r st =
     (case emit_jsonl to_json zstd r (fst st) of
        Inl _ \<Rightarrow> append_live (line_of to_json r) (fst st)
      | Inr fs \<Rightarrow> fs,
      snd (emit_journald rfc3339 ulid_str r (snd st)))"

section \<open>What the directory holds\<close>

text \<open>
  The files of the directory are named apart, so the map from \<open>audit_file\<close> is faithful to the
  paths on disk.
\<close>

lemma nat_str_not_zst: "nat_str n \<noteq> nat_str m @ ''.zst''"
  using last_nat_str [of n] by auto

lemma file_name_inj: "file_name f = file_name g \<Longrightarrow> f = g"
  using nat_str_not_zst nat_str_not_zst [symmetric]
  by (cases f; cases g) (auto simp: inj_nat_str)

text \<open>
  \<open>log_rep\<close>: all batches rotated so far, newest first, and the live bytes.  Archive
  \<open>n\<close> is the \<open>n\<close>-th newest batch, compressed; only ten are kept; nothing is staged.
\<close>

definition log_rep :: "(byte list \<Rightarrow> byte list) \<Rightarrow> byte list list \<Rightarrow> byte list \<Rightarrow> audit_fs \<Rightarrow> bool" where
  "log_rep zstd batches cur fs \<longleftrightarrow>
     (\<forall>n. fs (Archive n) = (if 1 \<le> n \<and> n \<le> min ARCHIVE_RETENTION (length batches)
        then Some (zstd (batches ! (n - 1))) else None)) \<and>
     (\<forall>n. fs (Staged n) = None) \<and>
     (case fs Live of None \<Rightarrow> [] | Some b \<Rightarrow> b) = cur"

definition shifted :: "nat \<Rightarrow> audit_fs \<Rightarrow> audit_fs" where
  "shifted m fs f =
     (case f of Archive n \<Rightarrow> if n = 1 \<and> 0 < m then None else if 1 < n \<and> n \<le> Suc m then fs (Archive (n - 1)) else fs f
      | _ \<Rightarrow> fs f)"

lemma shifted_gap:
  assumes "fs (Archive (Suc (Suc m))) = None" "fs (Archive (Suc m)) = None"
  shows "shifted m fs = shifted (Suc m) fs"
proof
  show "shifted m fs f = shifted (Suc m) fs f" for f
  proof (cases f)
    case (Archive n)
    consider "n \<le> 1" | "1 < n" "n \<le> Suc m" | "n = Suc (Suc m)" | "Suc (Suc m) < n" by linarith
    then show ?thesis using Archive assms by cases (auto simp: shifted_def)
  qed (simp_all add: shifted_def)
qed

lemma shifted_move:
  assumes "fs (Archive (Suc (Suc m))) = None" "fs (Archive (Suc m)) = Some b"
  shows "shifted m (fs(Archive (Suc m) := None, Archive (Suc (Suc m)) \<mapsto> b)) = shifted (Suc m) fs"
    (is "shifted m ?fs = _")
proof
  show "shifted m ?fs f = shifted (Suc m) fs f" for f
  proof (cases f)
    case (Archive n)
    consider "n \<le> 1" | "1 < n" "n \<le> Suc m" | "n = Suc (Suc m)" | "Suc (Suc m) < n" by linarith
    then show ?thesis using Archive assms by cases (auto simp: shifted_def)
  qed (simp_all add: shifted_def)
qed

lemma shift_down_spec:
  "fs (Archive (Suc m)) = None \<Longrightarrow> shift_down (rev [1..<Suc m]) fs = Inr (shifted m fs)"
proof (induction m arbitrary: fs)
  case 0
  then show ?case by (auto simp: shifted_def fun_eq_iff split: audit_file.split)
next
  case (Suc m)
  have s: "rev [1..<Suc (Suc m)] = Suc m # rev [1..<Suc m]" by simp
  show ?case
    unfolding s using Suc.IH Suc.prems shifted_gap [of fs m] shifted_move [of fs m]
    by (cases "fs (Archive (Suc m))") (simp_all add: fs_rename_def fun_upd_def del: upt_Suc)
qed

lemma shift_archives_spec:
  "shift_archives fs = Inr (shifted 9 (fs(Archive 10 := None)))"
proof -
  have "fs(Archive 10 := None) = fs" if "fs (Archive 10) = None"
    using that by auto
  moreover have "shift_down (rev [1..<10]) (fs(Archive 10 := None)) = Inr (shifted 9 (fs(Archive 10 := None)))"
    using shift_down_spec [of "fs(Archive 10 := None)" 9] by (simp del: upt_Suc add: upt_rec [of 1])
  ultimately show ?thesis
    by (cases "fs (Archive 10)")
      (simp_all add: shift_archives_def ARCHIVE_RETENTION_def fs_remove_def del: upt_rec_numeral)
qed

lemma rotate_log_rep:
  assumes rep: "log_rep zstd batches cur fs" and live: "fs Live = Some cur"
  shows "\<exists>fs'. rotate_log zstd fs = Inr fs' \<and> log_rep zstd (cur # batches) [] fs'"
proof -
  let ?s = "shifted 9 (fs(Archive 10 := None))"
  let ?fs' = "?s(Live := None, Staged 1 := None, Archive 1 \<mapsto> zstd cur)"
  have "?s Live = Some cur"
    by (simp add: shifted_def live)
  then have "rotate_log zstd fs = Inr ?fs'"
    by (simp add: rotate_log_def stage_def shift_archives_spec fs_rename_def compress_archive_def fs_remove_def fun_upd_twist)
  moreover have "log_rep zstd (cur # batches) [] ?fs'"
    using rep unfolding log_rep_def ARCHIVE_RETENTION_def
    by (auto simp: shifted_def nth_Cons')
  ultimately show ?thesis by blast
qed

lemma emit_jsonl_rep:
  assumes "log_rep zstd batches cur fs"
  shows "\<exists>fs'. emit_jsonl to_json zstd r fs = Inr fs' \<and>
    (if length (cur @ line_of to_json r) \<le> ROTATE_THRESHOLD_BYTES
     then log_rep zstd batches (cur @ line_of to_json r) fs'
     else log_rep zstd ((cur @ line_of to_json r) # batches) [] fs')"
proof -
  let ?c = "cur @ line_of to_json r"
  let ?fs = "append_live (line_of to_json r) fs"
  have live: "?fs Live = Some ?c"
    using assms by (auto simp: append_live_def log_rep_def)
  then have rep: "log_rep zstd batches ?c ?fs"
    using assms by (simp add: log_rep_def) (simp add: append_live_def)
  show ?thesis
    using rep rotate_log_rep [OF rep live]
    by (simp add: emit_jsonl_def rotate_if_needed_def live)
qed

fun emit_all ::
  "(AuditRecord \<Rightarrow> byte list) \<Rightarrow> (byte list \<Rightarrow> byte list) \<Rightarrow> AuditRecord list \<Rightarrow> audit_fs \<Rightarrow> audit_error + audit_fs"
where
  "emit_all to_json zstd [] fs = Inr fs"
| "emit_all to_json zstd (r # rs) fs = try_bind (emit_jsonl to_json zstd r fs) (emit_all to_json zstd rs)"

definition lines :: "(AuditRecord \<Rightarrow> byte list) \<Rightarrow> AuditRecord list \<Rightarrow> byte list" where
  "lines to_json rs = concat (map (line_of to_json) rs)"

lemma lines_Nil [simp]: "lines to_json [] = []"
  by (simp add: lines_def)

lemma lines_snoc [simp]: "lines to_json (rs @ [r]) = lines to_json rs @ line_of to_json r"
  by (simp add: lines_def)

text \<open>
  \<open>grouped\<close>: the records emitted so far are those of the rotated groups (newest first)
  followed by the live ones, and the directory represents this grouping.
\<close>

definition grouped ::
  "(AuditRecord \<Rightarrow> byte list) \<Rightarrow> (byte list \<Rightarrow> byte list) \<Rightarrow> AuditRecord list \<Rightarrow> AuditRecord list list
     \<Rightarrow> AuditRecord list \<Rightarrow> audit_fs \<Rightarrow> bool" where
  "grouped to_json zstd rs groups cur fs \<longleftrightarrow>
     concat (rev groups) @ cur = rs \<and>
     log_rep zstd (map (lines to_json) groups) (lines to_json cur) fs \<and>
     length (lines to_json cur) \<le> ROTATE_THRESHOLD_BYTES \<and>
     (\<forall>g \<in> set groups. ROTATE_THRESHOLD_BYTES < length (lines to_json g))"

lemma emit_grouped:
  assumes "grouped to_json zstd rs groups cur fs"
  shows "\<exists>groups' cur' fs'. emit_jsonl to_json zstd r fs = Inr fs' \<and> grouped to_json zstd (rs @ [r]) groups' cur' fs'"
proof -
  have rep: "log_rep zstd (map (lines to_json) groups) (lines to_json cur) fs"
    using assms by (simp add: grouped_def)
  obtain fs' where fs': "emit_jsonl to_json zstd r fs = Inr fs'"
    "if length (lines to_json (cur @ [r])) \<le> ROTATE_THRESHOLD_BYTES
     then log_rep zstd (map (lines to_json) groups) (lines to_json (cur @ [r])) fs'
     else log_rep zstd (map (lines to_json) ((cur @ [r]) # groups)) (lines to_json []) fs'"
    using emit_jsonl_rep [OF rep, of to_json r] by (simp only: lines_snoc lines_Nil list.map) blast
  show ?thesis
  proof (cases "length (lines to_json (cur @ [r])) \<le> ROTATE_THRESHOLD_BYTES")
    case True
    then have "grouped to_json zstd (rs @ [r]) groups (cur @ [r]) fs'"
      using fs'(2) assms by (auto simp: grouped_def)
    then show ?thesis using fs'(1) by blast
  next
    case False
    then have "grouped to_json zstd (rs @ [r]) ((cur @ [r]) # groups) [] fs'"
      using fs'(2) assms by (auto simp: grouped_def lines_def [of _ "[]"])
    then show ?thesis using fs'(1) by blast
  qed
qed

lemma emit_all_grouped:
  assumes "grouped to_json zstd rs0 groups0 cur0 fs"
  shows "\<exists>groups cur fs'. emit_all to_json zstd rs fs = Inr fs' \<and> grouped to_json zstd (rs0 @ rs) groups cur fs'"
  using assms
proof (induction rs arbitrary: rs0 groups0 cur0 fs)
  case (Cons r rs)
  obtain g c fs1 where "emit_jsonl to_json zstd r fs = Inr fs1" "grouped to_json zstd (rs0 @ [r]) g c fs1"
    using emit_grouped [OF Cons.prems] by blast
  then show ?case
    using Cons.IH [of "rs0 @ [r]" g c fs1] by simp
qed auto

section \<open>Properties\<close>

text \<open>
  C23. The JSONL sink never fails on its own and loses nothing but whole old archives: from an
  empty directory, after any sequence of records the directory holds a grouping of them in
  order, never splitting a record.  Archive \<open>n\<close> is the \<open>n\<close>-th newest group, only the
  ten newest groups are kept, each was rotated past 64 MiB and the live file is at most
  64 MiB.
\<close>

theorem audit_log_keeps_newest:
  "\<exists>groups cur fs. emit_all to_json zstd rs Map.empty = Inr fs \<and>
     concat (rev groups) @ cur = rs \<and>
     (\<forall>n. fs (Archive n) = (if 1 \<le> n \<and> n \<le> min 10 (length groups)
        then Some (zstd (lines to_json (groups ! (n - 1)))) else None)) \<and>
     (case fs Live of None \<Rightarrow> [] | Some b \<Rightarrow> b) = lines to_json cur \<and>
     length (lines to_json cur) \<le> 64 * 1024 * 1024 \<and>
     list_all (\<lambda>g. 64 * 1024 * 1024 < length (lines to_json g)) groups"
proof -
  have "grouped to_json zstd [] [] [] Map.empty"
    by (simp add: grouped_def log_rep_def lines_def)
  from emit_all_grouped [OF this, of rs] obtain groups cur fs
    where e: "emit_all to_json zstd rs Map.empty = Inr fs" and g: "grouped to_json zstd rs groups cur fs"
    by auto
  have "fs (Archive n) = (if 1 \<le> n \<and> n \<le> min 10 (length groups)
        then Some (zstd (lines to_json (groups ! (n - 1)))) else None)" for n
    using g by (auto simp: grouped_def log_rep_def ARCHIVE_RETENTION_def)
  then show ?thesis
    using e g
    by (intro exI [of _ groups] exI [of _ cur] exI [of _ fs])
      (auto simp: grouped_def log_rep_def ROTATE_THRESHOLD_BYTES_def list_all_iff)
qed

text \<open>
  A crash between staging and compression loses that batch: the next rotation renames
  the live file over the staged one, so the staged records are in no file afterwards, and
  slot 2, where they belong, is empty.
\<close>

theorem crash_after_stage_loses_batch:
  assumes "log_rep zstd batches cur fs" "fs Live = Some cur"
  shows "\<exists>fs1 fs2. stage fs = Inr fs1 \<and> fs1 (Staged 1) = Some cur \<and>
    rotate_log zstd (fs1(Live \<mapsto> cur2)) = Inr fs2 \<and>
    fs2 (Archive 1) = Some (zstd cur2) \<and> fs2 (Archive 2) = None \<and>
    (\<forall>n. fs2 (Staged n) = None) \<and> fs2 Live = None \<and>
    (\<forall>n. fs2 (Archive (n + 3)) = (if n < 8 then fs (Archive (n + 1)) else None))"
proof -
  let ?s = "shifted 9 (fs(Archive 10 := None))"
  let ?fs1 = "?s(Live := None, Staged 1 \<mapsto> cur)"
  let ?t = "shifted 9 (?fs1(Live \<mapsto> cur2, Archive 10 := None))"
  let ?fs2 = "?t(Live := None, Staged 1 := None, Archive 1 \<mapsto> zstd cur2)"
  have st: "stage fs = Inr ?fs1"
    by (simp add: stage_def shift_archives_spec fs_rename_def) (simp add: shifted_def assms(2))
  have live: "?t Live = Some cur2"
    by (simp add: shifted_def)
  then have rot: "rotate_log zstd (?fs1(Live \<mapsto> cur2)) = Inr ?fs2"
    by (simp add: rotate_log_def stage_def shift_archives_spec fs_rename_def compress_archive_def
        fs_remove_def fun_upd_twist)
  have "?fs2 (Archive (n + 3)) = (if n < 8 then fs (Archive (n + 1)) else None)" for n
    using assms(1) by (auto simp: shifted_def log_rep_def ARCHIVE_RETENTION_def)
  moreover have "?fs2 (Archive 2) = None" "?fs2 (Staged n) = None" for n
    using assms(1) by (auto simp: shifted_def log_rep_def)
  ultimately show ?thesis
    using st rot by (intro exI [of _ ?fs1] exI [of _ ?fs2]) simp
qed

theorem crash_after_stage_loses_batch_witness:
  "\<exists>fs1 fs2. stage [Live \<mapsto> [1, 10]] = Inr fs1 \<and> rotate_log id (fs1(Live \<mapsto> [2, 10])) = Inr fs2 \<and>
     fs2 (Archive 1) = Some [2, 10] \<and> fs2 (Archive 2) = None \<and> fs2 (Staged 1) = None"
proof -
  have rep: "log_rep id [] [1, 10] [Live \<mapsto> [1, 10]]"
    by (simp add: log_rep_def)
  show ?thesis
    using crash_after_stage_loses_batch [OF rep, of "[2, 10]"] by auto
qed

text \<open>
  The two sinks are independent: whatever the state of the journal, the line reaches the
  JSONL sink, and the journal gets its entry exactly when its socket is present and the send
  succeeds; the entry names tool, policy and decision of the record.
\<close>

theorem audit_dual_sink:
  "emit_jsonl to_json zstd r (fst st) = Inr (fst (emit_audit to_json zstd rfc ulid r st)) \<and>
   entries (snd (emit_audit to_json zstd rfc ulid r st)) =
     entries (snd st) @ (if socket_present (snd st) \<and> send_error (snd st) = None
       then [journald_entry rfc ulid r] else []) \<and>
   map_of (snd (journald_entry rfc ulid r)) ''SY_DECISION'' = Some (AuditDecision_as_str (decision r)) \<and>
   map_of (snd (journald_entry rfc ulid r)) ''SY_POLICY_SHA'' = Some (policy_sha r)"
proof -
  have "\<exists>fs'. emit_jsonl to_json zstd r (fst st) = Inr fs'"
  proof -
    let ?fs = "append_live (line_of to_json r) (fst st)"
    obtain b where b: "?fs Live = Some b"
      by (simp add: append_live_def)
    then have "shifted 9 (?fs(Archive 10 := None)) Live = Some b"
      by (simp add: shifted_def)
    then show ?thesis
      using b by (simp add: emit_jsonl_def rotate_if_needed_def rotate_log_def stage_def
          shift_archives_spec fs_rename_def compress_archive_def fs_remove_def)
  qed
  then show ?thesis
    by (auto simp: emit_audit_def emit_journald_def journald_entry_def split: option.splits)
qed

end
