(* ===== verification/Permission.thy ===== *)
theory Permission
  imports Policy Audit_Log Ipc_Envelope
begin

text \<open>
  The consent store (\<open>sy-agent/src/agt/policy/consent.rs\<close>) and the permission flow of the agent
  daemon (\<open>permission.rs\<close>, \<open>daemon.rs\<close>).  \<open>Instant\<close>s are milliseconds of a monotonic
  clock.  A oneshot channel is a number; its state tells whether the sender is alive, has
  sent, or was dropped.  Tokens come from \<open>Uuid::new_v4\<close>, an argument of \<open>issue\<close>.
\<close>

section \<open>Consent store\<close>

type_synonym Uuid = "128 word"

datatype ConsentError = NotFound | Expired

datatype chan = Waiting | Sent | Dropped

record PendingConsent =
  pc_tool :: string
  pc_argv :: "string list"
  policy_diff :: string
  expires_at :: nat
  decided :: nat

text \<open>
  \<open>inner\<close> is the hash map; \<open>chans\<close> are the states of the oneshot channels created so far,
  by number.
\<close>

record ConsentStore =
  inner :: "(Uuid \<times> PendingConsent) list"
  chans :: "chan list"

definition ConsentStore_new :: ConsentStore where
  "ConsentStore_new = \<lparr>inner = [], chans = []\<rparr>"

text \<open>Dropping a sender that has not sent wakes the receiver with \<open>RecvError\<close>.\<close>

definition drop_sender :: "PendingConsent \<Rightarrow> chan list \<Rightarrow> chan list" where
  "drop_sender e cs = (if cs ! decided e = Waiting then cs[decided e := Dropped] else cs)"

definition drop_senders :: "(Uuid \<times> PendingConsent) list \<Rightarrow> chan list \<Rightarrow> chan list" where
  "drop_senders es cs = fold (\<lambda>e. drop_sender (snd e)) es cs"

definition cleanup_expired :: "nat \<Rightarrow> ConsentStore \<Rightarrow> ConsentStore" where
  "cleanup_expired now s =
     s\<lparr>inner := filter (\<lambda>e. expires_at (snd e) > now) (inner s),
       chans := drop_senders (filter (\<lambda>e. \<not> expires_at (snd e) > now) (inner s)) (chans s)\<rparr>"

text \<open>Inserting under a key that is present drops the entry it replaces.\<close>

definition issue ::
  "nat \<Rightarrow> Uuid \<Rightarrow> string \<Rightarrow> string list \<Rightarrow> string \<Rightarrow> nat \<Rightarrow> ConsentStore \<Rightarrow> nat \<times> ConsentStore" where
  "issue now token t args diff ttl s =
     (let s1 = cleanup_expired now s;
          rx = length (chans s1);
          entry = \<lparr>pc_tool = t, pc_argv = args, policy_diff = diff, expires_at = now + ttl, decided = rx\<rparr>
      in (rx, \<lparr>inner = (token, entry) # filter (\<lambda>e. fst e \<noteq> token) (inner s1),
               chans = drop_senders (filter (\<lambda>e. fst e = token) (inner s1)) (chans s1) @ [Waiting]\<rparr>))"

definition consent_decide :: "nat \<Rightarrow> Uuid \<Rightarrow> ConsentStore \<Rightarrow> (ConsentError + unit) \<times> ConsentStore" where
  "consent_decide now token s =
     (case map_of (inner s) token of
        None \<Rightarrow> (Inl NotFound, s)
      | Some entry \<Rightarrow>
          (let s1 = s\<lparr>inner := filter (\<lambda>e. fst e \<noteq> token) (inner s)\<rparr>
           in if expires_at entry \<le> now then (Inl Expired, s1\<lparr>chans := drop_sender entry (chans s)\<rparr>)
              else (Inr (), s1\<lparr>chans := (chans s)[decided entry := Sent]\<rparr>)))"

record PendingSnapshot =
  sn_tool :: string
  sn_argv :: "string list"
  sn_policy_diff :: string
  sn_expires_at :: nat

definition snapshot :: "nat \<Rightarrow> Uuid \<Rightarrow> ConsentStore \<Rightarrow> PendingSnapshot option" where
  "snapshot now token s =
     (case map_of (inner s) token of
        None \<Rightarrow> None
      | Some e \<Rightarrow> if expires_at e \<le> now then None
          else Some \<lparr>sn_tool = pc_tool e, sn_argv = pc_argv e, sn_policy_diff = policy_diff e,
                     sn_expires_at = expires_at e\<rparr>)"

section \<open>The desktop prompt\<close>

datatype Decision = Allow | Deny

text \<open>What \<open>notify-send\<close> does: it cannot be spawned, does not end in time, fails, or prints
  (the comparison is on the bytes: what the lossy decoding replaces is neither white space nor
  part of the answer).\<close>

datatype notify = SpawnFailed | TimedOut | WaitFailed | Printed "byte list"

definition ask :: "notify \<Rightarrow> Decision" where
  "ask n = (case n of
       SpawnFailed \<Rightarrow> Allow
     | Printed out \<Rightarrow> if trim_bytes out = bytes_of ''deny'' then Deny else Allow
     | _ \<Rightarrow> Allow)"

section \<open>Policy-aware decisions\<close>

text \<open>
  The surroundings of one permission request: wall clock, glob matcher, policy fingerprint,
  trace context and the answer of the prompt should it be shown.
\<close>

record perm_env =
  pe_utc :: nat
  pe_glob :: "string \<Rightarrow> (string \<Rightarrow> bool) option"
  pe_fingerprint :: "Resolver \<Rightarrow> string"
  pe_trace :: "string option"
  pe_notify :: notify

definition policy_audit ::
  "perm_env \<Rightarrow> Resolver \<Rightarrow> string \<Rightarrow> string list \<Rightarrow> PolicyDecision \<Rightarrow> 128 word option \<Rightarrow> AuditRecord" where
  "policy_audit env r t args verdict rid =
     (let (d, why) = (case verdict of
          PolicyAllow \<Rightarrow> (AuditAllow, None)
        | PolicyDeny \<Rightarrow> (AuditDeny, Some (''policy denied '' @ t))
        | PolicyConsent why \<Rightarrow> (AuditConsent, Some why))
      in with_request_id rid (with_trace_id (pe_trace env) (with_reason why
           (AuditRecord_now (pe_utc env) t (pe_fingerprint env r) d args))))"

text \<open>The records sent to \<open>audit::emit\<close>, and the decision.\<close>

definition ask_with_policy ::
  "perm_env \<Rightarrow> Resolver \<Rightarrow> string \<Rightarrow> string list \<Rightarrow> 128 word option \<Rightarrow> AuditRecord list \<times> Decision" where
  "ask_with_policy env r t args rid =
     (let verdict = decide (pe_glob env) r t args
      in ([policy_audit env r t args verdict rid],
          case verdict of PolicyAllow \<Rightarrow> Allow | PolicyDeny \<Rightarrow> Deny
          | PolicyConsent _ \<Rightarrow> ask (pe_notify env)))"

definition CONSENT_TOKEN_TTL :: nat where "CONSENT_TOKEN_TTL = 5 * 60 * 1000"

definition load_session_resolver ::
  "(string \<Rightarrow> Profile option) \<Rightarrow> (string \<rightharpoonup> string) \<Rightarrow> string option \<Rightarrow> string \<Rightarrow> string \<Rightarrow> Resolver option" where
  "load_session_resolver toml files home cwd t =
     (let policy_root = path_push (path_push cwd ''configs'') ''policy''
      in if files (path_push (path_push policy_root ''profiles'') ''normal.toml'') = None then None
         else case Resolver_load toml files home policy_root ''normal'' (path_file_stem t) cwd of
           Inl _ \<Rightarrow> None | Inr r \<Rightarrow> Some r)"

text \<open>The handler either has its answer or is parked on a channel of the store.\<close>

datatype permission = Done Decision | Parked nat

definition resolve_permission ::
  "perm_env \<Rightarrow> nat \<Rightarrow> Uuid \<Rightarrow> Resolver option \<Rightarrow> string \<Rightarrow> string list \<Rightarrow> 128 word option \<Rightarrow> ConsentStore
     \<Rightarrow> AuditRecord list \<times> permission \<times> ConsentStore" where
  "resolve_permission env now token resolver t args rid s =
     (case resolver of
        None \<Rightarrow> ([], Done (ask (pe_notify env)), s)
      | Some r \<Rightarrow>
          (let by_policy = (let (as, d) = ask_with_policy env r t args rid in (as, Done d, s))
           in if require_consent (effective_profile r t) \<noteq> EveryCall then by_policy
              else case decide (pe_glob env) r t args of
                PolicyConsent _ \<Rightarrow>
                  (let diff = pe_fingerprint env r;
                       rec = with_request_id rid (with_trace_id (pe_trace env)
                         (with_reason (Some ''EveryCall consent: awaiting sy approve <token>'')
                           (AuditRecord_now (pe_utc env) t diff AuditConsent args)));
                       (rx, s1) = issue now token t args diff CONSENT_TOKEN_TTL s
                   in ([rec], Parked rx, s1))
              | _ \<Rightarrow> by_policy))"

text \<open>What a parked handler does with the state of its channel.\<close>

definition resume :: "chan \<Rightarrow> Decision option" where
  "resume c = (case c of Waiting \<Rightarrow> None | Sent \<Rightarrow> Some Allow | Dropped \<Rightarrow> Some Deny)"

section \<open>Approval\<close>

definition approve_audit ::
  "nat \<Rightarrow> nat \<Rightarrow> string option \<Rightarrow> (nat \<Rightarrow> string) \<Rightarrow> PendingSnapshot \<Rightarrow> u32 option \<Rightarrow> u32 option \<Rightarrow> 128 word option
     \<Rightarrow> AuditRecord" where
  "approve_audit utc now trace num snap pid uid rid =
     with_request_id rid (with_trace_id trace (with_reason
       (Some (''approver pid='' @ num (unat (case pid of Some p \<Rightarrow> p | None \<Rightarrow> 0))
              @ '' uid='' @ num (unat (case uid of Some u \<Rightarrow> u | None \<Rightarrow> 0))
              @ '' ttl_remaining_ms='' @ num (sn_expires_at snap - now)))
       (AuditRecord_now utc (sn_tool snap) (sn_policy_diff snap) AuditConsent (sn_argv snap))))"

text \<open>
  \<open>handle_approve\<close>: \<open>parse_uuid\<close> and \<open>uuid_str\<close> are those of the \<open>uuid\<close> crate, \<open>dbg\<close>
  prints a string as \<open>{:?}\<close> does; the three
  instants are the clock readings of \<open>snapshot\<close>, \<open>decide\<close> and the audit record.
\<close>

definition handle_approve ::
  "(string \<Rightarrow> string + Uuid) \<Rightarrow> (Uuid \<Rightarrow> string) \<Rightarrow> (string \<Rightarrow> string) \<Rightarrow> perm_env \<Rightarrow> nat \<times> nat \<times> nat \<Rightarrow> string \<Rightarrow> u32 option \<Rightarrow> u32 option \<Rightarrow>
   128 word option \<Rightarrow> ConsentStore \<Rightarrow>
   ((ErrorCode \<times> string) + json) \<times> AuditRecord list \<times> ConsentStore" where
  "handle_approve parse_uuid uuid_str dbg env clock token_str pid uid rid s =
     (case parse_uuid token_str of
        Inl e \<Rightarrow> (Inl (BadRequest, ''invalid token '' @ dbg token_str @ '': '' @ e), [], s)
      | Inr token \<Rightarrow>
          (let (t1, t2, t3) = clock;
               snap = snapshot t1 token s;
               (res, s1) = consent_decide t2 token s
           in case res of
                Inr _ \<Rightarrow>
                  (Inr (JObject [(''approved'', JString (uuid_str token))]),
                   (case snap of Some sn \<Rightarrow> [approve_audit (pe_utc env) t3 (pe_trace env) nat_str sn pid uid rid] | None \<Rightarrow> []),
                   s1)
              | Inl NotFound \<Rightarrow> (Inl (BadRequest, ''token '' @ uuid_str token @ '' not found''), [], s1)
              | Inl Expired \<Rightarrow> (Inl (ConsentRequired, ''token '' @ uuid_str token @ '' expired''), [], s1)))"

section \<open>Runs of the store\<close>

text \<open>
  The daemon touches the store in two ways: a strict call is parked (\<open>issue\<close>, which also
  sweeps) and an operator approves (\<open>decide\<close>).  A run is a history of these with
  non-decreasing instants.
\<close>

datatype consent_event = EvIssue Uuid string "string list" string | EvDecide Uuid

fun apply_event :: "nat \<Rightarrow> consent_event \<Rightarrow> ConsentStore \<Rightarrow> ConsentStore" where
  "apply_event now (EvIssue u t args diff) s = snd (issue now u t args diff CONSENT_TOKEN_TTL s)"
| "apply_event now (EvDecide u) s = snd (consent_decide now u s)"

inductive consent_run :: "(nat \<times> consent_event) list \<Rightarrow> ConsentStore \<Rightarrow> bool" where
  run_new: "consent_run [] ConsentStore_new"
| run_event: "consent_run h s \<Longrightarrow> \<forall>e \<in> set h. fst e \<le> now \<Longrightarrow>
    consent_run (h @ [(now, ev)]) (apply_event now ev s)"

inductive_cases run_eventE: "consent_run (h @ [(now, ev)]) s"

text \<open>The issued requests, in channel order: instant and token.\<close>

fun issue_of :: "nat \<times> consent_event \<Rightarrow> (nat \<times> Uuid) list" where
  "issue_of (t, EvIssue u _ _ _) = [(t, u)]"
| "issue_of (t, EvDecide u) = []"

definition issues :: "(nat \<times> consent_event) list \<Rightarrow> (nat \<times> Uuid) list" where
  "issues h = concat (map issue_of h)"

lemma issues_snoc [simp]: "issues (h @ [e]) = issues h @ issue_of e"
  by (simp add: issues_def)

lemma issues_mem: "(t, u) \<in> set (issues h) \<Longrightarrow> \<exists>e \<in> set h. fst e = t"
proof -
  assume "(t, u) \<in> set (issues h)"
  then obtain t' ev where "(t', ev) \<in> set h" "(t, u) \<in> set (issue_of (t', ev))"
    by (auto simp: issues_def)
  then show ?thesis by (cases ev) (auto intro: rev_bexI)
qed

lemma drop_senders_Cons [simp]: "drop_senders (e # es) cs = drop_senders es (drop_sender (snd e) cs)"
  by (simp add: drop_senders_def)

lemma length_drop_senders [simp]: "length (drop_senders es cs) = length cs"
  by (induction es arbitrary: cs) (simp_all add: drop_sender_def, simp add: drop_senders_def)

lemma nth_drop_senders:
  "c < length cs \<Longrightarrow> drop_senders es cs ! c =
     (if cs ! c = Waiting \<and> (\<exists>e \<in> set es. decided (snd e) = c) then Dropped else cs ! c)"
proof (induction es arbitrary: cs)
  case (Cons e es)
  have l: "length (drop_sender (snd e) cs) = length cs"
    by (simp add: drop_sender_def)
  have n: "drop_sender (snd e) cs ! c = (if cs ! c = Waiting \<and> decided (snd e) = c then Dropped else cs ! c)"
    using Cons.prems by (cases "decided (snd e) = c") (simp_all add: drop_sender_def)
  have "drop_senders (e # es) cs ! c = (if drop_sender (snd e) cs ! c = Waiting \<and>
      (\<exists>e \<in> set es. decided (snd e) = c) then Dropped else drop_sender (snd e) cs ! c)"
    using Cons.IH [of "drop_sender (snd e) cs"] Cons.prems l by simp
  then show ?case
    unfolding n by (cases "decided (snd e) = c"; cases "cs ! c") simp_all
qed (simp add: drop_senders_def)

definition approved_in_time :: "(nat \<times> consent_event) list \<Rightarrow> nat \<Rightarrow> bool" where
  "approved_in_time h c \<longleftrightarrow>
     (\<exists>t0 u t1. issues h ! c = (t0, u) \<and> (t1, EvDecide u) \<in> set h \<and> t0 \<le> t1 \<and> t1 < t0 + CONSENT_TOKEN_TTL)"

definition entry_ok :: "(nat \<times> consent_event) list \<Rightarrow> chan list \<Rightarrow> Uuid \<times> PendingConsent \<Rightarrow> bool" where
  "entry_ok h cs e \<longleftrightarrow>
     decided (snd e) < length cs \<and> cs ! decided (snd e) = Waiting \<and>
     snd (issues h ! decided (snd e)) = fst e \<and>
     expires_at (snd e) = fst (issues h ! decided (snd e)) + CONSENT_TOKEN_TTL"

definition consent_inv :: "(nat \<times> consent_event) list \<Rightarrow> ConsentStore \<Rightarrow> bool" where
  "consent_inv h s \<longleftrightarrow>
     distinct (map fst (inner s)) \<and> length (chans s) = length (issues h) \<and>
     (\<forall>e \<in> set (inner s). entry_ok h (chans s) e) \<and>
     (\<forall>c < length (chans s). chans s ! c = Sent \<longrightarrow> approved_in_time h c)"

lemma approved_in_time_snoc:
  "c < length (issues h) \<Longrightarrow> approved_in_time h c \<Longrightarrow> approved_in_time (h @ [e]) c"
  by (auto simp: approved_in_time_def nth_append)

lemma entry_ok_extend:
  assumes "entry_ok h cs e" "length cs = length (issues h)" "length cs \<le> length cs'"
    "cs' ! decided (snd e) = Waiting"
  shows "entry_ok (h @ [x]) cs' e"
  using assms by (auto simp: entry_ok_def nth_append)

lemma distinct_chan_of_key:
  assumes "consent_inv h s" "e \<in> set (inner s)" "e' \<in> set (inner s)" "decided (snd e) = decided (snd e')"
  shows "e = e'"
proof -
  have "entry_ok h (chans s) e" "entry_ok h (chans s) e'"
    using assms(1-3) by (simp_all add: consent_inv_def)
  then have "fst e = fst e'"
    using assms(4) by (metis entry_ok_def)
  then show ?thesis
    using assms(1-3) by (auto simp: consent_inv_def distinct_map dest: inj_onD)
qed

lemma consent_inv_cleanup:
  assumes "consent_inv h s"
  shows "consent_inv h (cleanup_expired now s)"
proof -
  let ?dead = "filter (\<lambda>e. \<not> expires_at (snd e) > now) (inner s)"
  have "entry_ok h (drop_senders ?dead (chans s)) e" if "e \<in> set (inner s)" "expires_at (snd e) > now" for e
  proof -
    have "\<not> (\<exists>d \<in> set ?dead. decided (snd d) = decided (snd e))"
      using distinct_chan_of_key [OF assms _ that(1)] that(2) by (metis (mono_tags, lifting) mem_Collect_eq set_filter)
    then show ?thesis
      using assms that(1) by (auto simp: consent_inv_def entry_ok_def nth_drop_senders)
  qed
  then show ?thesis
    using assms by (auto simp: consent_inv_def cleanup_expired_def nth_drop_senders distinct_map_filter
        split: if_splits)
qed

lemma consent_inv_issue:
  assumes "consent_inv h s"
  shows "consent_inv (h @ [(now, EvIssue u t args diff)]) (snd (issue now u t args diff CONSENT_TOKEN_TTL s))"
proof -
  define s1 where "s1 = cleanup_expired now s"
  have inv: "consent_inv h s1"
    unfolding s1_def by (rule consent_inv_cleanup [OF assms])
  let ?dup = "filter (\<lambda>e. fst e = u) (inner s1)"
  let ?cs = "drop_senders ?dup (chans s1) @ [Waiting]"
  have len: "length (chans s1) = length (issues h)"
    using inv by (simp add: consent_inv_def)
  have old: "entry_ok (h @ [(now, EvIssue u t args diff)]) ?cs e" if e: "e \<in> set (inner s1)" "fst e \<noteq> u" for e
  proof (rule entry_ok_extend)
    show ok: "entry_ok h (chans s1) e"
      using inv e(1) by (simp add: consent_inv_def)
    have "\<not> (\<exists>d \<in> set ?dup. decided (snd d) = decided (snd e))"
      using distinct_chan_of_key [OF inv _ e(1)] e(2) by (metis (mono_tags, lifting) mem_Collect_eq set_filter)
    then show "?cs ! decided (snd e) = Waiting"
      using ok by (auto simp: entry_ok_def nth_append nth_drop_senders)
  qed (simp_all add: len)
  have "approved_in_time (h @ [(now, EvIssue u t args diff)]) c" if "c < length ?cs" "?cs ! c = Sent" for c
    using that inv len
    by (auto simp: nth_append nth_drop_senders consent_inv_def split: if_splits intro!: approved_in_time_snoc)
  then show ?thesis
    using inv old len
    by (auto simp: consent_inv_def issue_def Let_def entry_ok_def nth_append distinct_map_filter simp flip: s1_def)
qed

lemma consent_inv_decide:
  assumes inv: "consent_inv h s" and mono: "\<forall>e \<in> set h. fst e \<le> now"
  shows "consent_inv (h @ [(now, EvDecide u)]) (snd (consent_decide now u s))"
proof (cases "map_of (inner s) u")
  case None
  then show ?thesis
    using inv by (auto simp: consent_inv_def consent_decide_def nth_append entry_ok_def intro!: approved_in_time_snoc)
next
  case (Some e)
  then have e: "(u, e) \<in> set (inner s)" by (rule map_of_SomeD)
  then have ok: "entry_ok h (chans s) (u, e)" and len: "length (chans s) = length (issues h)"
    using inv by (auto simp: consent_inv_def)
  have rest: "entry_ok (h @ [(now, EvDecide u)]) ((chans s)[decided e := x]) d"
    if "d \<in> set (inner s)" "fst d \<noteq> u" for x d
  proof (rule entry_ok_extend)
    show "entry_ok h (chans s) d" using inv that(1) by (simp add: consent_inv_def)
    then show "(chans s)[decided e := x] ! decided (snd d) = Waiting"
      using distinct_chan_of_key [OF inv e that(1)] that(2)
      by (cases "decided e = decided (snd d)") (auto simp: entry_ok_def)
  qed (simp_all add: len)
  have "issues h ! decided e \<in> set (issues h)"
    using ok len by (simp add: entry_ok_def)
  then have "fst (issues h ! decided e) \<le> now"
    using issues_mem mono by (metis prod.collapse)
  then have live: "approved_in_time (h @ [(now, EvDecide u)]) (decided e)" if "now < expires_at e"
    unfolding approved_in_time_def using ok that len
    by (intro exI [of _ "fst (issues h ! decided e)"] exI [of _ u] exI [of _ now])
      (auto simp: entry_ok_def nth_append prod_eq_iff)
  have sent: "approved_in_time (h @ [(now, EvDecide u)]) c"
    if "c < length (chans s)" "(chans s)[decided e := x] ! c = Sent" "x = Sent \<longrightarrow> now < expires_at e" for c x
  proof (cases "c = decided e")
    case True
    then show ?thesis using that live by simp
  next
    case False
    then show ?thesis using that inv len by (auto simp: consent_inv_def intro!: approved_in_time_snoc)
  qed
  show ?thesis
    using Some inv rest [where x = Sent] rest [where x = Dropped] sent [where x = Sent] sent [where x = Dropped] ok
    by (auto simp: consent_inv_def consent_decide_def Let_def drop_sender_def entry_ok_def distinct_map_filter)
qed

lemma consent_run_inv: "consent_run h s \<Longrightarrow> consent_inv h s"
proof (induction rule: consent_run.induct)
  case run_new
  show ?case by (simp add: consent_inv_def ConsentStore_new_def issues_def)
next
  case (run_event h s now ev)
  then show ?case
    by (cases ev) (simp_all add: consent_inv_issue consent_inv_decide)
qed

text \<open>A pending entry stays pending as long as nobody parks a call or touches its token.\<close>

fun decides :: "(nat \<times> Uuid) list \<Rightarrow> ConsentStore \<Rightarrow> ConsentStore" where
  "decides [] s = s"
| "decides ((now, u) # ds) s = decides ds (snd (consent_decide now u s))"

lemma decide_other_keeps:
  assumes inv: "consent_inv h s" and e: "(u, e) \<in> set (inner s)" and ne: "u' \<noteq> u"
  shows "(u, e) \<in> set (inner (snd (consent_decide now u' s)))"
    "chans (snd (consent_decide now u' s)) ! decided e = chans s ! decided e"
proof -
  have "decided d \<noteq> decided e" if "map_of (inner s) u' = Some d" for d
    using distinct_chan_of_key [OF inv map_of_SomeD [OF that] e] ne by auto
  then show "(u, e) \<in> set (inner (snd (consent_decide now u' s)))"
    "chans (snd (consent_decide now u' s)) ! decided e = chans s ! decided e"
    using e ne by (auto simp: consent_decide_def drop_sender_def Let_def split: option.splits)
qed

lemma decides_keep:
  assumes "consent_run h s" "(u, e) \<in> set (inner s)" "\<forall>d \<in> set ds. snd d \<noteq> u"
    "sorted (map fst ds)" "\<forall>x \<in> set h. \<forall>d \<in> set ds. fst x \<le> fst d"
  shows "(u, e) \<in> set (inner (decides ds s)) \<and> chans (decides ds s) ! decided e = chans s ! decided e"
  using assms
proof (induction ds arbitrary: h s)
  case (Cons d ds)
  obtain now u' where d: "d = (now, u')" by force
  have "consent_run (h @ [(now, EvDecide u')]) (apply_event now (EvDecide u') s)"
    using Cons.prems(1,5) by (intro run_event) (auto simp: d)
  then have "consent_run (h @ [(now, EvDecide u')]) (snd (consent_decide now u' s))"
    by simp
  moreover note decide_other_keeps [OF consent_run_inv [OF Cons.prems(1)] Cons.prems(2), of u' now]
  ultimately show ?case
    using Cons.IH [of "h @ [(now, EvDecide u')]" "snd (consent_decide now u' s)"] Cons.prems
    by (auto simp: d)
qed simp

lemma consent_run_one:
  "consent_run [(t, EvIssue u x args diff)] (snd (issue t u x args diff CONSENT_TOKEN_TTL ConsentStore_new))"
  using run_event [OF run_new, of t "EvIssue u x args diff"] by simp

section \<open>Properties\<close>

text \<open>
  C1. No strict call proceeds without the operator: in every run of the consent store a
  parked handler that resumes with \<open>Allow\<close> owes it to an approval of exactly its own token,
  made after the request was issued and before its five minutes were over.
\<close>

theorem allow_needs_live_approval:
  assumes "consent_run h s" "c < length (chans s)" "resume (chans s ! c) = Some Allow"
  shows "\<exists>t0 u t1. issues h ! c = (t0, u) \<and> (t1, EvDecide u) \<in> set h \<and> t0 \<le> t1 \<and> t1 < t0 + 5 * 60 * 1000"
proof -
  have "chans s ! c = Sent"
    using assms(3) by (cases "chans s ! c") (simp_all add: resume_def)
  then have "approved_in_time h c"
    using consent_run_inv [OF assms(1)] assms(2) by (simp add: consent_inv_def)
  then show ?thesis
    by (simp add: approved_in_time_def CONSENT_TOKEN_TTL_def)
qed

theorem allow_needs_live_approval_witness:
  "\<exists>t0 u t1. issues [(0, EvIssue 7 ''rg'' [] []), (9, EvDecide 7)] ! 0 = (t0, u) \<and>
     (t1, EvDecide u) \<in> set [(0, EvIssue 7 ''rg'' [] []), (9, EvDecide 7)] \<and> t0 \<le> t1 \<and> t1 < t0 + 5 * 60 * 1000"
proof -
  let ?i = "(0, EvIssue 7 ''rg'' [] [])"
  have "consent_run [?i] (apply_event 0 (EvIssue 7 ''rg'' [] []) ConsentStore_new)"
    using consent_run_one by simp
  then have "consent_run ([?i] @ [(9, EvDecide 7)])
      (apply_event 9 (EvDecide 7) (apply_event 0 (EvIssue 7 ''rg'' [] []) ConsentStore_new))"
    by (rule run_event) simp
  from allow_needs_live_approval [OF this, of 0] show ?thesis
    by (simp add: issue_def consent_decide_def cleanup_expired_def drop_senders_def ConsentStore_new_def
        CONSENT_TOKEN_TTL_def resume_def Let_def)
qed

text \<open>
  Tokens are single use and independent: an approval wakes exactly one waiting handler,
  the one the token was issued for, and the same token is unknown afterwards.
\<close>

theorem consent_token_single_use:
  assumes "consent_run h s" "consent_decide now u s = (Inr (), s1)"
  shows "(\<exists>c. c < length (chans s) \<and> chans s ! c = Waiting \<and> snd (issues h ! c) = u \<and>
      chans s1 = (chans s)[c := Sent]) \<and>
    consent_decide now' u s1 = (Inl NotFound, s1)"
proof -
  obtain e where e: "map_of (inner s) u = Some e"
    and s1: "s1 = s\<lparr>inner := filter (\<lambda>e. fst e \<noteq> u) (inner s), chans := (chans s)[decided e := Sent]\<rparr>"
    using assms(2) by (auto simp: consent_decide_def Let_def split: option.splits if_splits)
  have "entry_ok h (chans s) (u, e)"
    using consent_run_inv [OF assms(1)] map_of_SomeD [OF e] by (auto simp: consent_inv_def)
  moreover have "map_of (filter (\<lambda>e. fst e \<noteq> u) (inner s)) u = None"
    by (auto simp: map_of_eq_None_iff)
  ultimately show ?thesis
    using s1 by (auto simp: entry_ok_def consent_decide_def)
qed

theorem consent_token_single_use_witness:
  "let s = snd (issue 0 7 ''rg'' [] [] CONSENT_TOKEN_TTL ConsentStore_new); s1 = snd (consent_decide 5 7 s)
   in fst (consent_decide 5 7 s) = Inr () \<and> consent_decide 6 7 s1 = (Inl NotFound, s1)"
proof -
  let ?s = "snd (issue 0 7 ''rg'' [] [] CONSENT_TOKEN_TTL ConsentStore_new)"
  have ok: "fst (consent_decide 5 7 ?s) = Inr ()"
    by (simp add: issue_def consent_decide_def cleanup_expired_def ConsentStore_new_def CONSENT_TOKEN_TTL_def Let_def)
  have "consent_run [(0, EvIssue 7 ''rg'' [] [])] (apply_event 0 (EvIssue 7 ''rg'' [] []) ConsentStore_new)"
    using consent_run_one by simp
  then have "consent_run [(0, EvIssue 7 ''rg'' [] [])] ?s" by simp
  from consent_token_single_use [OF this, of 5 7 "snd (consent_decide 5 7 ?s)" 6] ok
  show ?thesis by (simp add: Let_def prod_eq_iff)
qed

text \<open>
  The time to live does not bound the wait: a pending request whose token is not decided
  and that is not followed by another parked call keeps its handler waiting, however far past
  its expiry the clock is; approvals of other tokens change nothing.
\<close>

theorem forgotten_request_waits_forever:
  assumes "consent_run h s" "(u, e) \<in> set (inner s)" "\<forall>d \<in> set ds. snd d \<noteq> u"
    "sorted (map fst ds)" "\<forall>x \<in> set h. \<forall>d \<in> set ds. fst x \<le> fst d"
  shows "resume (chans (decides ds s) ! decided e) = None"
proof -
  have "chans s ! decided e = Waiting"
    using consent_run_inv [OF assms(1)] assms(2) by (auto simp: consent_inv_def entry_ok_def)
  then show ?thesis
    using decides_keep [OF assms] by (simp add: resume_def)
qed

theorem forgotten_request_waits_forever_witness:
  "resume (chans (decides [(86400000, 8)] (snd (issue 0 7 ''rg'' [] [] CONSENT_TOKEN_TTL ConsentStore_new))) ! 0) = None"
proof -
  let ?e = "\<lparr>pc_tool = ''rg'', pc_argv = [], policy_diff = [], expires_at = CONSENT_TOKEN_TTL, decided = 0\<rparr>"
  have run: "consent_run [(0, EvIssue 7 ''rg'' [] [])] (apply_event 0 (EvIssue 7 ''rg'' [] []) ConsentStore_new)"
    using consent_run_one by simp
  have "(7, ?e) \<in> set (inner (apply_event 0 (EvIssue 7 ''rg'' [] []) ConsentStore_new))"
    by (simp add: issue_def cleanup_expired_def ConsentStore_new_def Let_def)
  from forgotten_request_waits_forever [OF run this, of "[(86400000, 8)]"] show ?thesis by simp
qed

text \<open>
  What sweeps an expired request is the next parked call: it closes exactly the expired
  channels, so their handlers resume with \<open>Deny\<close>, and keeps the live ones.
\<close>

theorem next_issue_denies_expired:
  assumes "consent_run h s" "(u, e) \<in> set (inner s)" "u \<noteq> u'"
  shows "resume (chans (snd (issue now u' t args diff ttl s)) ! decided e) =
    (if expires_at e \<le> now then Some Deny else None)"
proof -
  have inv: "consent_inv h s" by (rule consent_run_inv [OF assms(1)])
  have ok: "decided e < length (chans s)" "chans s ! decided e = Waiting"
    using inv assms(2) by (auto simp: consent_inv_def entry_ok_def)
  have same: "x = (u, e)" if "x \<in> set (inner s)" "decided (snd x) = decided e" for x
    using distinct_chan_of_key [OF inv that(1) assms(2)] that(2) by simp
  have dead: "(\<exists>x \<in> set (filter (\<lambda>e. \<not> now < expires_at (snd e)) (inner s)). decided (snd x) = decided e)
      \<longleftrightarrow> expires_at e \<le> now"
    using same assms(2) by force
  have "\<not> (\<exists>x \<in> set (filter (\<lambda>e. fst e = u') (filter (\<lambda>e. now < expires_at (snd e)) (inner s))). decided (snd x) = decided e)"
    using same assms(3) by fastforce
  then show ?thesis
    using ok dead
    by (auto simp: issue_def cleanup_expired_def Let_def nth_append nth_drop_senders resume_def)
qed

theorem next_issue_denies_expired_witness:
  "resume (chans (snd (issue 400000 8 ''x'' [] [] 1 (snd (issue 0 7 ''rg'' [] [] CONSENT_TOKEN_TTL ConsentStore_new)))) ! 0)
     = Some Deny"
proof -
  let ?e = "\<lparr>pc_tool = ''rg'', pc_argv = [], policy_diff = [], expires_at = CONSENT_TOKEN_TTL, decided = 0\<rparr>"
  have run: "consent_run [(0, EvIssue 7 ''rg'' [] [])] (apply_event 0 (EvIssue 7 ''rg'' [] []) ConsentStore_new)"
    using consent_run_one by simp
  have "(7, ?e) \<in> set (inner (apply_event 0 (EvIssue 7 ''rg'' [] []) ConsentStore_new))"
    by (simp add: issue_def cleanup_expired_def ConsentStore_new_def Let_def)
  from next_issue_denies_expired [OF run this, of 8 400000 "''x''" "[]" "[]" 1] show ?thesis
    by (simp add: CONSENT_TOKEN_TTL_def)
qed

text \<open>
  C2. The permission flow under a loaded policy: exactly one audit record is emitted before
  the outcome and its decision is the policy's verdict; an empty allow list ends in
  \<open>Deny\<close> whatever the prompt says; a profile that asks for consent on every call never ends
  in an immediate \<open>Allow\<close> but parks on a fresh waiting channel; otherwise \<open>Allow\<close> means
  that the policy matched or that the prompt did not answer \<open>deny\<close>.
\<close>

theorem permission_follows_policy:
  assumes "resolve_permission env now token (Some r) t args rid s = (as, p, s1)"
  shows "(\<exists>a. as = [a] \<and> tool a = t \<and> argv a = args \<and> AuditRecord.request_id a = rid \<and>
      decision a = (case decide (pe_glob env) r t args of
        PolicyAllow \<Rightarrow> AuditAllow | PolicyDeny \<Rightarrow> AuditDeny | PolicyConsent _ \<Rightarrow> AuditConsent)) \<and>
    (exec_allowlist (effective_profile r t) = [] \<longrightarrow> p = Done Deny) \<and>
    (require_consent (effective_profile r t) = EveryCall \<and> exec_allowlist (effective_profile r t) \<noteq> [] \<longrightarrow>
      (\<exists>c. p = Parked c \<and> chans s1 ! c = Waiting \<and> c = length (chans s))) \<and>
    (p = Done Allow \<longrightarrow> decide (pe_glob env) r t args = PolicyAllow \<or>
      ((\<exists>why. decide (pe_glob env) r t args = PolicyConsent why) \<and> ask (pe_notify env) = Allow))"
proof (cases "require_consent (effective_profile r t) = EveryCall \<and> exec_allowlist (effective_profile r t) \<noteq> []")
  case True
  then obtain why where "decide (pe_glob env) r t args = PolicyConsent why"
    by (cases "matches_allowlist (pe_glob env) (exec_allowlist (effective_profile r t)) t args")
      (auto simp: decide_def Let_def)
  then show ?thesis
    using assms True
    by (auto simp: resolve_permission_def Let_def issue_def cleanup_expired_def with_request_id_def
        with_trace_id_def with_reason_def AuditRecord_now_def nth_append)
next
  case False
  have "resolve_permission env now token (Some r) t args rid s =
      (fst (ask_with_policy env r t args rid), Done (snd (ask_with_policy env r t args rid)), s)"
  proof (cases "require_consent (effective_profile r t) = EveryCall")
    case True
    then have "decide (pe_glob env) r t args = PolicyDeny"
      using False by (simp add: decide_def)
    then show ?thesis using True by (simp add: resolve_permission_def split: prod.split)
  qed (simp add: resolve_permission_def split: prod.split)
  then show ?thesis
    using assms False
    by (auto simp: ask_with_policy_def policy_audit_def Let_def with_request_id_def with_trace_id_def
        with_reason_def AuditRecord_now_def decide_def split: PolicyDecision.splits)
qed

theorem permission_follows_policy_witness:
  "\<exists>as s1. resolve_permission \<lparr>pe_utc = 0, pe_glob = (\<lambda>_. None), pe_fingerprint = (\<lambda>_. ''f''), pe_trace = None,
       pe_notify = TimedOut\<rparr> 0 1 (Some \<lparr>profile = Profile_default, tool_overlays = []\<rparr>) ''rg'' [] None ConsentStore_new
     = (as, Done Deny, s1)"
proof -
  let ?env = "\<lparr>pe_utc = 0, pe_glob = (\<lambda>_. None), pe_fingerprint = (\<lambda>_. ''f''), pe_trace = None, pe_notify = TimedOut\<rparr>"
  let ?r = "\<lparr>profile = Profile_default, tool_overlays = []\<rparr>"
  obtain as p s1 where e: "resolve_permission ?env 0 1 (Some ?r) ''rg'' [] None ConsentStore_new = (as, p, s1)"
    by (metis prod.exhaust)
  moreover have "exec_allowlist (effective_profile ?r ''rg'') = []"
    by (simp add: effective_profile_def Profile_default_def Let_def)
  ultimately show ?thesis
    using permission_follows_policy [OF e] by simp
qed

text \<open>
  A broken policy fails open: when \<open>normal.toml\<close> is present but does not parse, the
  session behaves as if there were no policy, so an unanswered prompt allows the call and
  nothing is audited.
\<close>

theorem broken_policy_fails_open:
  assumes "files (path_push (path_push (path_push (path_push cwd ''configs'') ''policy'') ''profiles'') ''normal.toml'')
      = Some txt"
    and "toml txt = None" and "pe_notify env \<in> {SpawnFailed, TimedOut, WaitFailed}"
  shows "resolve_permission env now token (load_session_resolver toml files home cwd t) t args rid s
    = ([], Done Allow, s)"
  using assms
  by (auto simp: load_session_resolver_def Resolver_load_def parse_profile_def resolve_permission_def
      ask_def Let_def)

theorem broken_policy_fails_open_witness:
  "resolve_permission \<lparr>pe_utc = 0, pe_glob = (\<lambda>_. None), pe_fingerprint = (\<lambda>_. ''f''), pe_trace = None,
       pe_notify = TimedOut\<rparr> 0 1
     (load_session_resolver (\<lambda>_. None) [''/r/configs/policy/profiles/normal.toml'' \<mapsto> ''deny = ''] None ''/r'' ''rm'')
     ''rm'' [''-rf''] None ConsentStore_new = ([], Done Allow, ConsentStore_new)"
  by (rule broken_policy_fails_open [of _ _ "''deny = ''"]) (simp_all add: path_push_def has_root_def)

text \<open>
  Approvals are answered and audited precisely: with a clock that does not run backwards,
  a successful \<open>agt.approve\<close> emits exactly one consent record with the parked call's tool,
  arguments and policy; an unparsable or unknown token is \<open>BadRequest\<close> and an expired one
  \<open>ConsentRequired\<close>, with no record, and an unknown token leaves the store unchanged.
\<close>

theorem approve_answers_and_audits:
  assumes "handle_approve parse_uuid uuid_str dbg env (t1, t2, t3) tok pid uid rid s = (res, as, s1)" "t1 \<le> t2"
  shows "(case res of
      Inr _ \<Rightarrow> \<exists>u e a. parse_uuid tok = Inr u \<and> map_of (inner s) u = Some e \<and> t2 < expires_at e \<and>
        as = [a] \<and> tool a = pc_tool e \<and> argv a = pc_argv e \<and> policy_sha a = policy_diff e \<and>
        decision a = AuditConsent \<and> AuditRecord.request_id a = rid
    | Inl (ec, _) \<Rightarrow> as = [] \<and>
        ((\<exists>e. parse_uuid tok = Inl e) \<and> ec = BadRequest \<and> s1 = s
         \<or> (\<exists>u. parse_uuid tok = Inr u \<and> map_of (inner s) u = None) \<and> ec = BadRequest \<and> s1 = s
         \<or> (\<exists>u e. parse_uuid tok = Inr u \<and> map_of (inner s) u = Some e \<and> expires_at e \<le> t2) \<and>
           ec = ConsentRequired))"
  using assms
  by (auto simp: handle_approve_def consent_decide_def snapshot_def approve_audit_def with_request_id_def
      with_trace_id_def with_reason_def AuditRecord_now_def Let_def split: sum.splits option.splits if_splits)

theorem approve_answers_and_audits_witness:
  "\<exists>v a s1. handle_approve (\<lambda>_. Inr 7) (\<lambda>_. ''u'') id
      \<lparr>pe_utc = 0, pe_glob = (\<lambda>_. None), pe_fingerprint = (\<lambda>_. ''f''), pe_trace = None, pe_notify = TimedOut\<rparr>
      (5, 5, 5) ''u'' None None None (snd (issue 0 7 ''rg'' [] [] CONSENT_TOKEN_TTL ConsentStore_new))
     = (Inr v, [a], s1) \<and> tool a = ''rg''"
proof -
  let ?env = "\<lparr>pe_utc = 0, pe_glob = (\<lambda>_. None), pe_fingerprint = (\<lambda>_. ''f''), pe_trace = None, pe_notify = TimedOut\<rparr>"
  let ?s = "snd (issue 0 7 ''rg'' [] [] CONSENT_TOKEN_TTL ConsentStore_new)"
  obtain res as s1 where e: "handle_approve (\<lambda>_. Inr 7) (\<lambda>_. ''u'') id ?env (5, 5, 5) ''u'' None None None ?s = (res, as, s1)"
    by (metis prod.exhaust)
  have "\<exists>v. res = Inr v"
    using e by (auto simp: handle_approve_def issue_def consent_decide_def cleanup_expired_def ConsentStore_new_def
        CONSENT_TOKEN_TTL_def Let_def split: option.splits)
  moreover have "inner ?s = [(7, \<lparr>pc_tool = ''rg'', pc_argv = [], policy_diff = [], expires_at = CONSENT_TOKEN_TTL, decided = 0\<rparr>)]"
    by (simp add: issue_def cleanup_expired_def ConsentStore_new_def Let_def)
  ultimately show ?thesis
    using approve_answers_and_audits [OF e] e by auto
qed

end
