(* ===== verification/Plugin_Transport.thy ===== *)
theory Plugin_Transport
  imports Text
begin

text \<open>
  The framed transport of the file manager's plugins
  (\<open>sy-filemanager/src/plugin/transport.rs\<close>): \<open>Content-Length\<close> headers around JSON bodies.
  \<open>serde_json::to_vec\<close> and \<open>from_slice\<close> are the parameters \<open>to_vec\<close> and \<open>from_slice\<close>.
  The contract of an incremental decoder is the locale \<open>incremental\<close>: what it decodes does
  not depend on how the bytes are cut into reads.
\<close>

section \<open>Codec\<close>

definition MAX_PAYLOAD_BYTES :: nat where "MAX_PAYLOAD_BYTES = 16 * 1024 * 1024"

definition CONTENT_LENGTH_HEADER :: "byte list" where
  "CONTENT_LENGTH_HEADER = bytes_of ''Content-Length:''"

definition HEADER_TERMINATOR :: "byte list" where
  "HEADER_TERMINATOR = [13, 10, 13, 10]"

datatype frame_error =
    TooLarge nat
  | BadHeader
  | BadContentLength
  | MissingContentLength
  | BadJson

definition encode :: "('v \<Rightarrow> byte list option) \<Rightarrow> 'v \<Rightarrow> byte list \<Rightarrow> frame_error + byte list" where
  "encode to_vec item dst =
     try_bind (ok_or (to_vec item) BadJson) (\<lambda>body.
       if length body > MAX_PAYLOAD_BYTES then Inl (TooLarge (length body))
       else Inr (dst @ (CONTENT_LENGTH_HEADER @ [32] @ dec_bytes (length body) @ HEADER_TERMINATOR) @ body))"

fun windows_position :: "byte list \<Rightarrow> byte list \<Rightarrow> nat option" where
  "windows_position needle [] = None"
| "windows_position needle (h # hs) =
     (if length (h # hs) < length needle then None
      else if take (length needle) (h # hs) = needle then Some 0
      else map_option Suc (windows_position needle hs))"

definition find_subslice :: "byte list \<Rightarrow> byte list \<Rightarrow> nat option" where
  "find_subslice haystack needle =
     (if needle = [] \<or> length haystack < length needle then None else windows_position needle haystack)"

fun content_length_lines :: "byte list list \<Rightarrow> frame_error + nat" where
  "content_length_lines [] = Inl MissingContentLength"
| "content_length_lines (line # ls) =
     (let trimmed = trim_bytes line
      in if trimmed = [] then content_length_lines ls
         else case split_once 58 trimmed of
           None \<Rightarrow> content_length_lines ls
         | Some (name, val) \<Rightarrow>
             if eq_ignore_ascii_case name (bytes_of ''Content-Length'')
             then ok_or (parse_usize (trim_bytes val)) BadContentLength
             else content_length_lines ls)"

definition parse_content_length :: "byte list \<Rightarrow> frame_error + nat" where
  "parse_content_length header_block = content_length_lines (split_crlf header_block)"

text \<open>
  \<open>decode\<close> on the codec's state (the cached body length) and the read buffer: the answer, the
  new state and what is left of the buffer.
\<close>

definition decode_body ::
  "(byte list \<Rightarrow> 'v option) \<Rightarrow> nat \<Rightarrow> byte list \<Rightarrow> (frame_error + 'v option) \<times> nat option \<times> byte list" where
  "decode_body from_slice body_len src =
     (if length src < body_len then (Inr None, Some body_len, src)
      else (case from_slice (take body_len src) of None \<Rightarrow> Inl BadJson | Some v \<Rightarrow> Inr (Some v),
            None, drop body_len src))"

definition decode ::
  "(byte list \<Rightarrow> 'v option) \<Rightarrow> nat option \<Rightarrow> byte list \<Rightarrow> (frame_error + 'v option) \<times> nat option \<times> byte list" where
  "decode from_slice expected src =
     (case expected of
        Some n \<Rightarrow> decode_body from_slice n src
      | None \<Rightarrow>
          (case find_subslice src HEADER_TERMINATOR of
             None \<Rightarrow> (Inr None, None, src)
           | Some header_end \<Rightarrow>
               if \<not> utf8_valid (take header_end src) then (Inl BadHeader, None, src)
               else case parse_content_length (take header_end src) of
                 Inl e \<Rightarrow> (Inl e, None, src)
               | Inr body_len \<Rightarrow>
                   if body_len > MAX_PAYLOAD_BYTES then (Inl (TooLarge body_len), None, src)
                   else decode_body from_slice body_len (drop (header_end + length HEADER_TERMINATOR) src)))"

section \<open>Incremental decoders\<close>

text \<open>What reading a buffer to its end yields: the messages, then an error or the resume state.\<close>

fun yield :: "'v \<Rightarrow> 'v list \<times> 'r \<Rightarrow> 'v list \<times> 'r" where
  "yield v (vs, r) = (v # vs, r)"

lemma fst_yield [simp]: "fst (yield v p) = v # fst p" and snd_yield [simp]: "snd (yield v p) = snd p"
  by (cases p; simp)+

text \<open>
  \<open>FramedRead\<close>: every read is appended to the buffer and decoded until the codec asks for
  more; an error ends the stream.
\<close>

fun chunked ::
  "('s \<Rightarrow> 'b list \<Rightarrow> 'v list \<times> ('e + 's \<times> 'b list)) \<Rightarrow> 's \<Rightarrow> 'b list \<Rightarrow> 'b list list
     \<Rightarrow> 'v list \<times> ('e + 's \<times> 'b list)" where
  "chunked dr s buf [] = ([], Inr (s, buf))"
| "chunked dr s buf (c # cs) =
     (case dr s (buf @ c) of
        (vs, Inl e) \<Rightarrow> (vs, Inl e)
      | (vs, Inr (s', r)) \<Rightarrow> (case chunked dr s' r cs of (ws, q) \<Rightarrow> (vs @ ws, q)))"

locale incremental =
  fixes step :: "'s \<Rightarrow> 'b list \<Rightarrow> ('e + 'v option) \<times> 's \<times> 'b list"
    and drain :: "'s \<Rightarrow> 'b list \<Rightarrow> 'v list \<times> ('e + 's \<times> 'b list)"
    and weight :: "'s \<Rightarrow> 'b list \<Rightarrow> nat"
  assumes drain_step: "drain s buf =
      (case step s buf of
         (Inl e, _, _) \<Rightarrow> ([], Inl e)
       | (Inr None, s', r) \<Rightarrow> ([], Inr (s', r))
       | (Inr (Some v), s', r) \<Rightarrow> yield v (drain s' r))"
    and progress: "step s buf = (Inr (Some v), s', r) \<Longrightarrow> weight s' r < weight s buf"
    and extend_item: "step s buf = (Inr (Some v), s', r) \<Longrightarrow> step s (buf @ more) = (Inr (Some v), s', r @ more)"
    and extend_error: "step s buf = (Inl e, s', r) \<Longrightarrow> fst (step s (buf @ more)) = Inl e"
    and extend_wait: "step s buf = (Inr None, s', r) \<Longrightarrow> step s' (r @ more) = step s (buf @ more)"
begin

lemma drain_append:
  "drain s (buf @ more) =
     (case drain s buf of
        (vs, Inl e) \<Rightarrow> (vs, Inl e)
      | (vs, Inr (s', r)) \<Rightarrow> (case drain s' (r @ more) of (ws, q) \<Rightarrow> (vs @ ws, q)))"
proof (induction "weight s buf" arbitrary: s buf rule: less_induct)
  case less
  obtain a s' r where st: "step s buf = (a, s', r)"
    by (cases "step s buf")
  consider (err) e where "a = Inl e" | (wait) "a = Inr None" | (item) v where "a = Inr (Some v)"
    by (metis option.exhaust sum.exhaust)
  then show ?case
  proof cases
    case err
    then have "fst (step s (buf @ more)) = Inl e"
      using extend_error st by simp
    then show ?thesis
      using st err drain_step [of s buf] drain_step [of s "buf @ more"] by (auto split: prod.splits)
  next
    case wait
    then have "step s' (r @ more) = step s (buf @ more)"
      using extend_wait st by simp
    then have "drain s' (r @ more) = drain s (buf @ more)"
      using drain_step [of s' "r @ more"] drain_step [of s "buf @ more"] by simp
    then show ?thesis
      using st wait drain_step [of s buf] by (simp split: prod.splits)
  next
    case item
    have e: "drain s (buf @ more) = yield v (drain s' (r @ more))" "drain s buf = yield v (drain s' r)"
      using drain_step [of s buf] drain_step [of s "buf @ more"] extend_item [of s buf v s' r more] st item by simp_all
    have "weight s' r < weight s buf"
      using progress st item by simp
    from less(1) [OF this] show ?thesis
      unfolding e by (cases "drain s' r"; cases "snd (drain s' r)") (auto split: prod.splits)
  qed
qed

text \<open>Where reading stops for lack of bytes, reading again yields nothing.\<close>

lemma drain_settled: "drain s buf = (vs, Inr (s', r)) \<Longrightarrow> drain s' r = ([], Inr (s', r))"
proof (induction "weight s buf" arbitrary: s buf vs rule: less_induct)
  case less
  obtain a t q where st: "step s buf = (a, t, q)"
    by (cases "step s buf")
  consider (err) e where "a = Inl e" | (wait) "a = Inr None" | (item) v where "a = Inr (Some v)"
    by (metis option.exhaust sum.exhaust)
  then show ?case
  proof cases
    case err
    then show ?thesis using less.prems st drain_step [of s buf] by simp
  next
    case wait
    then have "s' = t" "r = q" "step t q = (Inr None, t, q)"
      using less.prems st drain_step [of s buf] extend_wait [of s buf t q "[]"] by simp_all
    then show ?thesis using drain_step [of t q] by simp
  next
    case item
    then obtain ws where "drain t q = (ws, Inr (s', r))"
      using less.prems st drain_step [of s buf] by (cases "drain t q") auto
    then show ?thesis
      using less.hyps [of t q] progress [of s buf] st item by simp
  qed
qed

lemma chunked_concat:
  "drain s buf = ([], Inr (s, buf)) \<Longrightarrow> chunked drain s buf cs = drain s (buf @ concat cs)"
proof (induction cs arbitrary: s buf)
  case (Cons c cs)
  obtain vs q where d: "drain s (buf @ c) = (vs, q)"
    by (cases "drain s (buf @ c)")
  show ?case
  proof (cases q)
    case (Inl e)
    then show ?thesis using d drain_append [of s "buf @ c" "concat cs"] by simp
  next
    case (Inr p)
    obtain s' r where "p = (s', r)" by force
    then show ?thesis
      using d Inr Cons.IH [OF drain_settled [of s "buf @ c" vs s' r]] drain_append [of s "buf @ c" "concat cs"]
      by simp
  qed
qed simp

end

section \<open>The codec is an incremental decoder\<close>

lemma windows_position_bound:
  "windows_position needle hs = Some i \<Longrightarrow> i + length needle \<le> length hs \<and> take (length needle) (drop i hs) = needle"
  by (induction hs arbitrary: i) (auto split: if_splits)

lemma windows_position_append:
  "windows_position needle hs = Some i \<Longrightarrow> windows_position needle (hs @ more) = Some i"
proof (induction hs arbitrary: i)
  case (Cons h hs)
  have "take (length needle) ((h # hs) @ more) = take (length needle) (h # hs)"
    if "\<not> length (h # hs) < length needle"
    using that by (subst take_append) simp
  then show ?case
    using Cons by (auto split: if_splits)
qed simp

lemma find_subslice_append:
  "find_subslice hs needle = Some i \<Longrightarrow> find_subslice (hs @ more) needle = Some i"
  by (auto simp: find_subslice_def windows_position_append split: if_splits)

lemma find_subslice_bound: "find_subslice hs needle = Some i \<Longrightarrow> i + length needle \<le> length hs"
  by (auto simp: find_subslice_def dest: windows_position_bound split: if_splits)

definition codec_weight :: "nat option \<Rightarrow> byte list \<Rightarrow> nat" where
  "codec_weight s buf = 2 * length buf + (if s = None then 0 else 1)"

lemma decode_progress:
  "decode from_slice s buf = (Inr (Some v), s', r) \<Longrightarrow> codec_weight s' r < codec_weight s buf"
  by (auto simp: decode_def decode_body_def codec_weight_def HEADER_TERMINATOR_def
      split: option.splits if_splits sum.splits dest!: find_subslice_bound)

function drain_frames ::
  "(byte list \<Rightarrow> 'v option) \<Rightarrow> nat option \<Rightarrow> byte list \<Rightarrow> 'v list \<times> (frame_error + nat option \<times> byte list)" where
  "drain_frames from_slice s buf =
     (case decode from_slice s buf of
        (Inl e, _, _) \<Rightarrow> ([], Inl e)
      | (Inr None, s', r) \<Rightarrow> ([], Inr (s', r))
      | (Inr (Some v), s', r) \<Rightarrow> yield v (drain_frames from_slice s' r))"
  by pat_completeness auto
termination
  by (relation "measure (\<lambda>(_, s, buf). codec_weight s buf)") (auto dest: decode_progress [OF sym])

declare drain_frames.simps [simp del]

text \<open>The header phase alone: the advertised length and the bytes after the header.\<close>

definition read_head :: "byte list \<Rightarrow> frame_error + (nat \<times> byte list) option" where
  "read_head src =
     (case find_subslice src HEADER_TERMINATOR of
        None \<Rightarrow> Inr None
      | Some i \<Rightarrow>
          if \<not> utf8_valid (take i src) then Inl BadHeader
          else try_bind (parse_content_length (take i src)) (\<lambda>n.
            if n > MAX_PAYLOAD_BYTES then Inl (TooLarge n)
            else Inr (Some (n, drop (i + length HEADER_TERMINATOR) src))))"

lemma decode_None:
  "decode from_slice None src =
     (case read_head src of
        Inl e \<Rightarrow> (Inl e, None, src)
      | Inr None \<Rightarrow> (Inr None, None, src)
      | Inr (Some (n, rest)) \<Rightarrow> decode_body from_slice n rest)"
  by (simp add: decode_def read_head_def split: option.split sum.split)

lemma decode_Some: "decode from_slice (Some n) src = decode_body from_slice n src"
  by (simp add: decode_def)

lemma read_head_append:
  assumes "find_subslice src HEADER_TERMINATOR = Some i"
  shows "read_head (src @ more) = map_sum id (map_option (map_prod id (\<lambda>rest. rest @ more))) (read_head src)"
proof -
  have b: "i \<le> length src" "i + length HEADER_TERMINATOR \<le> length src"
    using find_subslice_bound [OF assms] by simp_all
  then have "take i (src @ more) = take i src"
    "drop (i + length HEADER_TERMINATOR) (src @ more) = drop (i + length HEADER_TERMINATOR) src @ more"
    by simp_all
  then show ?thesis
    using assms find_subslice_append [OF assms, of more]
    by (cases "parse_content_length (take i src)") (simp_all add: read_head_def del: take_append drop_append)
qed

lemma read_head_extend:
  "read_head src = Inl e \<Longrightarrow> read_head (src @ more) = Inl e"
  "read_head src = Inr (Some (n, rest)) \<Longrightarrow> read_head (src @ more) = Inr (Some (n, rest @ more))"
proof -
  have "\<exists>i. find_subslice src HEADER_TERMINATOR = Some i" if "read_head src \<noteq> Inr None"
    using that by (cases "find_subslice src HEADER_TERMINATOR") (simp_all add: read_head_def)
  then show "read_head src = Inl e \<Longrightarrow> read_head (src @ more) = Inl e"
    "read_head src = Inr (Some (n, rest)) \<Longrightarrow> read_head (src @ more) = Inr (Some (n, rest @ more))"
    using read_head_append [of src _ more] by auto
qed

lemma decode_body_extend:
  assumes "decode_body from_slice n buf = (a, s', r)"
  shows "a \<noteq> Inr None \<Longrightarrow> decode_body from_slice n (buf @ more) = (a, s', r @ more)"
    and "a = Inr None \<Longrightarrow> s' = Some n \<and> r = buf"
  using assms by (auto simp: decode_body_def split: if_splits option.splits)

lemma decode_extend:
  assumes d: "decode from_slice s buf = (a, s', r)"
  shows "a = Inr (Some v) \<Longrightarrow> decode from_slice s (buf @ more) = (a, s', r @ more)"
    and "a = Inl e \<Longrightarrow> fst (decode from_slice s (buf @ more)) = a"
    and "a = Inr None \<Longrightarrow> decode from_slice s' (r @ more) = decode from_slice s (buf @ more)"
proof -
  consider (body) n where "s = Some n"
    | (head) n rest where "s = None" "read_head buf = Inr (Some (n, rest))"
    | (wait) "s = None" "read_head buf = Inr None"
    | (err) x where "s = None" "read_head buf = Inl x"
    by (metis option.exhaust sum.exhaust surj_pair)
  note cases = this
  show "decode from_slice s (buf @ more) = (a, s', r @ more)" if "a = Inr (Some v)"
    using cases d that
    by cases (auto simp: decode_Some decode_None read_head_extend decode_body_extend)
  show "fst (decode from_slice s (buf @ more)) = a" if "a = Inl e"
    using cases d that
    by cases (auto simp: decode_Some decode_None read_head_extend decode_body_extend)
  show "decode from_slice s' (r @ more) = decode from_slice s (buf @ more)" if "a = Inr None"
    using cases d that
    by cases (auto simp: decode_Some decode_None read_head_extend dest!: decode_body_extend(2))
qed

interpretation plug: incremental "decode from_slice" "drain_frames from_slice" codec_weight
  for from_slice :: "byte list \<Rightarrow> 'v option"
  by unfold_locales (fact drain_frames.simps decode_progress decode_extend(1) [OF _ refl]
      decode_extend(2) [OF _ refl] decode_extend(3) [OF _ refl])+

section \<open>A frame decodes to what was encoded\<close>

lemma find_terminator:
  "13 \<notin> set h \<Longrightarrow> windows_position HEADER_TERMINATOR (h @ HEADER_TERMINATOR @ rest) = Some (length h)"
proof (induction h)
  case Nil
  show ?case by (simp add: HEADER_TERMINATOR_def)
next
  case (Cons b h)
  then have "take (length HEADER_TERMINATOR) ((b # h) @ HEADER_TERMINATOR @ rest) \<noteq> HEADER_TERMINATOR"
    by (auto simp: HEADER_TERMINATOR_def)
  then show ?case
    using Cons by (simp add: HEADER_TERMINATOR_def)
qed

definition head_bytes :: "nat \<Rightarrow> byte list" where
  "head_bytes n = CONTENT_LENGTH_HEADER @ [32] @ dec_bytes n"

lemma head_bytes_plain: "b \<in> set (head_bytes n) \<Longrightarrow> b \<noteq> 13 \<and> b \<le> 0x7F"
  using dec_bytes_digit [of b n]
  by (auto simp: head_bytes_def CONTENT_LENGTH_HEADER_def bytes_of_def is_digit_byte_def solid_def)

lemma parse_head_bytes:
  assumes "n < 2 ^ 64"
  shows "parse_content_length (head_bytes n) = Inr n"
proof -
  let ?name = "bytes_of ''Content-Length''"
  have h: "head_bytes n = ?name @ 58 # 32 # dec_bytes n"
    by (simp add: head_bytes_def CONTENT_LENGTH_HEADER_def bytes_of_def)
  have ends: "solid (last (dec_bytes n))" "solid (hd (dec_bytes n))"
    using dec_bytes_digit [of _ n] by (simp_all add: last_in_set)
  have "solid (hd (head_bytes n))" "last (head_bytes n) = last (dec_bytes n)"
    unfolding h by (simp_all add: bytes_of_def solid_def)
  then have trim: "trim_bytes (head_bytes n) = head_bytes n"
    using ends by (intro trim_solid) simp
  have "58 \<notin> set ?name"
    by (simp add: bytes_of_def)
  then have "split_once 58 (head_bytes n) = Some (?name, 32 # dec_bytes n)"
    unfolding h by (rule split_once_append)
  moreover have "trim_bytes (32 # dec_bytes n) = dec_bytes n"
    using ends by (simp add: trim_space trim_solid)
  moreover have "split_crlf (head_bytes n) = [head_bytes n]"
    using head_bytes_plain by (intro split_crlf_none) auto
  moreover have "head_bytes n \<noteq> []"
    by (simp add: h)
  ultimately show ?thesis
    using trim parse_usize_dec_bytes [OF assms]
    by (simp add: parse_content_length_def eq_ignore_ascii_case_def)
qed

lemma read_head_frame:
  assumes "n \<le> MAX_PAYLOAD_BYTES"
  shows "read_head (head_bytes n @ HEADER_TERMINATOR @ rest) = Inr (Some (n, rest))"
proof -
  let ?src = "head_bytes n @ HEADER_TERMINATOR @ rest"
  have "find_subslice ?src HEADER_TERMINATOR = Some (length (head_bytes n))"
    using find_terminator [of "head_bytes n" rest] head_bytes_plain
    by (auto simp: find_subslice_def HEADER_TERMINATOR_def)
  moreover have "utf8_valid (head_bytes n)"
    using head_bytes_plain by (intro utf8_valid_ascii) auto
  moreover have "n < 2 ^ 64"
    using assms by (simp add: MAX_PAYLOAD_BYTES_def)
  ultimately show ?thesis
    using parse_head_bytes [of n] assms by (simp add: read_head_def)
qed

lemma decode_encode:
  assumes "encode to_vec v [] = Inr w" "\<And>b. to_vec v = Some b \<Longrightarrow> from_slice b = Some v"
  shows "decode from_slice None (w @ rest) = (Inr (Some v), None, rest)"
proof -
  obtain body where b: "to_vec v = Some body" "length body \<le> MAX_PAYLOAD_BYTES"
    and w: "w = head_bytes (length body) @ HEADER_TERMINATOR @ body"
    using assms(1) by (auto simp: encode_def try_bind_Inr_iff head_bytes_def split: if_splits)
  have "read_head (w @ rest) = Inr (Some (length body, body @ rest))"
    using read_head_frame [OF b(2), of "body @ rest"] by (simp add: w)
  then show ?thesis
    using assms(2) [OF b(1)] by (simp add: decode_None decode_body_def)
qed

lemma encode_dst: "encode to_vec v dst = map_sum id (\<lambda>w. dst @ w) (encode to_vec v [])"
  by (cases "to_vec v") (simp_all add: encode_def)

fun encode_all :: "('v \<Rightarrow> byte list option) \<Rightarrow> 'v list \<Rightarrow> byte list \<Rightarrow> frame_error + byte list" where
  "encode_all to_vec [] dst = Inr dst"
| "encode_all to_vec (v # vs) dst = try_bind (encode to_vec v dst) (encode_all to_vec vs)"

lemma encode_all_dst: "encode_all to_vec vs dst = map_sum id (\<lambda>w. dst @ w) (encode_all to_vec vs [])"
proof (induction vs arbitrary: dst)
  case (Cons v vs)
  show ?case
  proof (cases "encode to_vec v []")
    case (Inr w)
    then show ?thesis
      using Cons [of "dst @ w"] Cons [of w] encode_dst [of to_vec v dst]
      by (cases "encode_all to_vec vs []") simp_all
  qed (simp add: encode_dst [of to_vec v dst])
qed simp

lemma decode_empty: "decode from_slice None [] = (Inr None, None, [])"
  by (simp add: decode_def find_subslice_def HEADER_TERMINATOR_def)

lemma drain_encode_all:
  assumes "encode_all to_vec vs [] = Inr ws" "\<forall>v \<in> set vs. \<forall>b. to_vec v = Some b \<longrightarrow> from_slice b = Some v"
  shows "drain_frames from_slice None ws = (vs, Inr (None, []))"
  using assms
proof (induction vs arbitrary: ws)
  case Nil
  then show ?case
    by (simp add: drain_frames.simps [of _ None "[]"] decode_empty)
next
  case (Cons v vs)
  obtain w where w: "encode to_vec v [] = Inr w" and "encode_all to_vec vs w = Inr ws"
    using Cons.prems(1) by (auto simp: try_bind_Inr_iff)
  then obtain ws' where ws': "encode_all to_vec vs [] = Inr ws'" "ws = w @ ws'"
    using encode_all_dst [of to_vec vs w] by (cases "encode_all to_vec vs []") auto
  have "decode from_slice None (w @ ws') = (Inr (Some v), None, ws')"
    using Cons.prems(2) by (intro decode_encode [OF w]) simp
  then show ?case
    using Cons.IH [OF ws'(1)] Cons.prems(2) ws'(2) by (simp add: drain_frames.simps [of _ None "w @ ws'"])
qed

section \<open>Properties\<close>

text \<open>
  C14. The plugin transport delivers exactly what was sent, however the bytes are cut into
  reads: decoding the concatenated frames of any messages, in any chunks, yields these
  messages in order and leaves nothing behind.
\<close>

theorem plugin_stream_any_chunks:
  assumes "encode_all to_vec vs [] = Inr ws" "concat chunks = ws"
    and "\<forall>v \<in> set vs. \<forall>b. to_vec v = Some b \<longrightarrow> from_slice b = Some v"
  shows "chunked (drain_frames from_slice) None [] chunks = (vs, Inr (None, []))"
proof -
  have "drain_frames from_slice None [] = ([], Inr (None, []))"
    by (simp add: drain_frames.simps [of _ None "[]"] decode_empty)
  from plug.chunked_concat [OF this, of chunks] show ?thesis
    using drain_encode_all [OF assms(1,3)] assms(2) by simp
qed

theorem plugin_stream_any_chunks_witness:
  "\<exists>ws. encode_all Some [[1, 2], [3 :: byte]] [] = Inr ws \<and>
     chunked (drain_frames Some) None [] (map (\<lambda>b. [b]) ws) = ([[1, 2], [3]], Inr (None, []))"
proof -
  obtain ws where ws: "encode_all Some [[1, 2], [3 :: byte]] [] = Inr ws"
    by (simp add: encode_def MAX_PAYLOAD_BYTES_def)
  have "concat (map (\<lambda>b. [b]) ws) = ws" by (induction ws) simp_all
  from plugin_stream_any_chunks [OF ws this, of Some] ws show ?thesis by auto
qed

text \<open>
  No decision of the decoder depends on where a read ends, on any input at all: for
  arbitrary bytes, well-formed or not, cutting them differently gives the same messages and
  the same error or resume state.
\<close>

theorem plugin_decoder_chunk_independent:
  assumes "concat chunks = concat chunks'"
  shows "chunked (drain_frames from_slice) None [] chunks = chunked (drain_frames from_slice) None [] chunks'"
proof -
  have "drain_frames from_slice None [] = ([], Inr (None, []))"
    by (simp add: drain_frames.simps [of _ None "[]"] decode_empty)
  then show ?thesis
    using plug.chunked_concat [of from_slice None "[]"] assms by simp
qed

theorem plugin_decoder_chunk_independent_witness:
  "chunked (drain_frames Some) None [] [[67, 13], [10, 13, 10 :: byte]]
     = chunked (drain_frames Some) None [] [[67], [13, 10], [13, 10]]"
  by (rule plugin_decoder_chunk_independent) simp

text \<open>
  The 16 MiB ceiling holds on both sides: nothing larger is encoded, no larger body is ever
  awaited by the decoder, and an advertised larger length is an error before any of the body
  is read.
\<close>

theorem plugin_payload_bounded:
  "(encode to_vec v dst = Inr w \<longrightarrow>
      (\<exists>body. to_vec v = Some body \<and> length body \<le> 16 * 1024 * 1024 \<and>
         w = dst @ head_bytes (length body) @ [13, 10, 13, 10] @ body)) \<and>
   (decode from_slice None src = (res, Some n, rest) \<longrightarrow> n \<le> 16 * 1024 * 1024) \<and>
   (find_subslice src HEADER_TERMINATOR = Some i \<and> utf8_valid (take i src) \<and>
      parse_content_length (take i src) = Inr m \<and> 16 * 1024 * 1024 < m \<longrightarrow>
      decode from_slice None src = (Inl (TooLarge m), None, src))"
  by (auto simp: encode_def try_bind_Inr_iff head_bytes_def HEADER_TERMINATOR_def MAX_PAYLOAD_BYTES_def
      decode_def decode_body_def split: option.splits sum.splits if_splits)

theorem plugin_payload_bounded_witness:
  "\<exists>w. encode Some [1 :: byte] [] = Inr w \<and> w = head_bytes 1 @ [13, 10, 13, 10] @ [1]"
proof -
  obtain w where w: "encode Some [1 :: byte] [] = Inr w"
    by (simp add: encode_def MAX_PAYLOAD_BYTES_def)
  from plugin_payload_bounded [of Some "[1]" "[]" w Some "[]" "Inr None" 0 "[]" 0 0] w
  show ?thesis by simp
qed

text \<open>
  Only the body is bounded: a header block is not, since the decoder keeps asking for more
  as long as no blank line arrives, whatever the size of the buffer.
\<close>

theorem plugin_header_unbounded:
  "decode from_slice None (replicate n 65) = (Inr None, None, replicate n 65)"
proof -
  have "windows_position HEADER_TERMINATOR (replicate n 65) = None" for n
    by (induction n) (auto simp: HEADER_TERMINATOR_def)
  then show ?thesis
    by (simp add: decode_def find_subslice_def)
qed

end
