(* ===== verification/Plugin_Manifest.thy ===== *)
theory Plugin_Manifest
  imports Json Text "HOL-Library.Char_ord" "HOL-Library.List_Lexorder"
begin

text \<open>
  Plugin manifests (\<open>sy-filemanager/src/plugin/manifest.rs\<close>) and the \<open>initialize\<close> handshake
  (\<open>capability.rs\<close>).  The TOML parser, \<open>globset::Glob::new\<close> (the compiled matcher of a
  pattern, if it compiles) and the texts of deserialisation errors are parameters.
\<close>

section \<open>Manifest\<close>

record BinarySpec =
  bin_exec :: string
  bin_preflight :: "string list"

record Signature =
  sig :: string
  pubkey :: string

record PluginMeta =
  pm_id :: string
  pm_name :: string
  pm_version :: string
  pm_description :: string
  pm_authors :: "string list"
  pm_license :: string
  pm_homepage :: string
  api_min :: string
  api_max :: string
  binary :: BinarySpec
  pm_signature :: "Signature option"

record Capability =
  cap_kind :: string
  cap_url :: "string option"
  cap_mime :: "string option"

record Needs =
  nd_fs_read :: "string list"
  nd_fs_write :: "string list"
  nd_preview :: "string list"
  nd_knowledge :: "string list"
  nd_network :: "string list"
  nd_exec :: "string list"

record Limits =
  memory_mb :: u32
  cpu_seconds :: u32
  nofile :: u32
  spawn_timeout_ms :: u32
  shutdown_timeout_ms :: u32

definition Limits_default :: Limits where
  "Limits_default = \<lparr>memory_mb = 64, cpu_seconds = 30, nofile = 64, spawn_timeout_ms = 250,
     shutdown_timeout_ms = 1000\<rparr>"

definition Needs_default :: Needs where
  "Needs_default = \<lparr>nd_fs_read = [], nd_fs_write = [], nd_preview = [], nd_knowledge = [], nd_network = [],
     nd_exec = []\<rparr>"

record Manifest =
  mf_api :: string
  mf_plugin :: PluginMeta
  mf_capabilities :: "Capability list"
  mf_needs :: Needs
  mf_limits :: Limits
  mf_env :: "(string \<times> string) list"
  mf_signature :: "Signature option"

type_synonym glob = "string \<Rightarrow> (string \<Rightarrow> bool) option"

datatype manifest_error =
    BadToml
  | ApiRequired
  | ApiOutside string string string
  | IdRequired
  | ExecRequired
  | KindRequired nat
  | NeedsPredicate nat
  | BadUrlGlob nat
  | BadMimeGlob nat
  | ZeroLimit string

definition url_glob :: "glob \<Rightarrow> Capability \<Rightarrow> unit + (string \<Rightarrow> bool) option" where
  "url_glob glob c = (case cap_url c of None \<Rightarrow> Inr None
     | Some s \<Rightarrow> (case glob s of None \<Rightarrow> Inl () | Some g \<Rightarrow> Inr (Some g)))"

definition mime_glob :: "glob \<Rightarrow> Capability \<Rightarrow> unit + (string \<Rightarrow> bool) option" where
  "mime_glob glob c = (case cap_mime c of None \<Rightarrow> Inr None
     | Some s \<Rightarrow> (case glob s of None \<Rightarrow> Inl () | Some g \<Rightarrow> Inr (Some g)))"

definition manifest_parse :: "(string \<Rightarrow> Manifest option) \<Rightarrow> string \<Rightarrow> manifest_error + Manifest" where
  "manifest_parse toml src =
     try_bind (ok_or (toml src) BadToml) (\<lambda>m. Inr (m\<lparr>mf_signature := pm_signature (mf_plugin m)\<rparr>))"

definition validate_limits :: "Limits \<Rightarrow> manifest_error + unit" where
  "validate_limits l =
     (let pairs = [(''memory_mb'', memory_mb l), (''cpu_seconds'', cpu_seconds l), (''nofile'', nofile l),
                   (''spawn_timeout_ms'', spawn_timeout_ms l), (''shutdown_timeout_ms'', shutdown_timeout_ms l)]
      in case List.find (\<lambda>(name, v). v = 0) pairs of
           Some (name, _) \<Rightarrow> Inl (ZeroLimit name) | None \<Rightarrow> Inr ())"

fun validate_caps :: "glob \<Rightarrow> nat \<Rightarrow> Capability list \<Rightarrow> manifest_error + unit" where
  "validate_caps glob i [] = Inr ()"
| "validate_caps glob i (c # cs) =
     (if cap_kind c = [] then Inl (KindRequired i)
      else if cap_url c = None \<and> cap_mime c = None then Inl (NeedsPredicate i)
      else case url_glob glob c of
        Inl _ \<Rightarrow> Inl (BadUrlGlob i)
      | Inr _ \<Rightarrow> (case mime_glob glob c of
          Inl _ \<Rightarrow> Inl (BadMimeGlob i)
        | Inr _ \<Rightarrow> validate_caps glob (Suc i) cs))"

definition manifest_validate :: "glob \<Rightarrow> Manifest \<Rightarrow> manifest_error + unit" where
  "manifest_validate glob m =
     (if mf_api m = [] then Inl ApiRequired
      else if \<not> (api_min (mf_plugin m) \<le> mf_api m \<and> mf_api m \<le> api_max (mf_plugin m))
        then Inl (ApiOutside (mf_api m) (api_min (mf_plugin m)) (api_max (mf_plugin m)))
      else if pm_id (mf_plugin m) = [] then Inl IdRequired
      else if bin_exec (binary (mf_plugin m)) = [] then Inl ExecRequired
      else try_bind (validate_caps glob 0 (mf_capabilities m)) (\<lambda>_. validate_limits (mf_limits m)))"

definition manifest_load :: "(string \<Rightarrow> Manifest option) \<Rightarrow> glob \<Rightarrow> string \<Rightarrow> manifest_error + Manifest" where
  "manifest_load toml glob src =
     try_bind (manifest_parse toml src) (\<lambda>m. try_bind (manifest_validate glob m) (\<lambda>_. Inr m))"

section \<open>Host capabilities\<close>

datatype HostCapability =
    FsRead | FsCha | FsWriteCache | NotifyWaybar | NotifyBanner | UiTheme | ExecRun
  | PreviewImageShow | PreviewText

fun method_name :: "HostCapability \<Rightarrow> string" where
  "method_name FsRead = ''host.fs.read''"
| "method_name FsCha = ''host.fs.cha''"
| "method_name FsWriteCache = ''host.fs.write_cache''"
| "method_name NotifyWaybar = ''host.notify.waybar''"
| "method_name NotifyBanner = ''host.notify.banner''"
| "method_name UiTheme = ''host.ui.theme''"
| "method_name ExecRun = ''host.exec.run''"
| "method_name PreviewImageShow = ''host.preview.image_show''"
| "method_name PreviewText = ''host.preview.text''"

definition HostCapabilities_ALL :: "HostCapability list" where
  "HostCapabilities_ALL =
     [FsRead, FsCha, FsWriteCache, NotifyWaybar, NotifyBanner, UiTheme, ExecRun, PreviewImageShow, PreviewText]"

definition method_names :: "string list" where
  "method_names = map method_name HostCapabilities_ALL"

definition knows :: "string \<Rightarrow> bool" where
  "knows name \<longleftrightarrow> list_ex (\<lambda>m. m = name) method_names"

interpretation hostcap: wire_enum HostCapabilities_ALL method_name
proof unfold_locales
  show "x \<in> set HostCapabilities_ALL" for x
    by (cases x) (simp_all add: HostCapabilities_ALL_def)
qed (simp add: HostCapabilities_ALL_def)

lemma knows_iff: "knows name \<longleftrightarrow> (\<exists>c. name = method_name c)"
  using hostcap.complete by (auto simp: knows_def method_names_def list_ex_iff)

section \<open>Handshake\<close>

datatype RpcError =
    Spawn string
  | Handshake string
  | Peer int string json
  | Transport string
  | Protocol string
  | RpcUnavailable string
  | RpcTimeout nat

definition API_VERSION_MISMATCH :: int where "API_VERSION_MISMATCH = - 32098"

record NegotiatedCaps =
  nc_api :: string
  plugin_capabilities :: "Capability list"
  plugin_offered_host_methods :: "string list"

definition build_initialize_params :: "string \<Rightarrow> string \<Rightarrow> string list \<Rightarrow> string \<Rightarrow> string \<Rightarrow> json" where
  "build_initialize_params host_name host_version host_api workdir cache_dir =
     JObject [
       (''host'', JObject [
          (''name'', JString host_name),
          (''version'', JString host_version),
          (''api'', JArray (map JString host_api)),
          (''capabilities'', JObject []),
          (''host_methods'', JArray (map JString method_names))]),
       (''plugin'', JObject [
          (''workdir'', JString workdir),
          (''cache_dir'', JString cache_dir)])]"

text \<open>\<open>de_err\<close> is the deserialiser's message for a malformed row.\<close>

definition Capability_from_value :: "json \<Rightarrow> Capability option" where
  "Capability_from_value v =
     Option.bind (req_field json_as_str v ''kind'') (\<lambda>k.
     Option.bind (opt_field json_as_str v ''url'') (\<lambda>u.
     map_option (\<lambda>m. \<lparr>cap_kind = k, cap_url = u, cap_mime = m\<rparr>) (opt_field json_as_str v ''mime'')))"

fun parse_cap_items :: "(json \<Rightarrow> string) \<Rightarrow> nat \<Rightarrow> json list \<Rightarrow> RpcError + Capability list" where
  "parse_cap_items de_err i [] = Inr []"
| "parse_cap_items de_err i (item # items) =
     (case Capability_from_value item of
        None \<Rightarrow> Inl (Protocol (''initialize capabilities['' @ nat_str i @ ''] malformed: '' @ de_err item))
      | Some c \<Rightarrow> try_bind (parse_cap_items de_err (Suc i) items) (\<lambda>cs. Inr (c # cs)))"

definition parse_capabilities :: "(json \<Rightarrow> string) \<Rightarrow> json \<Rightarrow> RpcError + Capability list" where
  "parse_capabilities de_err result =
     (case json_get result ''capabilities'' of
        None \<Rightarrow> Inr []
      | Some arr \<Rightarrow>
          (case json_as_array arr of
             None \<Rightarrow> Inl (Protocol ''initialize result `capabilities` must be an array'')
           | Some items \<Rightarrow> parse_cap_items de_err 0 items))"

text \<open>\<open>dbg\<close> and \<open>dbg_opt\<close> print as \<open>{:?}\<close> does.\<close>

definition same_row :: "Capability \<Rightarrow> Capability \<Rightarrow> bool" where
  "same_row c m \<longleftrightarrow> cap_kind m = cap_kind c \<and> cap_url m = cap_url c \<and> cap_mime m = cap_mime c"

definition cross_check_capabilities ::
  "(string \<Rightarrow> string) \<Rightarrow> (string option \<Rightarrow> string) \<Rightarrow> Capability list \<Rightarrow> Manifest \<Rightarrow> RpcError + unit" where
  "cross_check_capabilities dbg dbg_opt advertised m =
     (case List.find (\<lambda>c. \<not> list_ex (same_row c) (mf_capabilities m)) advertised of
        Some c \<Rightarrow> Inl (Protocol (''plugin advertised capability not in manifest: kind='' @ dbg (cap_kind c)
          @ '' url='' @ dbg_opt (cap_url c) @ '' mime='' @ dbg_opt (cap_mime c)))
      | None \<Rightarrow> Inr ())"

definition filter_known_host_methods :: "json \<Rightarrow> string list" where
  "filter_known_host_methods result =
     (let raw = Option.bind (case json_get result ''host_methods'' of Some v \<Rightarrow> Some v
                             | None \<Rightarrow> json_get result ''offers'') json_as_array
      in case raw of None \<Rightarrow> []
         | Some items \<Rightarrow> filter knows (List.map_filter json_as_str items))"

definition parse_initialize_result ::
  "(json \<Rightarrow> string) \<Rightarrow> (string \<Rightarrow> string) \<Rightarrow> (string option \<Rightarrow> string) \<Rightarrow> json \<Rightarrow> Manifest \<Rightarrow> string list
     \<Rightarrow> RpcError + NegotiatedCaps" where
  "parse_initialize_result de_err dbg dbg_opt result m host_api =
     try_bind (ok_or (Option.bind (json_get result ''api'') json_as_str)
         (Handshake ''initialize result missing `api` string'')) (\<lambda>api.
     if \<not> list_ex (\<lambda>h. h = api) host_api then
       Inl (Peer API_VERSION_MISMATCH ''API_VERSION_MISMATCH''
         (JObject [(''plugin_api'', JString api), (''host_api'', JArray (map JString host_api))]))
     else try_bind (parse_capabilities de_err result) (\<lambda>caps.
       try_bind (cross_check_capabilities dbg dbg_opt caps m) (\<lambda>_.
         Inr \<lparr>nc_api = api, plugin_capabilities = caps,
              plugin_offered_host_methods = filter_known_host_methods result\<rparr>)))"

section \<open>Properties\<close>

lemma validate_caps_ok:
  "validate_caps glob i cs = Inr () \<longleftrightarrow>
     (\<forall>c \<in> set cs. cap_kind c \<noteq> [] \<and> (cap_url c \<noteq> None \<or> cap_mime c \<noteq> None) \<and>
        (\<forall>u. cap_url c = Some u \<longrightarrow> glob u \<noteq> None) \<and> (\<forall>u. cap_mime c = Some u \<longrightarrow> glob u \<noteq> None))"
  by (induction cs arbitrary: i)
    (auto simp: url_glob_def mime_glob_def split: option.splits sum.splits if_splits)

lemma validate_limits_ok:
  "validate_limits l = Inr () \<longleftrightarrow> memory_mb l \<noteq> 0 \<and> cpu_seconds l \<noteq> 0 \<and> nofile l \<noteq> 0 \<and>
     spawn_timeout_ms l \<noteq> 0 \<and> shutdown_timeout_ms l \<noteq> 0"
  by (auto simp: validate_limits_def Let_def)

text \<open>
  A manifest that loads is well formed: its version lies within its own bounds, it names
  an id and an executable, every capability row has a kind and a predicate, every predicate
  compiles, and no resource limit is zero; and every manifest with these properties loads.
\<close>

theorem manifest_load_iff_wellformed:
  "manifest_load toml glob src = Inr m \<longleftrightarrow>
     (\<exists>m0. toml src = Some m0 \<and> m = m0\<lparr>mf_signature := pm_signature (mf_plugin m0)\<rparr>) \<and>
     mf_api m \<noteq> [] \<and> api_min (mf_plugin m) \<le> mf_api m \<and> mf_api m \<le> api_max (mf_plugin m) \<and>
     pm_id (mf_plugin m) \<noteq> [] \<and> bin_exec (binary (mf_plugin m)) \<noteq> [] \<and>
     list_all (\<lambda>c. cap_kind c \<noteq> [] \<and> (cap_url c \<noteq> None \<or> cap_mime c \<noteq> None) \<and>
        pred_option (\<lambda>u. glob u \<noteq> None) (cap_url c) \<and> pred_option (\<lambda>u. glob u \<noteq> None) (cap_mime c))
       (mf_capabilities m) \<and>
     0 \<notin> {memory_mb (mf_limits m), cpu_seconds (mf_limits m), nofile (mf_limits m),
          spawn_timeout_ms (mf_limits m), shutdown_timeout_ms (mf_limits m)}"
  by (auto simp: manifest_load_def manifest_parse_def manifest_validate_def try_bind_Inr_iff
      validate_caps_ok validate_limits_ok list_all_iff pred_option_def split: if_splits)

text \<open>
  The handshake never broadens a plugin: when it succeeds, the version is one the host
  offered, every advertised capability is a row of the signed manifest, and every host method
  kept is one the host implements.
\<close>

theorem handshake_never_broadens:
  assumes "parse_initialize_result de_err dbg dbg_opt result m host_api = Inr nc"
  shows "nc_api nc \<in> set host_api \<and>
    (\<forall>c \<in> set (plugin_capabilities nc). \<exists>r \<in> set (mf_capabilities m).
       cap_kind r = cap_kind c \<and> cap_url r = cap_url c \<and> cap_mime r = cap_mime c) \<and>
    set (plugin_offered_host_methods nc) \<subseteq> range method_name"
proof -
  have "set (filter_known_host_methods result) \<subseteq> range method_name"
    by (auto simp: filter_known_host_methods_def Let_def knows_iff split: option.splits)
  moreover have "\<exists>r \<in> set (mf_capabilities m). same_row c r"
    if "cross_check_capabilities dbg dbg_opt caps m = Inr ()" "c \<in> set caps" for caps c
    using that by (auto simp: cross_check_capabilities_def find_None_iff list_ex_iff split: option.splits)
  ultimately show ?thesis
    using assms
    by (auto simp: parse_initialize_result_def try_bind_Inr_iff list_ex_iff same_row_def split: if_splits)
qed

definition demo_manifest :: Manifest where
  "demo_manifest =
     \<lparr>mf_api = ''1'',
      mf_plugin = \<lparr>pm_id = ''md'', pm_name = ''Markdown'', pm_version = ''0.1'', pm_description = [],
        pm_authors = [], pm_license = [], pm_homepage = [], api_min = ''1'', api_max = ''1'',
        binary = \<lparr>bin_exec = ''md'', bin_preflight = []\<rparr>, pm_signature = None\<rparr>,
      mf_capabilities = [\<lparr>cap_kind = ''previewer'', cap_url = Some ''*.md'', cap_mime = None\<rparr>],
      mf_needs = Needs_default\<lparr>nd_fs_read := [''/home/u/docs/*''], nd_fs_write := [''cache'']\<rparr>,
      mf_limits = Limits_default, mf_env = [], mf_signature = None\<rparr>"

theorem handshake_never_broadens_witness:
  "\<exists>nc. parse_initialize_result (\<lambda>_. []) id (\<lambda>_. [])
      (JObject [(''api'', JString ''1''), (''offers'', JArray [JString ''host.fs.read'', JString ''host.net.get''])])
      demo_manifest [''1''] = Inr nc \<and> set (plugin_offered_host_methods nc) \<subseteq> range method_name"
proof -
  let ?r = "JObject [(''api'', JString ''1''), (''offers'', JArray [JString ''host.fs.read'', JString ''host.net.get''])]"
  obtain nc where nc: "parse_initialize_result (\<lambda>_. []) id (\<lambda>_. []) ?r demo_manifest [''1''] = Inr nc"
    by (simp add: parse_initialize_result_def parse_capabilities_def cross_check_capabilities_def)
  with handshake_never_broadens [OF nc] show ?thesis by blast
qed

text \<open>
  Manifest versions are compared as text, not as numbers: version 10 is accepted between 1
  and 2, and refused between 2 and 10.
\<close>

theorem manifest_api_compared_as_text:
  "manifest_validate glob (demo_manifest\<lparr>mf_api := ''10'', mf_capabilities := [],
      mf_plugin := (mf_plugin demo_manifest)\<lparr>api_min := ''1'', api_max := ''2''\<rparr>\<rparr>) = Inr () \<and>
   manifest_validate glob (demo_manifest\<lparr>mf_api := ''10'', mf_capabilities := [],
      mf_plugin := (mf_plugin demo_manifest)\<lparr>api_min := ''2'', api_max := ''10''\<rparr>\<rparr>)
     = Inl (ApiOutside ''10'' ''2'' ''10'')"
  by (simp add: manifest_validate_def demo_manifest_def validate_limits_def Limits_default_def Let_def
      less_eq_char_def)

end
