(* ===== verification/Base64.thy ===== *)
theory Base64
  imports Text
begin

unbundle bit_operations_syntax

text \<open>
  The inlined base64 codec of the plugin host functions
  (\<open>sy-filemanager/src/plugin/host_fns.rs\<close>), on 32-bit words as in the source.  Text is
  its bytes.
\<close>

section \<open>Encoder and decoder\<close>

definition B64_ALPHABET :: "byte list" where
  "B64_ALPHABET = bytes_of ''ABCDEFGHIJKLMNOPQRSTUVWXYZabcdefghijklmnopqrstuvwxyz0123456789+/''"

definition b64_word :: "byte \<Rightarrow> byte \<Rightarrow> byte \<Rightarrow> u32" where
  "b64_word b0 b1 b2 = (push_bit 16 (ucast b0) OR push_bit 8 (ucast b1)) OR ucast b2"

definition b64_char :: "u32 \<Rightarrow> nat \<Rightarrow> byte" where
  "b64_char n k = B64_ALPHABET ! unat (drop_bit k n AND 0x3f)"

fun base64_encode :: "byte list \<Rightarrow> byte list" where
  "base64_encode [] = []"
| "base64_encode [b0] =
     (let n = b64_word b0 0 0 in [b64_char n 18, b64_char n 12, 61, 61])"
| "base64_encode [b0, b1] =
     (let n = b64_word b0 b1 0 in [b64_char n 18, b64_char n 12, b64_char n 6, 61])"
| "base64_encode (b0 # b1 # b2 # bs) =
     (let n = b64_word b0 b1 b2
      in [b64_char n 18, b64_char n 12, b64_char n 6, b64_char n 0] @ base64_encode bs)"

definition b64_decode_table :: "byte list" where
  "b64_decode_table =
     fold (\<lambda>(i, b) t. t[unat b := of_nat i]) (enumerate 0 B64_ALPHABET) (replicate 256 255)"

text \<open>One character of a chunk: its six bits and whether it is padding.\<close>

definition b64_digit :: "byte \<Rightarrow> (byte \<times> nat) option" where
  "b64_digit b =
     (if b = 61 then Some (0, 1)
      else let v = b64_decode_table ! unat b in if v = 255 then None else Some (v, 0))"

definition b64_chunk :: "byte \<Rightarrow> byte \<Rightarrow> byte \<Rightarrow> byte \<Rightarrow> byte list option" where
  "b64_chunk c0 c1 c2 c3 =
     (case (b64_digit c0, b64_digit c1, b64_digit c2, b64_digit c3) of
        (Some (v0, p0), Some (v1, p1), Some (v2, p2), Some (v3, p3)) \<Rightarrow>
          (let pad = p0 + p1 + p2 + p3;
               n = ((push_bit 18 (ucast v0) OR push_bit 12 (ucast v1)) OR push_bit 6 (ucast v2)) OR ucast v3 :: u32
           in Some (ucast (drop_bit 16 n AND 0xff)
                # (if pad < 2 then [ucast (drop_bit 8 n AND 0xff)] else [])
                @ (if pad < 1 then [ucast (n AND 0xff)] else [])))
      | _ \<Rightarrow> None)"

fun b64_chunks :: "byte list \<Rightarrow> byte list option" where
  "b64_chunks (c0 # c1 # c2 # c3 # cs) =
     (case b64_chunk c0 c1 c2 c3 of
        None \<Rightarrow> None
      | Some out \<Rightarrow> map_option (\<lambda>rest. out @ rest) (b64_chunks cs))"
| "b64_chunks _ = Some []"

definition base64_decode :: "byte list \<Rightarrow> byte list option" where
  "base64_decode bs = (if length bs mod 4 \<noteq> 0 then None else b64_chunks bs)"

section \<open>The alphabet and its inverse\<close>

lemma length_table_fold: "length (fold (\<lambda>(i, b) t. t[unat b := of_nat i]) es t) = length t"
  by (induction es arbitrary: t) (auto split: prod.split)

lemma table_fold_other:
  "u \<notin> set bs \<Longrightarrow> fold (\<lambda>(i, b) t. t[unat b := of_nat i]) (enumerate k bs) (t :: byte list) ! unat u = t ! unat (u :: byte)"
proof (induction bs arbitrary: k t)
  case (Cons b bs)
  then have "unat b \<noteq> unat u" by (auto simp: word_unat_eq_iff)
  then show ?case using Cons by simp
qed simp

lemma table_fold_nth:
  assumes "distinct bs" "i < length bs" "length t = 256"
  shows "fold (\<lambda>(i, b) t. t[unat b := of_nat i]) (enumerate k bs) t ! unat (bs ! i :: byte) = (of_nat (k + i) :: byte)"
  using assms
proof (induction bs arbitrary: i k t)
  case (Cons b bs)
  have b: "unat b < length t"
    using Cons.prems(3) unsigned_less [of b, where ?'a = nat] by simp
  show ?case
  proof (cases i)
    case 0
    then show ?thesis using Cons.prems b table_fold_other [of b bs] by simp
  next
    case (Suc m)
    then show ?thesis using Cons.IH [of m _ "Suc k"] Cons.prems by simp
  qed
qed simp

lemma alphabet_distinct: "distinct B64_ALPHABET" "length B64_ALPHABET = 64" "61 \<notin> set B64_ALPHABET"
  by (simp_all add: B64_ALPHABET_def bytes_of_def)

lemma table_inverts:
  assumes "i < 64"
  shows "b64_digit (B64_ALPHABET ! i) = Some (of_nat i, 0)"
proof -
  have "b64_decode_table ! unat (B64_ALPHABET ! i) = of_nat i"
    using table_fold_nth [of B64_ALPHABET i "replicate 256 255" 0] alphabet_distinct assms
    by (simp add: b64_decode_table_def)
  moreover have "B64_ALPHABET ! i \<noteq> 61"
    using alphabet_distinct assms by (metis nth_mem)
  moreover have "(of_nat i :: byte) \<noteq> 255"
  proof
    assume "(of_nat i :: byte) = 255"
    then have "unat (of_nat i :: byte) = unat (255 :: byte)" by simp
    then show False using assms by (simp add: unat_of_nat take_bit_nat_eq_self)
  qed
  ultimately show ?thesis by (simp add: b64_digit_def Let_def)
qed

lemma unat_six_bits: "unat (n AND 0x3f :: u32) < 64"
proof -
  have "n AND 0x3f \<le> (0x3f :: u32)"
    by (rule word_and_le1)
  then show ?thesis by (simp add: word_le_nat_alt)
qed

lemma digit_of_char: "b64_digit (b64_char n k) = Some (ucast (drop_bit k n AND 0x3f), 0)"
proof -
  let ?i = "drop_bit k n AND 0x3f"
  have "(of_nat (unat ?i) :: byte) = ucast ?i"
    by simp
  then show ?thesis
    using table_inverts [OF unat_six_bits [of "drop_bit k n"]] by (simp add: b64_char_def)
qed

lemma digit_pad: "b64_digit 61 = Some (0, 1)"
  by (simp add: b64_digit_def)

section \<open>Six bits and eight bits\<close>

lemma low_mask: "(0x3f :: u32) = mask 6" "(0xff :: u32) = mask 8"
  by (simp_all add: mask_eq_exp_minus_1)

lemma b64_word_bit:
  "bit (b64_word b0 b1 b2) i \<longleftrightarrow>
     i < 8 \<and> bit b2 i \<or> 8 \<le> i \<and> i < 16 \<and> bit b1 (i - 8) \<or> 16 \<le> i \<and> i < 24 \<and> bit b0 (i - 16)"
  by (auto simp: b64_word_def bit_or_iff bit_push_bit_iff bit_unsigned_iff dest: bit_imp_le_length)

lemma six_bits:
  fixes n :: u32
  assumes "k \<le> 18"
  shows "bit (push_bit k (ucast (ucast (drop_bit k n AND 0x3f) :: byte)) :: u32) i \<longleftrightarrow> k \<le> i \<and> i < k + 6 \<and> bit n i"
proof (cases "k \<le> i \<and> i < k + 6")
  case True
  then obtain j where "i = k + j" "j < 6"
    by (metis add_less_cancel_left le_Suc_ex)
  then show ?thesis
    using assms unfolding low_mask
    by (simp add: bit_push_bit_iff bit_unsigned_iff bit_and_iff bit_drop_bit_eq bit_mask_iff)
next
  case False
  then show ?thesis
    unfolding low_mask
    by (auto simp: bit_push_bit_iff bit_unsigned_iff bit_and_iff bit_mask_iff)
qed

definition regroup :: "u32 \<Rightarrow> u32" where
  "regroup n = ((push_bit 18 (ucast (ucast (drop_bit 18 n AND 0x3f) :: byte)) OR
      push_bit 12 (ucast (ucast (drop_bit 12 n AND 0x3f) :: byte))) OR
      push_bit 6 (ucast (ucast (drop_bit 6 n AND 0x3f) :: byte))) OR
      push_bit 0 (ucast (ucast (drop_bit 0 n AND 0x3f) :: byte))"

lemma bit_regroup: "bit (regroup n) i \<longleftrightarrow> i < 24 \<and> bit n i"
  unfolding regroup_def bit_or_iff by (subst six_bits, simp)+ auto

lemma regroup_word: "regroup (b64_word b0 b1 b2) = b64_word b0 b1 b2"
  by (rule bit_word_eqI) (auto simp: bit_regroup b64_word_bit)

text \<open>Short chunks: the bits below are zero, so the padding characters stand for them.\<close>

lemma low_digits_zero:
  "drop_bit 6 (b64_word b0 0 0) AND 0x3f = 0" "b64_word b0 b1 0 AND 0x3f = 0" "b64_word b0 0 0 AND 0x3f = 0"
  unfolding low_mask
  by (rule bit_word_eqI, auto simp: bit_and_iff bit_drop_bit_eq bit_mask_iff b64_word_bit)+

lemma bytes_of_word:
  "ucast (drop_bit 16 (b64_word b0 b1 b2) AND 0xff) = b0"
  "ucast (drop_bit 8 (b64_word b0 b1 b2) AND 0xff) = b1"
  "ucast (b64_word b0 b1 b2 AND 0xff) = b2"
  unfolding low_mask
  by (rule bit_word_eqI,
      auto simp: bit_unsigned_iff bit_and_iff bit_drop_bit_eq bit_mask_iff b64_word_bit dest: bit_imp_le_length)+

lemma chunk3:
  fixes b0 b1 b2 :: byte
  defines "n \<equiv> b64_word b0 b1 b2"
  shows "b64_chunk (b64_char n 18) (b64_char n 12) (b64_char n 6) (b64_char n 0) = Some [b0, b1, b2]"
  using regroup_word [of b0 b1 b2] bytes_of_word [of b0 b1 b2]
  by (simp add: b64_chunk_def digit_of_char regroup_def n_def Let_def del: drop_bit_or)

lemma chunk2:
  fixes b0 b1 :: byte
  defines "n \<equiv> b64_word b0 b1 0"
  shows "b64_chunk (b64_char n 18) (b64_char n 12) (b64_char n 6) 61 = Some [b0, b1]"
  using regroup_word [of b0 b1 0] bytes_of_word [of b0 b1 0]
  by (simp add: b64_chunk_def digit_of_char digit_pad regroup_def n_def Let_def low_digits_zero del: drop_bit_or)

lemma chunk1:
  fixes b0 :: byte
  defines "n \<equiv> b64_word b0 0 0"
  shows "b64_chunk (b64_char n 18) (b64_char n 12) 61 61 = Some [b0]"
  using regroup_word [of b0 0 0] bytes_of_word [of b0 0 0]
  by (simp add: b64_chunk_def digit_of_char digit_pad regroup_def n_def Let_def low_digits_zero del: drop_bit_or)

lemma length_encode: "length (base64_encode bs) mod 4 = 0"
  by (induction bs rule: base64_encode.induct) (simp_all add: Let_def)

lemma b64_chunks_encode: "b64_chunks (base64_encode bs) = Some bs"
  by (induction bs rule: base64_encode.induct) (simp_all add: Let_def chunk1 chunk2 chunk3)

section \<open>Properties\<close>

text \<open>
  Bytes survive the base64 codec: decoding an encoding gives the bytes back, for every
  length and whatever the padding.
\<close>

theorem base64_roundtrip: "base64_decode (base64_encode bs) = Some bs"
  using length_encode [of bs] by (simp add: base64_decode_def b64_chunks_encode)

text \<open>
  The decoder accepts padding anywhere, not only at the end: a chunk of four padding
  characters, or padding before further data, decodes.
\<close>

theorem base64_accepts_inner_padding:
  "base64_decode (bytes_of ''===='') = Some [0] \<and>
   base64_decode (base64_encode [b] @ base64_encode bs) = Some (b # bs)"
proof -
  have "b64_chunks (base64_encode bs) = Some bs"
    by (rule b64_chunks_encode)
  then have "b64_chunks (base64_encode [b] @ base64_encode bs) = Some (b # bs)"
    by (simp add: Let_def chunk1)
  moreover have "length (base64_encode [b] @ base64_encode bs) mod 4 = 0"
    using length_encode [of bs] by (simp add: Let_def)
  moreover have "base64_decode (bytes_of ''===='') = Some [0]"
    by (simp add: base64_decode_def bytes_of_def b64_chunk_def digit_pad Let_def)
  ultimately show ?thesis by (simp add: base64_decode_def del: base64_encode.simps)
qed

end
