(* ===== verification/Plugin_Host.thy ===== *)
theory Plugin_Host
  imports Plugin_Manifest Base64 Paths
begin

text \<open>
  The host functions plugins may call (\<open>sy-filemanager/src/plugin/host_fns.rs\<close>): the
  capability ladder and the nine handlers.  The world a handler sees is a record: the files,
  the notification and preview channels and the log of processes it asked to spawn.  What the operating
  system answers is a parameter: \<open>io\<close> gives the error of an operation on a path, if it fails,
  and \<open>run\<close> the outcome of a process (a failure names its stage, \<open>spawn:\<close> or \<open>wait:\<close>).
\<close>

section \<open>World\<close>

datatype io_op = ReadOp | StatOp | MkdirOp | CreateOp | WriteOp | FlushOp | SyncOp | RenameOp

datatype PreviewMessage = PvImage string "byte list" | PvText string string

datatype Notification = Banner string string string | Waybar string string string string

record HostWorld =
  hw_files :: "string \<rightharpoonup> byte list \<times> u64"
  hw_notify_open :: bool
  hw_notified :: "Notification list"
  hw_preview :: "(bool \<times> PreviewMessage list) option"
  hw_spawned :: "(string \<times> string list \<times> byte list) list"

record HostCtx =
  workdir :: string
  theme :: json
  io :: "io_op \<Rightarrow> string \<Rightarrow> string option"
  run :: "string \<Rightarrow> string list \<Rightarrow> byte list \<Rightarrow> string + (32 word \<times> byte list \<times> byte list)"

record HostFnError =
  he_code :: int
  he_message :: string
  he_data :: json

definition CAP_NOT_GRANTED :: int where "CAP_NOT_GRANTED = - 32099"
definition INVALID_PATH :: int where "INVALID_PATH = - 32095"
definition METHOD_NOT_FOUND :: int where "METHOD_NOT_FOUND = - 32601"
definition INVALID_PARAMS :: int where "INVALID_PARAMS = - 32602"

definition cap_not_granted :: "string \<Rightarrow> HostFnError" where
  "cap_not_granted needed = \<lparr>he_code = CAP_NOT_GRANTED, he_message = ''CAP_NOT_GRANTED'',
     he_data = JObject [(''needed'', JString needed)]\<rparr>"

definition invalid_path :: "string \<Rightarrow> string \<Rightarrow> HostFnError" where
  "invalid_path why path = \<lparr>he_code = INVALID_PATH, he_message = ''INVALID_PATH'',
     he_data = JObject [(''reason'', JString why), (''path'', JString path)]\<rparr>"

definition method_not_found :: "string \<Rightarrow> HostFnError" where
  "method_not_found m = \<lparr>he_code = METHOD_NOT_FOUND, he_message = ''METHOD_NOT_FOUND'',
     he_data = JObject [(''method'', JString m)]\<rparr>"

definition invalid_params :: "string \<Rightarrow> HostFnError" where
  "invalid_params why = \<lparr>he_code = INVALID_PARAMS, he_message = ''INVALID_PARAMS'',
     he_data = JObject [(''reason'', JString why)]\<rparr>"

type_synonym handler = "HostWorld \<Rightarrow> (HostFnError + json) \<times> HostWorld"

definition string_of_bytes :: "byte list \<Rightarrow> string" where
  "string_of_bytes bs = map (\<lambda>b. char_of (unat b)) bs"

definition str_param :: "json \<Rightarrow> string \<Rightarrow> string option" where
  "str_param params k = Option.bind (json_get params k) json_as_str"

section \<open>Capability ladder\<close>

definition validate_path :: "string \<Rightarrow> HostFnError + unit" where
  "validate_path path =
     (if path = [] then Inl (invalid_path ''empty'' path)
      else if CHR 0x00 \<in> set path then Inl (invalid_path ''null-byte'' path)
      else Inr ())"

definition path_matches_any :: "glob \<Rightarrow> string list \<Rightarrow> string \<Rightarrow> bool" where
  "path_matches_any glob patterns path \<longleftrightarrow>
     list_ex (\<lambda>p. case glob p of None \<Rightarrow> False | Some g \<Rightarrow> g path) patterns"

definition check_fs_read_scope :: "glob \<Rightarrow> json \<Rightarrow> Manifest \<Rightarrow> HostFnError + unit" where
  "check_fs_read_scope glob params m =
     try_bind (ok_or (str_param params ''path'') (invalid_params ''host.fs.* requires `path` string'')) (\<lambda>path.
     try_bind (validate_path path) (\<lambda>_.
     if \<not> path_matches_any glob (nd_fs_read (mf_needs m)) path then Inl (cap_not_granted ''fs_read'') else Inr ()))"

definition check_fs_write_cache_scope :: "Manifest \<Rightarrow> HostFnError + unit" where
  "check_fs_write_cache_scope m =
     (if \<not> list_ex (\<lambda>s. s = ''cache'') (nd_fs_write (mf_needs m)) then Inl (cap_not_granted ''fs_write'') else Inr ())"

definition check_preview_scope :: "Manifest \<Rightarrow> string \<Rightarrow> HostFnError + unit" where
  "check_preview_scope m sentinel =
     (if \<not> list_ex (\<lambda>s. s = sentinel) (nd_preview (mf_needs m)) then Inl (cap_not_granted ''preview'') else Inr ())"

definition argv_param :: "json \<Rightarrow> json list option" where
  "argv_param params = Option.bind (json_get params ''argv'') json_as_array"

definition check_exec_argv :: "json \<Rightarrow> Manifest \<Rightarrow> HostFnError + unit" where
  "check_exec_argv params m =
     try_bind (ok_or (Option.bind (argv_param params) (\<lambda>a. case a of [] \<Rightarrow> None | v # _ \<Rightarrow> json_as_str v))
         (invalid_params ''host.exec.run requires non-empty `argv`'')) (\<lambda>argv0.
     if \<not> list_ex (\<lambda>s. s = argv0) (nd_exec (mf_needs m)) then Inl (cap_not_granted ''exec'') else Inr ())"

definition check_cap :: "glob \<Rightarrow> string \<Rightarrow> json \<Rightarrow> Manifest \<Rightarrow> HostFnError + unit" where
  "check_cap glob mth params m =
     (if mth = ''host.fs.read'' \<or> mth = ''host.fs.cha'' then check_fs_read_scope glob params m
      else if mth = ''host.fs.write_cache'' then check_fs_write_cache_scope m
      else if mth = ''host.notify.banner'' \<or> mth = ''host.notify.waybar'' \<or> mth = ''host.ui.theme'' then Inr ()
      else if mth = ''host.exec.run'' then check_exec_argv params m
      else if mth = ''host.preview.image_show'' then check_preview_scope m ''image_show''
      else if mth = ''host.preview.text'' then check_preview_scope m ''text''
      else Inr ())"

section \<open>Handlers\<close>

definition host_fs_read :: "HostCtx \<Rightarrow> json \<Rightarrow> handler" where
  "host_fs_read ctx params w =
     (case str_param params ''path'' of
        None \<Rightarrow> (Inl (invalid_params ''host.fs.read requires `path`''), w)
      | Some path \<Rightarrow>
          (case (io ctx ReadOp path, hw_files w path) of
             (Some e, _) \<Rightarrow> (Inl (invalid_path (''read: '' @ e) path), w)
           | (None, None) \<Rightarrow> (Inl (invalid_path ''read: No such file or directory (os error 2)'' path), w)
           | (None, Some (bytes, _)) \<Rightarrow>
               (let max_bytes = Option.bind (json_get params ''max_bytes'') json_as_u64;
                    body = (case max_bytes of
                        Some cap \<Rightarrow> if length bytes > unat cap then take (unat cap) bytes else bytes
                      | None \<Rightarrow> bytes)
                in (Inr (JObject [(''bytes_base64'', JString (string_of_bytes (base64_encode body)))]), w))))"

definition to_ascii_lowercase :: "string \<Rightarrow> string" where
  "to_ascii_lowercase s = string_of_bytes (map ascii_lower (bytes_of s))"

definition ends_with :: "string \<Rightarrow> string \<Rightarrow> bool" where
  "ends_with s suf \<longleftrightarrow> drop (length s - length suf) s = suf"

definition mime_for_extension :: "string \<Rightarrow> string" where
  "mime_for_extension path =
     (let lower = to_ascii_lowercase path
      in if ends_with lower ''.md'' \<or> ends_with lower ''.markdown'' then ''text/markdown''
         else if ends_with lower ''.txt'' then ''text/plain''
         else if ends_with lower ''.png'' then ''image/png''
         else if ends_with lower ''.jpg'' \<or> ends_with lower ''.jpeg'' then ''image/jpeg''
         else ''application/octet-stream'')"

definition host_fs_cha :: "HostCtx \<Rightarrow> json \<Rightarrow> handler" where
  "host_fs_cha ctx params w =
     (case str_param params ''path'' of
        None \<Rightarrow> (Inl (invalid_params ''host.fs.cha requires `path`''), w)
      | Some path \<Rightarrow>
          (case (io ctx StatOp path, hw_files w path) of
             (Some e, _) \<Rightarrow> (Inl (invalid_path (''stat: '' @ e) path), w)
           | (None, None) \<Rightarrow> (Inl (invalid_path ''stat: No such file or directory (os error 2)'' path), w)
           | (None, Some (bytes, mtime)) \<Rightarrow>
               (Inr (JObject [(''mtime'', json_u64 mtime), (''size'', json_u64 (of_nat (length bytes))),
                  (''mime'', JString (mime_for_extension path))]), w)))"

definition validate_cache_name :: "string \<Rightarrow> HostFnError + unit" where
  "validate_cache_name name =
     (if name = [] then Inl (invalid_params ''cache name is empty'')
      else if list_all (\<lambda>c. case c of Normal _ \<Rightarrow> True | _ \<Rightarrow> False) (path_components name) then Inr ()
      else Inl (invalid_path ''cache name must be a single relative file'' name))"

text \<open>
  The temporary file holds what was written before the failing step: nothing after
  \<open>create\<close>, the bytes once \<open>write_all\<close> has returned.  (A failing write may leave a part of
  the bytes; the model leaves the empty file.)  \<open>mtime\<close> is stamped by the system.
\<close>

definition write_atomic :: "HostCtx \<Rightarrow> u64 \<Rightarrow> string \<Rightarrow> string \<Rightarrow> byte list \<Rightarrow> HostWorld \<Rightarrow> (HostFnError + unit) \<times> HostWorld" where
  "write_atomic ctx mtime tmp final bytes w =
     (case io ctx CreateOp tmp of
        Some e \<Rightarrow> (Inl (invalid_path (''create tmp: '' @ e) tmp), w)
      | None \<Rightarrow>
          (let w1 = w\<lparr>hw_files := (hw_files w)(tmp \<mapsto> ([], mtime))\<rparr>;
               w2 = w\<lparr>hw_files := (hw_files w)(tmp \<mapsto> (bytes, mtime))\<rparr>
           in case io ctx WriteOp tmp of
                Some e \<Rightarrow> (Inl (invalid_path (''write tmp: '' @ e) tmp), w1)
              | None \<Rightarrow> (case io ctx FlushOp tmp of
                  Some e \<Rightarrow> (Inl (invalid_path (''flush tmp: '' @ e) tmp), w2)
                | None \<Rightarrow> (case io ctx SyncOp tmp of
                    Some e \<Rightarrow> (Inl (invalid_path (''fsync tmp: '' @ e) tmp), w2)
                  | None \<Rightarrow> (case io ctx RenameOp tmp of
                      Some e \<Rightarrow> (Inl (invalid_path (''rename: '' @ e) final),
                                w\<lparr>hw_files := (hw_files w)(tmp := None)\<rparr>)
                    | None \<Rightarrow> (Inr (),
                                w\<lparr>hw_files := ((hw_files w)(tmp := None))(final \<mapsto> (bytes, mtime))\<rparr>))))))"

definition host_fs_write_cache :: "HostCtx \<Rightarrow> u64 \<Rightarrow> json \<Rightarrow> handler" where
  "host_fs_write_cache ctx mtime params w =
     (case str_param params ''name'' of
        None \<Rightarrow> (Inl (invalid_params ''host.fs.write_cache requires `name`''), w)
      | Some name \<Rightarrow>
     (case str_param params ''bytes_base64'' of
        None \<Rightarrow> (Inl (invalid_params ''host.fs.write_cache requires `bytes_base64`''), w)
      | Some b64 \<Rightarrow>
     (case validate_cache_name name of
        Inl e \<Rightarrow> (Inl e, w)
      | Inr _ \<Rightarrow>
     (case base64_decode (bytes_of b64) of
        None \<Rightarrow> (Inl (invalid_params ''host.fs.write_cache `bytes_base64` is not valid base64''), w)
      | Some bytes \<Rightarrow>
     (let cache_dir = path_push (workdir ctx) ''cache''
      in case io ctx MkdirOp cache_dir of
        Some e \<Rightarrow> (Inl (invalid_path (''mkdir cache: '' @ e) cache_dir), w)
      | None \<Rightarrow>
          (let final_path = path_push cache_dir name;
               tmp_path = path_push cache_dir (''.'' @ name @ ''.tmp'');
               (res, w1) = write_atomic ctx mtime tmp_path final_path bytes w
           in case res of
                Inl e \<Rightarrow> (Inl e, w1)
              | Inr _ \<Rightarrow> (Inr (JObject [(''path'', JString final_path)]), w1)))))))"

definition send_notify :: "Notification \<Rightarrow> handler" where
  "send_notify n w =
     (if hw_notify_open w
      then (Inr (JObject [(''ok'', JBool True)]), w\<lparr>hw_notified := hw_notified w @ [n]\<rparr>)
      else (Inl (invalid_params ''notify channel closed''), w))"

definition host_notify_banner :: "json \<Rightarrow> Manifest \<Rightarrow> handler" where
  "host_notify_banner params m w =
     (let kind = (case str_param params ''kind'' of Some k \<Rightarrow> k | None \<Rightarrow> ''info'')
      in case str_param params ''message'' of
           None \<Rightarrow> (Inl (invalid_params ''host.notify.banner requires `message`''), w)
         | Some msg \<Rightarrow> send_notify (Banner (pm_id (mf_plugin m)) kind msg) w)"

definition host_notify_waybar :: "json \<Rightarrow> Manifest \<Rightarrow> handler" where
  "host_notify_waybar params m w =
     (case str_param params ''text'' of
        None \<Rightarrow> (Inl (invalid_params ''host.notify.waybar requires `text`''), w)
      | Some txt \<Rightarrow>
          (let tooltip = (case str_param params ''tooltip'' of Some t \<Rightarrow> t | None \<Rightarrow> []);
               cls = (case str_param params ''class'' of Some c \<Rightarrow> c | None \<Rightarrow> [])
           in send_notify (Waybar (pm_id (mf_plugin m)) txt tooltip cls) w))"

definition host_ui_theme :: "HostCtx \<Rightarrow> handler" where
  "host_ui_theme ctx w = (Inr (JObject [(''palette'', theme ctx)]), w)"

definition json_i32 :: "32 word \<Rightarrow> json" where
  "json_i32 s = JNumber (if 0 \<le> sint s then PosInt (scast s) else NegInt (scast s))"

definition host_exec_run :: "HostCtx \<Rightarrow> json \<Rightarrow> handler" where
  "host_exec_run ctx params w =
     (case argv_param params of
        None \<Rightarrow> (Inl (invalid_params ''host.exec.run requires `argv` array''), w)
      | Some items \<Rightarrow>
          (case List.map_filter json_as_str items of
             [] \<Rightarrow> (Inl (invalid_params ''host.exec.run argv is empty''), w)
           | program # args \<Rightarrow>
               (case (case str_param params ''stdin'' of None \<Rightarrow> Some [] | Some s \<Rightarrow> base64_decode (bytes_of s)) of
                  None \<Rightarrow> (Inl (invalid_params ''host.exec.run stdin not base64''), w)
                | Some stdin_bytes \<Rightarrow>
                    (let w1 = w\<lparr>hw_spawned := hw_spawned w @ [(program, args, stdin_bytes)]\<rparr>
                     in case run ctx program args stdin_bytes of
                          Inl e \<Rightarrow> (Inl (invalid_params (''host.exec.run '' @ e)), w1)
                        | Inr (status, out, err) \<Rightarrow>
                            (Inr (JObject [(''status'', json_i32 status),
                               (''stdout_base64'', JString (string_of_bytes (base64_encode out))),
                               (''stderr_base64'', JString (string_of_bytes (base64_encode err)))]), w1)))))"

definition send_preview :: "string \<Rightarrow> PreviewMessage \<Rightarrow> handler" where
  "send_preview unwired msg w =
     (case hw_preview w of
        None \<Rightarrow> (Inl (invalid_params unwired), w)
      | Some (is_open, msgs) \<Rightarrow>
          if is_open then (Inr (JObject [(''ok'', JBool True)]), w\<lparr>hw_preview := Some (True, msgs @ [msg])\<rparr>)
          else (Inl (invalid_params ''preview channel closed''), w))"

definition host_preview_image_show :: "json \<Rightarrow> Manifest \<Rightarrow> handler" where
  "host_preview_image_show params m w =
     (case str_param params ''png_base64'' of
        None \<Rightarrow> (Inl (invalid_params ''host.preview.image_show requires `png_base64`''), w)
      | Some b64 \<Rightarrow>
          (case base64_decode (bytes_of b64) of
             None \<Rightarrow> (Inl (invalid_params ''host.preview.image_show `png_base64` is not valid base64''), w)
           | Some png \<Rightarrow> send_preview
               ''host.preview.image_show: preview channel unwired (no preview pane in this context)''
               (PvImage (pm_id (mf_plugin m)) png) w))"

definition host_preview_text :: "json \<Rightarrow> Manifest \<Rightarrow> handler" where
  "host_preview_text params m w =
     (case str_param params ''content'' of
        None \<Rightarrow> (Inl (invalid_params ''host.preview.text requires `content`''), w)
      | Some content \<Rightarrow> send_preview
          ''host.preview.text: preview channel unwired (no preview pane in this context)''
          (PvText (pm_id (mf_plugin m)) content) w)"

definition dispatch_host :: "glob \<Rightarrow> u64 \<Rightarrow> string \<Rightarrow> json \<Rightarrow> HostCtx \<Rightarrow> Manifest \<Rightarrow> handler" where
  "dispatch_host glob mtime mth params ctx m w =
     (if \<not> knows mth then (Inl (method_not_found mth), w)
      else case check_cap glob mth params m of
        Inl e \<Rightarrow> (Inl e, w)
      | Inr _ \<Rightarrow>
          if mth = ''host.fs.read'' then host_fs_read ctx params w
          else if mth = ''host.fs.cha'' then host_fs_cha ctx params w
          else if mth = ''host.fs.write_cache'' then host_fs_write_cache ctx mtime params w
          else if mth = ''host.notify.banner'' then host_notify_banner params m w
          else if mth = ''host.notify.waybar'' then host_notify_waybar params m w
          else if mth = ''host.ui.theme'' then host_ui_theme ctx w
          else if mth = ''host.exec.run'' then host_exec_run ctx params w
          else if mth = ''host.preview.image_show'' then host_preview_image_show params m w
          else if mth = ''host.preview.text'' then host_preview_text params m w
          else (Inl (method_not_found mth), w))"

section \<open>What each handler touches\<close>

lemmas handler_defs = host_fs_read_def host_fs_cha_def host_notify_banner_def host_notify_waybar_def
  host_ui_theme_def host_preview_image_show_def host_preview_text_def send_notify_def send_preview_def

lemma pure_handlers:
  "snd (host_fs_read ctx params w) = w" "snd (host_fs_cha ctx params w) = w" "snd (host_ui_theme ctx w) = w"
  by (simp_all add: handler_defs Let_def split: option.split prod.split)

definition only_files :: "HostWorld \<Rightarrow> HostWorld \<Rightarrow> bool" where
  "only_files w w' \<longleftrightarrow> hw_spawned w' = hw_spawned w \<and> hw_preview w' = hw_preview w \<and> hw_notified w' = hw_notified w"

lemma write_atomic_only_files: "only_files w (snd (write_atomic ctx mt tmp fin bytes w))"
  by (simp add: write_atomic_def only_files_def Let_def split: option.split)

lemma write_cache_cases:
  "snd (host_fs_write_cache ctx mt params w) = w \<or>
   (\<exists>name bytes. validate_cache_name name = Inr () \<and>
      snd (host_fs_write_cache ctx mt params w) =
        snd (write_atomic ctx mt (path_push (path_push (workdir ctx) ''cache'') (''.'' @ name @ ''.tmp''))
          (path_push (path_push (workdir ctx) ''cache'') name) bytes w))"
proof (cases "str_param params ''name''")
  case (Some name)
  show ?thesis
  proof (cases "validate_cache_name name")
    case (Inr u)
    then show ?thesis
      using Some
      by (auto simp: host_fs_write_cache_def Let_def case_prod_beta intro!: exI [of _ name]
          split: option.split sum.split)
  qed (use Some in \<open>simp add: host_fs_write_cache_def split: option.split\<close>)
qed (simp add: host_fs_write_cache_def)

lemma write_cache_only_files: "only_files w (snd (host_fs_write_cache ctx mt params w))"
  using write_cache_cases [of ctx mt params w] write_atomic_only_files [of w ctx mt]
  by (auto simp: only_files_def)

lemma notify_effect:
  "\<exists>ns. snd (host_notify_banner params m w) = w\<lparr>hw_notified := hw_notified w @ ns\<rparr> \<and>
     (\<forall>n \<in> set ns. \<exists>k x. n = Banner (pm_id (mf_plugin m)) k x)"
  "\<exists>ns. snd (host_notify_waybar params m w) = w\<lparr>hw_notified := hw_notified w @ ns\<rparr> \<and>
     (\<forall>n \<in> set ns. \<exists>x y z. n = Waybar (pm_id (mf_plugin m)) x y z)"
  by (auto simp: handler_defs Let_def intro: exI [of _ "[]"] split: option.split)

lemma preview_effect:
  "\<exists>p. snd (host_preview_image_show params m w) = w\<lparr>hw_preview := p\<rparr>"
  "\<exists>p. snd (host_preview_text params m w) = w\<lparr>hw_preview := p\<rparr>"
  by (auto simp: handler_defs Let_def intro: exI [of _ "hw_preview w"] split: option.split)

text \<open>The first string of the argument vector is the one that was checked.\<close>

lemma exec_effect:
  assumes "check_exec_argv params m = Inr ()"
  shows "\<exists>sp. snd (host_exec_run ctx params w) = w\<lparr>hw_spawned := hw_spawned w @ sp\<rparr> \<and>
    (\<forall>x \<in> set sp. fst x \<in> set (nd_exec (mf_needs m)))"
proof -
  obtain xs prog where xs: "argv_param params = Some xs" "(case xs of [] \<Rightarrow> None | v # _ \<Rightarrow> json_as_str v) = Some prog"
    and prog: "prog \<in> set (nd_exec (mf_needs m))"
    using assms by (auto simp: check_exec_argv_def try_bind_Inr_iff list_ex_iff Option.bind_eq_Some_conv
        split: if_splits)
  then obtain items v where a: "argv_param params = Some (v # items)" "json_as_str v = Some prog"
    by (cases xs) auto
  from a(2) have "List.map_filter json_as_str (v # items) = prog # List.map_filter json_as_str items"
    by (simp add: List.map_filter_simps)
  then show ?thesis
    using a prog by (auto simp: host_exec_run_def Let_def intro: exI [of _ "[]"] split: option.split sum.split)
qed

section \<open>Cache names stay in the cache\<close>

lemma split_slash_prefix:
  assumes "CHR ''/'' \<notin> set a"
  shows "split_slash (a @ s) = (a @ hd (split_slash s)) # tl (split_slash s)"
  using assms
proof (induction a)
  case Nil
  then show ?case by (simp add: list.collapse)
qed auto

lemma split_slash_suffix:
  assumes "CHR ''/'' \<notin> set b"
  shows "split_slash (s @ b) = butlast (split_slash s) @ [last (split_slash s) @ b]"
  using assms
proof (induction s)
  case Nil
  then show ?case by (simp add: split_slash_noslash)
next
  case (Cons c s)
  then show ?case
    by (cases "split_slash s") auto
qed

lemma normal_components_segs:
  assumes "list_all (\<lambda>c. case c of Normal _ \<Rightarrow> True | _ \<Rightarrow> False) (path_components name)" "name \<noteq> []"
  shows "''..'' \<notin> set (split_slash name)" "\<not> has_root name" "hd (split_slash name) \<noteq> ''.''"
proof -
  show "\<not> has_root name"
    using assms(1) by (auto simp: path_components_def)
  then show "hd (split_slash name) \<noteq> ''.''"
    using assms(1) by (auto simp: path_components_def)
  have "ParentDir \<notin> set (path_components name)"
    using assms(1) by (auto simp: list_all_iff)
  then show "''..'' \<notin> set (split_slash name)"
    by (force simp: path_components_def body_components_def seg_component_def)
qed

lemma tmp_segs:
  assumes "''..'' \<notin> set (split_slash name)" "hd (split_slash name) \<noteq> ''.''"
  shows "''..'' \<notin> set (split_slash (''.'' @ name @ ''.tmp''))"
proof -
  let ?ss = "split_slash (name @ ''.tmp'')"
  have ss: "?ss = butlast (split_slash name) @ [last (split_slash name) @ ''.tmp'']"
    by (rule split_slash_suffix) simp
  have "last (split_slash name) @ ''.tmp'' \<noteq> ''..''" "last (split_slash name) @ ''.tmp'' \<noteq> ''.''"
    by (auto dest: arg_cong [of _ _ length])
  then have "''..'' \<notin> set ?ss" "hd ?ss \<noteq> ''.''"
    using assms by (auto simp: ss hd_append dest: in_set_butlastD split: if_splits)
      (metis append_butlast_last_id hd_append2 split_slash_not_Nil)
  moreover have "split_slash (''.'' @ name @ ''.tmp'') = (''.'' @ hd ?ss) # tl ?ss"
    by (rule split_slash_prefix) simp
  moreover have "set (tl ?ss) \<subseteq> set ?ss"
    by (cases ?ss) auto
  ultimately show ?thesis by auto
qed

lemma push_relative:
  assumes "dir \<noteq> []" "last dir \<noteq> CHR ''/''" "\<not> has_root rel" "''..'' \<notin> set (split_slash rel)"
  shows "\<exists>cs. path_components (path_push dir rel) = path_components dir @ cs \<and> ParentDir \<notin> set cs \<and> RootDir \<notin> set cs"
proof -
  have "path_components (path_push dir rel) = path_components dir @ body_components (split_slash rel)"
    using assms(1-3) path_components_join [of dir rel] by (simp add: path_push_def)
  then show ?thesis
    using assms(4) by (auto simp: body_components_def seg_component_def split: if_splits)
qed

lemma write_atomic_files:
  "f \<noteq> tmp \<Longrightarrow> f \<noteq> fin \<Longrightarrow> hw_files (snd (write_atomic ctx mt tmp fin bytes w)) f = hw_files w f"
  by (simp add: write_atomic_def Let_def split: option.split)

text \<open>What the manifest allows a host call to do to the world, in one relation.\<close>

definition granted :: "Manifest \<Rightarrow> HostWorld \<Rightarrow> HostWorld \<Rightarrow> bool" where
  "granted m w w' \<longleftrightarrow>
     (\<exists>sp. hw_spawned w' = hw_spawned w @ sp \<and> fst ` set sp \<subseteq> set (nd_exec (mf_needs m))) \<and>
     (hw_files w' = hw_files w \<or> ''cache'' \<in> set (nd_fs_write (mf_needs m))) \<and>
     (hw_preview w' = hw_preview w \<or> ''image_show'' \<in> set (nd_preview (mf_needs m)) \<or>
        ''text'' \<in> set (nd_preview (mf_needs m))) \<and>
     (\<exists>ns. hw_notified w' = hw_notified w @ ns \<and>
        list_all (\<lambda>n. case n of Banner i _ _ \<Rightarrow> i = pm_id (mf_plugin m) | Waybar i _ _ _ \<Rightarrow> i = pm_id (mf_plugin m)) ns)"

lemma granted_refl [simp]: "granted m w w"
  by (simp add: granted_def)

lemma dispatch_granted: "granted m w (snd (dispatch_host glob mt mth params ctx m w))"
proof (cases "knows mth \<and> check_cap glob mth params m = Inr ()")
  case False
  then have "snd (dispatch_host glob mt mth params ctx m w) = w"
    by (cases "check_cap glob mth params m") (auto simp: dispatch_host_def)
  then show ?thesis by simp
next
  case True
  then obtain c where c: "mth = method_name c" by (auto simp: knows_iff)
  from True have d: "knows mth" "check_cap glob mth params m = Inr ()" by simp_all
  show ?thesis
  proof (cases c)
    case FsWriteCache
    then show ?thesis
      using d write_cache_only_files [of w ctx mt params]
      by (auto simp: granted_def c dispatch_host_def check_cap_def check_fs_write_cache_scope_def only_files_def
          list_ex_iff split: if_splits)
  next
    case ExecRun
    then show ?thesis
      using d exec_effect [of params m ctx w] by (auto simp: granted_def c dispatch_host_def check_cap_def)
  next
    case NotifyBanner
    then show ?thesis
      using d notify_effect(1) [of params m w] by (force simp: granted_def c dispatch_host_def list_all_iff)
  next
    case NotifyWaybar
    then show ?thesis
      using d notify_effect(2) [of params m w] by (force simp: granted_def c dispatch_host_def list_all_iff)
  next
    case PreviewImageShow
    then show ?thesis
      using d preview_effect(1) [of params m w]
      by (auto simp: granted_def c dispatch_host_def check_cap_def check_preview_scope_def list_ex_iff split: if_splits)
  next
    case PreviewText
    then show ?thesis
      using d preview_effect(2) [of params m w]
      by (auto simp: granted_def c dispatch_host_def check_cap_def check_preview_scope_def list_ex_iff split: if_splits)
  qed (use d in \<open>simp_all add: granted_def c dispatch_host_def pure_handlers\<close>)
qed

section \<open>Properties\<close>

text \<open>
  C15. Every effect of a host call is covered by the manifest: a process is spawned only for a
  program on the plugin's exec list, files change only with the \<open>cache\<close> grant, the preview
  pane only with a preview grant, and a notification always carries the plugin's own id.
  Unknown methods answer \<open>METHOD_NOT_FOUND\<close> and change nothing.
\<close>

theorem host_effects_need_grants:
  "let w' = snd (dispatch_host glob mt mth params ctx m w) in
     (\<exists>sp. hw_spawned w' = hw_spawned w @ sp \<and> fst ` set sp \<subseteq> set (nd_exec (mf_needs m))) \<and>
     (hw_files w' = hw_files w \<or> ''cache'' \<in> set (nd_fs_write (mf_needs m))) \<and>
     (hw_preview w' = hw_preview w \<or> ''image_show'' \<in> set (nd_preview (mf_needs m)) \<or>
        ''text'' \<in> set (nd_preview (mf_needs m))) \<and>
     (\<exists>ns. hw_notified w' = hw_notified w @ ns \<and>
        list_all (\<lambda>n. case n of Banner i _ _ \<Rightarrow> i = pm_id (mf_plugin m) | Waybar i _ _ _ \<Rightarrow> i = pm_id (mf_plugin m)) ns) \<and>
     (knows mth \<or> dispatch_host glob mt mth params ctx m w = (Inl (method_not_found mth), w))"
  using dispatch_granted [of m w glob mt mth params ctx]
  by (cases "knows mth") (simp_all add: granted_def Let_def dispatch_host_def)

text \<open>
  \<open>host.fs.write_cache\<close> cannot leave the cache slot: any file it creates, replaces or
  removes lies below the plugin's cache directory, with no parent step in its path.
\<close>

theorem write_cache_confined:
  assumes "hw_files (snd (dispatch_host glob mt ''host.fs.write_cache'' params ctx m w)) f \<noteq> hw_files w f"
  shows "\<exists>cs. path_components f = path_components (path_push (workdir ctx) ''cache'') @ cs \<and>
    ParentDir \<notin> set cs \<and> RootDir \<notin> set cs"
proof -
  let ?dir = "path_push (workdir ctx) ''cache''"
  have "hw_files (snd (host_fs_write_cache ctx mt params w)) f \<noteq> hw_files w f"
    using assms by (auto simp: dispatch_host_def split: if_splits sum.splits)
  then obtain name where name: "validate_cache_name name = Inr ()"
    and f: "f = path_push ?dir (''.'' @ name @ ''.tmp'') \<or> f = path_push ?dir name"
    using write_cache_cases [of ctx mt params w] write_atomic_files [of f] by metis
  have dir: "?dir \<noteq> []" "last ?dir \<noteq> CHR ''/''"
    by (simp_all add: path_push_def has_root_def)
  have "list_all (\<lambda>c. case c of Normal _ \<Rightarrow> True | _ \<Rightarrow> False) (path_components name)" "name \<noteq> []"
    using name by (auto simp: validate_cache_name_def split: if_splits)
  note segs = normal_components_segs [OF this]
  have "\<not> has_root (''.'' @ name @ ''.tmp'')"
    by (simp add: has_root_def)
  then show ?thesis
    using f push_relative [OF dir segs(2) segs(1)] push_relative [OF dir _ tmp_segs [OF segs(1) segs(3)]] by metis
qed

definition demo_ctx :: HostCtx where
  "demo_ctx = \<lparr>workdir = ''/run/p'', theme = JNull, io = (\<lambda>_ _. None), run = (\<lambda>_ _ _. Inl ''spawn: no'')\<rparr>"

definition demo_world :: HostWorld where
  "demo_world = \<lparr>hw_files = [''/etc/passwd'' \<mapsto> ([120], 0), ''/home/u/docs/../../../etc/passwd'' \<mapsto> ([120], 0)],
     hw_notify_open = True, hw_notified = [], hw_preview = None, hw_spawned = []\<rparr>"

lemma demo_components: "path_components ''a.png'' = [Normal ''a.png'']"
  by (simp add: path_components_def has_root_def body_components_def seg_component_def)

theorem write_cache_confined_witness:
  "let w' = snd (dispatch_host (\<lambda>_. None) 0 ''host.fs.write_cache''
        (JObject [(''name'', JString ''a.png''), (''bytes_base64'', JString [])]) demo_ctx demo_manifest demo_world)
   in hw_files w' ''/run/p/cache/a.png'' \<noteq> hw_files demo_world ''/run/p/cache/a.png'' \<and>
      (\<exists>cs. path_components ''/run/p/cache/a.png'' = path_components (path_push (workdir demo_ctx) ''cache'') @ cs)"
proof -
  let ?p = "JObject [(''name'', JString ''a.png''), (''bytes_base64'', JString [])]"
  have "hw_files (snd (dispatch_host (\<lambda>_. None) 0 ''host.fs.write_cache'' ?p demo_ctx demo_manifest demo_world))
      ''/run/p/cache/a.png'' \<noteq> hw_files demo_world ''/run/p/cache/a.png''"
    by (simp add: dispatch_host_def knows_def method_names_def HostCapabilities_ALL_def check_cap_def
        check_fs_write_cache_scope_def demo_manifest_def Needs_default_def host_fs_write_cache_def str_param_def
        validate_cache_name_def demo_components base64_decode_def bytes_of_def write_atomic_def demo_ctx_def
        demo_world_def path_push_def has_root_def Let_def)
  from this write_cache_confined [OF this] show ?thesis unfolding Let_def by blast
qed

text \<open>
  The read scope is checked on the text of the path, before any parent step is resolved: a
  pattern that matches whatever is below a directory also matches a path that leaves the
  directory through \<open>..\<close>, and the read of that file is answered.
\<close>

theorem fs_read_scope_escapes:
  assumes "glob (d @ ''/*'') = Some g" "\<forall>s. g (d @ ''/'' @ s)"
    and "d @ ''/*'' \<in> set (nd_fs_read (mf_needs m))" "CHR 0x00 \<notin> set d" "d \<noteq> []"
    and "hw_files w (d @ ''/../secret'') = Some (bytes, t)" "io ctx ReadOp (d @ ''/../secret'') = None"
  shows "dispatch_host glob mt ''host.fs.read'' (JObject [(''path'', JString (d @ ''/../secret''))]) ctx m w
      = (Inr (JObject [(''bytes_base64'', JString (string_of_bytes (base64_encode bytes)))]), w) \<and>
    path_components (d @ ''/../secret'') = path_components d @ [ParentDir, Normal ''secret'']"
proof -
  have "g (d @ ''/../secret'')"
    using assms(2) [rule_format, of "''../secret''"] by simp
  then have "path_matches_any glob (nd_fs_read (mf_needs m)) (d @ ''/../secret'')"
    using assms(1,3) by (auto simp: path_matches_any_def list_ex_iff intro!: bexI [of _ "d @ ''/*''"])
  moreover have "path_components (d @ ''/../secret'') = path_components d @ [ParentDir, Normal ''secret'']"
    using path_components_join [OF assms(5), of "''../secret''"] by (simp add: body_components_def seg_component_def)
  ultimately show ?thesis
    using assms(4-7)
    by (simp add: dispatch_host_def knows_def method_names_def HostCapabilities_ALL_def check_cap_def
        check_fs_read_scope_def str_param_def validate_path_def host_fs_read_def)
qed

theorem fs_read_scope_escapes_witness:
  "dispatch_host (\<lambda>p. Some (\<lambda>s. take 13 s = take 13 p)) 0 ''host.fs.read''
      (JObject [(''path'', JString (''/home/u/docs'' @ ''/../secret''))]) demo_ctx demo_manifest
      (demo_world\<lparr>hw_files := [''/home/u/docs/../secret'' \<mapsto> ([120], 0)]\<rparr>)
    = (Inr (JObject [(''bytes_base64'', JString (string_of_bytes (base64_encode [120])))]),
       demo_world\<lparr>hw_files := [''/home/u/docs/../secret'' \<mapsto> ([120], 0)]\<rparr>)"
  by (rule fs_read_scope_escapes [where g = "\<lambda>s. take 13 s = take 13 (''/home/u/docs'' @ ''/*'')" and t = 0, THEN conjunct1])
    (simp_all add: demo_manifest_def demo_ctx_def)

end
