(* ===== verification/Plugin_Proc.thy ===== *)
theory Plugin_Proc
  imports Plugin_Host "HOL-Library.Multiset"
begin

text \<open>
  The supervisor of one plugin process (\<open>plugin/proc.rs\<close>): the JSON-RPC shapes of
  \<open>plugin/rpc.rs\<close>, the initialize handshake, the restart ladder, and the actor that owns
  the child, the table of requests in flight and the ping. Every arm of the actor's
  \<open>select!\<close> is one event of \<open>actor_step\<close>; the select is biased, so the arms after the
  first wait for an empty command queue. What the child and the kernel answer is chosen by
  the event or by the record \<open>proc_env\<close>, so a run of the model is any run of the actor.

  The children are numbered in the order they are started, child 0 by \<open>spawn\<close>. The fields
  from \<open>pa_outcomes\<close> on record what the callers and the children saw. Request numbers are
  unbounded here (the code counts in 64 bits), and encoding a request as JSON cannot fail.
\<close>

section \<open>JSON-RPC values\<close>

definition JSONRPC_VERSION :: string where "JSONRPC_VERSION = ''2.0''"

text \<open>\<open>Value::as_i64\<close>, and \<open>json!\<close> of an \<open>i64\<close>.\<close>

fun json_as_i64 :: "json \<Rightarrow> int option" where
  "json_as_i64 (JNumber (PosInt n)) = (if uint n < 2 ^ 63 then Some (uint n) else None)"
| "json_as_i64 (JNumber (NegInt n)) = Some (sint n)"
| "json_as_i64 _ = None"

definition json_i64 :: "int \<Rightarrow> json" where
  "json_i64 i = JNumber (if 0 \<le> i then PosInt (word_of_int i) else NegInt (word_of_int i))"

definition json_to_i32 :: "json \<Rightarrow> int option" where
  "json_to_i32 v = Option.bind (json_as_i64 v) (\<lambda>i. if - (2 ^ 31) \<le> i \<and> i < 2 ^ 31 then Some i else None)"

record ErrorObj =
  eo_code :: int
  eo_message :: string
  eo_data :: json

record RpcResponse =
  rs_id :: json
  rs_result :: "json option"
  rs_error :: "ErrorObj option"

definition ErrorObj_from_value :: "json \<Rightarrow> ErrorObj option" where
  "ErrorObj_from_value v =
     Option.bind (req_field json_to_i32 v ''code'') (\<lambda>c.
     map_option (\<lambda>m. \<lparr>eo_code = c, eo_message = m,
         eo_data = (case json_get v ''data'' of None \<Rightarrow> JNull | Some d \<Rightarrow> d)\<rparr>)
       (req_field json_as_str v ''message''))"

definition RpcResponse_from_value :: "json \<Rightarrow> RpcResponse option" where
  "RpcResponse_from_value v =
     Option.bind (req_field json_as_str v ''jsonrpc'') (\<lambda>_.
     Option.bind (json_get v ''id'') (\<lambda>i.
     Option.bind (opt_field Some v ''result'') (\<lambda>r.
     map_option (\<lambda>e. \<lparr>rs_id = i, rs_result = r, rs_error = e\<rparr>) (opt_field ErrorObj_from_value v ''error''))))"

definition ErrorObj_to_value :: "ErrorObj \<Rightarrow> json" where
  "ErrorObj_to_value e = JObject
     ([(''code'', json_i64 (eo_code e)), (''message'', JString (eo_message e))] @
      (if eo_data e = JNull then [] else [(''data'', eo_data e)]))"

definition RpcResponse_to_value :: "RpcResponse \<Rightarrow> json" where
  "RpcResponse_to_value r = JObject
     ([(''jsonrpc'', JString JSONRPC_VERSION), (''id'', rs_id r)] @
      skip_none ''result'' id (rs_result r) @ skip_none ''error'' ErrorObj_to_value (rs_error r))"

definition request_value :: "int \<Rightarrow> string \<Rightarrow> json \<Rightarrow> json" where
  "request_value i mth params = JObject [(''jsonrpc'', JString JSONRPC_VERSION), (''id'', json_i64 i),
     (''method'', JString mth), (''params'', params)]"

definition notification_value :: "string \<Rightarrow> json \<Rightarrow> json" where
  "notification_value mth params = JObject [(''jsonrpc'', JString JSONRPC_VERSION),
     (''method'', JString mth), (''params'', params)]"

definition RpcError_from :: "ErrorObj \<Rightarrow> RpcError" where
  "RpcError_from e = Peer (eo_code e) (eo_message e) (eo_data e)"

section \<open>State and options\<close>

datatype ProcState =
    Spawning
  | ProcReady
  | ShuttingDown
  | Restarting nat
  | Unhealthy nat string

record SpawnOpts =
  so_workdir :: string
  so_host_name :: string
  so_host_version :: string
  so_host_api :: "string list"
  ping_interval :: nat
  ping_timeout :: nat
  request_timeout :: nat
  max_restart_attempts :: nat
  so_host_ctx :: "HostCtx option"

definition MAX_RESTART_ATTEMPTS :: nat where "MAX_RESTART_ATTEMPTS = 3"
definition BACKOFF_BASE_MS :: u64 where "BACKOFF_BASE_MS = 100"
definition DEFAULT_PING_INTERVAL :: nat where "DEFAULT_PING_INTERVAL = 30000"
definition DEFAULT_PING_TIMEOUT :: nat where "DEFAULT_PING_TIMEOUT = 5000"

definition SpawnOpts_new :: "string \<Rightarrow> string \<Rightarrow> SpawnOpts" where
  "SpawnOpts_new pkg_version dir = \<lparr>so_workdir = dir, so_host_name = ''sy'', so_host_version = pkg_version,
     so_host_api = [''1''], ping_interval = DEFAULT_PING_INTERVAL, ping_timeout = DEFAULT_PING_TIMEOUT,
     request_timeout = 10000, max_restart_attempts = MAX_RESTART_ATTEMPTS, so_host_ctx = None\<rparr>"

datatype SupervisorCmd =
    CmdRequest string json nat
  | CmdShutdown

text \<open>What starting the n-th child and its first exchange come to.\<close>

datatype spawn_io = BuildErr string | ForkErr string | NoStdin | NoStdout | Forked
datatype init_io = InitTimeout bool | InitSendErr string | InitRecvErr string | InitEof | InitReply json
datatype wait_io = WaitOk | WaitErr string | WaitTimeout

record proc_env =
  pe_spawn :: "nat \<Rightarrow> spawn_io"
  pe_init :: "nat \<Rightarrow> init_io"
  pe_de :: "json \<Rightarrow> string"
  pe_row :: "json \<Rightarrow> string"
  pe_show :: "json \<Rightarrow> string"
  pe_dbg :: "string \<Rightarrow> string"
  pe_dbg_opt :: "string option \<Rightarrow> string"
  pe_display :: "RpcError \<Rightarrow> string"
  pe_glob :: glob

record Actor =
  next_req_id :: int
  in_flight :: "(int \<times> nat) list"
  attempts :: nat
  last_ping :: nat
  ping_in_flight :: "(int \<times> nat) option"
  health :: ProcState
  child :: nat
  running :: bool
  handle :: bool
  queue :: "SupervisorCmd list"
  host_tasks :: "(nat \<times> json) list"
  host_world :: HostWorld
  next_chan :: nat
  boots :: nat
  live :: "nat list"
  pa_outcomes :: "(nat \<times> (RpcError + json)) list"
  pa_shutdown :: "(RpcError + unit) option"
  pa_sent :: "(nat \<times> json) list"
  pa_received :: "(nat \<times> json) list"
  pa_assigned :: "(int \<times> nat) list"
  pa_slept :: "u64 list"

section \<open>Starting a child\<close>

definition boot_child :: "proc_env \<Rightarrow> nat \<Rightarrow> RpcError + unit" where
  "boot_child env n = (case pe_spawn env n of
      BuildErr e \<Rightarrow> Inl (Spawn (''build_command: '' @ e))
    | ForkErr e \<Rightarrow> Inl (Spawn (''spawn: '' @ e))
    | NoStdin \<Rightarrow> Inl (Spawn ''child stdin not piped'')
    | NoStdout \<Rightarrow> Inl (Spawn ''child stdout not piped'')
    | Forked \<Rightarrow> Inr ())"

definition handshake_reply :: "proc_env \<Rightarrow> Manifest \<Rightarrow> SpawnOpts \<Rightarrow> json \<Rightarrow> RpcError + NegotiatedCaps" where
  "handshake_reply env m opts resp = (case RpcResponse_from_value resp of
      None \<Rightarrow> Inl (Handshake (''parse initialize response: '' @ pe_de env resp))
    | Some parsed \<Rightarrow>
        if rs_id parsed \<noteq> json_i64 1 then
          Inl (Handshake (''initialize id mismatch: got '' @ pe_show env (rs_id parsed)))
        else case rs_error parsed of
          Some e \<Rightarrow> Inl (RpcError_from e)
        | None \<Rightarrow>
            try_bind (ok_or (rs_result parsed) (Handshake ''initialize response missing both result and error''))
              (\<lambda>result. parse_initialize_result (pe_row env) (pe_dbg env) (pe_dbg_opt env) result m (so_host_api opts)))"

definition initialize_request :: "SpawnOpts \<Rightarrow> json" where
  "initialize_request opts = request_value 1 ''initialize''
     (build_initialize_params (so_host_name opts) (so_host_version opts) (so_host_api opts) (so_workdir opts)
        (path_push (so_workdir opts) ''cache''))"

definition perform_handshake ::
  "proc_env \<Rightarrow> Manifest \<Rightarrow> SpawnOpts \<Rightarrow> nat \<Rightarrow> json list \<times> (RpcError + NegotiatedCaps)" where
  "perform_handshake env m opts n =
     (let budget = max (unat (spawn_timeout_ms (mf_limits m))) 50;
          req = initialize_request opts in
      case pe_init env n of
        InitTimeout was_sent \<Rightarrow> (if was_sent then [req] else [], Inl (RpcTimeout budget))
      | InitSendErr e \<Rightarrow> ([], Inl (Transport (''send initialize: '' @ e)))
      | InitRecvErr e \<Rightarrow> ([req], Inl (Transport (''recv initialize: '' @ e)))
      | InitEof \<Rightarrow> ([req], Inl (Handshake ''plugin closed stdout before initialize reply''))
      | InitReply resp \<Rightarrow> ([req], handshake_reply env m opts resp))"

definition backoff :: "nat \<Rightarrow> u64" where
  "backoff n = push_bit n BACKOFF_BASE_MS"

definition reap :: "Actor \<Rightarrow> Actor" where
  "reap a = a\<lparr>live := filter (\<lambda>n. n \<noteq> child a) (live a)\<rparr>"

definition kill_child :: "nat \<Rightarrow> Actor \<Rightarrow> Actor" where
  "kill_child n a = a\<lparr>live := filter (\<lambda>k. k \<noteq> n) (live a)\<rparr>"

function restart_if_attempts_remain ::
  "proc_env \<Rightarrow> Manifest \<Rightarrow> SpawnOpts \<Rightarrow> Actor \<Rightarrow> bool \<times> Actor" where
  "restart_if_attempts_remain env m opts a0 =
     (let a = reap a0 in
      if max_restart_attempts opts \<le> attempts a then
        (False, a\<lparr>health := Unhealthy (attempts a) ''exhausted restart attempts''\<rparr>)
      else
        (let n = boots a;
             a1 = a\<lparr>attempts := Suc (attempts a), health := Restarting (Suc (attempts a)),
                    pa_slept := pa_slept a @ [backoff (attempts a)], boots := Suc n\<rparr> in
         case boot_child env n of
           Inr _ \<Rightarrow>
             (let a2 = a1\<lparr>live := n # live a1\<rparr> in
              case perform_handshake env m opts n of
                (out, Inr _) \<Rightarrow> (True, a2\<lparr>pa_sent := pa_sent a2 @ map (Pair n) out, child := n, health := ProcReady\<rparr>)
              | (out, Inl e) \<Rightarrow>
                  (let a3 = kill_child n (a2\<lparr>pa_sent := pa_sent a2 @ map (Pair n) out\<rparr>) in
                   if max_restart_attempts opts \<le> attempts a3 then
                     (False, a3\<lparr>health := Unhealthy (attempts a3) (''handshake: '' @ pe_display env e)\<rparr>)
                   else restart_if_attempts_remain env m opts a3))
         | Inl e \<Rightarrow>
             if max_restart_attempts opts \<le> attempts a1 then
               (False, a1\<lparr>health := Unhealthy (attempts a1) (''spawn: '' @ pe_display env e)\<rparr>)
             else restart_if_attempts_remain env m opts a1))"
  by pat_completeness auto
termination
  by (relation "measure (\<lambda>(env, m, opts, a). max_restart_attempts opts - attempts a)")
    (auto simp: reap_def kill_child_def)

declare restart_if_attempts_remain.simps [simp del]

section \<open>The actor\<close>

text \<open>A caller that still waits when the actor's state is dropped finds its reply channel closed.\<close>

definition cmd_chan :: "SupervisorCmd \<Rightarrow> nat list" where
  "cmd_chan c = (case c of CmdRequest _ _ ch \<Rightarrow> [ch] | CmdShutdown \<Rightarrow> [])"

definition queued :: "Actor \<Rightarrow> nat list" where
  "queued a = concat (map cmd_chan (queue a))"

definition dropped_reply :: "RpcError" where
  "dropped_reply = RpcUnavailable ''actor dropped reply channel''"

definition stop :: "Actor \<Rightarrow> Actor" where
  "stop a = a\<lparr>running := False, in_flight := [], queue := [],
     pa_outcomes := pa_outcomes a @ map (\<lambda>ch. (ch, Inl dropped_reply)) (map snd (in_flight a) @ queued a),
     pa_shutdown := (case pa_shutdown a of
        None \<Rightarrow> if CmdShutdown \<in> set (queue a) then Some (Inl dropped_reply) else None | s \<Rightarrow> s)\<rparr>"

definition fail_in_flight :: "string \<Rightarrow> Actor \<Rightarrow> Actor" where
  "fail_in_flight why a = a\<lparr>in_flight := [],
     pa_outcomes := pa_outcomes a @ map (\<lambda>p. (snd p, Inl (RpcUnavailable why))) (in_flight a)\<rparr>"

definition restart_or_stop :: "proc_env \<Rightarrow> Manifest \<Rightarrow> SpawnOpts \<Rightarrow> (Actor \<Rightarrow> Actor) \<Rightarrow> Actor \<Rightarrow> Actor" where
  "restart_or_stop env m opts on_fail a =
     (case restart_if_attempts_remain env m opts a of
        (True, a1) \<Rightarrow> a1
      | (False, a1) \<Rightarrow> stop (on_fail a1))"

definition response_outcome :: "proc_env \<Rightarrow> json \<Rightarrow> RpcError + json" where
  "response_outcome env v = (case RpcResponse_from_value v of
      None \<Rightarrow> Inl (Transport (''parse response: '' @ pe_de env v))
    | Some r \<Rightarrow> (case rs_error r of
        Some e \<Rightarrow> Inl (RpcError_from e)
      | None \<Rightarrow> Inr (case rs_result r of None \<Rightarrow> JNull | Some x \<Rightarrow> x)))"

definition plugin_request :: "json \<Rightarrow> bool" where
  "plugin_request v \<longleftrightarrow> (case json_get v ''id'' of None \<Rightarrow> False | Some i \<Rightarrow> i \<noteq> JNull) \<and> json_get v ''method'' \<noteq> None"

definition route_incoming_frame :: "proc_env \<Rightarrow> json \<Rightarrow> Actor \<Rightarrow> Actor" where
  "route_incoming_frame env v a =
     (if plugin_request v then a\<lparr>host_tasks := host_tasks a @ [(child a, v)]\<rparr>
      else case Option.bind (json_get v ''id'') json_as_i64 of
        None \<Rightarrow> a
      | Some rid \<Rightarrow>
          if map_option fst (ping_in_flight a) = Some rid then a\<lparr>ping_in_flight := None\<rparr>
          else (case map_of (in_flight a) rid of
              None \<Rightarrow> a
            | Some ch \<Rightarrow> a\<lparr>in_flight := filter (\<lambda>p. fst p \<noteq> rid) (in_flight a),
                pa_outcomes := pa_outcomes a @ [(ch, response_outcome env v)]\<rparr>))"

definition build_host_fn_reply ::
  "glob \<Rightarrow> u64 \<Rightarrow> json \<Rightarrow> string \<Rightarrow> json \<Rightarrow> Manifest \<Rightarrow> HostCtx option \<Rightarrow> HostWorld \<Rightarrow> RpcResponse \<times> HostWorld" where
  "build_host_fn_reply glob mtime req_id mth params m host_ctx w =
     (case host_ctx of
        None \<Rightarrow> (\<lparr>rs_id = req_id, rs_result = None, rs_error = Some \<lparr>eo_code = METHOD_NOT_FOUND,
            eo_message = ''METHOD_NOT_FOUND'',
            eo_data = JObject [(''method'', JString mth), (''reason'', JString ''host_ctx unset'')]\<rparr>\<rparr>, w)
      | Some ctx \<Rightarrow>
          (case dispatch_host glob mtime mth params ctx m w of
             (Inr result, w1) \<Rightarrow> (\<lparr>rs_id = req_id, rs_result = Some result, rs_error = None\<rparr>, w1)
           | (Inl e, w1) \<Rightarrow> (\<lparr>rs_id = req_id, rs_result = None, rs_error = Some \<lparr>eo_code = he_code e,
               eo_message = he_message e, eo_data = he_data e\<rparr>\<rparr>, w1)))"

text \<open>The background task of one plugin request; it holds the duplex of the child that asked.\<close>

definition spawn_host_fn_task ::
  "proc_env \<Rightarrow> Manifest \<Rightarrow> SpawnOpts \<Rightarrow> u64 \<Rightarrow> bool \<Rightarrow> nat \<times> json \<Rightarrow> Actor \<Rightarrow> Actor" where
  "spawn_host_fn_task env m opts mtime sends t a =
     (let v = snd t;
          req_id = (case json_get v ''id'' of None \<Rightarrow> JNull | Some i \<Rightarrow> i);
          mth = (case Option.bind (json_get v ''method'') json_as_str of None \<Rightarrow> [] | Some s \<Rightarrow> s);
          params = (case json_get v ''params'' of None \<Rightarrow> JNull | Some p \<Rightarrow> p);
          (reply, w) = build_host_fn_reply (pe_glob env) mtime req_id mth params m (so_host_ctx opts) (host_world a)
      in a\<lparr>host_world := w,
           pa_sent := (if sends then pa_sent a @ [(fst t, RpcResponse_to_value reply)] else pa_sent a)\<rparr>)"

definition do_shutdown :: "Manifest \<Rightarrow> wait_io \<Rightarrow> bool \<Rightarrow> bool \<Rightarrow> Actor \<Rightarrow> (RpcError + unit) \<times> Actor" where
  "do_shutdown m w send1 send2 a =
     (let budget = max (unat (shutdown_timeout_ms (mf_limits m))) 50;
          out = (if send1 then [request_value 0 ''shutdown'' JNull] else []) @
                (if send2 then [notification_value ''exit'' JNull] else []);
          a1 = a\<lparr>pa_sent := pa_sent a @ map (Pair (child a)) out\<rparr> in
      case w of
        WaitOk \<Rightarrow> (Inr (), reap a1)
      | WaitErr e \<Rightarrow> (Inl (Transport (''wait: '' @ e)), a1)
      | WaitTimeout \<Rightarrow> (Inl (RpcTimeout budget), reap a1))"

definition take_request ::
  "proc_env \<Rightarrow> Manifest \<Rightarrow> SpawnOpts \<Rightarrow> string option \<Rightarrow> string \<Rightarrow> json \<Rightarrow> nat \<Rightarrow> Actor \<Rightarrow> Actor" where
  "take_request env m opts send_err mth params ch a =
     (let rid = next_req_id a;
          a1 = a\<lparr>next_req_id := rid + 1, pa_assigned := pa_assigned a @ [(rid, ch)]\<rparr> in
      case send_err of
        Some e \<Rightarrow> restart_or_stop env m opts (fail_in_flight ''supervisor unhealthy'')
                    (a1\<lparr>pa_outcomes := pa_outcomes a1 @ [(ch, Inl (Transport (''send: '' @ e)))]\<rparr>)
      | None \<Rightarrow> a1\<lparr>in_flight := in_flight a1 @ [(rid, ch)],
                  pa_sent := pa_sent a1 @ [(child a1, request_value rid mth params)]\<rparr>)"

definition send_ping :: "nat \<Rightarrow> nat \<Rightarrow> int \<Rightarrow> bool \<Rightarrow> Actor \<Rightarrow> Actor" where
  "send_ping now sent_at ts send_ok a =
     (let rid = next_req_id a;
          a1 = a\<lparr>last_ping := now, next_req_id := rid + 1\<rparr> in
      if send_ok
      then a1\<lparr>ping_in_flight := Some (rid, sent_at),
              pa_sent := pa_sent a1 @ [(child a1, request_value rid ''ping'' (JObject [(''ts'', json_i64 ts)]))]\<rparr>
      else a1)"

datatype event =
    Call string json
  | CallShutdown
  | TakeCmd "string option" wait_io bool bool
  | DropHandle
  | Frame json
  | EofOrError
  | PingDue nat nat int bool
  | PingDeadline nat
  | HostDone nat u64 bool

definition CMD_CHANNEL_DEPTH :: nat where "CMD_CHANNEL_DEPTH = 64"

fun actor_step :: "proc_env \<Rightarrow> Manifest \<Rightarrow> SpawnOpts \<Rightarrow> event \<Rightarrow> Actor \<Rightarrow> Actor option" where
  "actor_step env m opts (Call mth params) a =
     (if \<not> handle a then
        Some (a\<lparr>next_chan := Suc (next_chan a),
                pa_outcomes := pa_outcomes a @ [(next_chan a, Inl (RpcUnavailable ''supervisor shut down''))]\<rparr>)
      else if \<not> running a then
        Some (a\<lparr>next_chan := Suc (next_chan a),
                pa_outcomes := pa_outcomes a @ [(next_chan a, Inl (RpcUnavailable ''actor stopped''))]\<rparr>)
      else if length (queue a) < CMD_CHANNEL_DEPTH then
        Some (a\<lparr>next_chan := Suc (next_chan a), queue := queue a @ [CmdRequest mth params (next_chan a)]\<rparr>)
      else None)"
| "actor_step env m opts CallShutdown a =
     (if \<not> handle a then Some a
      else if \<not> running a then Some (a\<lparr>handle := False, pa_shutdown := Some (Inr ())\<rparr>)
      else if length (queue a) < CMD_CHANNEL_DEPTH
      then Some (a\<lparr>handle := False, queue := queue a @ [CmdShutdown]\<rparr>)
      else None)"
| "actor_step env m opts (TakeCmd send_err w s1 s2) a =
     (if \<not> running a then None
      else case queue a of
        [] \<Rightarrow> None
      | CmdRequest mth params ch # cs \<Rightarrow> Some (take_request env m opts send_err mth params ch (a\<lparr>queue := cs\<rparr>))
      | CmdShutdown # cs \<Rightarrow>
          (let (res, a1) = do_shutdown m w s1 s2 (a\<lparr>queue := cs, health := ShuttingDown\<rparr>)
           in Some (stop (a1\<lparr>pa_shutdown := Some res\<rparr>))))"
| "actor_step env m opts DropHandle a =
     (if handle a \<and> running a \<and> queue a = [] then Some (stop (a\<lparr>handle := False\<rparr>)) else None)"
| "actor_step env m opts (Frame v) a =
     (if running a \<and> queue a = []
      then Some (route_incoming_frame env v (a\<lparr>pa_received := pa_received a @ [(child a, v)]\<rparr>)) else None)"
| "actor_step env m opts EofOrError a =
     (if running a \<and> queue a = []
      then Some (restart_or_stop env m opts id (fail_in_flight ''child EOF'' a)) else None)"
| "actor_step env m opts (PingDue now sent_at ts send_ok) a =
     (if running a \<and> queue a = [] \<and> ping_in_flight a = None \<and> last_ping a + ping_interval opts \<le> now \<and> now \<le> sent_at
      then Some (send_ping now sent_at ts send_ok a) else None)"
| "actor_step env m opts (PingDeadline now) a =
     (if running a \<and> queue a = [] \<and>
         (case ping_in_flight a of None \<Rightarrow> False | Some p \<Rightarrow> snd p + ping_timeout opts \<le> now)
      then Some (restart_or_stop env m opts id (fail_in_flight ''ping timeout'' (a\<lparr>ping_in_flight := None\<rparr>)))
      else None)"
| "actor_step env m opts (HostDone i mtime sends) a =
     (if i < length (host_tasks a)
      then Some (spawn_host_fn_task env m opts mtime sends (host_tasks a ! i)
             (a\<lparr>host_tasks := take i (host_tasks a) @ drop (Suc i) (host_tasks a)\<rparr>)) else None)"

text \<open>\<open>spawn\<close>: the first child and its handshake, then the actor with nothing in flight.\<close>

definition spawn :: "proc_env \<Rightarrow> Manifest \<Rightarrow> SpawnOpts \<Rightarrow> nat \<Rightarrow> HostWorld \<Rightarrow> RpcError + (Actor \<times> NegotiatedCaps)" where
  "spawn env m opts now w =
     try_bind (boot_child env 0) (\<lambda>_.
       let (out, res) = perform_handshake env m opts 0 in
       try_bind res (\<lambda>caps.
         Inr (\<lparr>next_req_id = 2, in_flight = [], attempts = 0, last_ping = now, ping_in_flight = None,
                health = ProcReady, child = 0, running = True, handle = True, queue = [], host_tasks = [], host_world = w,
                next_chan = 0, boots = 1, live = [0], pa_outcomes = [], pa_shutdown = None,
                pa_sent = map (Pair 0) out, pa_received = [], pa_assigned = [], pa_slept = []\<rparr>, caps)))"

inductive proc_reach :: "proc_env \<Rightarrow> Manifest \<Rightarrow> SpawnOpts \<Rightarrow> Actor \<Rightarrow> bool" for env m opts where
  spawned: "spawn env m opts now w = Inr (a, caps) \<Longrightarrow> proc_reach env m opts a"
| step: "proc_reach env m opts a \<Longrightarrow> actor_step env m opts ev a = Some a' \<Longrightarrow> proc_reach env m opts a'"

section \<open>The restart ladder\<close>

definition boots_ok :: "proc_env \<Rightarrow> Manifest \<Rightarrow> SpawnOpts \<Rightarrow> nat \<Rightarrow> bool" where
  "boots_ok env m opts n \<longleftrightarrow> boot_child env n = Inr () \<and> (\<exists>caps. snd (perform_handshake env m opts n) = Inr caps)"

text \<open>One rung that does not end the ladder: the attempt is counted, slept for and leaves no child.\<close>

definition same_rung :: "Actor \<Rightarrow> Actor \<Rightarrow> bool" where
  "same_rung a b \<longleftrightarrow> next_req_id b = next_req_id a \<and> in_flight b = in_flight a \<and> last_ping b = last_ping a \<and>
     ping_in_flight b = ping_in_flight a \<and> running b = running a \<and> handle b = handle a \<and> queue b = queue a \<and>
     host_tasks b = host_tasks a \<and> host_world b = host_world a \<and> next_chan b = next_chan a \<and>
     pa_outcomes b = pa_outcomes a \<and> pa_shutdown b = pa_shutdown a \<and> pa_received b = pa_received a \<and>
     pa_assigned b = pa_assigned a \<and> (\<exists>out. pa_sent b = pa_sent a @ out)"

definition climbed :: "Actor \<Rightarrow> Actor \<Rightarrow> bool" where
  "climbed a b \<longleftrightarrow> same_rung a b \<and> attempts a \<le> attempts b \<and> boots b = boots a + (attempts b - attempts a) \<and>
     pa_slept b = pa_slept a @ map backoff [attempts a..<attempts b]"

lemma climbed_step:
  "attempts b = Suc (attempts a) \<Longrightarrow> boots b = Suc (boots a) \<Longrightarrow> pa_slept b = pa_slept a @ [backoff (attempts a)] \<Longrightarrow>
   same_rung a b \<Longrightarrow> climbed a b"
  by (simp add: climbed_def)

lemma climbed_trans: "climbed a b \<Longrightarrow> climbed b c \<Longrightarrow> climbed a c"
proof -
  assume ab: "climbed a b" and bc: "climbed b c"
  have "[attempts a..<attempts b] @ [attempts b..<attempts c] = [attempts a..<attempts c]"
    using ab bc upt_add_eq_append [of "attempts a" "attempts b" "attempts c - attempts b"]
    by (simp add: climbed_def)
  with ab bc show ?thesis
    by (auto simp: climbed_def same_rung_def simp flip: map_append)
qed

text \<open>What one call of the ladder does, by the first child that starts.\<close>

definition ladder_end :: "proc_env \<Rightarrow> Manifest \<Rightarrow> SpawnOpts \<Rightarrow> Actor \<Rightarrow> bool \<times> Actor \<Rightarrow> bool" where
  "ladder_end env m opts a r \<longleftrightarrow> climbed a (snd r) \<and> attempts (snd r) \<le> max_restart_attempts opts \<and>
     (if fst r then boots_ok env m opts (child (snd r)) \<and> boots (snd r) = Suc (child (snd r)) \<and> boots a \<le> child (snd r) \<and>
          (\<forall>n. boots a \<le> n \<and> n < child (snd r) \<longrightarrow> \<not> boots_ok env m opts n) \<and>
          live (snd r) = [child (snd r)] \<and> health (snd r) = ProcReady
      else (\<forall>n. boots a \<le> n \<and> n < boots a + (max_restart_attempts opts - attempts a) \<longrightarrow> \<not> boots_ok env m opts n) \<and>
          attempts (snd r) = max_restart_attempts opts \<and> live (snd r) = [] \<and>
          (\<exists>why. health (snd r) = Unhealthy (max_restart_attempts opts) why))"

lemma ladder_end_step:
  assumes c: "climbed a b" and b: "attempts b = Suc (attempts a)" "boots b = Suc (boots a)"
    and bad: "\<not> boots_ok env m opts (boots a)" and less: "attempts a < max_restart_attempts opts"
    and e: "ladder_end env m opts b r"
  shows "ladder_end env m opts a r"
proof -
  from c e have cl: "climbed a (snd r)" by (auto simp: ladder_end_def intro: climbed_trans)
  have "boots a \<le> n \<longleftrightarrow> n = boots a \<or> boots b \<le> n" for n using b by auto
  with e cl b bad less show ?thesis by (auto simp: ladder_end_def split: if_splits)
qed

lemma ladder_end_fail:
  assumes cl: "climbed a b" and b: "attempts b = Suc (attempts a)" "boots b = Suc (boots a)" "live b = []"
    and bad: "\<not> boots_ok env m opts (boots a)" and less: "attempts a < max_restart_attempts opts"
    and r: "r = (if max_restart_attempts opts \<le> attempts b then (False, b\<lparr>health := Unhealthy (attempts b) why\<rparr>)
                 else restart_if_attempts_remain env m opts b)"
    and on: "attempts b < max_restart_attempts opts \<Longrightarrow>
       ladder_end env m opts b (restart_if_attempts_remain env m opts b)"
  shows "ladder_end env m opts a r"
proof (cases "max_restart_attempts opts \<le> attempts b")
  case True
  have "boots a \<le> n \<and> n < boots a + (max_restart_attempts opts - attempts a) \<Longrightarrow> n = boots a" for n
    using True b less by linarith
  moreover have "climbed a (b\<lparr>health := h\<rparr>)" for h using cl by (simp add: climbed_def same_rung_def)
  ultimately show ?thesis using True r b less bad by (auto simp: ladder_end_def)
next
  case False
  with r on have "ladder_end env m opts b r" by simp
  then show ?thesis by (rule ladder_end_step [OF cl b(1,2) bad less])
qed

definition rung :: "(nat \<times> json) list \<Rightarrow> Actor \<Rightarrow> Actor" where
  "rung out a = (reap a)\<lparr>attempts := Suc (attempts a), health := Restarting (Suc (attempts a)),
     pa_slept := pa_slept a @ [backoff (attempts a)], boots := Suc (boots a), pa_sent := pa_sent a @ out\<rparr>"

lemma rung_simps [simp]:
  "attempts (rung out a) = Suc (attempts a)" "boots (rung out a) = Suc (boots a)" "child (rung out a) = child a"
  "live (rung out a) = live (reap a)"
  by (simp_all add: rung_def reap_def)

lemma climbed_rung: "climbed a (rung out a)"
  by (rule climbed_step) (simp_all add: rung_def same_rung_def reap_def)

lemma restart_ladder:
  assumes "attempts a \<le> max_restart_attempts opts" "set (live a) \<subseteq> {child a}"
  shows "ladder_end env m opts a (restart_if_attempts_remain env m opts a)"
  using assms
proof (induction "max_restart_attempts opts - attempts a" arbitrary: a rule: less_induct)
  case less
  have gone: "filter (\<lambda>n. n \<noteq> child a) (live a) = []" using less.prems(2) by (auto simp: filter_empty_conv)
  have on: "ladder_end env m opts (rung out a) (restart_if_attempts_remain env m opts (rung out a))"
    if "attempts (rung out a) < max_restart_attempts opts" for out
    by (rule less.hyps) (use that in \<open>auto simp: reap_def gone\<close>)
  note run = restart_if_attempts_remain.simps [of env m opts a]
  obtain out res where h: "perform_handshake env m opts (boots a) = (out, res)" by fastforce
  consider (full) "attempts a = max_restart_attempts opts"
    | (boot) e where "attempts a < max_restart_attempts opts" "boot_child env (boots a) = Inl e"
    | (hand) e where "attempts a < max_restart_attempts opts" "boot_child env (boots a) = Inr ()" "res = Inl e"
    | (up) caps where "attempts a < max_restart_attempts opts" "boot_child env (boots a) = Inr ()" "res = Inr caps"
    using less.prems(1) by (cases "boot_child env (boots a)"; cases res) force+
  then show ?case
  proof cases
    case full
    then show ?thesis by (auto simp: run ladder_end_def reap_def climbed_def same_rung_def gone)
  next
    case boot
    show ?thesis
      by (rule ladder_end_fail [OF climbed_rung [of a "[]"], where why = "''spawn: '' @ pe_display env e"])
        (use boot on [of "[]"] in \<open>simp_all add: boots_ok_def run Let_def rung_def reap_def gone\<close>)
  next
    case hand
    have eq: "a\<lparr>attempts := Suc (attempts a), health := Restarting (Suc (attempts a)),
          pa_slept := pa_slept a @ [backoff (attempts a)], boots := Suc (boots a),
          pa_sent := pa_sent a @ map (Pair (boots a)) out, live := []\<rparr> = rung (map (Pair (boots a)) out) a"
      by (simp add: rung_def reap_def gone)
    show ?thesis
      by (rule ladder_end_fail [OF climbed_rung [of a "map (Pair (boots a)) out"],
            where why = "''handshake: '' @ pe_display env e"])
        (use hand h on [of "map (Pair (boots a)) out"]
         in \<open>simp_all add: boots_ok_def run Let_def reap_def gone kill_child_def eq\<close>)
  next
    case up
    with h show ?thesis
      by (auto simp: run Let_def ladder_end_def boots_ok_def reap_def gone climbed_def same_rung_def)
  qed
qed

section \<open>Invariants\<close>

text \<open>
  Three groups: the ladder's accounts; the channels, each of which is in flight, queued or
  answered, once; the request numbers and where good answers come from.
\<close>

definition ladder_inv :: "SpawnOpts \<Rightarrow> Actor \<Rightarrow> bool" where
  "ladder_inv opts a \<longleftrightarrow> attempts a \<le> max_restart_attempts opts \<and> boots a = Suc (attempts a) \<and>
     pa_slept a = map backoff [0..<attempts a] \<and> (live a = [] \<or> live a = [child a]) \<and>
     (running a \<longrightarrow> live a = [child a] \<and> health a = ProcReady \<and> child a \<le> attempts a)"

definition chan_inv :: "Actor \<Rightarrow> bool" where
  "chan_inv a \<longleftrightarrow> mset (map snd (in_flight a) @ queued a @ map fst (pa_outcomes a)) = mset [0..<next_chan a] \<and>
     (\<not> running a \<longrightarrow> in_flight a = [] \<and> queue a = [])"

definition answers :: "proc_env \<Rightarrow> json \<Rightarrow> int \<Rightarrow> json \<Rightarrow> bool" where
  "answers env f rid v \<longleftrightarrow> \<not> plugin_request f \<and> Option.bind (json_get f ''id'') json_as_i64 = Some rid \<and>
     response_outcome env f = Inr v"

definition table_inv :: "Actor \<Rightarrow> bool" where
  "table_inv a \<longleftrightarrow> 2 \<le> next_req_id a \<and> distinct (map fst (in_flight a)) \<and> distinct (map fst (pa_assigned a)) \<and> set (in_flight a) \<subseteq> set (pa_assigned a) \<and>
     (\<forall>p \<in> set (pa_assigned a). fst p < next_req_id a) \<and>
     (\<forall>rid \<in> fst ` set_option (ping_in_flight a). rid < next_req_id a \<and> rid \<notin> fst ` set (in_flight a))"

definition honest_inv :: "proc_env \<Rightarrow> Actor \<Rightarrow> bool" where
  "honest_inv env a \<longleftrightarrow> (\<forall>ch v. (ch, Inr v) \<in> set (pa_outcomes a) \<longrightarrow>
        (\<exists>rid g f. (rid, ch) \<in> set (pa_assigned a) \<and> (g, f) \<in> set (pa_received a) \<and> answers env f rid v))"

definition proc_inv :: "proc_env \<Rightarrow> SpawnOpts \<Rightarrow> Actor \<Rightarrow> bool" where
  "proc_inv env opts a \<longleftrightarrow> ladder_inv opts a \<and> chan_inv a \<and> table_inv a \<and> honest_inv env a"

lemmas proc_inv_defs = proc_inv_def ladder_inv_def chan_inv_def table_inv_def

lemma honest_mono:
  "honest_inv env a \<Longrightarrow> (\<And>ch v. (ch, Inr v) \<in> set (pa_outcomes b) \<Longrightarrow> (ch, Inr v) \<in> set (pa_outcomes a)) \<Longrightarrow>
   set (pa_assigned a) \<subseteq> set (pa_assigned b) \<Longrightarrow> set (pa_received a) \<subseteq> set (pa_received b) \<Longrightarrow> honest_inv env b"
  unfolding honest_inv_def by (meson subsetD)

lemma queued_simps [simp]:
  "queued (a\<lparr>queue := []\<rparr>) = []"
  "queued (a\<lparr>queue := q @ [CmdRequest mth params ch]\<rparr>) = queued (a\<lparr>queue := q\<rparr>) @ [ch]"
  "queued (a\<lparr>queue := q @ [CmdShutdown]\<rparr>) = queued (a\<lparr>queue := q\<rparr>)"
  "queued (a\<lparr>queue := queue a\<rparr>) = queued a"
  by (simp_all add: queued_def cmd_chan_def)

lemma queued_cong: "queue b = queue a \<Longrightarrow> queued b = queued a"
  by (simp add: queued_def)

lemma queued_Cons:
  "queue a = CmdRequest mth params ch # cs \<Longrightarrow> queued a = ch # concat (map cmd_chan cs)"
  "queue a = CmdShutdown # cs \<Longrightarrow> queued a = concat (map cmd_chan cs)"
  by (simp_all add: queued_def cmd_chan_def)

lemma climbed_inv:
  assumes c: "climbed a b" and inv: "proc_inv env opts a"
  shows "chan_inv b" "table_inv b" "honest_inv env b" "pa_slept b = map backoff [0..<attempts b]"
    "boots b = Suc (attempts b)" "running b = running a"
proof -
  have "[0..<attempts a] @ [attempts a..<attempts b] = [0..<attempts b]"
    using c upt_add_eq_append [of 0 "attempts a" "attempts b - attempts a"] by (simp add: climbed_def)
  with c inv show "pa_slept b = map backoff [0..<attempts b]"
    by (simp add: climbed_def proc_inv_defs flip: map_append)
  show "chan_inv b" "table_inv b" "boots b = Suc (attempts b)" "running b = running a"
    using c inv queued_cong [of b a] by (simp_all add: climbed_def same_rung_def proc_inv_defs)
  show "honest_inv env b"
    using c inv by (auto simp: climbed_def same_rung_def proc_inv_def intro: honest_mono)
qed

lemma fail_in_flight_inv: "chan_inv a \<Longrightarrow> chan_inv (fail_in_flight why a)"
  "table_inv a \<Longrightarrow> table_inv (fail_in_flight why a)" "honest_inv env a \<Longrightarrow> honest_inv env (fail_in_flight why a)"
  "ladder_inv opts a \<Longrightarrow> ladder_inv opts (fail_in_flight why a)"
  by (auto simp: ladder_inv_def chan_inv_def table_inv_def fail_in_flight_def queued_def comp_def ac_simps
      intro: honest_mono)

lemma stop_inv: "chan_inv a \<Longrightarrow> chan_inv (stop a)" "table_inv a \<Longrightarrow> table_inv (stop a)"
  "honest_inv env a \<Longrightarrow> honest_inv env (stop a)" "ladder_inv opts a \<Longrightarrow> ladder_inv opts (stop a)"
  by (auto simp: ladder_inv_def chan_inv_def table_inv_def stop_def queued_def comp_def ac_simps intro: honest_mono)

lemma restart_or_stop_inv:
  assumes inv: "proc_inv env opts a" and f: "f = id \<or> f = fail_in_flight why"
  shows "proc_inv env opts (restart_or_stop env m opts f a)"
proof -
  obtain ok b where r: "restart_if_attempts_remain env m opts a = (ok, b)" by fastforce
  from inv have "ladder_end env m opts a (ok, b)"
    using restart_ladder [of a opts env m] r by (auto simp: proc_inv_def ladder_inv_def)
  then have e: "climbed a b" "attempts b \<le> max_restart_attempts opts"
    "ok \<Longrightarrow> live b = [child b] \<and> health b = ProcReady \<and> child b < boots b" "\<not> ok \<Longrightarrow> live b = []"
    by (auto simp: ladder_end_def)
  note b = climbed_inv [OF e(1) inv]
  have "chan_inv (f b)" "table_inv (f b)" "honest_inv env (f b)"
    using f b fail_in_flight_inv by auto
  moreover have "ladder_inv opts (stop (f b))" if "\<not> ok"
    using f b e that by (auto simp: ladder_inv_def stop_def fail_in_flight_def)
  ultimately show ?thesis
    using b e stop_inv by (cases ok) (auto simp: restart_or_stop_def r proc_inv_def ladder_inv_def)
qed

lemma mset_in_flight:
  assumes "distinct (map fst xs)" "map_of xs r = Some ch"
  shows "mset (map snd xs) = add_mset ch (mset (map snd (filter (\<lambda>p. fst p \<noteq> r) xs)))"
  using assms
proof (induction xs)
  case (Cons x xs)
  show ?case
  proof (cases "fst x = r")
    case True
    with Cons.prems have "filter (\<lambda>p. fst p \<noteq> r) xs = xs" by (auto simp: filter_id_conv intro: rev_image_eqI)
    with Cons.prems True show ?thesis by (simp add: prod.case_eq_if map_of.simps(2) split: if_splits)
  next
    case False
    with Cons show ?thesis by (cases x) auto
  qed
qed simp

lemma reply_inv:
  assumes inv: "proc_inv env opts a" and got: "map_of (in_flight a) rid = Some ch"
    and f: "(g, f) \<in> set (pa_received a)" "\<not> plugin_request f" "Option.bind (json_get f ''id'') json_as_i64 = Some rid"
  shows "proc_inv env opts (a\<lparr>in_flight := filter (\<lambda>p. fst p \<noteq> rid) (in_flight a),
     pa_outcomes := pa_outcomes a @ [(ch, response_outcome env f)]\<rparr>)" (is "proc_inv env opts ?b")
proof -
  have d: "distinct (map fst (in_flight a))" using inv by (simp add: proc_inv_defs)
  have "ladder_inv opts ?b" using inv by (simp add: proc_inv_defs)
  moreover have "chan_inv ?b"
    using inv mset_in_flight [OF d got] by (auto simp: proc_inv_def chan_inv_def queued_def)
  moreover have "table_inv ?b"
    using inv distinct_map_filter [OF d] by (auto simp: proc_inv_def table_inv_def)
  moreover have "honest_inv env ?b"
    unfolding honest_inv_def
  proof (intro allI impI)
    fix c v
    assume "(c, Inr v) \<in> set (pa_outcomes ?b)"
    then consider "(c, Inr v) \<in> set (pa_outcomes a)" | "c = ch" "response_outcome env f = Inr v" by auto
    then show "\<exists>rid g f. (rid, c) \<in> set (pa_assigned ?b) \<and> (g, f) \<in> set (pa_received ?b) \<and> answers env f rid v"
    proof cases
      case 1
      with inv show ?thesis by (auto simp: proc_inv_def honest_inv_def)
    next
      case 2
      have "(rid, ch) \<in> set (pa_assigned a)" using inv map_of_SomeD [OF got] by (auto simp: proc_inv_defs)
      with 2 f show ?thesis by (auto simp: answers_def)
    qed
  qed
  ultimately show ?thesis by (simp add: proc_inv_def)
qed

lemma proc_inv_frame:
  assumes "proc_inv env opts a"
  shows "proc_inv env opts (a\<lparr>pa_received := pa_received a @ r\<rparr>)" "proc_inv env opts (a\<lparr>host_tasks := ts\<rparr>)"
    "proc_inv env opts (a\<lparr>ping_in_flight := None\<rparr>)" "proc_inv env opts (a\<lparr>host_world := w, pa_sent := s\<rparr>)"
    "proc_inv env opts (a\<lparr>handle := h\<rparr>)"
  using assms unfolding proc_inv_defs queued_def by (auto intro: honest_mono)

lemma route_inv:
  assumes "proc_inv env opts a" "(g, v) \<in> set (pa_received a)"
  shows "proc_inv env opts (route_incoming_frame env v a)"
  using assms proc_inv_frame [OF assms(1)] reply_inv [OF assms(1) _ assms(2)]
  by (simp add: route_incoming_frame_def split: option.split)

definition chans :: "Actor \<Rightarrow> nat multiset" where
  "chans a = mset (map snd (in_flight a) @ queued a @ map fst (pa_outcomes a))"

lemma chan_inv_move: "chan_inv a \<Longrightarrow> running b \<Longrightarrow> chans b = chans a \<Longrightarrow> next_chan b = next_chan a \<Longrightarrow> chan_inv b"
  by (simp add: chan_inv_def chans_def)

lemma chan_inv_new:
  "chan_inv a \<Longrightarrow> chans b = add_mset (next_chan a) (chans a) \<Longrightarrow> next_chan b = Suc (next_chan a) \<Longrightarrow>
   (\<not> running b \<Longrightarrow> in_flight b = [] \<and> queue b = []) \<Longrightarrow> chan_inv b"
  by (simp add: chan_inv_def chans_def mset_append upt_Suc_append del: mset_upt)

lemma table_inv_cong:
  "in_flight b = in_flight a \<Longrightarrow> pa_assigned b = pa_assigned a \<Longrightarrow> next_req_id b = next_req_id a \<Longrightarrow>
   ping_in_flight b = ping_in_flight a \<Longrightarrow> table_inv b = table_inv a"
  by (simp add: table_inv_def)

lemma fresh_req_id:
  "table_inv a \<Longrightarrow> next_req_id a \<notin> fst ` set (in_flight a) \<and> next_req_id a \<notin> fst ` set (pa_assigned a)"
  unfolding table_inv_def by force

lemma take_request_inv:
  assumes inv: "proc_inv env opts a" and q: "queue a = CmdRequest mth params ch # cs" and run: "running a"
  shows "proc_inv env opts (take_request env m opts send_err mth params ch (a\<lparr>queue := cs\<rparr>))"
proof (cases send_err)
  case None
  let ?b = "take_request env m opts send_err mth params ch (a\<lparr>queue := cs\<rparr>)"
  have "ladder_inv opts ?b"
    using inv None by (simp add: proc_inv_def take_request_def Let_def ladder_inv_def)
  moreover have "chan_inv ?b"
    by (rule chan_inv_move [of a])
      (use inv run None in \<open>simp_all add: proc_inv_def take_request_def Let_def chans_def queued_def q cmd_chan_def\<close>)
  moreover have "honest_inv env ?b"
    by (rule honest_mono [of env a]) (use inv None in \<open>auto simp: proc_inv_def take_request_def Let_def\<close>)
  moreover have "table_inv ?b"
    using inv None fresh_req_id [of a]
    by (auto simp: proc_inv_def take_request_def Let_def table_inv_def zless_add1_eq)
  ultimately show ?thesis by (simp add: proc_inv_def)
next
  case (Some e)
  let ?c = "a\<lparr>queue := cs, next_req_id := next_req_id a + 1,
      pa_assigned := pa_assigned a @ [(next_req_id a, ch)],
      pa_outcomes := pa_outcomes a @ [(ch, Inl (Transport (''send: '' @ e)))]\<rparr>"
  have "honest_inv env ?c" by (rule honest_mono [of env a]) (use inv in \<open>auto simp: proc_inv_def\<close>)
  moreover have "chan_inv ?c"
    by (rule chan_inv_move [of a]) (use inv run in \<open>simp_all add: proc_inv_def chans_def queued_def q cmd_chan_def\<close>)
  ultimately have "proc_inv env opts ?c"
    using inv fresh_req_id [of a] by (auto simp: proc_inv_def ladder_inv_def table_inv_def zless_add1_eq)
  then show ?thesis
    using restart_or_stop_inv [of env opts ?c, OF _ disjI2 [OF refl]] by (simp add: take_request_def Some Let_def)
qed

lemma send_ping_inv:
  assumes "proc_inv env opts a"
  shows "proc_inv env opts (send_ping now sent_at ts ok a)"
proof -
  have "honest_inv env (send_ping now sent_at ts ok a)"
    by (rule honest_mono [of env a]) (use assms in \<open>auto simp: proc_inv_def send_ping_def Let_def split: if_splits\<close>)
  then show ?thesis
    using assms fresh_req_id [of a]
    by (auto simp: proc_inv_defs send_ping_def Let_def queued_def zless_add1_eq)
qed

lemma do_shutdown_inv:
  assumes "proc_inv env opts a" "queue a = CmdShutdown # cs"
    and d: "do_shutdown m w s1 s2 (a\<lparr>queue := cs, health := ShuttingDown\<rparr>) = (res, b)"
  shows "proc_inv env opts (stop (b\<lparr>pa_shutdown := Some res\<rparr>))"
proof -
  let ?b = "b\<lparr>pa_shutdown := Some res\<rparr>"
  from d have f: "in_flight b = in_flight a" "queue b = cs" "running b = running a" "next_chan b = next_chan a"
      "pa_outcomes b = pa_outcomes a" "ping_in_flight b = ping_in_flight a" "next_req_id b = next_req_id a"
      "pa_assigned b = pa_assigned a" "attempts b = attempts a" "boots b = boots a" "pa_slept b = pa_slept a"
      "child b = child a" "live b = live a \<or> live b = filter (\<lambda>n. n \<noteq> child a) (live a)"
    by (auto simp: do_shutdown_def Let_def reap_def split: wait_io.splits)
  from assms(1) f have b: "table_inv ?b" "ladder_inv opts (?b\<lparr>running := False\<rparr>)"
    unfolding proc_inv_def table_inv_def ladder_inv_def by auto
  moreover have "chan_inv ?b"
    by (rule chan_inv_move [of a])
      (use assms(1,2) f in \<open>auto simp: proc_inv_def chan_inv_def chans_def queued_def cmd_chan_def\<close>)
  moreover have "honest_inv env ?b"
    by (rule honest_mono [of env a])
      (use assms in \<open>auto simp: proc_inv_def do_shutdown_def Let_def reap_def split: wait_io.splits\<close>)
  moreover have "ladder_inv opts (stop ?b)" using b by (simp add: ladder_inv_def stop_def)
  ultimately show ?thesis using stop_inv(1-3) unfolding proc_inv_def by blast
qed

lemma host_task_inv: "proc_inv env opts a \<Longrightarrow> proc_inv env opts (spawn_host_fn_task env m opts mt sends t a)"
  by (simp add: spawn_host_fn_task_def Let_def proc_inv_frame split: prod.split)

lemma fail_then_restart_inv:
  "proc_inv env opts a \<Longrightarrow> proc_inv env opts (restart_or_stop env m opts id (fail_in_flight why a))"
  by (rule restart_or_stop_inv) (auto simp: proc_inv_def fail_in_flight_inv)

lemma actor_step_inv:
  assumes inv: "proc_inv env opts a" and step: "actor_step env m opts ev a = Some b"
  shows "proc_inv env opts b"
proof (cases ev)
  case (TakeCmd e w s1 s2)
  with step show ?thesis
    using take_request_inv [OF inv] do_shutdown_inv [OF inv]
    by (auto simp: Let_def split: if_splits list.splits SupervisorCmd.splits prod.splits)
next
  case (Frame v)
  moreover have "proc_inv env opts (route_incoming_frame env v (a\<lparr>pa_received := pa_received a @ [(child a, v)]\<rparr>))"
    by (rule route_inv [OF proc_inv_frame(1) [OF inv], of "child a"]) simp
  ultimately show ?thesis using step by (auto split: if_splits)
next
  case DropHandle
  with proc_inv_frame(5) [OF inv, of False] step stop_inv show ?thesis
    by (auto simp: proc_inv_def split: if_splits)
next
  case (Call mth params)
  have "honest_inv env b"
    by (rule honest_mono [of env a]) (use inv step Call in \<open>auto simp: proc_inv_def split: if_splits\<close>)
  moreover have "chan_inv b"
    by (rule chan_inv_new [of a])
      (use inv step Call in \<open>auto simp: proc_inv_def chan_inv_def chans_def queued_def cmd_chan_def split: if_splits\<close>)
  moreover have "ladder_inv opts b = ladder_inv opts a"
    using step Call by (auto simp: ladder_inv_def split: if_splits)
  moreover have "table_inv b = table_inv a"
    by (rule table_inv_cong) (use step Call in \<open>auto split: if_splits\<close>)
  ultimately show ?thesis using inv by (simp add: proc_inv_def)
next
  case CallShutdown
  have "honest_inv env b"
    by (rule honest_mono [of env a]) (use inv step CallShutdown in \<open>auto simp: proc_inv_def split: if_splits\<close>)
  moreover have "ladder_inv opts b = ladder_inv opts a" "chan_inv b = chan_inv a"
    using step CallShutdown by (auto simp: ladder_inv_def chan_inv_def queued_def cmd_chan_def split: if_splits)
  moreover have "table_inv b = table_inv a"
    by (rule table_inv_cong) (use step CallShutdown in \<open>auto split: if_splits\<close>)
  ultimately show ?thesis using inv by (simp add: proc_inv_def)
next
  case (PingDeadline now)
  with step fail_then_restart_inv [OF proc_inv_frame(3) [OF inv]] show ?thesis by (auto split: if_splits)
next
  case (HostDone i mt s)
  with step have b: "b = spawn_host_fn_task env m opts mt s (host_tasks a ! i)
      (a\<lparr>host_tasks := take i (host_tasks a) @ drop (Suc i) (host_tasks a)\<rparr>)"
    by (auto split: if_splits)
  show ?thesis unfolding b by (rule host_task_inv [OF proc_inv_frame(2) [OF inv]])
qed (use step send_ping_inv [OF inv] fail_then_restart_inv [OF inv] in \<open>auto split: if_splits\<close>)

lemma proc_reach_inv: "proc_reach env m opts a \<Longrightarrow> proc_inv env opts a"
proof (induction rule: proc_reach.induct)
  case (spawned now w a caps)
  then show ?case
    by (auto simp: spawn_def try_bind_Inr_iff proc_inv_defs queued_def honest_inv_def Let_def split: prod.splits)
next
  case (step a ev b)
  from step.IH step.hyps(2) show ?case by (rule actor_step_inv)
qed

section \<open>Properties\<close>

lemma mset_upt_distinct: "mset xs = mset [0..<n] \<Longrightarrow> distinct xs \<and> set xs = {..<n}"
  by (metis atLeast0LessThan atLeast_upt distinct_upt lessThan_atLeast0 mset_eq_imp_distinct_iff set_mset_mset)

text \<open>
  C5. Every call of \<open>request\<close> is accounted for: at any moment each caller is waiting (its command
  queued or its number in flight) or has its one answer, never both and never two, and once
  the actor has stopped nobody waits.
\<close>

theorem proc_one_answer_per_call:
  assumes "proc_reach env m opts a"
  shows "distinct (map fst (pa_outcomes a)) \<and>
    fst ` set (pa_outcomes a) \<union> (snd ` set (in_flight a) \<union> set (queued a)) = {..<next_chan a} \<and>
    fst ` set (pa_outcomes a) \<inter> (snd ` set (in_flight a) \<union> set (queued a)) = {} \<and>
    (\<not> running a \<longrightarrow> fst ` set (pa_outcomes a) = {..<next_chan a})"
proof -
  have inv: "chan_inv a" using proc_reach_inv [OF assms] by (simp add: proc_inv_def)
  then have "distinct (map snd (in_flight a) @ queued a @ map fst (pa_outcomes a))"
    "set (map snd (in_flight a) @ queued a @ map fst (pa_outcomes a)) = {..<next_chan a}"
    unfolding chan_inv_def by (blast dest: mset_upt_distinct)+
  with inv show ?thesis by (auto simp: chan_inv_def queued_def)
qed

text \<open>
  A caller that gets a result gets its own: some child sent a frame with the number this very
  call was given, without an error object, and the result is what that frame carries.
\<close>

theorem proc_answers_are_its_own:
  assumes "proc_reach env m opts a" "(ch, Inr v) \<in> set (pa_outcomes a)"
  shows "\<exists>rid n f. (rid, ch) \<in> set (pa_assigned a) \<and> (n, f) \<in> set (pa_received a) \<and>
    Option.bind (json_get f ''id'') json_as_i64 = Some rid \<and> response_outcome env f = Inr v \<and>
    (\<forall>ch'. (rid, ch') \<in> set (pa_assigned a) \<longrightarrow> ch' = ch)"
proof -
  have inv: "table_inv a" "honest_inv env a" using proc_reach_inv [OF assms(1)] by (simp_all add: proc_inv_def)
  from inv(2) assms(2) obtain rid n f where f: "(rid, ch) \<in> set (pa_assigned a)" "(n, f) \<in> set (pa_received a)"
    "answers env f rid v"
    unfolding honest_inv_def by blast
  have "distinct (map fst (pa_assigned a))" using inv(1) by (simp add: table_inv_def)
  with f show ?thesis by (auto simp: answers_def dest: eq_key_imp_eq_value)
qed

lemma unat_backoff: "n \<le> 57 \<Longrightarrow> unat (backoff n) = 100 * 2 ^ n"
proof -
  assume "n \<le> 57"
  then have "100 * 2 ^ n \<le> (100 * 2 ^ 57 :: nat)"
    using power_increasing [of n 57 "2 :: nat"] by simp
  then have "take_bit 64 (push_bit n 100) = (100 * 2 ^ n :: nat)"
    by (simp add: push_bit_eq_mult take_bit_nat_eq_self_iff)
  then show ?thesis by (simp add: backoff_def BACKOFF_BASE_MS_def unsigned_push_bit_eq)
qed

lemma backoff_sum: "k \<le> 58 \<Longrightarrow> sum_list (map (unat \<circ> backoff) [0..<k]) = 100 * (2 ^ k - 1)"
  by (induction k) (simp_all add: unat_backoff algebra_simps)

text \<open>
  The ladder is bounded over the whole life of a supervisor: at most \<open>max_restart_attempts\<close>
  children are started after the first one, never two run at once, and the time slept is that
  of the doubling backoff, under \<open>100 (2 ^ max - 1)\<close> milliseconds when the shift cannot overflow.
\<close>

theorem restart_ladder_bounded:
  assumes "proc_reach env m opts a" "max_restart_attempts opts \<le> 58"
  shows "attempts a \<le> max_restart_attempts opts \<and> boots a \<le> Suc (max_restart_attempts opts) \<and> length (live a) \<le> 1 \<and>
    sum_list (map unat (pa_slept a)) \<le> 100 * (2 ^ max_restart_attempts opts - 1)"
proof -
  have inv: "ladder_inv opts a" using proc_reach_inv [OF assms(1)] by (simp add: proc_inv_def)
  then have "sum_list (map unat (pa_slept a)) = 100 * (2 ^ attempts a - 1)"
    using backoff_sum [of "attempts a"] assms(2) by (simp add: ladder_inv_def comp_def)
  moreover have "2 ^ attempts a - 1 \<le> (2 :: nat) ^ max_restart_attempts opts - 1"
    using inv by (intro diff_le_mono power_increasing) (simp_all add: ladder_inv_def)
  ultimately show ?thesis
    using inv by (auto simp: ladder_inv_def)
qed

text \<open>
  One call of the ladder ends, and ends well when it can: it keeps going exactly when one of
  the attempts left would start a child that completes the handshake, the child it takes is
  the first such one, and otherwise all attempts are spent and the supervisor is parked.
\<close>

theorem restart_takes_first_child:
  assumes "proc_reach env m opts a" "restart_if_attempts_remain env m opts a = (ok, b)"
  shows "(ok \<longleftrightarrow> (\<exists>n. boots a \<le> n \<and> n < boots a + (max_restart_attempts opts - attempts a) \<and> boots_ok env m opts n)) \<and>
    (if ok then child b = (LEAST n. boots a \<le> n \<and> boots_ok env m opts n) \<and> health b = ProcReady \<and> live b = [child b]
     else attempts b = max_restart_attempts opts \<and> live b = [] \<and>
       (\<exists>why. health b = Unhealthy (max_restart_attempts opts) why))"
proof -
  have "ladder_inv opts a" using proc_reach_inv [OF assms(1)] by (simp add: proc_inv_def)
  then have e: "ladder_end env m opts a (ok, b)"
    using restart_ladder [of a opts env m] assms(2) by (auto simp: ladder_inv_def)
  show ?thesis
  proof (cases ok)
    case True
    with e have "boots_ok env m opts (child b)" "boots a \<le> child b"
      "\<And>n. boots a \<le> n \<Longrightarrow> boots_ok env m opts n \<Longrightarrow> child b \<le> n"
      by (auto simp: ladder_end_def not_less [symmetric])
    then have "(LEAST n. boots a \<le> n \<and> boots_ok env m opts n) = child b"
      by (intro Least_equality) auto
    moreover have "child b < boots a + (max_restart_attempts opts - attempts a)"
      using e True by (auto simp: ladder_end_def climbed_def)
    ultimately show ?thesis using e True by (auto simp: ladder_end_def)
  next
    case False
    with e show ?thesis by (auto simp: ladder_end_def)
  qed
qed

lemma restart_or_stop_running:
  assumes "ladder_inv opts c" "running (restart_or_stop env m opts f c)"
  shows "ladder_end env m opts c (True, restart_or_stop env m opts f c)"
proof -
  obtain ok d where r: "restart_if_attempts_remain env m opts c = (ok, d)" by fastforce
  have "ladder_end env m opts c (ok, d)"
    using restart_ladder [of c opts env m] assms(1) r by (auto simp: ladder_inv_def)
  with assms(2) r show ?thesis by (cases ok) (simp_all add: restart_or_stop_def stop_def)
qed

lemma restart_or_stop_kills:
  assumes "ladder_inv opts c" "running c"
  shows "child c \<notin> set (live (restart_or_stop env m opts id c))"
proof -
  obtain ok d where r: "restart_if_attempts_remain env m opts c = (ok, d)" by fastforce
  have "ladder_end env m opts c (ok, d)"
    using restart_ladder [of c opts env m] assms(1) r by (auto simp: ladder_inv_def)
  with assms r show ?thesis
    by (cases ok) (auto simp: restart_or_stop_def stop_def ladder_end_def ladder_inv_def)
qed

lemma waiting_unanswered:
  assumes "proc_reach env m opts b" "(rid, ch) \<in> set (in_flight b)"
  shows "ch \<notin> fst ` set (pa_outcomes b)"
proof -
  have "chan_inv b" using proc_reach_inv [OF assms(1)] by (simp add: proc_inv_def)
  then have "distinct (map snd (in_flight b) @ queued b @ map fst (pa_outcomes b))"
    unfolding chan_inv_def by (blast dest: mset_upt_distinct)
  then show ?thesis using assms(2) by (force simp: image_iff)
qed



text \<open>
  The options name a per-request reply budget, but no arm of the actor uses it: as long as the
  child answers its pings, a request it does not answer waits, for any number of rounds of the
  ping and so past any budget.
\<close>

lemma json_i64_inv: "0 \<le> i \<Longrightarrow> i < 2 ^ 63 \<Longrightarrow> json_as_i64 (json_i64 i) = Some i"
  by (simp add: json_i64_def unsigned_of_int take_bit_int_eq_self)

definition pong :: "int \<Rightarrow> json" where
  "pong rid = JObject [(''jsonrpc'', JString JSONRPC_VERSION), (''id'', json_i64 rid), (''result'', JNull)]"

lemma ping_round:
  assumes a: "proc_reach env m opts a" "running a" "queue a = []" "ping_in_flight a = None" "next_req_id a < 2 ^ 63"
  shows "\<exists>b. proc_reach env m opts b \<and> running b \<and> queue b = [] \<and> ping_in_flight b = None \<and>
    in_flight b = in_flight a \<and> child b = child a \<and> next_req_id b = next_req_id a + 1 \<and>
    last_ping b = last_ping a + ping_interval opts"
proof -
  let ?t = "last_ping a + ping_interval opts" and ?rid = "next_req_id a"
  have "2 \<le> ?rid" using proc_reach_inv [OF a(1)] by (simp add: proc_inv_def table_inv_def)
  then have id: "json_as_i64 (json_i64 ?rid) = Some ?rid" using a(5) by (intro json_i64_inv) simp_all
  let ?b = "send_ping ?t ?t 0 True a"
  have b: "proc_reach env m opts ?b"
    by (rule proc_reach.step [OF a(1), of "PingDue ?t ?t 0 True"]) (use a in simp)
  let ?c = "route_incoming_frame env (pong ?rid) (?b\<lparr>pa_received := pa_received ?b @ [(child ?b, pong ?rid)]\<rparr>)"
  have c: "?c = ?b\<lparr>pa_received := pa_received ?b @ [(child ?b, pong ?rid)], ping_in_flight := None\<rparr>"
    using id by (simp add: route_incoming_frame_def plugin_request_def pong_def send_ping_def Let_def)
  have "proc_reach env m opts ?c"
    by (rule proc_reach.step [OF b, of "Frame (pong ?rid)"]) (use a in \<open>simp add: send_ping_def Let_def\<close>)
  with a show ?thesis unfolding c
    by (intro exI [of _ "?b\<lparr>pa_received := pa_received ?b @ [(child ?b, pong ?rid)], ping_in_flight := None\<rparr>"])
      (simp add: send_ping_def Let_def)
qed

lemma ping_rounds:
  assumes "proc_reach env m opts a" "running a" "queue a = []" "ping_in_flight a = None" "next_req_id a + int n \<le> 2 ^ 63"
  shows "\<exists>b. proc_reach env m opts b \<and> running b \<and> queue b = [] \<and> ping_in_flight b = None \<and>
    in_flight b = in_flight a \<and> child b = child a \<and> next_req_id b = next_req_id a + int n \<and>
    last_ping b = last_ping a + n * ping_interval opts"
  using assms
proof (induction n)
  case (Suc n)
  then obtain b where b: "proc_reach env m opts b" "running b" "queue b = []" "ping_in_flight b = None"
    "in_flight b = in_flight a" "child b = child a" "next_req_id b = next_req_id a + int n"
    "last_ping b = last_ping a + n * ping_interval opts"
    by force
  with Suc.prems ping_round [OF b(1-4)] show ?case by (force simp: algebra_simps)
qed (use assms in auto)

theorem unanswered_request_never_times_out:
  assumes "proc_reach env m opts a" "running a" "queue a = []" "ping_in_flight a = None"
    "(rid, ch) \<in> set (in_flight a)" "next_req_id a + int n \<le> 2 ^ 63"
  shows "\<exists>b. proc_reach env m opts b \<and> (rid, ch) \<in> set (in_flight b) \<and> ch \<notin> fst ` set (pa_outcomes b) \<and>
    child b = child a \<and> last_ping b = last_ping a + n * ping_interval opts"
proof -
  from ping_rounds [OF assms(1-4,6)] obtain b where b: "proc_reach env m opts b" "in_flight b = in_flight a"
    "child b = child a" "last_ping b = last_ping a + n * ping_interval opts"
    by blast
  moreover from b(2) assms(5) have "(rid, ch) \<in> set (in_flight b)" by simp
  moreover from this have "ch \<notin> fst ` set (pa_outcomes b)" by (rule waiting_unanswered [OF b(1)])
  ultimately show ?thesis by blast
qed

lemma host_task_world:
  "granted m (host_world a) (host_world (spawn_host_fn_task env m opts mt sends t a)) \<and>
   (so_host_ctx opts = None \<longrightarrow> host_world (spawn_host_fn_task env m opts mt sends t a) = host_world a)"
proof (cases "so_host_ctx opts")
  case None
  then show ?thesis by (simp add: spawn_host_fn_task_def build_host_fn_reply_def Let_def)
next
  case (Some ctx)
  show ?thesis
    using dispatch_granted [of m "host_world a" "pe_glob env" mt _ _ ctx]
    by (simp add: spawn_host_fn_task_def build_host_fn_reply_def Some Let_def case_prod_beta split: sum.split prod.split)
qed

lemma restart_or_stop_world:
  assumes "ladder_inv opts c" "f = id \<or> f = fail_in_flight why"
  shows "host_world (restart_or_stop env m opts f c) = host_world c"
proof -
  obtain ok d where r: "restart_if_attempts_remain env m opts c = (ok, d)" by fastforce
  have "ladder_end env m opts c (ok, d)"
    using restart_ladder [of c opts env m] assms(1) r by (auto simp: ladder_inv_def)
  with assms(2) r show ?thesis
    by (auto simp: ladder_end_def climbed_def same_rung_def restart_or_stop_def stop_def fail_in_flight_def
        split: bool.split)
qed

text \<open>
  C30. Whatever the plugin sends and whenever its tasks run, one step of the supervised system
  changes the world only as the manifest grants; without a host context it changes nothing.
\<close>

theorem supervised_effects_need_grants:
  assumes "proc_reach env m opts a" "actor_step env m opts ev a = Some b"
  shows "granted m (host_world a) (host_world b) \<and> (so_host_ctx opts = None \<longrightarrow> host_world b = host_world a)"
proof -
  have inv: "ladder_inv opts a" using proc_reach_inv [OF assms(1)] by (simp add: proc_inv_def)
  have same: ?thesis if "host_world b = host_world a" using that by simp
  show ?thesis
  proof (cases ev)
    case (TakeCmd e w s1 s2)
    have "host_world (take_request env m opts e mth params ch (a\<lparr>queue := cs\<rparr>)) = host_world a" for mth params ch cs
      using inv by (cases e) (auto simp: take_request_def Let_def ladder_inv_def intro: restart_or_stop_world [THEN trans])
    moreover have "do_shutdown m w s1 s2 c = (res, d) \<Longrightarrow> host_world d = host_world c" for c res d
      by (auto simp: do_shutdown_def Let_def reap_def split: wait_io.splits)
    ultimately show ?thesis
      using assms(2) TakeCmd
      by (intro same) (force simp: stop_def split: if_splits list.splits SupervisorCmd.splits prod.splits)
  next
    case (Frame v)
    with assms(2) show ?thesis
      by (intro same) (auto simp: route_incoming_frame_def split: if_splits option.splits)
  next
    case EofOrError
    with assms(2) restart_or_stop_world [OF fail_in_flight_inv(4) [OF inv], of id] show ?thesis
      by (intro same) (auto simp: fail_in_flight_def split: if_splits)
  next
    case (PingDeadline t)
    have "ladder_inv opts (a\<lparr>ping_in_flight := None\<rparr>)" using inv by (simp add: ladder_inv_def)
    note restart_or_stop_world [OF fail_in_flight_inv(4) [OF this], of id]
    with PingDeadline assms(2) show ?thesis
      by (intro same) (auto simp: fail_in_flight_def split: if_splits)
  next
    case (HostDone i mt s)
    with assms(2) have b: "b = spawn_host_fn_task env m opts mt s (host_tasks a ! i)
        (a\<lparr>host_tasks := take i (host_tasks a) @ drop (Suc i) (host_tasks a)\<rparr>)"
      by (auto split: if_splits)
    show ?thesis using host_task_world [of m "a\<lparr>host_tasks := _\<rparr>"] unfolding b by simp
  qed (use assms(2) in \<open>auto simp: send_ping_def stop_def Let_def split: if_splits\<close>)
qed

section \<open>Concrete runs\<close>

text \<open>A plugin whose every child starts and answers the handshake with API version 1.\<close>

definition init_reply :: json where
  "init_reply = JObject [(''jsonrpc'', JString ''2.0''), (''id'', json_i64 1),
     (''result'', JObject [(''api'', JString ''1'')])]"

definition good_env :: proc_env where
  "good_env = \<lparr>pe_spawn = (\<lambda>_. Forked), pe_init = (\<lambda>_. InitReply init_reply), pe_de = (\<lambda>_. []), pe_row = (\<lambda>_. []),
     pe_show = (\<lambda>_. []), pe_dbg = id, pe_dbg_opt = (\<lambda>_. []), pe_display = (\<lambda>_. []), pe_glob = (\<lambda>_. None)\<rparr>"

definition good_opts :: SpawnOpts where
  "good_opts = SpawnOpts_new ''1.0'' ''/run/p''"

definition no_world :: HostWorld where
  "no_world = \<lparr>hw_files = Map.empty, hw_notify_open = False, hw_notified = [], hw_preview = None, hw_spawned = []\<rparr>"

definition good_start :: Actor where
  "good_start = \<lparr>next_req_id = 2, in_flight = [], attempts = 0, last_ping = 0, ping_in_flight = None,
     health = ProcReady, child = 0, running = True, handle = True, queue = [], host_tasks = [], host_world = no_world,
     next_chan = 0, boots = 1, live = [0], pa_outcomes = [], pa_shutdown = None,
     pa_sent = [(0, initialize_request good_opts)], pa_received = [], pa_assigned = [], pa_slept = []\<rparr>"

lemma good_handshake:
  "\<exists>caps. perform_handshake good_env demo_manifest good_opts n = ([initialize_request good_opts], Inr caps)"
  by (simp add: perform_handshake_def good_env_def handshake_reply_def init_reply_def RpcResponse_from_value_def
      req_field_def opt_field_def json_i64_def parse_initialize_result_def good_opts_def SpawnOpts_new_def
      parse_capabilities_def cross_check_capabilities_def)

lemma good_boot: "boot_child good_env n = Inr ()"
  by (simp add: boot_child_def good_env_def)

lemma good_spawn: "\<exists>caps. spawn good_env demo_manifest good_opts 0 no_world = Inr (good_start, caps)"
  using good_handshake [of 0] by (auto simp: spawn_def good_boot good_start_def)

lemma good_max: "max_restart_attempts good_opts = 3"
  by (simp add: good_opts_def SpawnOpts_new_def MAX_RESTART_ATTEMPTS_def)

lemma good_restart:
  "attempts a < 3 \<Longrightarrow> restart_if_attempts_remain good_env demo_manifest good_opts a = (True, (reap a)\<lparr>
     attempts := Suc (attempts a), pa_slept := pa_slept a @ [backoff (attempts a)],
     boots := Suc (boots a), live := boots a # live (reap a),
     pa_sent := pa_sent a @ [(boots a, initialize_request good_opts)], child := boots a, health := ProcReady\<rparr>)"
  using good_handshake [of "boots a"]
  by (auto simp: restart_if_attempts_remain.simps [of _ _ _ a] good_max good_boot Let_def reap_def)

fun actor_run :: "proc_env \<Rightarrow> Manifest \<Rightarrow> SpawnOpts \<Rightarrow> event list \<Rightarrow> Actor \<Rightarrow> Actor option" where
  "actor_run env m opts [] a = Some a"
| "actor_run env m opts (e # es) a = Option.bind (actor_step env m opts e a) (actor_run env m opts es)"

lemma actor_run_reach: "proc_reach env m opts a \<Longrightarrow> actor_run env m opts es a = Some b \<Longrightarrow> proc_reach env m opts b"
  by (induction es arbitrary: a) (auto simp: bind_eq_Some_conv intro: proc_reach.step)

lemma good_run: "actor_run good_env demo_manifest good_opts es good_start = Some b \<Longrightarrow>
   proc_reach good_env demo_manifest good_opts b"
  using good_spawn proc_reach.spawned actor_run_reach by blast

definition ok_frame :: json where
  "ok_frame = JObject [(''jsonrpc'', JString ''2.0''), (''id'', json_i64 2), (''result'', JString ''ok'')]"

lemma ok_frame_facts: "\<not> plugin_request ok_frame" "Option.bind (json_get ok_frame ''id'') json_as_i64 = Some 2"
  "response_outcome good_env ok_frame = Inr (JString ''ok'')"
  by (simp_all add: ok_frame_def plugin_request_def json_i64_inv response_outcome_def RpcResponse_from_value_def
      req_field_def opt_field_def)

text \<open>After one call was written; after its answer; after a second call was queued behind it.\<close>

definition called :: Actor where
  "called = good_start\<lparr>next_chan := 1, next_req_id := 3, pa_assigned := [(2, 0)], in_flight := [(2, 0)],
     pa_sent := [(0, initialize_request good_opts), (0, request_value 2 ''preview'' JNull)]\<rparr>"

definition answered :: Actor where
  "answered = called\<lparr>in_flight := [], pa_received := [(0, ok_frame)], pa_outcomes := [(0, Inr (JString ''ok''))]\<rparr>"

lemma called_reach: "proc_reach good_env demo_manifest good_opts called"
  by (rule good_run [of "[Call ''preview'' JNull, TakeCmd None WaitOk True True]"])
    (simp add: good_start_def called_def CMD_CHANNEL_DEPTH_def take_request_def Let_def)

lemma answered_reach: "proc_reach good_env demo_manifest good_opts answered"
  by (rule proc_reach.step [OF called_reach, of "Frame ok_frame"])
    (simp add: called_def good_start_def answered_def route_incoming_frame_def ok_frame_facts)

lemma queued_reach: "proc_reach good_env demo_manifest good_opts
     (called\<lparr>next_chan := 2, queue := [CmdRequest ''x'' JNull 1]\<rparr>)"
  by (rule proc_reach.step [OF called_reach, of "Call ''x'' JNull"])
    (simp add: called_def good_start_def CMD_CHANNEL_DEPTH_def)

lemma pinged_reach: "proc_reach good_env demo_manifest good_opts (send_ping 30000 30000 0 True called)"
  by (rule proc_reach.step [OF called_reach, of "PingDue 30000 30000 0 True"])
    (simp add: called_def good_start_def good_opts_def SpawnOpts_new_def DEFAULT_PING_INTERVAL_def)

theorem proc_one_answer_per_call_witness:
  "fst ` set (pa_outcomes answered) \<union> (snd ` set (in_flight answered) \<union> set (queued answered)) = {..<1} \<and>
   pa_outcomes answered = [(0, Inr (JString ''ok''))]"
  using proc_one_answer_per_call [OF answered_reach] by (simp add: answered_def called_def)

theorem proc_answers_are_its_own_witness:
  "\<exists>rid n f. (rid, 0) \<in> set (pa_assigned answered) \<and> (n, f) \<in> set (pa_received answered) \<and>
     response_outcome good_env f = Inr (JString ''ok'')"
  using proc_answers_are_its_own [OF answered_reach, of 0 "JString ''ok''"]
  by (auto simp: answered_def)

theorem restart_ladder_bounded_witness:
  "attempts called \<le> 3 \<and> boots called \<le> 4 \<and> length (live called) \<le> 1 \<and> sum_list (map unat (pa_slept called)) \<le> 700"
  using restart_ladder_bounded [OF called_reach] by (simp add: good_max)

theorem restart_takes_first_child_witness:
  "\<exists>b. restart_if_attempts_remain good_env demo_manifest good_opts called = (True, b) \<and> child b = 1 \<and>
     child b = (LEAST n. boots called \<le> n \<and> boots_ok good_env demo_manifest good_opts n)"
proof -
  have "attempts called < 3" by (simp add: called_def good_start_def)
  note r = good_restart [OF this]
  from restart_takes_first_child [OF called_reach r] r show ?thesis
    by (simp add: called_def good_start_def reap_def)
qed



theorem unanswered_request_never_times_out_witness:
  "\<exists>b. proc_reach good_env demo_manifest good_opts b \<and> (2, 0) \<in> set (in_flight b) \<and> child b = 0 \<and>
     last_ping b = 3000000"
proof -
  have "running called" "queue called = []" "ping_in_flight called = None" "(2, 0) \<in> set (in_flight called)"
    "next_req_id called + int 100 \<le> 2 ^ 63"
    by (simp_all add: called_def good_start_def)
  from unanswered_request_never_times_out [OF called_reach this] show ?thesis
    by (simp add: called_def good_start_def good_opts_def SpawnOpts_new_def DEFAULT_PING_INTERVAL_def) blast
qed


text \<open>A plugin that asks the host for something, supervised without a host context.\<close>

theorem supervised_effects_need_grants_witness:
  "\<exists>a b. proc_reach good_env demo_manifest good_opts a \<and>
     actor_step good_env demo_manifest good_opts (HostDone 0 0 True) a = Some b \<and> host_world b = no_world"
proof -
  let ?v = "JObject [(''id'', json_i64 1), (''method'', JString ''host.exec.run'')]"
  let ?a = "called\<lparr>pa_received := [(0, ?v)], host_tasks := [(0, ?v)]\<rparr>"
  have a: "proc_reach good_env demo_manifest good_opts ?a"
    by (rule proc_reach.step [OF called_reach, of "Frame ?v"])
      (simp add: called_def good_start_def route_incoming_frame_def plugin_request_def json_i64_def)
  obtain b where b: "actor_step good_env demo_manifest good_opts (HostDone 0 0 True) ?a = Some b" by simp
  have "so_host_ctx good_opts = None" "host_world ?a = no_world"
    by (simp_all add: good_opts_def SpawnOpts_new_def called_def good_start_def)
  with supervised_effects_need_grants [OF a b] have "host_world b = no_world" by simp
  with a b show ?thesis by blast
qed

end
