(* ===== verification/Plugin_Registry.thy ===== *)
theory Plugin_Registry
  imports Plugin_Manifest Btree_Map Paths
begin

text \<open>
  Discovery and dispatch of plugins (\<open>plugin/registry.rs\<close>): the roots by environment, the
  scan of each root, the disabled list, the flat index of capability rows and the choice of a
  plugin for a file. The environment, the directory listings and the readable files are the
  record \<open>reg_env\<close>; TOML and globs are parameters, as for the manifest.
\<close>

section \<open>Data\<close>

datatype CapKind = Previewer | Opener | Action | Fetcher | Indexer | Cmdbar

definition from_manifest_kind :: "string \<Rightarrow> CapKind option" where
  "from_manifest_kind s =
     (if s = ''previewer'' then Some Previewer
      else if s = ''opener'' then Some Opener
      else if s = ''action'' then Some Action
      else if s = ''fetcher'' then Some Fetcher
      else if s = ''indexer'' then Some Indexer
      else if s = ''cmdbar'' then Some Cmdbar
      else None)"

record IndexEntry =
  ie_plugin :: string
  ie_kind :: CapKind
  ie_url :: "(string \<Rightarrow> bool) option"
  ie_mime :: "(string \<Rightarrow> bool) option"

record Registry =
  rg_manifests :: "(string \<times> Manifest) list"
  rg_dirs :: "(string \<times> string) list"
  rg_index :: "IndexEntry list"

record reg_env =
  var_os :: "string \<Rightarrow> string option"
  read_dir :: "string \<Rightarrow> string list option"
  read_file :: "string \<Rightarrow> string option"
  is_file :: "string \<Rightarrow> bool"

definition Registry_empty :: Registry where
  "Registry_empty = \<lparr>rg_manifests = [], rg_dirs = [], rg_index = []\<rparr>"

section \<open>Selection\<close>

definition hits :: "(string \<Rightarrow> bool) option \<Rightarrow> string \<Rightarrow> bool" where
  "hits g s \<longleftrightarrow> (case g of None \<Rightarrow> False | Some p \<Rightarrow> p s)"

definition better :: "IndexEntry \<Rightarrow> IndexEntry option \<Rightarrow> bool" where
  "better e cur \<longleftrightarrow> (case cur of None \<Rightarrow> True | Some c \<Rightarrow> ie_plugin e < ie_plugin c)"

definition select_step ::
  "string \<Rightarrow> string \<Rightarrow> IndexEntry \<Rightarrow> IndexEntry option \<times> IndexEntry option \<Rightarrow> IndexEntry option \<times> IndexEntry option" where
  "select_step mime url e s =
     (if hits (ie_url e) url \<and> better e (fst s) then (Some e, snd s)
      else if hits (ie_mime e) mime \<and> better e (snd s) then (fst s, Some e)
      else s)"

definition select_for :: "Registry \<Rightarrow> CapKind \<Rightarrow> string \<Rightarrow> string \<Rightarrow> string option" where
  "select_for r kind mime url =
     (let (u, m) = fold (select_step mime url) (filter (\<lambda>e. ie_kind e = kind) (rg_index r)) (None, None)
      in map_option ie_plugin (case u of Some e \<Rightarrow> Some e | None \<Rightarrow> m))"

section \<open>Discovery\<close>

definition xdg_data_plugins_dir :: "reg_env \<Rightarrow> string option" where
  "xdg_data_plugins_dir env =
     (case var_os env ''XDG_DATA_HOME'' of
        Some d \<Rightarrow> Some (path_push (path_push d ''sy'') ''plugins'')
      | None \<Rightarrow> map_option (\<lambda>home. foldl path_push home [''.local'', ''share'', ''sy'', ''plugins''])
                  (var_os env ''HOME''))"

definition resolve_roots :: "reg_env \<Rightarrow> string list" where
  "resolve_roots env =
     (case var_os env ''SY_PLUGIN_DIR'' of
        Some p \<Rightarrow> [p]
      | None \<Rightarrow> [''/usr/share/sy/configs/sy/plugins'', ''configs/sy/plugins''] @
          (case xdg_data_plugins_dir env of None \<Rightarrow> [] | Some home \<Rightarrow> [home]))"

definition load_manifest_file ::
  "(string \<Rightarrow> Manifest option) \<Rightarrow> glob \<Rightarrow> reg_env \<Rightarrow> string \<Rightarrow> Manifest option" where
  "load_manifest_file toml glob env path =
     (case read_file env path of
        None \<Rightarrow> None
      | Some src \<Rightarrow> (case manifest_load toml glob src of Inl _ \<Rightarrow> None | Inr m \<Rightarrow> Some m))"

type_synonym found = "(string \<times> Manifest) list \<times> (string \<times> string) list"

definition scan_entry :: "(string \<Rightarrow> Manifest option) \<Rightarrow> glob \<Rightarrow> reg_env \<Rightarrow> string \<Rightarrow> found \<Rightarrow> found" where
  "scan_entry toml glob env dir s =
     (let path = path_push dir ''plugin.toml'' in
      if \<not> is_file env path then s
      else case load_manifest_file toml glob env path of
        None \<Rightarrow> s
      | Some m \<Rightarrow> (bt_insert (pm_id (mf_plugin m)) m (fst s), bt_insert (pm_id (mf_plugin m)) dir (snd s)))"

definition scan_root :: "(string \<Rightarrow> Manifest option) \<Rightarrow> glob \<Rightarrow> reg_env \<Rightarrow> string \<Rightarrow> found \<Rightarrow> found" where
  "scan_root toml glob env root s =
     (case read_dir env root of
        None \<Rightarrow> s
      | Some entries \<Rightarrow> fold (scan_entry toml glob env) (map (path_push root) entries) s)"

definition disabled_toml_path :: "reg_env \<Rightarrow> string option" where
  "disabled_toml_path env =
     (case var_os env ''SY_PLUGIN_DISABLED_TOML'' of
        Some p \<Rightarrow> Some p
      | None \<Rightarrow>
          (case var_os env ''XDG_STATE_HOME'' of
             Some d \<Rightarrow> Some (foldl path_push d [''sy'', ''plugin'', ''disabled.toml''])
           | None \<Rightarrow> map_option (\<lambda>home. foldl path_push home
               [''.local'', ''state'', ''sy'', ''plugin'', ''disabled.toml'']) (var_os env ''HOME'')))"

definition load_disabled_set :: "(string \<Rightarrow> string list option) \<Rightarrow> reg_env \<Rightarrow> string set" where
  "load_disabled_set toml_disabled env =
     (case disabled_toml_path env of
        None \<Rightarrow> {}
      | Some p \<Rightarrow>
          (case read_file env p of
             None \<Rightarrow> {}
           | Some src \<Rightarrow> (case toml_disabled src of None \<Rightarrow> {} | Some ids \<Rightarrow> set ids)))"

definition compile_or_warn :: "glob \<Rightarrow> string option \<Rightarrow> (string \<Rightarrow> bool) option" where
  "compile_or_warn glob raw = Option.bind raw glob"

definition cap_entry :: "glob \<Rightarrow> string \<Rightarrow> Capability \<Rightarrow> IndexEntry option" where
  "cap_entry glob pid c =
     map_option (\<lambda>k. \<lparr>ie_plugin = pid, ie_kind = k, ie_url = compile_or_warn glob (cap_url c),
         ie_mime = compile_or_warn glob (cap_mime c)\<rparr>) (from_manifest_kind (cap_kind c))"

definition build_index :: "glob \<Rightarrow> (string \<times> Manifest) list \<Rightarrow> IndexEntry list" where
  "build_index glob ms = concat (map (\<lambda>(pid, m). List.map_filter (cap_entry glob pid) (mf_capabilities m)) ms)"

definition discover ::
  "(string \<Rightarrow> Manifest option) \<Rightarrow> (string \<Rightarrow> string list option) \<Rightarrow> glob \<Rightarrow> reg_env \<Rightarrow> Registry" where
  "discover toml toml_disabled glob env =
     (let disabled = load_disabled_set toml_disabled env;
          (ms, ds) = fold (scan_root toml glob env) (resolve_roots env) ([], []);
          ms1 = filter (\<lambda>e. fst e \<notin> disabled) ms;
          ds1 = filter (\<lambda>e. fst e \<notin> disabled) ds
      in \<lparr>rg_manifests = ms1, rg_dirs = ds1, rg_index = build_index glob ms1\<rparr>)"

section \<open>Selection against its specification\<close>

text \<open>The documented rule: the smallest id with a matching URL glob, else with a matching MIME glob.\<close>

definition least_id :: "IndexEntry list \<Rightarrow> string option" where
  "least_id es = (if es = [] then None else Some (Min (ie_plugin ` set es)))"

definition select_spec :: "IndexEntry list \<Rightarrow> string \<Rightarrow> string \<Rightarrow> string option" where
  "select_spec es mime url =
     (case least_id (filter (\<lambda>e. hits (ie_url e) url) es) of
        Some i \<Rightarrow> Some i
      | None \<Rightarrow> least_id (filter (\<lambda>e. hits (ie_mime e) mime) es))"

lemma least_id_snoc:
  "least_id (es @ [e]) = Some (case least_id es of None \<Rightarrow> ie_plugin e | Some i \<Rightarrow> min i (ie_plugin e))"
  by (simp add: least_id_def Min_insert min.commute)

lemma select_fold:
  "let (u, m) = fold (select_step mime url) es (None, None) in
     map_option ie_plugin u = least_id (filter (\<lambda>e. hits (ie_url e) url) es) \<and>
     (u = None \<longrightarrow> map_option ie_plugin m = least_id (filter (\<lambda>e. hits (ie_mime e) mime) es))"
proof (induction es rule: rev_induct)
  case Nil
  then show ?case by (simp add: least_id_def)
next
  case (snoc e es)
  obtain u m where f: "fold (select_step mime url) es (None, None) = (u, m)" by fastforce
  have u: "map_option ie_plugin u = least_id (filter (\<lambda>e. hits (ie_url e) url) es)"
    and m: "u = None \<Longrightarrow> map_option ie_plugin m = least_id (filter (\<lambda>e. hits (ie_mime e) mime) es)"
    using snoc f by simp_all
  have step: "fold (select_step mime url) (es @ [e]) (None, None) = select_step mime url e (u, m)"
    by (simp add: f)
  show ?case
  proof (cases "hits (ie_url e) url")
    case True
    with u [symmetric] show ?thesis unfolding step
      by (cases u) (auto simp: select_step_def better_def least_id_snoc min_def)
  next
    case False
    show ?thesis
    proof (cases u)
      case None
      from m [OF this, symmetric] False None u show ?thesis unfolding step
        by (cases m) (auto simp: select_step_def better_def least_id_snoc min_def)
    next
      case (Some c)
      with False u show ?thesis unfolding step by (auto simp: select_step_def)
    qed
  qed
qed

lemma select_for_eq_spec:
  "select_for r kind mime url = select_spec (filter (\<lambda>e. ie_kind e = kind) (rg_index r)) mime url"
proof -
  let ?es = "filter (\<lambda>e. ie_kind e = kind) (rg_index r)"
  obtain u m where f: "fold (select_step mime url) ?es (None, None) = (u, m)" by fastforce
  have "map_option ie_plugin u = least_id (filter (\<lambda>e. hits (ie_url e) url) ?es)"
    "u = None \<Longrightarrow> map_option ie_plugin m = least_id (filter (\<lambda>e. hits (ie_mime e) mime) ?es)"
    using select_fold [of mime url ?es] by (simp_all add: f)
  then show ?thesis
    unfolding select_for_def f select_spec_def by (cases u) (auto simp: Let_def split: option.splits)
qed


text \<open>
  C21. The single pass of \<open>select_for\<close> computes the documented rule for any order of the index: a
  plugin whose URL glob matches beats every plugin whose MIME glob matches, and among equals
  the smallest id wins.
\<close>

theorem select_for_meets_rule:
  "select_for r kind mime url = select_spec (filter (\<lambda>e. ie_kind e = kind) (rg_index r)) mime url"
  by (rule select_for_eq_spec)

section \<open>What discovery finds\<close>

text \<open>The manifests that load, with their directories, in the order the scan meets them.\<close>

definition manifest_id :: "Manifest \<Rightarrow> string" where
  "manifest_id m = pm_id (mf_plugin m)"

definition loaded_at :: "(string \<Rightarrow> Manifest option) \<Rightarrow> glob \<Rightarrow> reg_env \<Rightarrow> string \<Rightarrow> (string \<times> Manifest) list" where
  "loaded_at toml glob env dir =
     (let path = path_push dir ''plugin.toml'' in
      if is_file env path
      then (case load_manifest_file toml glob env path of None \<Rightarrow> [] | Some m \<Rightarrow> [(dir, m)]) else [])"

definition loaded_under :: "(string \<Rightarrow> Manifest option) \<Rightarrow> glob \<Rightarrow> reg_env \<Rightarrow> string \<Rightarrow> (string \<times> Manifest) list" where
  "loaded_under toml glob env root =
     concat (map (loaded_at toml glob env) (map (path_push root) (case read_dir env root of None \<Rightarrow> [] | Some es \<Rightarrow> es)))"

definition loaded :: "(string \<Rightarrow> Manifest option) \<Rightarrow> glob \<Rightarrow> reg_env \<Rightarrow> (string \<times> Manifest) list" where
  "loaded toml glob env = concat (map (loaded_under toml glob env) (resolve_roots env))"

definition winner :: "string \<Rightarrow> (string \<times> Manifest) list \<Rightarrow> (string \<times> Manifest) option" where
  "winner i xs = find (\<lambda>p. manifest_id (snd p) = i) (rev xs)"

definition add_found :: "string \<times> Manifest \<Rightarrow> found \<Rightarrow> found" where
  "add_found p s = (bt_insert (manifest_id (snd p)) (snd p) (fst s), bt_insert (manifest_id (snd p)) (fst p) (snd s))"

lemma scan_entry_fold: "scan_entry toml glob env dir s = fold add_found (loaded_at toml glob env dir) s"
  by (simp add: scan_entry_def loaded_at_def add_found_def manifest_id_def Let_def split: option.split)

lemma scan_entries_fold:
  "fold (scan_entry toml glob env) dirs s = fold add_found (concat (map (loaded_at toml glob env) dirs)) s"
  by (induction dirs arbitrary: s) (simp_all add: scan_entry_fold)

lemma scan_root_fold: "scan_root toml glob env root s = fold add_found (loaded_under toml glob env root) s"
  by (simp add: scan_root_def loaded_under_def scan_entries_fold split: option.split)

lemma scan_roots_fold: "fold (scan_root toml glob env) (resolve_roots env) s = fold add_found (loaded toml glob env) s"
proof -
  have "fold (scan_root toml glob env) roots s = fold add_found (concat (map (loaded_under toml glob env) roots)) s" for roots s
    by (induction roots arbitrary: s) (simp_all add: scan_root_fold)
  then show ?thesis by (simp add: loaded_def)
qed

lemma add_found_all:
  "let s = fold add_found xs ([], []) in bt_inv (fst s) \<and> bt_inv (snd s) \<and>
     map_of (fst s) i = map_option snd (winner i xs) \<and> map_of (snd s) i = map_option fst (winner i xs)"
  by (induction xs rule: rev_induct)
    (simp_all add: winner_def add_found_def bt.inv_empty bt_inv_insert map_of_bt_insert Let_def)

lemma map_of_filter_key: "map_of (filter (\<lambda>e. fst e \<notin> D) xs) k = (if k \<in> D then None else map_of xs k)"
  by (induction xs) auto

lemma discover_fields:
  "rg_manifests (discover toml toml_disabled glob env) =
     filter (\<lambda>e. fst e \<notin> load_disabled_set toml_disabled env) (fst (fold add_found (loaded toml glob env) ([], [])))"
  "rg_dirs (discover toml toml_disabled glob env) =
     filter (\<lambda>e. fst e \<notin> load_disabled_set toml_disabled env) (snd (fold add_found (loaded toml glob env) ([], [])))"
  "rg_index (discover toml toml_disabled glob env) = build_index glob (rg_manifests (discover toml toml_disabled glob env))"
  by (simp_all add: discover_def scan_roots_fold Let_def case_prod_beta)

lemma sorted_filter_keys: "bt_inv m \<Longrightarrow> bt_inv (filter P m)"
  by (induction m) (auto simp: bt_inv_def)

lemma discover_lookup:
  "map_of (rg_manifests (discover toml toml_disabled glob env)) i =
     (if i \<in> load_disabled_set toml_disabled env then None else map_option snd (winner i (loaded toml glob env)))"
  "map_of (rg_dirs (discover toml toml_disabled glob env)) i =
     (if i \<in> load_disabled_set toml_disabled env then None else map_option fst (winner i (loaded toml glob env)))"
  "sorted_wrt (<) (map fst (rg_manifests (discover toml toml_disabled glob env)))"
  using add_found_all [of "loaded toml glob env" i]
    sorted_filter_keys [of "fst (fold add_found (loaded toml glob env) ([], []))"]
  by (simp_all add: discover_fields map_of_filter_key Let_def bt_inv_def)

text \<open>
  Discovery keeps, for every id that is not disabled, the manifest of the last loadable
  \<open>plugin.toml\<close> with that id in scan order, so that a later root wins over an earlier one, and
  records the directory of that very manifest; broken manifests have no effect, and the ids
  come out in increasing order.
\<close>

theorem discover_last_root_wins:
  "map_of (rg_manifests (discover toml toml_disabled glob env)) i =
     (if i \<in> load_disabled_set toml_disabled env then None else map_option snd (winner i (loaded toml glob env))) \<and>
   map_of (rg_dirs (discover toml toml_disabled glob env)) i =
     (if i \<in> load_disabled_set toml_disabled env then None else map_option fst (winner i (loaded toml glob env))) \<and>
   sorted_wrt (<) (map fst (rg_manifests (discover toml toml_disabled glob env)))"
  by (simp add: discover_lookup)


text \<open>A row of a manifest that offers the kind and whose URL or MIME glob matches.\<close>

definition offers :: "glob \<Rightarrow> Manifest \<Rightarrow> CapKind \<Rightarrow> string \<Rightarrow> string \<Rightarrow> bool" where
  "offers glob m kind mime url \<longleftrightarrow>
     list_ex (\<lambda>c. from_manifest_kind (cap_kind c) = Some kind \<and>
       (hits (compile_or_warn glob (cap_url c)) url \<or> hits (compile_or_warn glob (cap_mime c)) mime)) (mf_capabilities m)"

lemma set_map_filter: "set (List.map_filter f xs) = {y. \<exists>x \<in> set xs. f x = Some y}"
  by (induction xs) (auto simp: List.map_filter_simps split: option.splits)

lemma index_entry_iff:
  "e \<in> set (build_index glob ms) \<longleftrightarrow> (\<exists>i m c. (i, m) \<in> set ms \<and> c \<in> set (mf_capabilities m) \<and> cap_entry glob i c = Some e)"
  by (force simp: build_index_def set_map_filter)

lemma offers_index:
  "(\<exists>m. (i, m) \<in> set ms \<and> offers glob m kind mime url) \<longleftrightarrow>
   (\<exists>e \<in> set (build_index glob ms). ie_plugin e = i \<and> ie_kind e = kind \<and> (hits (ie_url e) url \<or> hits (ie_mime e) mime))"
  by (fastforce simp: index_entry_iff offers_def list_ex_iff cap_entry_def Bex_def)

lemma select_spec_Some:
  "select_spec es mime url = Some i \<Longrightarrow> \<exists>e \<in> set es. ie_plugin e = i \<and> (hits (ie_url e) url \<or> hits (ie_mime e) mime)"
proof -
  assume s: "select_spec es mime url = Some i"
  have min_in: "\<exists>e \<in> set xs. ie_plugin e = j" if "least_id xs = Some j" for xs j
  proof -
    from that have "Min (ie_plugin ` set xs) = j" "Min (ie_plugin ` set xs) \<in> ie_plugin ` set xs"
      by (auto simp: least_id_def split: if_splits)
    then show ?thesis by auto
  qed
  from s show ?thesis
    by (auto simp: select_spec_def split: option.splits dest!: min_in)
qed

lemma select_spec_None:
  "select_spec es mime url = None \<longleftrightarrow> (\<forall>e \<in> set es. \<not> hits (ie_url e) url \<and> \<not> hits (ie_mime e) mime)"
  by (auto simp: select_spec_def least_id_def filter_empty_conv split: option.splits if_splits)

text \<open>
  C18. Discovery and selection together: the plugin chosen for a file is not disabled, is backed by
  the manifest discovery kept for its id, and that manifest has a row of the asked kind whose
  glob matches the file; and when nothing is chosen, no kept manifest has such a row.
\<close>

theorem selected_plugin_is_eligible:
  "(case select_for (discover toml toml_disabled glob env) kind mime url of
      Some i \<Rightarrow> i \<notin> load_disabled_set toml_disabled env \<and>
        (\<exists>d m. winner i (loaded toml glob env) = Some (d, m) \<and> offers glob m kind mime url)
    | None \<Rightarrow> (\<forall>i d m. winner i (loaded toml glob env) = Some (d, m) \<longrightarrow> i \<notin> load_disabled_set toml_disabled env \<longrightarrow>
        \<not> offers glob m kind mime url))"
proof -
  let ?r = "discover toml toml_disabled glob env"
  let ?ms = "rg_manifests ?r"
  have d: "distinct (map fst ?ms)"
    using discover_lookup(3) [of toml toml_disabled glob env] strict_sorted_iff by blast
  have in_ms: "(i, mf) \<in> set ?ms \<longleftrightarrow> i \<notin> load_disabled_set toml_disabled env \<and>
      (\<exists>d. winner i (loaded toml glob env) = Some (d, mf))" for i mf
    using discover_lookup(1) [of toml toml_disabled glob env i] map_of_eq_Some_iff [OF d, of i mf]
    by (auto split: if_splits)
  show ?thesis
  proof (cases "select_for ?r kind mime url")
    case None
    then have "\<forall>e \<in> set (build_index glob ?ms). ie_kind e = kind \<longrightarrow> \<not> hits (ie_url e) url \<and> \<not> hits (ie_mime e) mime"
      using discover_fields(3) [of toml toml_disabled glob env]
      by (auto simp: select_for_eq_spec select_spec_None)
    then have "\<not> (\<exists>m. (i, m) \<in> set ?ms \<and> offers glob m kind mime url)" for i
      unfolding offers_index by blast
    then show ?thesis unfolding None option.case in_ms by blast
  next
    case (Some i)
    then have "\<exists>e \<in> set (build_index glob ?ms). ie_plugin e = i \<and> ie_kind e = kind \<and>
        (hits (ie_url e) url \<or> hits (ie_mime e) mime)"
      using discover_fields(3) [of toml toml_disabled glob env]
      by (auto simp: select_for_eq_spec dest!: select_spec_Some)
    then obtain mf where "(i, mf) \<in> set ?ms" "offers glob mf kind mime url"
      unfolding offers_index [symmetric] by blast
    with Some in_ms show ?thesis by auto
  qed
qed


text \<open>
  Outside the override, the second root is a relative path, so it is resolved against whatever
  directory the program was started in; a loadable manifest there replaces the one of the
  system directory with the same id, unless the user has installed it too.
\<close>

lemma winner_append: "winner i (xs @ ys) = (case winner i ys of Some p \<Rightarrow> Some p | None \<Rightarrow> winner i xs)"
  by (induction ys rule: rev_induct) (auto simp: winner_def)

theorem working_directory_shadows_system_plugin:
  assumes "var_os env ''SY_PLUGIN_DIR'' = None" "i \<notin> load_disabled_set toml_disabled env"
    "winner i (loaded_under toml glob env ''configs/sy/plugins'') = Some (d, m)"
    "\<And>home. xdg_data_plugins_dir env = Some home \<Longrightarrow> winner i (loaded_under toml glob env home) = None"
  shows "map_of (rg_manifests (discover toml toml_disabled glob env)) i = Some m \<and>
    map_of (rg_dirs (discover toml toml_disabled glob env)) i = Some d \<and> \<not> has_root ''configs/sy/plugins''"
proof -
  have "winner i (loaded toml glob env) = Some (d, m)"
    using assms by (simp add: loaded_def resolve_roots_def winner_append split: option.split) (simp add: winner_def)
  then show ?thesis using assms(2) by (simp add: discover_lookup) (simp add: has_root_def)
qed

text \<open>One plugin, with the demo manifest, in the directory the program runs in and in the system one.\<close>

definition one_plugin_env :: reg_env where
  "one_plugin_env = \<lparr>var_os = (\<lambda>_. None),
     read_dir = (\<lambda>d. if d \<in> {''configs/sy/plugins'', ''/usr/share/sy/configs/sy/plugins''} then Some [''md''] else None),
     read_file = (\<lambda>_. Some ''toml''), is_file = (\<lambda>_. True)\<rparr>"

lemma one_plugin_load:
  "load_manifest_file (\<lambda>_. Some demo_manifest) (\<lambda>_. Some (\<lambda>_. True)) one_plugin_env p = Some demo_manifest"
proof -
  have "manifest_load (\<lambda>_. Some demo_manifest) (\<lambda>_. Some (\<lambda>_. True)) ''toml'' = Inr demo_manifest"
    by code_simp
  then show ?thesis by (simp add: load_manifest_file_def one_plugin_env_def)
qed

lemma demo_id: "manifest_id demo_manifest = ''md''"
  by (simp add: manifest_id_def demo_manifest_def)

lemma one_plugin_under:
  "loaded_under (\<lambda>_. Some demo_manifest) (\<lambda>_. Some (\<lambda>_. True)) one_plugin_env root =
     (if root \<in> {''configs/sy/plugins'', ''/usr/share/sy/configs/sy/plugins''}
      then [(path_push root ''md'', demo_manifest)] else [])"
proof -
  have "loaded_at (\<lambda>_. Some demo_manifest) (\<lambda>_. Some (\<lambda>_. True)) one_plugin_env dir = [(dir, demo_manifest)]" for dir
  proof -
    have "is_file one_plugin_env p" for p by (simp add: one_plugin_env_def)
    then show ?thesis by (simp add: loaded_at_def one_plugin_load)
  qed
  then show ?thesis by (simp add: loaded_under_def) (simp add: one_plugin_env_def)
qed

lemma one_plugin_winner:
  "winner ''md'' (loaded_under (\<lambda>_. Some demo_manifest) (\<lambda>_. Some (\<lambda>_. True)) one_plugin_env ''configs/sy/plugins'') =
     Some (''configs/sy/plugins/md'', demo_manifest)"
  by (simp add: one_plugin_under winner_def demo_id path_push_def has_root_def)

theorem working_directory_shadows_system_plugin_witness:
  "map_of (rg_dirs (discover (\<lambda>_. Some demo_manifest) (\<lambda>_. None) (\<lambda>_. Some (\<lambda>_. True)) one_plugin_env)) ''md'' =
     Some ''configs/sy/plugins/md''"
proof -
  have e: "var_os one_plugin_env ''SY_PLUGIN_DIR'' = None" "''md'' \<notin> load_disabled_set (\<lambda>_. None) one_plugin_env"
    by (simp_all add: one_plugin_env_def load_disabled_set_def disabled_toml_path_def)
  have "xdg_data_plugins_dir one_plugin_env = None" by (simp add: xdg_data_plugins_dir_def one_plugin_env_def)
  then show ?thesis
    using working_directory_shadows_system_plugin [OF e one_plugin_winner] by simp
qed

theorem selected_plugin_is_eligible_witness:
  "select_for (discover (\<lambda>_. Some demo_manifest) (\<lambda>_. None) (\<lambda>_. Some (\<lambda>_. True)) one_plugin_env) Previewer ''text/plain'' ''a.md'' =
     Some ''md''"
proof -
  let ?r = "discover (\<lambda>_. Some demo_manifest) (\<lambda>_. None) (\<lambda>_. Some (\<lambda>_. True)) one_plugin_env"
  have "var_os one_plugin_env ''SY_PLUGIN_DIR'' = None" "xdg_data_plugins_dir one_plugin_env = None"
    by (simp_all add: one_plugin_env_def xdg_data_plugins_dir_def)
  then have w: "winner i (loaded (\<lambda>_. Some demo_manifest) (\<lambda>_. Some (\<lambda>_. True)) one_plugin_env) =
      (if i = ''md'' then Some (''configs/sy/plugins/md'', demo_manifest) else None)" for i
    by (simp add: loaded_def resolve_roots_def one_plugin_under winner_def demo_id path_push_def has_root_def)
  have o: "offers (\<lambda>_. Some (\<lambda>_. True)) demo_manifest Previewer ''text/plain'' ''a.md''"
    by (simp add: offers_def demo_manifest_def from_manifest_kind_def compile_or_warn_def hits_def)
  have n: "load_disabled_set (\<lambda>_. None) one_plugin_env = {}"
    by (simp add: one_plugin_env_def load_disabled_set_def disabled_toml_path_def)
  from selected_plugin_is_eligible [where toml = "\<lambda>_. Some demo_manifest" and toml_disabled = "\<lambda>_. None"
      and glob = "\<lambda>_. Some (\<lambda>_. True)" and env = one_plugin_env and kind = Previewer
      and mime = "''text/plain''" and url = "''a.md''"]
  show ?thesis using o by (auto simp: w n split: option.splits if_splits)
qed

end
