(* ===== verification/Copy_Engine.thy ===== *)
theory Copy_Engine
  imports Paths Text
begin

text \<open>
  The copy engine of the file manager (\<open>file/fs/copy.rs\<close>) with the conflict policies and
  progress events of \<open>file/state/ops.rs\<close>.  The file system is a map from the components of a
  path to a node; symbolic and hard links are left out.  What the kernel answers to each call
  (how many bytes it moves, which call fails, what the clock shows) is an arbitrary \<open>kernel\<close>
  record, one per copied file, and the consumer of the event stream may drop it after any
  number of events.  The concurrent fan-out of the io_uring path is not modelled, its per-file
  executor is.
\<close>

section \<open>Policies and events\<close>

datatype ConflictPolicy = Skip | Overwrite | Rename

datatype OpEvent =
    Started u64
  | Progress u64 u64 u64 u64
  | Paused u64
  | Resumed u64
  | Cancelled u64
  | Completed u64
  | Failed u64 int string

datatype Strategy = Reflink | Stream

datatype CopyDone = DoneCompleted | DoneCancelled

section \<open>The world of a copy\<close>

datatype node = File "byte list" | Dir

type_synonym fs_key = "component list"
type_synonym file_system = "fs_key \<Rightarrow> node option"
type_synonym errno = int
type_synonym io_error = "errno option"

definition EIO :: errno where "EIO = 5"
definition ENOENT :: errno where "ENOENT = 2"
definition EXDEV :: errno where "EXDEV = 18"
definition EISDIR :: errno where "EISDIR = 21"
definition EINVAL :: errno where "EINVAL = 22"
definition ENOTSUP :: errno where "ENOTSUP = 95"

record kernel =
  k_open :: "string \<Rightarrow> errno option"
  k_create :: "string \<Rightarrow> errno option"
  k_range :: "nat \<Rightarrow> errno + nat"
  k_read :: "nat \<Rightarrow> errno + nat"
  k_write :: "nat \<Rightarrow> (errno \<times> nat) option"
  k_flush :: "errno option"
  k_now :: "nat \<Rightarrow> nat"
  k_mnt :: "string \<Rightarrow> errno + u64 option"
  k_dev :: "string \<Rightarrow> errno + u64"
  k_dir_len :: u64

record chan =
  ch_sent :: "OpEvent list"
  ch_left :: "nat option"

text \<open>\<open>Sender::send\<close> fails once the receiver is dropped, here after \<open>ch_left\<close> more events.\<close>

definition send :: "OpEvent \<Rightarrow> chan \<Rightarrow> bool \<times> chan" where
  "send e c = (case ch_left c of
      None \<Rightarrow> (True, c\<lparr>ch_sent := ch_sent c @ [e]\<rparr>)
    | Some n \<Rightarrow> if n = 0 then (False, c)
                else (True, c\<lparr>ch_sent := ch_sent c @ [e], ch_left := Some (n - 1)\<rparr>))"

definition fs_exists :: "string \<Rightarrow> file_system \<Rightarrow> bool" where
  "fs_exists p fs \<longleftrightarrow> fs (path_components p) \<noteq> None"

definition remove_file :: "string \<Rightarrow> file_system \<Rightarrow> file_system" where
  "remove_file p fs = (case fs (path_components p) of
      Some (File _) \<Rightarrow> fs(path_components p := None) | _ \<Rightarrow> fs)"

definition fs_len :: "kernel \<Rightarrow> string \<Rightarrow> file_system \<Rightarrow> u64 option" where
  "fs_len k p fs = map_option (\<lambda>n. case n of File b \<Rightarrow> of_nat (length b) | Dir \<Rightarrow> k_dir_len k)
     (fs (path_components p))"

text \<open>\<open>File::open\<close> for reading, and \<open>OpenOptions\<close> with \<open>write\<close>, \<open>create\<close> and \<open>truncate\<close>.\<close>

definition open_read :: "kernel \<Rightarrow> string \<Rightarrow> file_system \<Rightarrow> io_error + unit" where
  "open_read k p fs = (case k_open k p of
      Some e \<Rightarrow> Inl (Some e)
    | None \<Rightarrow> if fs_exists p fs then Inr () else Inl (Some ENOENT))"

definition open_trunc :: "kernel \<Rightarrow> string \<Rightarrow> file_system \<Rightarrow> io_error + file_system" where
  "open_trunc k p fs = (case k_create k p of
      Some e \<Rightarrow> Inl (Some e)
    | None \<Rightarrow> if fs (path_components p) = Some Dir then Inl (Some EISDIR)
              else Inr (fs(path_components p \<mapsto> File [])))"

text \<open>A transfer moves at least one byte unless the source is at its end.\<close>

definition moved :: "nat \<Rightarrow> nat \<Rightarrow> 'a list \<Rightarrow> nat" where
  "moved n limit rest = (if rest = [] then 0 else max 1 (min n (min limit (length rest))))"

section \<open>Constants and small helpers\<close>

definition PROGRESS_INTERVAL_MS :: nat where "PROGRESS_INTERVAL_MS = 100"
definition PROGRESS_BYTES_TICK :: nat where "PROGRESS_BYTES_TICK = 4 * 1024 * 1024"
definition STREAM_CHUNK_BYTES :: nat where "STREAM_CHUNK_BYTES = 256 * 1024"
definition IOURING_FILE_THRESHOLD :: nat where "IOURING_FILE_THRESHOLD = 100"
definition IOURING_BYTE_THRESHOLD :: nat where "IOURING_BYTE_THRESHOLD = 256 * 1024 * 1024"

definition decide_strategy :: "bool \<Rightarrow> Strategy" where
  "decide_strategy same = (if same then Reflink else Stream)"

definition should_emit_progress :: "nat \<Rightarrow> nat \<Rightarrow> u64 \<Rightarrow> u64 \<Rightarrow> bool \<times> nat \<times> u64" where
  "should_emit_progress now last_at last_bytes done_bytes =
     (let elapsed_ms = (now - last_at) div 1000;
          bytes_since = saturating_sub (unat done_bytes) (unat last_bytes)
      in if elapsed_ms \<ge> PROGRESS_INTERVAL_MS \<or> bytes_since \<ge> PROGRESS_BYTES_TICK
         then (True, now, done_bytes) else (False, last_at, last_bytes))"

definition throughput :: "u64 \<Rightarrow> nat \<Rightarrow> u64" where
  "throughput done_bytes micros =
     (if micros = 0 then 0
      else of_nat (min (min (unat done_bytes * 1000000) (2 ^ 128 - 1) div micros) (2 ^ 64 - 1)))"

definition statx_mnt_id :: "kernel \<Rightarrow> string \<Rightarrow> io_error + u64 option" where
  "statx_mnt_id k p = (if CHR 0x00 \<in> set p then Inl None else map_sum Some id (k_mnt k p))"

definition dev_id :: "kernel \<Rightarrow> string \<Rightarrow> io_error + u64" where
  "dev_id k p = map_sum Some id (k_dev k p)"

definition same_mount :: "kernel \<Rightarrow> string \<Rightarrow> string \<Rightarrow> io_error + bool" where
  "same_mount k a b =
     try_bind (statx_mnt_id k a) (\<lambda>ma. try_bind (statx_mnt_id k b) (\<lambda>mb.
       case (ma, mb) of
         (Some x, Some y) \<Rightarrow> Inr (x = y)
       | _ \<Rightarrow> try_bind (dev_id k a) (\<lambda>da. try_bind (dev_id k b) (\<lambda>db. Inr (da = db)))))"

section \<open>Where a source goes\<close>

definition suffixed :: "string \<Rightarrow> nat \<Rightarrow> string" where
  "suffixed base n =
     (let parent = (case path_parent base of None \<Rightarrow> [] | Some p \<Rightarrow> p);
          stem = (case path_file_stem base of None \<Rightarrow> [] | Some s \<Rightarrow> s)
      in path_push parent (case path_extension base of
           Some e \<Rightarrow> stem @ '' ('' @ nat_str n @ '').'' @ e
         | None \<Rightarrow> stem @ '' ('' @ nat_str n @ '')''))"

function suffix_from :: "file_system \<Rightarrow> string \<Rightarrow> nat \<Rightarrow> string" where
  "suffix_from fs base n =
     (if n \<ge> 2 ^ 32 - 1 then base
      else if \<not> fs_exists (suffixed base n) fs then suffixed base n
      else suffix_from fs base (n + 1))"
  by pat_completeness auto
termination
  by (relation "measure (\<lambda>(fs, base, n). 2 ^ 32 - n)") auto

declare suffix_from.simps [simp del]

definition rename_with_suffix :: "file_system \<Rightarrow> string \<Rightarrow> string" where
  "rename_with_suffix fs base = suffix_from fs base 1"

definition resolve_dst :: "string \<Rightarrow> string \<Rightarrow> ConflictPolicy \<Rightarrow> file_system \<Rightarrow> string option \<times> file_system" where
  "resolve_dst dst_dir src conflict fs =
     (case path_file_name src of
        None \<Rightarrow> (None, fs)
      | Some name \<Rightarrow>
          (let base = path_push dst_dir name in
           if \<not> fs_exists base fs then (Some base, fs)
           else case conflict of
             Skip \<Rightarrow> (None, fs)
           | Overwrite \<Rightarrow> (Some base, remove_file base fs)
           | Rename \<Rightarrow> (Some (rename_with_suffix fs base), fs)))"

section \<open>The per-file loops\<close>

datatype loop_end = Fallback | Ret "io_error + CopyDone"

definition falls_back :: "errno \<Rightarrow> bool" where
  "falls_back e \<longleftrightarrow> e = EXDEV \<or> e = EINVAL \<or> e = ENOTSUP"

text \<open>One pass of \<open>copy_file_range_loop\<close> per call: \<open>rest\<close> is unread, \<open>out\<close> is written.\<close>

function range_loop ::
  "kernel \<Rightarrow> u64 \<Rightarrow> u64 \<Rightarrow> nat \<Rightarrow> byte list \<Rightarrow> byte list \<Rightarrow> u64 \<Rightarrow> nat \<Rightarrow> u64 \<Rightarrow> chan \<Rightarrow> loop_end \<times> byte list \<times> chan" where
  "range_loop k op total_bytes i rest out done_bytes last_at last_bytes c =
     (case k_range k i of
        Inl e \<Rightarrow> (if falls_back e \<and> done_bytes = 0 then Fallback else Ret (Inl (Some e)), out, c)
      | Inr n \<Rightarrow>
          (let rc = moved n PROGRESS_BYTES_TICK rest; now = k_now k (Suc i) in
           if rc = 0 then
             (Ret (Inr DoneCompleted), out,
              snd (send (Progress op done_bytes total_bytes (throughput done_bytes (now - k_now k 0))) c))
           else
             (let d = saturating_add done_bytes (of_nat rc);
                  (emit, la, lb) = should_emit_progress now last_at last_bytes d;
                  (ok, c1) = (if emit then send (Progress op d total_bytes (throughput d (now - k_now k 0))) c
                              else (True, c))
              in if ok then range_loop k op total_bytes (Suc i) (drop rc rest) (out @ take rc rest) d la lb c1
                 else (Ret (Inr DoneCancelled), out @ take rc rest, c1))))"
  by pat_completeness auto
termination
  by (relation "measure (\<lambda>(k, op, t, i, rest, out, d, la, lb, c). length rest)")
    (auto simp: moved_def split: if_splits)

function stream_loop ::
  "kernel \<Rightarrow> io_error option \<Rightarrow> u64 \<Rightarrow> u64 \<Rightarrow> nat \<Rightarrow> byte list \<Rightarrow> byte list \<Rightarrow> u64 \<Rightarrow> nat \<Rightarrow> u64 \<Rightarrow> chan
     \<Rightarrow> (io_error + CopyDone) \<times> byte list \<times> chan" where
  "stream_loop k flush op total_bytes i rest out done_bytes last_at last_bytes c =
     (case k_read k i of
        Inl e \<Rightarrow> (Inl (Some e), out, c)
      | Inr n \<Rightarrow>
          (let m = moved n STREAM_CHUNK_BYTES rest; now = k_now k (Suc i) in
           if m = 0 then
             (case flush of
                Some e \<Rightarrow> (Inl e, out, c)
              | None \<Rightarrow> (Inr DoneCompleted, out,
                  snd (send (Progress op done_bytes total_bytes (throughput done_bytes (now - k_now k 0))) c)))
           else case k_write k i of
             Some (e, w) \<Rightarrow> (Inl (Some e), out @ take w (take m rest), c)
           | None \<Rightarrow>
               (let d = saturating_add done_bytes (of_nat m);
                    (emit, la, lb) = should_emit_progress now last_at last_bytes d;
                    (ok, c1) = (if emit then send (Progress op d total_bytes (throughput d (now - k_now k 0))) c
                                else (True, c))
                in if ok then stream_loop k flush op total_bytes (Suc i) (drop m rest) (out @ take m rest) d la lb c1
                   else (Inr DoneCancelled, out @ take m rest, c1))))"
  by pat_completeness auto
termination
  by (relation "measure (\<lambda>(k, f, op, t, i, rest, out, d, la, lb, c). length rest)")
    (auto simp: moved_def split: if_splits)

declare range_loop.simps [simp del] stream_loop.simps [simp del]

definition stream_copy ::
  "io_error option \<Rightarrow> kernel \<Rightarrow> string \<Rightarrow> string \<Rightarrow> u64 \<Rightarrow> u64 \<Rightarrow> file_system \<Rightarrow> chan
     \<Rightarrow> (io_error + CopyDone) \<times> file_system \<times> chan" where
  "stream_copy flush k src dst op total_bytes fs c =
     (case open_read k src fs of
        Inl e \<Rightarrow> (Inl e, fs, c)
      | Inr _ \<Rightarrow>
          (case open_trunc k dst fs of
             Inl e \<Rightarrow> (Inl e, fs, c)
           | Inr fs1 \<Rightarrow>
               (case fs1 (path_components src) of
                  Some (File bytes) \<Rightarrow>
                    (let (r, out, c1) = stream_loop k flush op total_bytes 0 bytes [] 0 (k_now k 0) 0 c
                     in (r, fs1(path_components dst \<mapsto> File out), c1))
                | _ \<Rightarrow> (Inl (Some EISDIR), fs1, c))))"

definition copy_one_stream ::
  "kernel \<Rightarrow> string \<Rightarrow> string \<Rightarrow> u64 \<Rightarrow> u64 \<Rightarrow> file_system \<Rightarrow> chan \<Rightarrow> (io_error + CopyDone) \<times> file_system \<times> chan" where
  "copy_one_stream k = stream_copy (map_option Some (k_flush k)) k"

definition stream_blocking ::
  "kernel \<Rightarrow> string \<Rightarrow> string \<Rightarrow> u64 \<Rightarrow> u64 \<Rightarrow> file_system \<Rightarrow> chan \<Rightarrow> (io_error + CopyDone) \<times> file_system \<times> chan" where
  "stream_blocking k = stream_copy None k"

definition copy_file_range_loop ::
  "kernel \<Rightarrow> string \<Rightarrow> string \<Rightarrow> u64 \<Rightarrow> u64 \<Rightarrow> file_system \<Rightarrow> chan \<Rightarrow> (io_error + CopyDone) \<times> file_system \<times> chan" where
  "copy_file_range_loop k src dst op total_bytes fs c =
     (case open_read k src fs of
        Inl e \<Rightarrow> (Inl e, fs, c)
      | Inr _ \<Rightarrow>
          (case open_trunc k dst fs of
             Inl e \<Rightarrow> (Inl e, fs, c)
           | Inr fs1 \<Rightarrow>
               (case fs1 (path_components src) of
                  Some (File bytes) \<Rightarrow>
                    (let (r, out, c1) = range_loop k op total_bytes 0 bytes [] 0 (k_now k 0) 0 c;
                         fs2 = fs1(path_components dst \<mapsto> File out)
                     in case r of Fallback \<Rightarrow> stream_blocking k src dst op total_bytes fs2 c1
                        | Ret x \<Rightarrow> (x, fs2, c1))
                | _ \<Rightarrow> (Inl (Some EISDIR), fs1, c))))"

text \<open>
  \<open>spawn_blocking\<close> only moves the loop to another thread; that it panics is not modelled.
\<close>

definition copy_one_reflink ::
  "kernel \<Rightarrow> string \<Rightarrow> string \<Rightarrow> u64 \<Rightarrow> u64 \<Rightarrow> file_system \<Rightarrow> chan \<Rightarrow> (io_error + CopyDone) \<times> file_system \<times> chan" where
  "copy_one_reflink = copy_file_range_loop"

text \<open>The \<open>match outcome\<close> that ends \<open>copy_one_sequential\<close>.\<close>

definition settle ::
  "(string \<Rightarrow> string \<Rightarrow> io_error \<Rightarrow> string) \<Rightarrow> u64 \<Rightarrow> string \<Rightarrow> string
     \<Rightarrow> (io_error + CopyDone) \<times> file_system \<times> chan \<Rightarrow> file_system \<times> chan" where
  "settle fmt op src dst res =
     (let (outcome, fs1, c1) = res in
      case outcome of
        Inr DoneCompleted \<Rightarrow> (fs1, snd (send (Completed op) c1))
      | Inr DoneCancelled \<Rightarrow> (remove_file dst fs1, c1)
      | Inl e \<Rightarrow> (remove_file dst fs1,
          snd (send (Failed op (case e of None \<Rightarrow> EIO | Some n \<Rightarrow> n) (fmt src dst e)) c1)))"

definition copy_one_sequential ::
  "(string \<Rightarrow> string \<Rightarrow> io_error \<Rightarrow> string) \<Rightarrow> kernel \<Rightarrow> u64 \<Rightarrow> string \<Rightarrow> string \<Rightarrow> file_system \<Rightarrow> chan
     \<Rightarrow> file_system \<times> chan" where
  "copy_one_sequential fmt k op src dst fs c =
     (let same = (case same_mount k src (case path_parent dst of None \<Rightarrow> ''/'' | Some p \<Rightarrow> p) of
                    Inl _ \<Rightarrow> True | Inr b \<Rightarrow> b);
          total_bytes = (case fs_len k src fs of None \<Rightarrow> 0 | Some n \<Rightarrow> n)
      in settle fmt op src dst (case decide_strategy same of
             Reflink \<Rightarrow> copy_one_reflink k src dst op total_bytes fs c
           | Stream \<Rightarrow> copy_one_stream k src dst op total_bytes fs c))"

section \<open>The batch\<close>

fun copy_batch ::
  "(string \<Rightarrow> string \<Rightarrow> io_error \<Rightarrow> string) \<Rightarrow> (nat \<Rightarrow> kernel) \<Rightarrow> string list \<Rightarrow> string \<Rightarrow> ConflictPolicy
     \<Rightarrow> u64 \<Rightarrow> file_system \<Rightarrow> chan \<Rightarrow> u64 \<times> file_system \<times> chan" where
  "copy_batch fmt kern [] dst conflict next_op fs c = (next_op, fs, c)"
| "copy_batch fmt kern (src # srcs) dst conflict next_op fs c =
     (let op = next_op; (ok, c1) = send (Started op) c in
      if \<not> ok then (next_op + 1, fs, c1)
      else
        (let (dst_full, fs1) = resolve_dst dst src conflict fs;
             (fs2, c2) = (case dst_full of
                Some dst_path \<Rightarrow> copy_one_sequential fmt (kern 0) op src dst_path fs1 c1
              | None \<Rightarrow> (fs1, snd (send (Completed op) (snd (send (Progress op 0 0 0) c1)))))
         in copy_batch fmt (\<lambda>i. kern (Suc i)) srcs dst conflict (next_op + 1) fs2 c2))"

section \<open>The io_uring executor of one file\<close>

definition batch_qualifies_for_iouring :: "string list \<Rightarrow> u64 \<Rightarrow> bool" where
  "batch_qualifies_for_iouring srcs total_bytes \<longleftrightarrow>
     length srcs > IOURING_FILE_THRESHOLD \<or> unat total_bytes > IOURING_BYTE_THRESHOLD"

definition sum_src_bytes :: "kernel \<Rightarrow> string list \<Rightarrow> file_system \<Rightarrow> u64" where
  "sum_src_bytes k srcs fs = sum_list (map (\<lambda>p. case fs_len k p fs of None \<Rightarrow> 0 | Some n \<Rightarrow> n) srcs)"

text \<open>A dropped stream ends this loop with \<open>Ok\<close>, as the end of the file does.\<close>

definition iouring_read_write ::
  "kernel \<Rightarrow> string \<Rightarrow> string \<Rightarrow> u64 \<Rightarrow> u64 \<Rightarrow> file_system \<Rightarrow> chan \<Rightarrow> (io_error + unit) \<times> file_system \<times> chan" where
  "iouring_read_write k src dst op total_bytes fs c =
     (let (r, fs1, c1) = stream_copy None k src dst op total_bytes fs c
      in (map_sum id (\<lambda>_. ()) r, fs1, c1))"

definition copy_one_iouring ::
  "(string \<Rightarrow> string \<Rightarrow> io_error \<Rightarrow> string) \<Rightarrow> kernel \<Rightarrow> u64 \<Rightarrow> string \<Rightarrow> string \<Rightarrow> file_system \<Rightarrow> chan
     \<Rightarrow> file_system \<times> chan" where
  "copy_one_iouring fmt k op src dst fs c =
     (let total_bytes = (case fs_len k src fs of None \<Rightarrow> 0 | Some n \<Rightarrow> n);
          (r, fs1, c1) = iouring_read_write k src dst op total_bytes fs c
      in case r of
           Inr _ \<Rightarrow> (fs1, snd (send (Completed op) c1))
         | Inl e \<Rightarrow> (remove_file dst fs1,
             snd (send (Failed op (case e of None \<Rightarrow> EIO | Some n \<Rightarrow> n) (fmt src dst e)) c1)))"


section \<open>Channels and progress\<close>

lemma send_sent:
  "send e c = (ok, c') \<Longrightarrow> ch_sent c' = ch_sent c @ (if ok then [e] else [])"
  by (auto simp: send_def split: option.splits if_splits)

lemma send_open [simp]:
  "ch_left c = None \<Longrightarrow> send e c = (True, c\<lparr>ch_sent := ch_sent c @ [e]\<rparr>)"
  by (simp add: send_def)

text \<open>A run of progress events whose byte counts climb from \<open>lo\<close> to at most \<open>hi\<close>.\<close>

definition progress_run :: "u64 \<Rightarrow> u64 \<Rightarrow> nat \<Rightarrow> nat \<Rightarrow> OpEvent list \<Rightarrow> bool" where
  "progress_run op t lo hi evs \<longleftrightarrow>
     (\<exists>ds. evs = map (\<lambda>(d, r). Progress op d t r) ds \<and> sorted (lo # map (unat \<circ> fst) ds @ [hi]))"

lemma progress_run_Nil [simp]: "progress_run op t lo hi [] \<longleftrightarrow> lo \<le> hi"
  by (simp add: progress_run_def)

lemma progress_run_Cons:
  "progress_run op t (unat d) hi evs \<Longrightarrow> lo \<le> unat d \<Longrightarrow> progress_run op t lo hi (Progress op d t r # evs)"
  unfolding progress_run_def
  by (elim exE, rule_tac x = "(d, r) # ds" in exI) auto

lemma progress_run_mono: "progress_run op t m hi evs \<Longrightarrow> lo \<le> m \<Longrightarrow> progress_run op t lo hi evs"
  unfolding progress_run_def by (elim exE, rule_tac x = ds in exI) auto

lemma progress_run_maybe:
  assumes "progress_run op t (unat d) hi evs" "lo \<le> unat d"
  shows "progress_run op t lo hi ((if emit then [Progress op d t r] else []) @ evs)"
  using progress_run_Cons [OF assms] progress_run_mono [OF assms] by simp

lemma progress_run_send:
  assumes "send (Progress op d t r) c = (ok, c')" "lo \<le> unat d" "unat d \<le> hi"
  shows "\<exists>evs. ch_sent c' = ch_sent c @ evs \<and> progress_run op t lo hi evs"
  using send_sent [OF assms(1)] assms(2, 3)
  by (intro exI [of _ "if ok then [Progress op d t r] else []"]) (auto intro: progress_run_Cons)

section \<open>The loops\<close>

text \<open>
  What both loops promise: they write a prefix of the source, all of it when they report
  completion, and emit a climbing run of progress events for their operation only.
\<close>

definition loop_ok ::
  "u64 \<Rightarrow> u64 \<Rightarrow> byte list \<Rightarrow> byte list \<Rightarrow> chan \<Rightarrow> bool \<Rightarrow> byte list \<Rightarrow> chan \<Rightarrow> bool" where
  "loop_ok op t rest out c completed out' c' \<longleftrightarrow>
     (\<exists>n evs. out' = out @ take n rest \<and> (completed \<longrightarrow> out' = out @ rest) \<and>
       ch_sent c' = ch_sent c @ evs \<and> progress_run op t (length out) (length out') evs)"

lemma loop_ok_stop: "loop_ok op t rest out c False out c"
  by (auto simp: loop_ok_def intro!: exI [of _ 0] exI [of _ "[]"])

lemma loop_ok_write_fail: "loop_ok op t rest out c False (out @ take w (take m rest)) c"
  by (auto simp: loop_ok_def intro!: exI [of _ "min w m"] exI [of _ "[]"])

lemma loop_ok_end:
  assumes "unat d = length out"
  shows "loop_ok op t [] out c completed out (snd (send (Progress op d t r) c))"
proof -
  obtain ok c' where s: "send (Progress op d t r) c = (ok, c')" by (cases "send (Progress op d t r) c")
  show ?thesis
    using progress_run_send [OF s, of "length out" "length out"] assms
    by (auto simp: loop_ok_def s)
qed

lemma unat_advance:
  assumes "unat d = length out" "length out + length rest < 2 ^ 64" "m \<le> length rest"
  shows "unat (saturating_add d (of_nat m :: u64)) = length (out @ take m rest)"
proof -
  have "unat (of_nat m :: u64) = m"
    using assms by (simp add: unat_of_nat take_bit_nat_eq_self)
  then show ?thesis
    using assms by (simp add: unat_saturating_add min_def)
qed

lemma loop_ok_cancel:
  assumes "send (Progress op d t r) c = (False, c')"
    and "unat d = length (out @ take m rest)"
  shows "loop_ok op t rest out c False (out @ take m rest) c'"
  using progress_run_send [OF assms(1), of "length out" "length (out @ take m rest)"] assms(2)
  unfolding loop_ok_def by (intro exI [of _ m]) auto

lemma loop_ok_step:
  assumes sent: "ch_sent c1 = ch_sent c @ (if emit then [Progress op d t r] else [])"
    and d: "unat d = length (out @ take m rest)"
    and next_ok: "loop_ok op t (drop m rest) (out @ take m rest) c1 completed out' c'"
  shows "loop_ok op t rest out c completed out' c'"
proof -
  obtain n evs where n: "out' = (out @ take m rest) @ take n (drop m rest)"
      "completed \<longrightarrow> out' = (out @ take m rest) @ drop m rest" "ch_sent c' = ch_sent c1 @ evs"
      "progress_run op t (length (out @ take m rest)) (length out') evs"
    using next_ok unfolding loop_ok_def by blast
  have "out' = out @ take (m + n) rest" "completed \<longrightarrow> out' = out @ rest"
    using n(1, 2) by (simp_all add: take_add del: length_append)
  moreover have "progress_run op t (length out) (length out')
      ((if emit then [Progress op d t r] else []) @ evs)"
    using n(4) d by (intro progress_run_maybe) auto
  ultimately show ?thesis
    using n(3) sent unfolding loop_ok_def
    by (intro exI [of _ "m + n"] exI [of _ "(if emit then [Progress op d t r] else []) @ evs"]) auto
qed

lemma moved_le: "moved n lim rest \<le> length rest"
  by (cases rest) (auto simp: moved_def)

lemma moved_zero [simp]: "moved n lim rest = 0 \<longleftrightarrow> rest = []"
  by (simp add: moved_def)


text \<open>One beat of either loop: the optional progress event and then on, or the end.\<close>

lemma loop_beat:
  assumes "unat d = length out" "length out + length rest < 2 ^ 64" "m \<le> length rest"
    and d': "d' = saturating_add d (of_nat m)"
    and s: "(if emit then send (Progress op d' t r) c else (True, c)) = (ok, c1)"
  shows "unat d' = length (out @ take m rest)"
    and "ok \<Longrightarrow> loop_ok op t (drop m rest) (out @ take m rest) c1 completed out' c'
      \<Longrightarrow> loop_ok op t rest out c completed out' c'"
    and "\<not> ok \<Longrightarrow> loop_ok op t rest out c False (out @ take m rest) c1"
proof -
  show d: "unat d' = length (out @ take m rest)"
    unfolding d' by (rule unat_advance [OF assms(1-3)])
  show "loop_ok op t rest out c completed out' c'"
    if ok "loop_ok op t (drop m rest) (out @ take m rest) c1 completed out' c'"
  proof -
    have "ch_sent c1 = ch_sent c @ (if emit then [Progress op d' t r] else [])"
      using s \<open>ok\<close> send_sent [of "Progress op d' t r" c ok c1] by (auto split: if_splits)
    from loop_ok_step [OF this d that(2)] show ?thesis .
  qed
  show "loop_ok op t rest out c False (out @ take m rest) c1" if "\<not> ok"
  proof -
    have "send (Progress op d' t r) c = (False, c1)"
      using s that by (auto split: if_splits)
    from loop_ok_cancel [OF this d] show ?thesis .
  qed
qed

lemma range_loop_ok:
  assumes "range_loop k op t i rest out d la lb c = (r, out', c')"
    and "unat d = length out" "length out + length rest < 2 ^ 64"
  shows "loop_ok op t rest out c (r = Ret (Inr DoneCompleted)) out' c' \<and> (r = Fallback \<longrightarrow> d = 0 \<and> c' = c)"
  using assms
proof (induction rest arbitrary: i out d la lb c rule: length_induct)
  case (1 rest)
  note run = "1.prems"(1) [unfolded range_loop.simps [of k op t i rest]]
  show ?case
  proof (cases "k_range k i")
    case (Inl e)
    then show ?thesis using run loop_ok_stop by (auto split: if_splits)
  next
    case (Inr n)
    let ?m = "moved n PROGRESS_BYTES_TICK rest" and ?now = "k_now k (Suc i)"
    let ?d = "saturating_add d (of_nat ?m)"
    obtain emit la' lb' where e: "should_emit_progress ?now la lb ?d = (emit, la', lb')"
      by (cases "should_emit_progress ?now la lb ?d")
    let ?r = "throughput ?d (?now - k_now k 0)"
    obtain ok c1 where s: "(if emit then send (Progress op ?d t ?r) c else (True, c)) = (ok, c1)"
      by (cases "if emit then send (Progress op ?d t ?r) c else (True, c)")
    note beat = loop_beat [OF "1.prems"(2, 3) moved_le refl s]
    show ?thesis
    proof (cases "rest = []")
      case True
      then show ?thesis using run "1.prems"(2) Inr loop_ok_end [of d out] by auto
    next
      case False
      then have less: "length (drop ?m rest) < length rest"
        by (simp add: moved_def)
      show ?thesis
      proof (cases ok)
        case True
        then have "range_loop k op t (Suc i) (drop ?m rest) (out @ take ?m rest) ?d la' lb' c1 = (r, out', c')"
          using run Inr False e s by (simp add: Let_def)
        with less beat(1) "1.prems"(3) moved_le have rec:
          "loop_ok op t (drop ?m rest) (out @ take ?m rest) c1 (r = Ret (Inr DoneCompleted)) out' c' \<and>
            (r = Fallback \<longrightarrow> ?d = 0 \<and> c' = c1)"
          by (intro "1.IH" [rule_format]) auto
        moreover have "?d \<noteq> 0"
          using beat(1) False moved_zero [of n PROGRESS_BYTES_TICK rest]
          by (metis append_is_Nil_conv length_0_conv take_eq_Nil unat_0)
        ultimately show ?thesis
          using beat(2) [OF True] by blast
      next
        case nok: False
        then show ?thesis using run Inr False e s beat(3) by auto
      qed
    qed
  qed
qed

lemma stream_loop_ok:
  assumes "stream_loop k f op t i rest out d la lb c = (r, out', c')"
    and "unat d = length out" "length out + length rest < 2 ^ 64"
  shows "loop_ok op t rest out c (r = Inr DoneCompleted) out' c'"
  using assms
proof (induction rest arbitrary: i out d la lb c rule: length_induct)
  case (1 rest)
  note run = "1.prems"(1) [unfolded stream_loop.simps [of k f op t i rest]]
  show ?case
  proof (cases "k_read k i")
    case (Inl e)
    then show ?thesis using run loop_ok_stop by auto
  next
    case (Inr n)
    let ?m = "moved n STREAM_CHUNK_BYTES rest" and ?now = "k_now k (Suc i)"
    let ?d = "saturating_add d (of_nat ?m)"
    obtain emit la' lb' where e: "should_emit_progress ?now la lb ?d = (emit, la', lb')"
      by (cases "should_emit_progress ?now la lb ?d")
    let ?r = "throughput ?d (?now - k_now k 0)"
    obtain ok c1 where s: "(if emit then send (Progress op ?d t ?r) c else (True, c)) = (ok, c1)"
      by (cases "if emit then send (Progress op ?d t ?r) c else (True, c)")
    note beat = loop_beat [OF "1.prems"(2, 3) moved_le refl s]
    show ?thesis
    proof (cases "rest = []")
      case True
      then show ?thesis
        using run "1.prems"(2) Inr loop_ok_end [of d out] loop_ok_stop by (auto split: option.splits)
    next
      case False
      then have less: "length (drop ?m rest) < length rest"
        by (simp add: moved_def)
      show ?thesis
      proof (cases "k_write k i")
        case (Some ew)
        then show ?thesis
          using run Inr False loop_ok_write_fail by (cases ew) (auto simp: Let_def)
      next
        case written: None
        show ?thesis
        proof (cases ok)
          case True
          then have "stream_loop k f op t (Suc i) (drop ?m rest) (out @ take ?m rest) ?d la' lb' c1 = (r, out', c')"
            using run Inr False written e s by (simp add: Let_def)
          with less beat(1) "1.prems"(3) moved_le have
            "loop_ok op t (drop ?m rest) (out @ take ?m rest) c1 (r = Inr DoneCompleted) out' c'"
            by (intro "1.IH" [rule_format]) auto
          with True show ?thesis by (rule beat(2))
        next
          case nok: False
          then show ?thesis using run Inr False written e s beat(3) by auto
        qed
      qed
    qed
  qed
qed

section \<open>The contract of a per-file executor\<close>

text \<open>
  Both strategies keep the same promise: they touch the destination only, never make or
  unmake a directory there, report completion only when the destination holds the bytes of
  the source, and emit a climbing run of progress events.
\<close>

definition not_file :: "string \<Rightarrow> file_system \<Rightarrow> bool" where
  "not_file p fs \<longleftrightarrow> (\<forall>b. fs (path_components p) \<noteq> Some (File b))"

definition apart :: "string \<Rightarrow> string \<Rightarrow> file_system \<Rightarrow> bool" where
  "apart src dst fs \<longleftrightarrow> path_components src \<noteq> path_components dst \<or> not_file dst fs"

definition small_fs :: "file_system \<Rightarrow> bool" where
  "small_fs fs \<longleftrightarrow> (\<forall>q b. fs q = Some (File b) \<longrightarrow> length b < 2 ^ 64)"

definition src_len :: "string \<Rightarrow> file_system \<Rightarrow> nat" where
  "src_len p fs = (case fs (path_components p) of Some (File b) \<Rightarrow> length b | _ \<Rightarrow> 0)"

definition copier_ok ::
  "string \<Rightarrow> string \<Rightarrow> u64 \<Rightarrow> u64 \<Rightarrow> file_system \<Rightarrow> chan \<Rightarrow> (io_error + CopyDone) \<times> file_system \<times> chan \<Rightarrow> bool" where
  "copier_ok src dst op t fs c res \<longleftrightarrow>
     (case res of (r, fs', c') \<Rightarrow>
        (\<forall>q. q \<noteq> path_components dst \<longrightarrow> fs' q = fs q) \<and>
        (fs' (path_components dst) = Some Dir \<longleftrightarrow> fs (path_components dst) = Some Dir) \<and>
        (r = Inr DoneCompleted \<longrightarrow>
          (\<exists>b. fs (path_components src) = Some (File b) \<and> fs' (path_components dst) = Some (File b))) \<and>
        (\<exists>evs. ch_sent c' = ch_sent c @ evs \<and> progress_run op t 0 (src_len src fs) evs))"

locale file_copier =
  fixes cp :: "kernel \<Rightarrow> string \<Rightarrow> string \<Rightarrow> u64 \<Rightarrow> u64 \<Rightarrow> file_system \<Rightarrow> chan \<Rightarrow> (io_error + CopyDone) \<times> file_system \<times> chan"
  assumes cp_ok: "apart src dst fs \<Longrightarrow> small_fs fs \<Longrightarrow> copier_ok src dst op t fs c (cp k src dst op t fs c)"
begin

text \<open>After the outcome is settled the destination is whole or as it was.\<close>

lemma settle_all_or_nothing:
  assumes "not_file dst fs" "small_fs fs"
    and run: "settle fmt op src dst (cp k src dst op t fs c) = (fs', c')"
  shows "(\<forall>q. q \<noteq> path_components dst \<longrightarrow> fs' q = fs q)"
    and "\<exists>evs fin. ch_sent c' = ch_sent c @ evs @ fin \<and> progress_run op t 0 (src_len src fs) evs \<and>
      fin \<in> {[], [Completed op]} \<union> {[Failed op e m] | e m. True} \<and>
      (Completed op \<in> set fin \<longrightarrow>
        (\<exists>b. fs (path_components src) = Some (File b) \<and> fs' (path_components dst) = Some (File b)))"
    and "fs' (path_components dst) = fs (path_components dst) \<or>
      (\<exists>b. fs (path_components src) = Some (File b) \<and> fs' (path_components dst) = Some (File b))"
proof -
  obtain r fs1 c1 where cp: "cp k src dst op t fs c = (r, fs1, c1)"
    by (cases "cp k src dst op t fs c")
  have ok: "copier_ok src dst op t fs c (r, fs1, c1)"
    using cp_ok [of src dst fs op t c k] assms(1, 2) cp by (simp add: apart_def)
  then obtain evs where frame: "\<forall>q. q \<noteq> path_components dst \<longrightarrow> fs1 q = fs q"
      and dir: "fs1 (path_components dst) = Some Dir \<longleftrightarrow> fs (path_components dst) = Some Dir"
      and whole: "r = Inr DoneCompleted \<longrightarrow>
        (\<exists>b. fs (path_components src) = Some (File b) \<and> fs1 (path_components dst) = Some (File b))"
      and evs: "ch_sent c1 = ch_sent c @ evs" "progress_run op t 0 (src_len src fs) evs"
    by (auto simp: copier_ok_def)
  have gone: "remove_file dst fs1 = fs"
    using frame dir assms(1)
    by (auto simp: remove_file_def not_file_def fun_eq_iff split: option.splits node.splits)
      (metis node.exhaust not_None_eq)+
  let ?comp = "r = Inr DoneCompleted"
  have fs': "fs' = (if ?comp then fs1 else fs)"
    using run gone by (auto simp: cp settle_def split: sum.splits CopyDone.splits)
  show "\<forall>q. q \<noteq> path_components dst \<longrightarrow> fs' q = fs q"
    using frame fs' by auto
  show "fs' (path_components dst) = fs (path_components dst) \<or>
      (\<exists>b. fs (path_components src) = Some (File b) \<and> fs' (path_components dst) = Some (File b))"
    using fs' whole by auto
  obtain fin where "ch_sent c' = ch_sent c1 @ fin"
      "fin \<in> {[], [Completed op]} \<union> {[Failed op e m] | e m. True}" "Completed op \<in> set fin \<longrightarrow> ?comp"
    using run by (auto simp: cp settle_def send_def split: sum.splits CopyDone.splits option.splits if_splits)
  then show "\<exists>evs fin. ch_sent c' = ch_sent c @ evs @ fin \<and> progress_run op t 0 (src_len src fs) evs \<and>
      fin \<in> {[], [Completed op]} \<union> {[Failed op e m] | e m. True} \<and>
      (Completed op \<in> set fin \<longrightarrow>
        (\<exists>b. fs (path_components src) = Some (File b) \<and> fs' (path_components dst) = Some (File b)))"
    using evs whole fs' by (intro exI [of _ evs] exI [of _ fin] conjI) simp_all
qed

end

lemma copier_ok_refused: "copier_ok src dst op t fs c (Inl e, fs, c)"
  by (auto simp: copier_ok_def src_len_def split: option.splits node.splits)

lemma open_pair:
  assumes "open_read k src fs = Inr u" "open_trunc k dst fs = Inr fs1" "apart src dst fs"
  shows "fs1 = fs(path_components dst \<mapsto> File [])" "path_components src \<noteq> path_components dst"
    "fs (path_components src) \<noteq> None" "fs (path_components dst) \<noteq> Some Dir"
  using assms
  by (auto simp: open_read_def open_trunc_def apart_def not_file_def fs_exists_def
      split: option.splits if_splits) (metis node.exhaust)

lemma copier_ok_dir:
  assumes "fs (path_components dst) \<noteq> Some Dir"
  shows "copier_ok src dst op t fs c (Inl e, fs(path_components dst \<mapsto> File b), c)"
  using assms by (auto simp: copier_ok_def src_len_def split: option.splits node.splits)

lemma copier_ok_loop:
  assumes "loop_ok op t bytes [] c completed out c'" "fs (path_components src) = Some (File bytes)"
    and "fs (path_components dst) \<noteq> Some Dir" "completed \<longleftrightarrow> r = Inr DoneCompleted"
  shows "copier_ok src dst op t fs c (r, fs(path_components dst \<mapsto> File out), c')"
proof -
  obtain n evs where n: "out = take n bytes" "completed \<longrightarrow> out = bytes"
      "ch_sent c' = ch_sent c @ evs" "progress_run op t 0 (length out) evs"
    using assms(1) unfolding loop_ok_def append_Nil list.size(3) by blast
  from n(4) have "progress_run op t 0 (length bytes) evs"
    unfolding progress_run_def n(1) by (elim exE, rule_tac x = ds in exI) (auto simp: sorted_append)
  then show ?thesis
    using assms(2-4) n(2, 3) by (auto simp: copier_ok_def src_len_def)
qed

lemma small_bytes: "small_fs fs \<Longrightarrow> fs q = Some (File b) \<Longrightarrow> length b < 2 ^ 64"
  by (simp add: small_fs_def)

lemma stream_copy_ok:
  assumes "apart src dst fs" "small_fs fs"
  shows "copier_ok src dst op t fs c (stream_copy flush k src dst op t fs c)"
proof (cases "open_read k src fs")
  case (Inl e)
  then show ?thesis by (simp add: stream_copy_def copier_ok_refused)
next
  case rd: (Inr u)
  show ?thesis
  proof (cases "open_trunc k dst fs")
    case (Inl e)
    with rd show ?thesis by (simp add: stream_copy_def copier_ok_refused)
  next
    case wr: (Inr fs1)
    note pair = open_pair [OF rd wr assms(1)]
    show ?thesis
    proof (cases "fs (path_components src)")
      case None
      with pair(3) show ?thesis by simp
    next
      case (Some nd)
      show ?thesis
      proof (cases nd)
        case Dir
        then show ?thesis
          using rd wr pair Some by (simp add: stream_copy_def copier_ok_dir)
      next
        case (File bytes)
        obtain r out c' where l: "stream_loop k flush op t 0 bytes [] 0 (k_now k 0) 0 c = (r, out, c')"
          by (cases "stream_loop k flush op t 0 bytes [] 0 (k_now k 0) 0 c")
        have "loop_ok op t bytes [] c (r = Inr DoneCompleted) out c'"
          using stream_loop_ok [OF l] small_bytes [OF assms(2)] Some File by simp
        then have "copier_ok src dst op t fs c (r, fs(path_components dst \<mapsto> File out), c')"
          using Some File pair(4) by (intro copier_ok_loop) auto
        then show ?thesis
          using rd wr pair Some File l by (simp add: stream_copy_def)
      qed
    qed
  qed
qed

text \<open>
  Falling back to the byte stream starts over on a truncated destination; the first attempt
  has sent no event by then.
\<close>

lemma copy_file_range_loop_ok:
  assumes "apart src dst fs" "small_fs fs"
  shows "copier_ok src dst op t fs c (copy_file_range_loop k src dst op t fs c)"
proof (cases "open_read k src fs")
  case (Inl e)
  then show ?thesis by (simp add: copy_file_range_loop_def copier_ok_refused)
next
  case rd: (Inr u)
  show ?thesis
  proof (cases "open_trunc k dst fs")
    case (Inl e)
    with rd show ?thesis by (simp add: copy_file_range_loop_def copier_ok_refused)
  next
    case wr: (Inr fs1)
    note pair = open_pair [OF rd wr assms(1)]
    show ?thesis
    proof (cases "fs (path_components src)")
      case None
      with pair(3) show ?thesis by simp
    next
      case (Some nd)
      show ?thesis
      proof (cases nd)
        case Dir
        then show ?thesis
          using rd wr pair Some by (simp add: copy_file_range_loop_def copier_ok_dir)
      next
        case (File bytes)
        obtain r out c' where l: "range_loop k op t 0 bytes [] 0 (k_now k 0) 0 c = (r, out, c')"
          by (cases "range_loop k op t 0 bytes [] 0 (k_now k 0) 0 c")
        have ok: "loop_ok op t bytes [] c (r = Ret (Inr DoneCompleted)) out c'" "r = Fallback \<longrightarrow> c' = c"
          using range_loop_ok [OF l] small_bytes [OF assms(2)] Some File by simp_all
        show ?thesis
        proof (cases r)
          case (Ret x)
          then have "copier_ok src dst op t fs c (x, fs(path_components dst \<mapsto> File out), c')"
            using Some File pair(4) ok(1) by (intro copier_ok_loop) auto
          then show ?thesis
            using rd wr pair Some File l Ret by (simp add: copy_file_range_loop_def)
        next
          case Fallback
          let ?fs2 = "fs(path_components dst \<mapsto> File out)"
          have "length out < 2 ^ 64"
            using ok(1) small_bytes [OF assms(2) Some [unfolded File]]
            by (auto simp: loop_ok_def min_less_iff_disj)
          then have "copier_ok src dst op t ?fs2 c (stream_blocking k src dst op t ?fs2 c)"
            using assms(2) pair(2) unfolding stream_blocking_def
            by (intro stream_copy_ok) (auto simp: apart_def small_fs_def)
          then have "copier_ok src dst op t fs c (stream_blocking k src dst op t ?fs2 c)"
            using pair(2, 4) by (auto simp: copier_ok_def src_len_def split: prod.splits)
          then show ?thesis
            using rd wr pair Some File l Fallback ok(2) by (simp add: copy_file_range_loop_def)
        qed
      qed
    qed
  qed
qed

interpretation stream_cp: file_copier copy_one_stream
  by unfold_locales (simp add: copy_one_stream_def stream_copy_ok)

interpretation reflink_cp: file_copier copy_one_reflink
  by unfold_locales (simp add: copy_one_reflink_def copy_file_range_loop_ok)

lemma copy_one_sequential_cases:
  assumes "copy_one_sequential fmt k op src dst fs c = (fs', c')"
  obtains "settle fmt op src dst (copy_one_stream k src dst op (case fs_len k src fs of None \<Rightarrow> 0 | Some n \<Rightarrow> n) fs c) = (fs', c')"
  | "settle fmt op src dst (copy_one_reflink k src dst op (case fs_len k src fs of None \<Rightarrow> 0 | Some n \<Rightarrow> n) fs c) = (fs', c')"
  using assms by (auto simp: copy_one_sequential_def Let_def split: Strategy.splits)


section \<open>A copy that is not disturbed completes\<close>

text \<open>
  The kernel is healthy for a copy when no call fails, but the very first \<open>copy_file_range\<close>
  may report that the pair of files is not supported.
\<close>

definition healthy :: "kernel \<Rightarrow> bool" where
  "healthy k \<longleftrightarrow> (\<forall>p. k_open k p = None \<and> k_create k p = None) \<and> k_flush k = None \<and>
     (\<forall>i. k_write k i = None \<and> (\<exists>n. k_read k i = Inr n)) \<and>
     (\<forall>i. (\<exists>n. k_range k i = Inr n) \<or> (i = 0 \<and> (\<exists>e. k_range k i = Inl e \<and> falls_back e)))"

text \<open>The loop ends with a last event that shows every byte as done.\<close>

definition finished :: "u64 \<Rightarrow> u64 \<Rightarrow> nat \<Rightarrow> chan \<Rightarrow> chan \<Rightarrow> bool" where
  "finished op t n c c' \<longleftrightarrow> ch_left c' = None \<and>
     (\<exists>evs rate. ch_sent c' = ch_sent c @ evs @ [Progress op (of_nat n) t rate])"

lemma finished_end:
  assumes "ch_left c = None" "unat (d :: u64) = n"
  shows "finished op t n c (snd (send (Progress op d t rate) c))"
  using assms unfolding finished_def
  by (auto intro!: exI [of _ "[]"] exI [of _ rate] simp: word_unat_eq_iff)

lemma finished_step:
  assumes "finished op t n c1 c'" "ch_sent c1 = ch_sent c @ evs"
  shows "finished op t n c c'"
  using assms unfolding finished_def
  by (elim conjE exE, intro conjI) (auto intro!: exI [of _ "evs @ _"])

lemma beat_open:
  assumes "ch_left c = None" "(if emit then send e c else (True, c)) = (ok, c1)"
  shows "ok" "ch_left c1 = None" "\<exists>evs. ch_sent c1 = ch_sent c @ evs"
  using assms by (auto split: if_splits)

lemma range_loop_completes:
  assumes "\<And>j. i \<le> j \<Longrightarrow> \<exists>n. k_range k j = Inr n" "ch_left c = None"
    and "unat d = length out" "length out + length rest < 2 ^ 64"
  shows "\<exists>c'. range_loop k op t i rest out d la lb c = (Ret (Inr DoneCompleted), out @ rest, c') \<and>
    finished op t (length out + length rest) c c'"
  using assms
proof (induction rest arbitrary: i out d la lb c rule: length_induct)
  case (1 rest)
  obtain n where n: "k_range k i = Inr n" using "1.prems"(1) by blast
  show ?case
  proof (cases "rest = []")
    case True
    then show ?thesis
      using n finished_end "1.prems"(2, 3) by (subst range_loop.simps) simp
  next
    case False
    let ?m = "moved n PROGRESS_BYTES_TICK rest" and ?now = "k_now k (Suc i)"
    let ?d = "saturating_add d (of_nat ?m)"
    obtain emit la' lb' where e: "should_emit_progress ?now la lb ?d = (emit, la', lb')"
      by (cases "should_emit_progress ?now la lb ?d")
    let ?r = "throughput ?d (?now - k_now k 0)"
    obtain ok c1 where s: "(if emit then send (Progress op ?d t ?r) c else (True, c)) = (ok, c1)"
      by (cases "if emit then send (Progress op ?d t ?r) c else (True, c)")
    note open1 = beat_open [OF "1.prems"(2) s]
    have d: "unat ?d = length (out @ take ?m rest)"
      using "1.prems"(3, 4) moved_le by (rule unat_advance)
    have "\<exists>c'. range_loop k op t (Suc i) (drop ?m rest) (out @ take ?m rest) ?d la' lb' c1
        = (Ret (Inr DoneCompleted), (out @ take ?m rest) @ drop ?m rest, c') \<and>
      finished op t (length (out @ take ?m rest) + length (drop ?m rest)) c1 c'"
      using "1.prems"(1, 4) open1(2) d False moved_le [of n PROGRESS_BYTES_TICK rest]
      by (intro "1.IH" [rule_format]) (auto simp: moved_def)
    then obtain c' where c': "range_loop k op t (Suc i) (drop ?m rest) (out @ take ?m rest) ?d la' lb' c1
        = (Ret (Inr DoneCompleted), out @ rest, c')" "finished op t (length out + length rest) c1 c'"
      using moved_le [of n PROGRESS_BYTES_TICK rest] by auto
    moreover have "finished op t (length out + length rest) c c'"
      using c'(2) open1(3) finished_step by blast
    ultimately show ?thesis
      using n False e s open1(1) by (subst range_loop.simps) (simp add: Let_def)
  qed
qed


lemma stream_loop_completes:
  assumes "\<And>j. \<exists>n. k_read k j = Inr n" "\<And>j. k_write k j = None" "ch_left c = None"
    and "unat d = length out" "length out + length rest < 2 ^ 64"
  shows "\<exists>c'. stream_loop k None op t i rest out d la lb c = (Inr DoneCompleted, out @ rest, c') \<and>
    finished op t (length out + length rest) c c'"
  using assms
proof (induction rest arbitrary: i out d la lb c rule: length_induct)
  case (1 rest)
  obtain n where n: "k_read k i = Inr n" using "1.prems"(1) by blast
  show ?case
  proof (cases "rest = []")
    case True
    then show ?thesis
      using n finished_end "1.prems"(3, 4) by (subst stream_loop.simps) simp
  next
    case False
    let ?m = "moved n STREAM_CHUNK_BYTES rest" and ?now = "k_now k (Suc i)"
    let ?d = "saturating_add d (of_nat ?m)"
    obtain emit la' lb' where e: "should_emit_progress ?now la lb ?d = (emit, la', lb')"
      by (cases "should_emit_progress ?now la lb ?d")
    let ?r = "throughput ?d (?now - k_now k 0)"
    obtain ok c1 where s: "(if emit then send (Progress op ?d t ?r) c else (True, c)) = (ok, c1)"
      by (cases "if emit then send (Progress op ?d t ?r) c else (True, c)")
    note open1 = beat_open [OF "1.prems"(3) s]
    have d: "unat ?d = length (out @ take ?m rest)"
      using "1.prems"(4, 5) moved_le by (rule unat_advance)
    have "\<exists>c'. stream_loop k None op t (Suc i) (drop ?m rest) (out @ take ?m rest) ?d la' lb' c1
        = (Inr DoneCompleted, (out @ take ?m rest) @ drop ?m rest, c') \<and>
      finished op t (length (out @ take ?m rest) + length (drop ?m rest)) c1 c'"
      using "1.prems"(1, 2, 5) open1(2) d False moved_le [of n STREAM_CHUNK_BYTES rest]
      by (intro "1.IH" [rule_format]) (auto simp: moved_def)
    then obtain c' where c': "stream_loop k None op t (Suc i) (drop ?m rest) (out @ take ?m rest) ?d la' lb' c1
        = (Inr DoneCompleted, out @ rest, c')" "finished op t (length out + length rest) c1 c'"
      using moved_le [of n STREAM_CHUNK_BYTES rest] by auto
    moreover have "finished op t (length out + length rest) c c'"
      using c'(2) open1(3) finished_step by blast
    ultimately show ?thesis
      using n False e s open1(1) "1.prems"(2) by (subst stream_loop.simps) (simp add: Let_def)
  qed
qed



lemma stream_copy_completes:
  assumes "healthy k" "ch_left c = None" "fs (path_components src) = Some (File bytes)"
    and "path_components src \<noteq> path_components dst" "fs (path_components dst) \<noteq> Some Dir" "length bytes < 2 ^ 64"
  shows "\<exists>c'. stream_copy None k src dst op t fs c
    = (Inr DoneCompleted, fs(path_components dst \<mapsto> File bytes), c') \<and> finished op t (length bytes) c c'"
proof -
  obtain c' where "stream_loop k None op t 0 bytes [] 0 (k_now k 0) 0 c = (Inr DoneCompleted, bytes, c')"
      "finished op t (length bytes) c c'"
    using stream_loop_completes [of k c 0 "[]" bytes op t 0 "k_now k 0" 0] assms(1, 2, 6)
    by (auto simp: healthy_def)
  then show ?thesis
    using assms by (simp add: stream_copy_def open_read_def open_trunc_def fs_exists_def healthy_def)
qed

lemma copy_file_range_completes:
  assumes "healthy k" "ch_left c = None" "fs (path_components src) = Some (File bytes)"
    and "path_components src \<noteq> path_components dst" "fs (path_components dst) \<noteq> Some Dir" "length bytes < 2 ^ 64"
  shows "\<exists>c'. copy_file_range_loop k src dst op t fs c
    = (Inr DoneCompleted, fs(path_components dst \<mapsto> File bytes), c') \<and> finished op t (length bytes) c c'"
proof (cases "\<exists>n. k_range k 0 = Inr n")
  case True
  then have all: "\<exists>n. k_range k j = Inr n" for j
    using assms(1) by (auto simp: healthy_def)
  obtain c' where "range_loop k op t 0 bytes [] 0 (k_now k 0) 0 c = (Ret (Inr DoneCompleted), bytes, c')"
      "finished op t (length bytes) c c'"
    using range_loop_completes [of 0 k c 0 "[]" bytes op t "k_now k 0" 0] all assms(2, 6) by auto
  then show ?thesis
    using assms by (simp add: copy_file_range_loop_def open_read_def open_trunc_def fs_exists_def healthy_def)
next
  case False
  then obtain e where "k_range k 0 = Inl e" "falls_back e"
    using assms(1) by (auto simp: healthy_def)
  then have "range_loop k op t 0 bytes [] 0 (k_now k 0) 0 c = (Fallback, [], c)"
    by (subst range_loop.simps) simp
  moreover obtain c' where "stream_blocking k src dst op t (fs(path_components dst \<mapsto> File [])) c
      = (Inr DoneCompleted, fs(path_components dst \<mapsto> File bytes), c')" "finished op t (length bytes) c c'"
    using stream_copy_completes [of k c "fs(path_components dst \<mapsto> File [])" src bytes dst op t] assms
    by (auto simp: stream_blocking_def)
  ultimately show ?thesis
    using assms by (simp add: copy_file_range_loop_def open_read_def open_trunc_def fs_exists_def healthy_def)
qed

lemma copy_one_completes:
  assumes "healthy k" "ch_left c = None" "fs (path_components src) = Some (File bytes)"
    and "path_components src \<noteq> path_components dst" "fs (path_components dst) \<noteq> Some Dir" "length bytes < 2 ^ 64"
  shows "\<exists>c' evs rate. copy_one_sequential fmt k op src dst fs c = (fs(path_components dst \<mapsto> File bytes), c') \<and>
    ch_left c' = None \<and>
    ch_sent c' = ch_sent c @ evs @ [Progress op (of_nat (length bytes)) (of_nat (length bytes)) rate, Completed op]"
proof -
  have len: "fs_len k src fs = Some (of_nat (length bytes))"
    using assms(3) by (simp add: fs_len_def)
  let ?t = "of_nat (length bytes) :: u64" and ?same = "case same_mount k src (case path_parent dst of None \<Rightarrow> ''/'' | Some p \<Rightarrow> p) of Inl _ \<Rightarrow> True | Inr b \<Rightarrow> b"
  have "map_option Some (k_flush k) = None"
    using assms(1) by (simp add: healthy_def)
  then obtain c' where c': "(case decide_strategy ?same of Reflink \<Rightarrow> copy_one_reflink k src dst op ?t fs c
        | Stream \<Rightarrow> copy_one_stream k src dst op ?t fs c)
      = (Inr DoneCompleted, fs(path_components dst \<mapsto> File bytes), c')" "finished op ?t (length bytes) c c'"
    using copy_file_range_completes [OF assms, of op ?t] stream_copy_completes [OF assms, of op ?t]
    by (cases "decide_strategy ?same") (auto simp: copy_one_reflink_def copy_one_stream_def)
  then show ?thesis
    unfolding copy_one_sequential_def Let_def len option.case c'(1) settle_def
    by (auto simp: finished_def)
qed

section \<open>Free names\<close>

lemma plain_file_name:
  assumes "path_file_name p = Some n"
  shows "plain_seg n" "n \<noteq> ''..''" "seg_component n = Normal n"
proof -
  have "Normal n \<in> set (path_components p)"
    using assms by (auto simp: path_file_name_def split: list.splits component.splits)
  then have "Normal n \<in> set (body_components (split_slash p))"
    by (auto simp: path_components_def split: if_splits)
  then have "inner_component (Normal n)" by (rule body_inner)
  then show "plain_seg n" "seg_component n = Normal n" "n \<noteq> ''..''"
    by (auto simp: inner_component_def seg_component_def split: if_splits)
qed

lemma push_plain_any:
  assumes "plain_seg s"
  shows "path_components (path_push buf s) = path_components buf @ [seg_component s]"
proof (cases "buf = []")
  case True
  then show ?thesis
    using assms plain_seg_no_root [OF assms] plain_seg_body [OF assms]
    by (auto simp: path_push_def path_components_def has_root_def plain_seg_def split_slash_noslash
        body_components_def)
qed (rule push_plain [OF assms])

lemma nat_str_no_slash: "CHR ''/'' \<notin> set (nat_str n)"
proof
  assume "CHR ''/'' \<in> set (nat_str n)"
  then obtain d where "d < 10" "CHR ''/'' = char_of (48 + d :: nat)"
    by (auto simp: nat_str_def dest: dec_digits_less)
  then have "(of_char (CHR ''/'') :: nat) = 48 + d"
    by (simp add: of_char_of take_bit_nat_eq_self)
  then show False by simp
qed


lemma rsplit_dot_join: "rsplit_dot s = Some (a, b) \<Longrightarrow> s = a @ ''.'' @ b"
  by (induction s arbitrary: a) (auto split: option.splits if_splits)

lemma stem_extension_no_slash:
  "path_file_stem p = Some s \<Longrightarrow> CHR ''/'' \<notin> set s"
  "path_extension p = Some e \<Longrightarrow> CHR ''/'' \<notin> set e"
proof -
  have ns: "CHR ''/'' \<notin> set n" if "path_file_name p = Some n" for n
    using plain_file_name(1) [OF that] by (simp add: plain_seg_def)
  show "CHR ''/'' \<notin> set s" if stem: "path_file_stem p = Some s"
  proof -
    obtain n where "path_file_name p = Some n"
        "s = (case rsplit_dot n of None \<Rightarrow> n | Some (a, _) \<Rightarrow> if a = [] then n else a)"
      using stem by (auto simp: path_file_stem_def)
    with ns [of n] show ?thesis
      by (cases "rsplit_dot n") (auto dest: rsplit_dot_join split: if_splits)
  qed
  show "CHR ''/'' \<notin> set e" if ext: "path_extension p = Some e"
  proof -
    obtain n where n: "path_file_name p = Some n"
        "(case rsplit_dot n of None \<Rightarrow> None | Some (a, b) \<Rightarrow> if a = [] then None else Some b) = Some e"
      using ext by (auto simp: path_extension_def bind_eq_Some_conv)
    then obtain x where "rsplit_dot n = Some (x, e)"
      by (cases "rsplit_dot n") (auto split: if_splits)
    with ns [OF n(1)] show ?thesis by (auto dest: rsplit_dot_join)
  qed
qed

text \<open>The candidate names \<open>stem (n).ext\<close> differ for different \<open>n\<close>.\<close>

lemma suffixed_key:
  "\<exists>pre post. \<forall>n. path_components (suffixed base n) = pre @ [Normal (fst post @ '' ('' @ nat_str n @ '')'' @ snd post)]"
proof -
  let ?p = "case path_parent base of None \<Rightarrow> [] | Some p \<Rightarrow> p"
  let ?s = "case path_file_stem base of None \<Rightarrow> [] | Some s \<Rightarrow> s"
  let ?e = "case path_extension base of None \<Rightarrow> [] | Some e \<Rightarrow> CHR ''.'' # e"
  have ns: "CHR ''/'' \<notin> set ?s" "CHR ''/'' \<notin> set ?e"
    using stem_extension_no_slash [of base] by (auto split: option.splits)
  have "path_components (suffixed base n) = path_components ?p @ [Normal (?s @ '' ('' @ nat_str n @ '')'' @ ?e)]" for n
  proof -
    let ?name = "?s @ '' ('' @ nat_str n @ '')'' @ ?e"
    have "plain_seg ?name"
      using ns nat_str_no_slash [of n] by (auto simp: plain_seg_def append_eq_Cons_conv)
    moreover have "?name \<noteq> ''..''"
      by (auto simp: append_eq_Cons_conv)
    moreover have "suffixed base n = path_push ?p ?name"
      by (simp add: suffixed_def Let_def split: option.splits)
    ultimately show ?thesis
      by (simp only: push_plain_any) (simp add: seg_component_def)
  qed
  then show ?thesis
    by (intro exI [of _ "path_components ?p"] exI [of _ "(?s, ?e)"]) simp
qed

lemma inj_suffixed: "path_components (suffixed base m) = path_components (suffixed base n) \<longleftrightarrow> m = n"
proof -
  obtain pre post where "\<forall>n. path_components (suffixed base n)
      = pre @ [Normal (fst post @ '' ('' @ nat_str n @ '')'' @ snd post)]"
    using suffixed_key by blast
  then show ?thesis by (simp add: inj_nat_str)
qed

lemma suffix_from_free:
  assumes "n \<le> m" "m < 2 ^ 32 - 1" "\<not> fs_exists (suffixed base m) fs"
  shows "\<exists>j. n \<le> j \<and> j \<le> m \<and> suffix_from fs base n = suffixed base j \<and> \<not> fs_exists (suffixed base j) fs \<and>
    (\<forall>i. n \<le> i \<and> i < j \<longrightarrow> fs_exists (suffixed base i) fs)"
  using assms
proof (induction "m - n" arbitrary: n)
  case 0
  then show ?case by (subst suffix_from.simps) (auto intro!: exI [of _ m])
next
  case (Suc d)
  show ?case
  proof (cases "fs_exists (suffixed base n) fs")
    case False
    then show ?thesis
      using Suc.prems by (subst suffix_from.simps) (auto intro!: exI [of _ n])
  next
    case True
    have "d = m - (n + 1)" "n + 1 \<le> m" using Suc.hyps(2) Suc.prems(1) by linarith+
    from Suc.hyps(1) [OF this Suc.prems(2, 3)] obtain j where j: "n + 1 \<le> j" "j \<le> m" "suffix_from fs base (n + 1) = suffixed base j"
        "\<not> fs_exists (suffixed base j) fs" "\<forall>i. n + 1 \<le> i \<and> i < j \<longrightarrow> fs_exists (suffixed base i) fs"
      by blast
    have "suffix_from fs base n = suffixed base j"
      using j(3) True Suc.prems by (subst suffix_from.simps) auto
    moreover have "\<forall>i. n \<le> i \<and> i < j \<longrightarrow> fs_exists (suffixed base i) fs"
      using j(5) True by (metis Suc_eq_plus1 le_eq_less_or_eq less_eq_Suc_le)
    ultimately show ?thesis using j by (intro exI [of _ j]) auto
  qed
qed

text \<open>Among the first \<open>card (dom fs) + 1\<close> candidates one is free.\<close>

lemma free_suffix_exists:
  assumes "finite (dom fs)"
  shows "\<exists>m. 1 \<le> m \<and> m \<le> Suc (card (dom fs)) \<and> \<not> fs_exists (suffixed base m) fs"
proof (rule ccontr)
  assume "\<not> ?thesis"
  then have "(\<lambda>m. path_components (suffixed base m)) ` {1..Suc (card (dom fs))} \<subseteq> dom fs"
    by (auto simp: fs_exists_def)
  with assms have "card ((\<lambda>m. path_components (suffixed base m)) ` {1..Suc (card (dom fs))}) \<le> card (dom fs)"
    by (rule card_mono)
  moreover have "inj_on (\<lambda>m. path_components (suffixed base m)) {1..Suc (card (dom fs))}"
    by (rule inj_onI) (simp add: inj_suffixed)
  ultimately show False by (simp add: card_image)
qed

lemma rename_free:
  assumes "finite (dom fs)" "card (dom fs) < 2 ^ 32 - 2"
  shows "\<exists>j\<ge>1. rename_with_suffix fs base = suffixed base j \<and> \<not> fs_exists (suffixed base j) fs \<and>
    (\<forall>i. 1 \<le> i \<and> i < j \<longrightarrow> fs_exists (suffixed base i) fs)"
proof -
  obtain m where "1 \<le> m" "m \<le> Suc (card (dom fs))" "\<not> fs_exists (suffixed base m) fs"
    using free_suffix_exists [OF assms(1)] by blast
  with assms(2) suffix_from_free [of 1 m base fs] show ?thesis
    unfolding rename_with_suffix_def by fastforce
qed


section \<open>Batches\<close>

text \<open>A file system extends another when nothing that was there has changed.\<close>

definition extends :: "file_system \<Rightarrow> file_system \<Rightarrow> bool" where
  "extends fs fs' \<longleftrightarrow> (\<forall>q n. fs q = Some n \<longrightarrow> fs' q = Some n)"

definition roomy :: "nat \<Rightarrow> file_system \<Rightarrow> bool" where
  "roomy n fs \<longleftrightarrow> small_fs fs \<and> finite (dom fs) \<and> card (dom fs) + n < 2 ^ 32 - 2"

lemma extends_refl [simp]: "extends fs fs"
  by (simp add: extends_def)

lemma extends_trans: "extends a b \<Longrightarrow> extends b c \<Longrightarrow> extends a c"
  by (simp add: extends_def)

lemma resolve_dst_fresh:
  assumes "resolve_dst dst src conflict fs = (r, fs1)" "conflict \<noteq> Overwrite" "roomy n fs"
  shows "fs1 = fs" "r = Some p \<Longrightarrow> fs (path_components p) = None"
proof -
  show "fs1 = fs"
    using assms(1, 2) by (auto simp: resolve_dst_def Let_def split: option.splits if_splits ConflictPolicy.splits)
  assume "r = Some p"
  with assms rename_free [of fs "path_push dst (the (path_file_name src))"] show "fs (path_components p) = None"
    by (auto simp: resolve_dst_def Let_def fs_exists_def roomy_def split: option.splits if_splits ConflictPolicy.splits)
qed

lemma copy_one_safe:
  assumes "not_file dst fs" "small_fs fs" "copy_one_sequential fmt k op src dst fs c = (fs', c')"
  shows "\<forall>q. q \<noteq> path_components dst \<longrightarrow> fs' q = fs q"
    and "fs' (path_components dst) = fs (path_components dst) \<or>
      (\<exists>b. fs (path_components src) = Some (File b) \<and> fs' (path_components dst) = Some (File b))"
    and "\<exists>evs fin t. ch_sent c' = ch_sent c @ evs @ fin \<and> progress_run op t 0 (src_len src fs) evs \<and>
      fin \<in> {[], [Completed op]} \<union> {[Failed op e m] | e m. True} \<and>
      (Completed op \<in> set fin \<longrightarrow>
        (\<exists>b. fs (path_components src) = Some (File b) \<and> fs' (path_components dst) = Some (File b)))"
proof -
  note stream = stream_cp.settle_all_or_nothing [OF assms(1, 2)]
  note reflink = reflink_cp.settle_all_or_nothing [OF assms(1, 2)]
  show "\<forall>q. q \<noteq> path_components dst \<longrightarrow> fs' q = fs q"
    by (rule copy_one_sequential_cases [OF assms(3)]) (erule stream(1), erule reflink(1))
  show "fs' (path_components dst) = fs (path_components dst) \<or>
      (\<exists>b. fs (path_components src) = Some (File b) \<and> fs' (path_components dst) = Some (File b))"
    by (rule copy_one_sequential_cases [OF assms(3)]) (erule stream(3), erule reflink(3))
  show "\<exists>evs fin t. ch_sent c' = ch_sent c @ evs @ fin \<and> progress_run op t 0 (src_len src fs) evs \<and>
      fin \<in> {[], [Completed op]} \<union> {[Failed op e m] | e m. True} \<and>
      (Completed op \<in> set fin \<longrightarrow>
        (\<exists>b. fs (path_components src) = Some (File b) \<and> fs' (path_components dst) = Some (File b)))"
    by (rule copy_one_sequential_cases [OF assms(3)]) (drule stream(2), blast, drule reflink(2), blast)
qed

lemma copy_one_extends:
  assumes "fs (path_components dst) = None" "roomy (Suc n) fs" "copy_one_sequential fmt k op src dst fs c = (fs', c')"
  shows "extends fs fs'" "roomy n fs'"
    and "fs q = None \<Longrightarrow> fs' q = Some nd \<Longrightarrow> \<exists>b. nd = File b \<and> fs (path_components src) = Some (File b)"
proof -
  have nf: "not_file dst fs" "small_fs fs"
    using assms(1, 2) by (simp_all add: not_file_def roomy_def)
  note safe = copy_one_safe [OF nf assms(3)]
  show "extends fs fs'"
    using safe(1) assms(1) unfolding extends_def by (metis option.distinct(1))
  show "\<exists>b. nd = File b \<and> fs (path_components src) = Some (File b)" if "fs q = None" "fs' q = Some nd"
    using safe(1, 2) that assms(1) by (cases "q = path_components dst") auto
  have "dom fs' \<subseteq> insert (path_components dst) (dom fs)"
    using safe(1) by (auto simp: dom_def)
  moreover have fin: "finite (insert (path_components dst) (dom fs))"
    using assms(2) by (simp add: roomy_def)
  ultimately have "finite (dom fs')" "card (dom fs') \<le> card (insert (path_components dst) (dom fs))"
    by (auto intro: finite_subset card_mono)
  then have "finite (dom fs')" "card (dom fs') \<le> Suc (card (dom fs))"
    using fin by (auto simp: card_insert_if split: if_splits)
  moreover have "small_fs fs'"
    using safe(1, 2) nf(2) assms(1) unfolding small_fs_def by (metis option.distinct(1) option.inject node.inject)
  ultimately show "roomy n fs'"
    using assms(2) by (simp add: roomy_def)
qed

lemma copy_batch_extends:
  assumes "copy_batch fmt kern srcs dst conflict op fs c = (op', fs', c')"
    and "conflict \<noteq> Overwrite" "roomy (length srcs) fs"
  shows "extends fs fs' \<and> (\<forall>q nd. fs q = None \<longrightarrow> fs' q = Some nd \<longrightarrow>
    (\<exists>src b. src \<in> set srcs \<and> nd = File b \<and> fs' (path_components src) = Some (File b)))"
  using assms
proof (induction srcs arbitrary: kern op fs c)
  case (Cons src srcs)
  obtain ok c1 where s: "send (Started op) c = (ok, c1)" by (cases "send (Started op) c")
  obtain r fs1 where r: "resolve_dst dst src conflict fs = (r, fs1)" by (cases "resolve_dst dst src conflict fs")
  have fs1: "fs1 = fs" using resolve_dst_fresh(1) [OF r Cons.prems(2, 3)] .
  obtain fs2 c2 where step: "(case r of
        Some p \<Rightarrow> copy_one_sequential fmt (kern 0) op src p fs1 c1
      | None \<Rightarrow> (fs1, snd (send (Completed op) (snd (send (Progress op 0 0 0) c1))))) = (fs2, c2)"
    by (cases "case r of
        Some p \<Rightarrow> copy_one_sequential fmt (kern 0) op src p fs1 c1
      | None \<Rightarrow> (fs1, snd (send (Completed op) (snd (send (Progress op 0 0 0) c1))))")
  have mid: "extends fs fs2" "roomy (length srcs) fs2"
      "fs q = None \<longrightarrow> fs2 q = Some nd \<longrightarrow> (\<exists>b. nd = File b \<and> fs (path_components src) = Some (File b))" for q nd
  proof -
    have "extends fs fs2 \<and> roomy (length srcs) fs2 \<and> (\<forall>q nd. fs q = None \<longrightarrow> fs2 q = Some nd \<longrightarrow>
        (\<exists>b. nd = File b \<and> fs (path_components src) = Some (File b)))"
    proof (cases r)
      case None
      then show ?thesis using step fs1 Cons.prems(3) by (auto simp: roomy_def)
    next
      case (Some p)
      then have "copy_one_sequential fmt (kern 0) op src p fs c1 = (fs2, c2)"
        using step fs1 by simp
      from copy_one_extends [OF _ _ this, of "length srcs"] show ?thesis
        using resolve_dst_fresh(2) [OF r Cons.prems(2, 3) Some] Cons.prems(3) by auto
    qed
    then show "extends fs fs2" "roomy (length srcs) fs2"
      "fs q = None \<longrightarrow> fs2 q = Some nd \<longrightarrow> (\<exists>b. nd = File b \<and> fs (path_components src) = Some (File b))" for q nd
      by blast+
  qed
  show ?case
  proof (cases ok)
    case False
    then show ?thesis using Cons.prems(1) s by auto
  next
    case True
    then have rest: "copy_batch fmt (\<lambda>i. kern (Suc i)) srcs dst conflict (op + 1) fs2 c2 = (op', fs', c')"
      using Cons.prems(1) s r step by simp
    note IH = Cons.IH [OF rest Cons.prems(2) mid(2)]
    have "\<exists>s b. s \<in> set (src # srcs) \<and> nd = File b \<and> fs' (path_components s) = Some (File b)"
      if "fs q = None" "fs' q = Some nd" for q nd
    proof (cases "fs2 q")
      case None
      with conjunct2 [OF IH] that(2) obtain s b where "s \<in> set srcs" "nd = File b"
          "fs' (path_components s) = Some (File b)"
        by blast
      then show ?thesis by (intro exI [of _ s] exI [of _ b]) simp
    next
      case (Some nd')
      then have "nd' = nd" using IH that(2) by (simp add: extends_def)
      with mid(3) [of q nd] Some that(1) obtain b where "nd = File b" "fs (path_components src) = Some (File b)"
        by blast
      moreover have "extends fs fs'" using mid(1) IH by (blast intro: extends_trans)
      ultimately show ?thesis by (intro exI [of _ src] exI [of _ b]) (simp add: extends_def)
    qed
    with IH mid(1) show ?thesis by (blast intro: extends_trans)
  qed
qed simp


definition terminal :: "OpEvent \<Rightarrow> bool" where
  "terminal e \<longleftrightarrow> (case e of Completed _ \<Rightarrow> True | Failed _ _ _ \<Rightarrow> True | Cancelled _ \<Rightarrow> True | _ \<Rightarrow> False)"

lemma progress_run_not_terminal: "progress_run op t lo hi evs \<Longrightarrow> filter terminal evs = []"
  by (auto simp: progress_run_def terminal_def filter_empty_conv)

lemma copy_one_fresh_completes:
  assumes "healthy k" "ch_left c = None" "fs (path_components src) = Some (File bytes)"
    and fresh: "fs (path_components dst) = None" and small: "small_fs fs"
  shows "\<exists>c'. copy_one_sequential fmt k op src dst fs c = (fs(path_components dst \<mapsto> File bytes), c') \<and>
    ch_left c' = None \<and> filter terminal (ch_sent c') = filter terminal (ch_sent c) @ [Completed op]"
proof -
  have "path_components src \<noteq> path_components dst" "fs (path_components dst) \<noteq> Some Dir" "length bytes < 2 ^ 64"
    using assms(3) fresh small by (auto simp: small_fs_def)
  from copy_one_completes [OF assms(1-3) this, of fmt op] obtain c' evs' rate where
    c': "copy_one_sequential fmt k op src dst fs c = (fs(path_components dst \<mapsto> File bytes), c')" "ch_left c' = None"
      "ch_sent c' = ch_sent c @ evs' @ [Progress op (of_nat (length bytes)) (of_nat (length bytes)) rate, Completed op]"
    by blast
  have "not_file dst fs" using fresh by (simp add: not_file_def)
  from copy_one_safe(3) [OF this small c'(1)] obtain evs fin t where
    e: "ch_sent c' = ch_sent c @ evs @ fin" "progress_run op t 0 (src_len src fs) evs"
      "fin \<in> {[], [Completed op]} \<union> {[Failed op e m] | e m. True}"
    by blast
  have last: "evs @ fin = (evs' @ [Progress op (of_nat (length bytes)) (of_nat (length bytes)) rate]) @ [Completed op]"
    using c'(3) e(1) by simp
  have "fin = [Completed op]"
  proof (cases "fin = []")
    case True
    then have "Completed op \<in> set evs" using last by simp
    with e(2) show ?thesis by (auto simp: progress_run_def)
  next
    case False
    then show ?thesis using e(3) last by (auto dest: arg_cong [of _ _ last])
  qed
  then show ?thesis
    using c'(1, 2) e(1) progress_run_not_terminal [OF e(2)] by (auto simp: terminal_def)
qed

lemma resolve_rename:
  assumes "path_file_name src = Some n" "roomy m fs"
  shows "\<exists>p. resolve_dst dst src Rename fs = (Some p, fs) \<and> fs (path_components p) = None"
proof -
  obtain r fs1 where r: "resolve_dst dst src Rename fs = (r, fs1)" by (cases "resolve_dst dst src Rename fs")
  moreover have "r \<noteq> None" using r assms(1) by (auto simp: resolve_dst_def Let_def split: if_splits)
  ultimately show ?thesis
    using resolve_dst_fresh [OF r _ assms(2)] by auto
qed

lemma copy_batch_completes:
  assumes "ch_left c = None" "\<And>i. healthy (kern i)" "roomy (length srcs) fs"
    and "\<And>src. src \<in> set srcs \<Longrightarrow> path_file_name src \<noteq> None \<and> (\<exists>b. fs (path_components src) = Some (File b))"
  shows "\<exists>dsts fs' c'. copy_batch fmt kern srcs dst Rename op fs c = (op + of_nat (length srcs), fs', c') \<and>
    list_all2 (\<lambda>s d. fs (path_components d) = None \<and> fs' (path_components d) = fs (path_components s)) srcs dsts \<and>
    distinct (map path_components dsts) \<and>
    filter terminal (ch_sent c') = filter terminal (ch_sent c) @ map (\<lambda>i. Completed (op + of_nat i)) [0..<length srcs]"
  using assms
proof (induction srcs arbitrary: kern op fs c)
  case (Cons src srcs)
  obtain n bytes where src: "path_file_name src = Some n" "fs (path_components src) = Some (File bytes)"
    using Cons.prems(4) [of src] by auto
  obtain p where p: "resolve_dst dst src Rename fs = (Some p, fs)" "fs (path_components p) = None"
    using resolve_rename [OF src(1) Cons.prems(3)] by blast
  let ?fs2 = "fs(path_components p \<mapsto> File bytes)" and ?c1 = "c\<lparr>ch_sent := ch_sent c @ [Started op]\<rparr>"
  have small: "small_fs fs" using Cons.prems(3) by (simp add: roomy_def)
  obtain c2 where c2: "copy_one_sequential fmt (kern 0) op src p fs ?c1 = (?fs2, c2)" "ch_left c2 = None"
      "filter terminal (ch_sent c2) = filter terminal (ch_sent c) @ [Completed op]"
    using copy_one_fresh_completes [OF Cons.prems(2) [of 0] _ src(2) p(2) small, of ?c1 fmt op] Cons.prems(1)
    by (auto simp: terminal_def)
  have ext: "extends fs ?fs2" "roomy (length srcs) ?fs2"
    using copy_one_extends(1, 2) [OF p(2) _ c2(1)] Cons.prems(3) by simp_all
  have "\<And>s. s \<in> set srcs \<Longrightarrow> path_file_name s \<noteq> None \<and> (\<exists>b. ?fs2 (path_components s) = Some (File b))"
    using Cons.prems(4) ext(1) unfolding extends_def by (meson list.set_intros(2))
  from Cons.IH [of c2 "\<lambda>i. kern (Suc i)" ?fs2 "op + 1", OF c2(2) Cons.prems(2) ext(2) this] obtain dsts fs' c' where
    IH: "copy_batch fmt (\<lambda>i. kern (Suc i)) srcs dst Rename (op + 1) ?fs2 c2 = (op + 1 + of_nat (length srcs), fs', c')"
      "list_all2 (\<lambda>s d. ?fs2 (path_components d) = None \<and> fs' (path_components d) = ?fs2 (path_components s)) srcs dsts"
      "distinct (map path_components dsts)"
      "filter terminal (ch_sent c') = filter terminal (ch_sent c2) @ map (\<lambda>i. Completed (op + 1 + of_nat i)) [0..<length srcs]"
    by blast
  have "extends ?fs2 fs'"
    using copy_batch_extends [OF IH(1) _ ext(2)] by simp
  then have "fs' (path_components p) = fs (path_components src)"
    using src(2) by (simp add: extends_def)
  moreover have "list_all2 (\<lambda>s d. fs (path_components d) = None \<and> fs' (path_components d) = fs (path_components s)) srcs dsts"
    using IH(2) Cons.prems(4) p(2)
    by (auto simp: list_all2_conv_all_nth split: if_splits) (metis nth_mem option.distinct(1))
  moreover have "path_components p \<notin> set (map path_components dsts)"
    using IH(2) by (auto simp: list_all2_conv_all_nth in_set_conv_nth split: if_splits)
  moreover have "copy_batch fmt kern (src # srcs) dst Rename op fs c = (op + of_nat (length (src # srcs)), fs', c')"
    using p(1) c2(1) IH(1) Cons.prems(1) by (simp add: ac_simps)
  moreover have "filter terminal (ch_sent c')
      = filter terminal (ch_sent c) @ map (\<lambda>i. Completed (op + of_nat i)) [0..<length (src # srcs)]"
    using IH(4) c2(3) by (simp add: upt_conv_Cons map_Suc_upt [symmetric] ac_simps del: upt_Suc map_Suc_upt)
  ultimately show ?case
    using IH(3) p(2) by (intro exI [of _ "p # dsts"] exI [of _ fs'] exI [of _ c']) simp
qed simp


section \<open>Properties\<close>

text \<open>A kernel that answers every call, two bytes at a time, and a file system with one file.\<close>

definition calm_kernel :: kernel where
  "calm_kernel = \<lparr>k_open = \<lambda>_. None, k_create = \<lambda>_. None, k_range = \<lambda>_. Inr 2, k_read = \<lambda>_. Inr 2,
     k_write = \<lambda>_. None, k_flush = None, k_now = \<lambda>i. i * 200000, k_mnt = \<lambda>_. Inr (Some 1), k_dev = \<lambda>_. Inr 1,
     k_dir_len = 0\<rparr>"

definition one_file :: file_system where
  "one_file = [path_components ''/d/a.txt'' \<mapsto> File [1, 2, 3]]"

lemma calm_healthy: "healthy calm_kernel"
  by (simp add: healthy_def calm_kernel_def)

lemma one_file_lookup [simp]: "one_file (path_components ''/d/a.txt'') = Some (File [1, 2, 3])"
  by (simp add: one_file_def)

lemma one_file_roomy: "n \<le> 10 \<Longrightarrow> roomy n one_file"
  by (auto simp: roomy_def small_fs_def one_file_def split: if_splits)





text \<open>
  The events of one copy are a climbing run of progress reports of its operation, none above
  the size of the source, followed by at most one terminal event, and completion is reported
  only when the destination holds the whole source.
\<close>

theorem copy_progress_bounded:
  assumes "not_file dst fs" "small_fs fs" "copy_one_sequential fmt k op src dst fs c = (fs', c')"
  shows "\<exists>t ds fin. ch_sent c' = ch_sent c @ map (\<lambda>(d, r). Progress op d t r) ds @ fin \<and>
    sorted (map (unat \<circ> fst) ds) \<and> list_all (\<lambda>p. unat (fst p) \<le> src_len src fs) ds \<and>
    fin \<in> {[], [Completed op]} \<union> {[Failed op e m] | e m. True} \<and>
    (Completed op \<in> set fin \<longrightarrow>
      (\<exists>b. fs (path_components src) = Some (File b) \<and> fs' (path_components dst) = Some (File b)))"
proof -
  obtain evs fin t where e: "ch_sent c' = ch_sent c @ evs @ fin" "progress_run op t 0 (src_len src fs) evs"
      "fin \<in> {[], [Completed op]} \<union> {[Failed op e m] | e m. True}"
      "Completed op \<in> set fin \<longrightarrow>
        (\<exists>b. fs (path_components src) = Some (File b) \<and> fs' (path_components dst) = Some (File b))"
    using copy_one_safe(3) [OF assms] by blast
  from e(2) obtain ds where "evs = map (\<lambda>(d, r). Progress op d t r) ds"
      "sorted (map (unat \<circ> fst) ds)" "list_all (\<lambda>p. unat (fst p) \<le> src_len src fs) ds"
    by (auto simp: progress_run_def sorted_append list_all_iff)
  with e(1, 3, 4) show ?thesis by blast
qed

theorem copy_progress_bounded_witness:
  "\<exists>t ds fin c' fs'. copy_one_sequential (\<lambda>_ _ _. []) calm_kernel 1 ''/d/a.txt'' ''/d/b'' one_file \<lparr>ch_sent = [], ch_left = None\<rparr>
      = (fs', c') \<and> ch_sent c' = map (\<lambda>(d, r). Progress 1 d t r) ds @ fin \<and>
      list_all (\<lambda>p. unat (fst p) \<le> 3) ds"
proof -
  obtain fs' c' where run: "copy_one_sequential (\<lambda>_ _ _. []) calm_kernel 1 ''/d/a.txt'' ''/d/b'' one_file
      \<lparr>ch_sent = [], ch_left = None\<rparr> = (fs', c')"
    by (rule prod.exhaust)
  have "path_components ''/d/b'' \<noteq> path_components ''/d/a.txt''" by code_simp
  then have "not_file ''/d/b'' one_file" by (simp add: not_file_def one_file_def)
  moreover have "small_fs one_file" using one_file_roomy [of 0] by (simp add: roomy_def)
  moreover have "src_len ''/d/a.txt'' one_file = 3" by (simp add: src_len_def one_file_def)
  ultimately show ?thesis using copy_progress_bounded [OF _ _ run] run by auto
qed

text \<open>
  C34. Rename picks the first free name in the series \<open>stem (1).ext\<close>, \<open>stem (2).ext\<close> and so on; in
  a file system with fewer than \<open>2\<^sup>3\<^sup>2 - 2\<close> entries it always finds one.
\<close>

theorem rename_picks_first_free:
  assumes "finite (dom fs)" "card (dom fs) < 2 ^ 32 - 2"
  shows "\<exists>j\<ge>1. rename_with_suffix fs base = suffixed base j \<and> \<not> fs_exists (suffixed base j) fs \<and>
    (\<forall>i. 1 \<le> i \<and> i < j \<longrightarrow> fs_exists (suffixed base i) fs)"
  using rename_free [OF assms] .

theorem rename_picks_first_free_witness:
  "\<exists>j\<ge>1. rename_with_suffix one_file ''/d/a.txt'' = suffixed ''/d/a.txt'' j \<and> suffixed ''/d/a.txt'' 1 = ''/d/a (1).txt''"
proof -
  have "suffixed ''/d/a.txt'' 1 = ''/d/a (1).txt''" by code_simp
  then show ?thesis
    using rename_picks_first_free [of one_file "''/d/a.txt''"] by (auto simp: one_file_def)
qed

text \<open>
  Copying a file into its own directory under Overwrite destroys it: the conflicting name is
  removed before the source is opened, and both are the same file.  Only a failure is
  reported.
\<close>

theorem copy_overwrite_onto_itself:
  assumes "path_file_name p = Some n" "path_parent p = Some d" "fs (path_components p) = Some (File b)"
    and "ch_left c = None"
  shows "\<exists>e m. copy_batch fmt kern [p] d Overwrite op fs c
    = (op + 1, fs(path_components p := None), c\<lparr>ch_sent := ch_sent c @ [Started op, Failed op e m]\<rparr>)"
proof -
  have "last (path_components p) = Normal n" "path_components p \<noteq> []"
    using assms(1) by (auto simp: path_file_name_def split: list.splits component.splits)
  then have key: "path_components (path_push d n) = path_components p"
    using path_parent_components [OF assms(2)] plain_file_name [OF assms(1)]
    by (simp add: push_plain_any) (metis append_butlast_last_id)
  let ?fs = "fs(path_components p := None)"
  have res: "resolve_dst d p Overwrite fs = (Some (path_push d n), ?fs)"
    using assms(1, 3) by (simp add: resolve_dst_def Let_def fs_exists_def key remove_file_def)
  obtain e where "open_read (kern 0) p ?fs = Inl e"
    by (cases "k_open (kern 0) p") (auto simp: open_read_def fs_exists_def)
  then have "stream_copy f (kern 0) p q op t ?fs c1 = (Inl e, ?fs, c1)"
      "copy_file_range_loop (kern 0) p q op t ?fs c1 = (Inl e, ?fs, c1)" for f q t c1
    by (simp_all add: stream_copy_def copy_file_range_loop_def)
  then have "copy_one_sequential fmt (kern 0) op p (path_push d n) ?fs c1
      = settle fmt op p (path_push d n) (Inl e, ?fs, c1)" for c1
    by (simp add: copy_one_sequential_def Let_def copy_one_reflink_def copy_one_stream_def split: Strategy.split)
  moreover have "remove_file (path_push d n) ?fs = ?fs"
    by (simp add: remove_file_def key)
  ultimately show ?thesis
    using res assms(4) by (simp add: settle_def) blast
qed

theorem copy_overwrite_onto_itself_witness:
  "\<exists>e m. copy_batch (\<lambda>_ _ _. []) (\<lambda>_. calm_kernel) [''/d/a.txt''] ''/d'' Overwrite 7 one_file \<lparr>ch_sent = [], ch_left = None\<rparr>
     = (8, Map.empty, \<lparr>ch_sent = [Started 7, Failed 7 e m], ch_left = None\<rparr>)"
proof -
  have "path_file_name ''/d/a.txt'' = Some ''a.txt''" "path_parent ''/d/a.txt'' = Some ''/d''" by code_simp+
  then show ?thesis
    using copy_overwrite_onto_itself [of "''/d/a.txt''" "''a.txt''" "''/d''" one_file "[1, 2, 3]"
        "\<lparr>ch_sent = [], ch_left = None\<rparr>" "\<lambda>_ _ _. []" "\<lambda>_. calm_kernel" 7]
    by (simp add: one_file_def)
qed

text \<open>
  A dropped stream makes the io_uring executor stop with the bytes written so far: the partial
  destination stays, where the sequential executor removes it.
\<close>

theorem uring_cancel_keeps_partial:
  assumes "fs (path_components src) = Some (File bytes)" "apart src dst fs" "small_fs fs"
    and "stream_copy None k src dst op (of_nat (length bytes)) fs c = (Inr DoneCancelled, fs1, c1)"
  shows "\<exists>n. fst (copy_one_iouring fmt k op src dst fs c) = fs(path_components dst \<mapsto> File (take n bytes)) \<and>
    fst (settle fmt op src dst (Inr DoneCancelled, fs1, c1)) = fs(path_components dst := None)"
proof -
  have len: "fs_len k src fs = Some (of_nat (length bytes))"
    using assms(1) by (simp add: fs_len_def)
  obtain u fs0 where o: "open_read k src fs = Inr u" "open_trunc k dst fs = Inr fs0"
    using assms(4) by (auto simp: stream_copy_def split: sum.splits)
  note pair = open_pair [OF o assms(2)]
  obtain r out c' where l: "stream_loop k None op (of_nat (length bytes)) 0 bytes [] 0 (k_now k 0) 0 c = (r, out, c')"
    by (rule prod_cases3)
  have "fs1 = fs(path_components dst \<mapsto> File out)"
    using assms(1, 4) o pair(1, 2) l by (simp add: stream_copy_def)
  moreover obtain n where "out = take n bytes"
    using stream_loop_ok [OF l] small_bytes [OF assms(3, 1)] by (auto simp: loop_ok_def)
  ultimately show ?thesis
    using assms(4) by (auto simp: copy_one_iouring_def iouring_read_write_def len settle_def remove_file_def)
qed

theorem uring_cancel_keeps_partial_witness:
  "\<exists>n. fst (copy_one_iouring (\<lambda>_ _ _. []) calm_kernel 1 ''/d/a.txt'' ''/d/b'' one_file \<lparr>ch_sent = [], ch_left = Some 0\<rparr>)
    = one_file(path_components ''/d/b'' \<mapsto> File (take n [1, 2, 3]))"
proof -
  have ne: "path_components ''/d/b'' \<noteq> path_components ''/d/a.txt''" by code_simp
  then have ap: "apart ''/d/a.txt'' ''/d/b'' one_file" by (simp add: apart_def)
  have sm: "small_fs one_file" using one_file_roomy [of 0] by (simp add: roomy_def)
  have "stream_loop calm_kernel None 1 3 0 [1, 2, 3] [] 0 (k_now calm_kernel 0) 0 \<lparr>ch_sent = [], ch_left = Some 0\<rparr>
      = (Inr DoneCancelled, [1, 2], \<lparr>ch_sent = [], ch_left = Some 0\<rparr>)"
    by (subst stream_loop.simps)
      (simp add: calm_kernel_def moved_def STREAM_CHUNK_BYTES_def should_emit_progress_def PROGRESS_INTERVAL_MS_def send_def)
  then have "stream_copy None calm_kernel ''/d/a.txt'' ''/d/b'' 1 (of_nat (length [1, 2, 3 :: byte])) one_file
      \<lparr>ch_sent = [], ch_left = Some 0\<rparr>
    = (Inr DoneCancelled, one_file(path_components ''/d/b'' \<mapsto> File [1, 2]), \<lparr>ch_sent = [], ch_left = Some 0\<rparr>)"
    using ne by (simp add: stream_copy_def open_read_def open_trunc_def fs_exists_def one_file_def calm_kernel_def)
  then show ?thesis
    using uring_cancel_keeps_partial [OF _ ap sm, of "[1, 2, 3]" calm_kernel 1 _ _ _ "\<lambda>_ _ _. []"] ne
    by (auto simp: one_file_def)
qed


end
