(* ===== verification/File_State.thy ===== *)
theory File_State
  imports Copy_Engine "HOL-Library.List_Lexorder" "HOL-Library.Char_ord" "HOL-Library.Multiset"
begin

text \<open>
  The state of the file manager (\<open>file/state/*\<close>): panes and their rows, the ordered selection,
  the queue of operations and the command bar, with the directory walk that numbers the rows
  (\<open>file/fs/walk.rs\<close>), the filename filter (\<open>file/search/filename.rs\<close>), the MIME ladder of the
  previewer (\<open>file/fs/mime.rs\<close>, \<open>file/view/preview/mod.rs\<close>) and the layout thresholds
  (\<open>file/view/mod.rs\<close>).  The MIME database, the magic sniffer and the fuzzy matcher are crates
  and so parameters.
\<close>

section \<open>Operations\<close>

type_synonym EntryId = u64

datatype Operation =
    OpCopy "string list" string ConflictPolicy
  | OpMove "string list" string ConflictPolicy
  | OpTrash "string list"
  | OpRestore "EntryId list"
  | OpMkdir string string
  | OpRename string string

section \<open>The ordered selection\<close>

text \<open>\<open>BTreeSet\<close> as its sorted sequence of elements.\<close>

definition bset_insert :: "'a::linorder \<Rightarrow> 'a list \<Rightarrow> 'a list" where
  "bset_insert x s = insort_insert x s"

definition bset_remove :: "'a \<Rightarrow> 'a list \<Rightarrow> bool \<times> 'a list" where
  "bset_remove x s = (x \<in> set s, filter (\<lambda>y. y \<noteq> x) s)"

record SelectionSet =
  ids :: "EntryId list"

definition selection_new :: SelectionSet where
  "selection_new = \<lparr>ids = []\<rparr>"

definition toggle :: "EntryId \<Rightarrow> SelectionSet \<Rightarrow> SelectionSet" where
  "toggle i s = (let (was, rest) = bset_remove i (ids s)
     in if \<not> was then s\<lparr>ids := bset_insert i rest\<rparr> else s\<lparr>ids := rest\<rparr>)"

definition add_range :: "EntryId \<Rightarrow> EntryId \<Rightarrow> SelectionSet \<Rightarrow> SelectionSet" where
  "add_range a b s =
     (let (lo, hi) = (if a \<le> b then (a, b) else (b, a))
      in s\<lparr>ids := fold bset_insert (map of_nat [unat lo..<Suc (unat hi)]) (ids s)\<rparr>)"

definition invert :: "EntryId list \<Rightarrow> SelectionSet \<Rightarrow> SelectionSet" where
  "invert universe s =
     s\<lparr>ids := fold (\<lambda>i acc. if i \<notin> set (ids s) then bset_insert i acc else acc) universe []\<rparr>"

definition select_all :: "EntryId list \<Rightarrow> SelectionSet \<Rightarrow> SelectionSet" where
  "select_all universe s = s\<lparr>ids := fold bset_insert universe []\<rparr>"

definition selection_clear :: "SelectionSet \<Rightarrow> SelectionSet" where
  "selection_clear s = s\<lparr>ids := []\<rparr>"

definition selection_contains :: "EntryId \<Rightarrow> SelectionSet \<Rightarrow> bool" where
  "selection_contains i s \<longleftrightarrow> i \<in> set (ids s)"

section \<open>Panes\<close>

datatype PaneId = PaneParent | PaneCurrent | PanePreview

datatype EntryKind = KFile | KDir | KSymlink | KOther

record Entry =
  e_id :: EntryId
  e_name :: string
  e_kind :: EntryKind
  e_size :: u64
  e_mtime :: nat
  e_is_symlink :: bool
  e_broken_link :: bool
  e_readable :: bool
  e_mime_hint :: "string option"
  e_symlink_target :: "string option"

record Pane =
  cwd :: string
  entries :: "Entry list"
  cursor :: nat
  scroll :: nat

definition pane_new :: "string \<Rightarrow> Pane" where
  "pane_new d = \<lparr>cwd = d, entries = [], cursor = 0, scroll = 0\<rparr>"

definition set_entries :: "Entry list \<Rightarrow> Pane \<Rightarrow> Pane" where
  "set_entries new p =
     (let p1 = p\<lparr>entries := new\<rparr> in
      if new = [] then p1\<lparr>cursor := 0\<rparr>
      else if cursor p \<ge> length new then p1\<lparr>cursor := length new - 1\<rparr> else p1)"

record Panes =
  parent_pane :: Pane
  current_pane :: Pane
  preview_pane :: Pane

definition panes_new :: "string \<Rightarrow> string \<Rightarrow> string \<Rightarrow> Panes" where
  "panes_new p c v = \<lparr>parent_pane = pane_new p, current_pane = pane_new c, preview_pane = pane_new v\<rparr>"

definition panes_default :: Panes where
  "panes_default = panes_new ''/'' ''/'' ''/''"

section \<open>Listing a directory\<close>

text \<open>
  What the file system shows of one name: \<open>lstat\<close>, the link target, whether following the link
  works, and \<open>access(2)\<close>.  A \<open>None\<close> name is a directory entry that could not be read.
\<close>

datatype file_type = TReg | TDir | TLink | TSpecial

record raw_stat =
  st_type :: file_type
  st_size :: u64
  st_mtime :: nat

record dirent =
  de_name :: string
  de_lstat :: "raw_stat option"
  de_target :: "string option"
  de_stat_ok :: bool
  de_access :: bool

definition is_hidden :: "string \<Rightarrow> bool" where
  "is_hidden n \<longleftrightarrow> (case n of [] \<Rightarrow> False | c # _ \<Rightarrow> c = CHR ''.'')"

definition raw_readable :: "dirent \<Rightarrow> bool" where
  "raw_readable d \<longleftrightarrow> CHR 0x00 \<notin> set (de_name d) \<and> de_access d"

definition stat_entry :: "EntryId \<Rightarrow> dirent \<Rightarrow> Entry" where
  "stat_entry i d =
     (case de_lstat d of
        None \<Rightarrow> \<lparr>e_id = i, e_name = de_name d, e_kind = KOther, e_size = 0, e_mtime = 0, e_is_symlink = False,
                 e_broken_link = False, e_readable = False, e_mime_hint = None, e_symlink_target = None\<rparr>
      | Some raw \<Rightarrow>
          (let link = (st_type raw = TLink) in
           \<lparr>e_id = i, e_name = de_name d,
            e_kind = (if link then KSymlink else if st_type raw = TDir then KDir
                      else if st_type raw = TReg then KFile else KOther),
            e_size = st_size raw, e_mtime = st_mtime raw, e_is_symlink = link,
            e_broken_link = (link \<and> \<not> de_stat_ok d), e_readable = raw_readable d, e_mime_hint = None,
            e_symlink_target = (if link then de_target d else None)\<rparr>))"

fun number_entries :: "EntryId \<Rightarrow> bool \<Rightarrow> dirent option list \<Rightarrow> Entry list" where
  "number_entries next_id hidden [] = []"
| "number_entries next_id hidden (None # ds) = number_entries next_id hidden ds"
| "number_entries next_id hidden (Some d # ds) =
     (if \<not> hidden \<and> is_hidden (de_name d) then number_entries next_id hidden ds
      else stat_entry next_id d # number_entries (saturating_add next_id 1) hidden ds)"

text \<open>Newest first, then by name; the sort is stable.\<close>

definition sort_entries :: "Entry list \<Rightarrow> Entry list" where
  "sort_entries es = sort_key (\<lambda>e. - int (e_mtime e)) (sort_key e_name es)"

definition walk_blocking :: "bool \<Rightarrow> dirent option list option \<Rightarrow> Entry list option" where
  "walk_blocking hidden rd = map_option (\<lambda>ds. sort_entries (number_entries 0 hidden ds)) rd"

section \<open>Layout, previews and the filter\<close>

datatype LayoutMode = ThreePane | TwoPane | OnePane

definition THREE_PANE_MIN_WIDTH_PX :: u32 where "THREE_PANE_MIN_WIDTH_PX = 1100"
definition TWO_PANE_MIN_WIDTH_PX :: u32 where "TWO_PANE_MIN_WIDTH_PX = 720"

definition mode_for_width :: "u32 \<Rightarrow> LayoutMode" where
  "mode_for_width w = (if w \<ge> THREE_PANE_MIN_WIDTH_PX then ThreePane
     else if w \<ge> TWO_PANE_MIN_WIDTH_PX then TwoPane else OnePane)"

datatype PreviewKind = PImage | PText | PNoBuiltin

definition starts_with :: "string \<Rightarrow> string \<Rightarrow> bool" where
  "starts_with p s \<longleftrightarrow> take (length p) s = p"

definition kind_for :: "string \<Rightarrow> PreviewKind" where
  "kind_for mime = (if starts_with ''image/'' mime then PImage
     else if starts_with ''text/'' mime \<or> mime = ''application/json'' then PText else PNoBuiltin)"

definition APPLICATION_OCTET_STREAM :: string where
  "APPLICATION_OCTET_STREAM = ''application/octet-stream''"

record mime_env =
  mime_db :: "string \<Rightarrow> string option"
  mime_sniff :: "string \<Rightarrow> string option"

definition lookup_by_extension :: "mime_env \<Rightarrow> string \<Rightarrow> string option" where
  "lookup_by_extension m p =
     Option.bind (path_file_name p) (\<lambda>n. Option.bind (mime_db m n)
       (\<lambda>s. if s = APPLICATION_OCTET_STREAM then None else Some s))"

definition mime_for :: "mime_env \<Rightarrow> string \<Rightarrow> string option" where
  "mime_for m p = (case lookup_by_extension m p of Some s \<Rightarrow> Some s | None \<Rightarrow> mime_sniff m p)"

definition mime_for_entry :: "mime_env \<Rightarrow> Entry \<Rightarrow> string \<Rightarrow> string" where
  "mime_for_entry m e p = (case e_mime_hint e of
      Some h \<Rightarrow> h
    | None \<Rightarrow> (case mime_for m p of Some s \<Rightarrow> s | None \<Rightarrow> APPLICATION_OCTET_STREAM))"

definition filename_matches :: "(string \<Rightarrow> string \<Rightarrow> nat option) \<Rightarrow> string \<Rightarrow> Entry list \<Rightarrow> nat list" where
  "filename_matches fuzzy query es =
     (if query = [] then [0..<length es]
      else (let scored = List.map_filter (\<lambda>(i, e). map_option (Pair i) (fuzzy (e_name e) query)) (enumerate 0 es)
            in map fst (sort_key (\<lambda>p. - int (snd p)) scored)))"

section \<open>The command bar\<close>

datatype CommandMode = BarClosed | BarFilter | BarPalette

definition KNOWN_VERBS :: "string list" where
  "KNOWN_VERBS = [''k'', ''copy'', ''move'', ''trash'', ''restore'', ''mkdir'', ''rename'', ''find'', ''m'']"

definition completions_for :: "string \<Rightarrow> string list" where
  "completions_for query = filter (starts_with query) KNOWN_VERBS"

record CommandBar =
  bar_mode :: CommandMode
  bar_query :: string
  filter_results :: "nat list"
  selected_verb :: "string option"

definition bar_default :: CommandBar where
  "bar_default = \<lparr>bar_mode = BarClosed, bar_query = [], filter_results = [], selected_verb = None\<rparr>"

definition open_filter :: "CommandBar \<Rightarrow> CommandBar" where
  "open_filter b = b\<lparr>bar_mode := BarFilter, bar_query := [], filter_results := [], selected_verb := None\<rparr>"

definition first_of :: "'a list \<Rightarrow> 'a option" where
  "first_of xs = (case xs of [] \<Rightarrow> None | x # _ \<Rightarrow> Some x)"

definition open_palette :: "CommandBar \<Rightarrow> CommandBar" where
  "open_palette b = b\<lparr>bar_mode := BarPalette, bar_query := [], filter_results := [],
     selected_verb := first_of KNOWN_VERBS\<rparr>"

definition bar_close :: "CommandBar \<Rightarrow> CommandBar" where
  "bar_close b = b\<lparr>bar_mode := BarClosed, bar_query := [], filter_results := [], selected_verb := None\<rparr>"

definition set_query :: "string \<Rightarrow> CommandBar \<Rightarrow> CommandBar" where
  "set_query q b = (let b1 = b\<lparr>bar_query := q\<rparr> in
     if bar_mode b = BarPalette then b1\<lparr>selected_verb := first_of (completions_for q)\<rparr> else b1)"

definition select_verb :: "string \<Rightarrow> CommandBar \<Rightarrow> CommandBar" where
  "select_verb v b = b\<lparr>selected_verb := Some v\<rparr>"

section \<open>Bookmarks\<close>

record Bookmark =
  bm_key :: char
  bm_path :: string
  bm_added_at :: nat
  bm_title :: "string option"

text \<open>
  \<open>save\<close> writes the table to disk; whether it does is reported to the caller and does not
  change the table in memory.
\<close>

definition pin :: "nat \<Rightarrow> char \<Rightarrow> string \<Rightarrow> string option \<Rightarrow> (char \<rightharpoonup> Bookmark) \<Rightarrow> (char \<rightharpoonup> Bookmark)" where
  "pin now key p title items = items(key \<mapsto> \<lparr>bm_key = key, bm_path = p, bm_added_at = now, bm_title = title\<rparr>)"

definition unpin :: "char \<Rightarrow> (char \<rightharpoonup> Bookmark) \<Rightarrow> (char \<rightharpoonup> Bookmark)" where
  "unpin key items = items(key := None)"

definition jump :: "char \<Rightarrow> (char \<rightharpoonup> Bookmark) \<Rightarrow> string option" where
  "jump key items = map_option bm_path (items key)"

section \<open>Facts on ordered sets\<close>

text \<open>The interface of an ordered set, and what its clients rely on.\<close>

locale ordered_set =
  fixes ins :: "'a::linorder \<Rightarrow> 's \<Rightarrow> 's"
    and del :: "'a \<Rightarrow> 's \<Rightarrow> bool \<times> 's"
    and elems :: "'s \<Rightarrow> 'a list"
    and ok :: "'s \<Rightarrow> bool"
  assumes ins_ok: "ok s \<Longrightarrow> ok (ins x s)"
    and ins_elems: "ok s \<Longrightarrow> set (elems (ins x s)) = insert x (set (elems s))"
    and del_ok: "ok s \<Longrightarrow> ok (snd (del x s))"
    and del_elems: "ok s \<Longrightarrow> set (elems (snd (del x s))) = set (elems s) - {x}"
    and del_found: "ok s \<Longrightarrow> fst (del x s) \<longleftrightarrow> x \<in> set (elems s)"
    and ok_sorted: "ok s \<Longrightarrow> sorted (elems s) \<and> distinct (elems s)"
    and elems_inj: "ok s \<Longrightarrow> ok t \<Longrightarrow> elems s = elems t \<Longrightarrow> s = t"
begin

text \<open>Two sets with the same members are the same set.\<close>

lemma set_ext: "ok s \<Longrightarrow> ok t \<Longrightarrow> set (elems s) = set (elems t) \<Longrightarrow> s = t"
  using ok_sorted elems_inj sorted_distinct_set_unique by blast

lemma fold_ins:
  "ok s \<Longrightarrow> ok (fold ins xs s) \<and> set (elems (fold ins xs s)) = set xs \<union> set (elems s)"
  by (induction xs arbitrary: s) (auto simp: ins_ok ins_elems)

lemma fold_ins_if:
  "ok s \<Longrightarrow> ok (fold (\<lambda>x acc. if P x then ins x acc else acc) xs s) \<and>
    set (elems (fold (\<lambda>x acc. if P x then ins x acc else acc) xs s)) = {x \<in> set xs. P x} \<union> set (elems s)"
  by (induction xs arbitrary: s) (auto simp: ins_ok ins_elems)

lemma toggle_set:
  assumes "ok s"
  shows "ok (if \<not> fst (del x s) then ins x (snd (del x s)) else snd (del x s))"
    and "set (elems (if \<not> fst (del x s) then ins x (snd (del x s)) else snd (del x s)))
      = (if x \<in> set (elems s) then set (elems s) - {x} else insert x (set (elems s)))"
  using assms by (auto simp: ins_ok del_ok ins_elems del_elems del_found)

end

definition bset_ok :: "'a::linorder list \<Rightarrow> bool" where
  "bset_ok s \<longleftrightarrow> sorted s \<and> distinct s"

interpretation bset: ordered_set bset_insert bset_remove id bset_ok
  by unfold_locales (auto simp: bset_insert_def bset_remove_def bset_ok_def sorted_insort_insert
      distinct_insort_insert set_insort_insert intro: sorted_filter [where f = id, simplified] )

definition selection_ok :: "SelectionSet \<Rightarrow> bool" where
  "selection_ok s \<longleftrightarrow> bset_ok (ids s)"

lemma selection_eq_iff: "s = t \<longleftrightarrow> ids s = ids t" for s t :: SelectionSet
  by (cases s; cases t) simp

lemma toggle_ok: "selection_ok s \<Longrightarrow> selection_ok (toggle i s)"
  using bset.toggle_set(1) [of "ids s" i]
  by (auto simp: selection_ok_def toggle_def Let_def case_prod_beta split: if_splits)

lemma toggle_members:
  "selection_ok s \<Longrightarrow> set (ids (toggle i s)) = (if i \<in> set (ids s) then set (ids s) - {i} else insert i (set (ids s)))"
  using bset.toggle_set(2) [of "ids s" i]
  by (auto simp: selection_ok_def toggle_def Let_def case_prod_beta split: if_splits)

lemma add_range_members:
  assumes "selection_ok s"
  shows "selection_ok (add_range a b s)"
    and "set (ids (add_range a b s)) = {min a b..max a b} \<union> set (ids s)"
proof -
  have range: "set (map of_nat [unat lo..<Suc (unat hi)]) = {lo..hi}" for lo hi :: u64
  proof -
    have "x \<in> of_nat ` {unat lo..unat hi}" if "lo \<le> x" "x \<le> hi" for x
      using that by (intro image_eqI [of _ _ "unat x"]) (auto simp: word_le_nat_alt)
    moreover have "lo \<le> of_nat n \<and> of_nat n \<le> hi" if "unat lo \<le> n" "n \<le> unat hi" for n
    proof -
      have "n < 2 ^ LENGTH(64)"
        using that unsigned_less [of hi, where ?'a = nat] by simp
      then have "unat (of_nat n :: u64) = n"
        by (simp add: unat_of_nat take_bit_nat_eq_self)
      with that show ?thesis by (simp add: word_le_nat_alt)
    qed
    ultimately have "of_nat ` {unat lo..unat hi} = {lo..hi}" by force
    then show ?thesis by (simp add: atLeastLessThanSuc_atLeastAtMost del: upt_Suc)
  qed
  have *: "add_range a b s = s\<lparr>ids := fold bset_insert (map of_nat [unat (min a b)..<Suc (unat (max a b))]) (ids s)\<rparr>"
    by (simp add: add_range_def min_def max_def)
  show "selection_ok (add_range a b s)"
    unfolding * selection_ok_def
    using bset.fold_ins [of "ids s"] assms by (simp add: selection_ok_def del: upt_Suc)
  show "set (ids (add_range a b s)) = {min a b..max a b} \<union> set (ids s)"
    unfolding * using bset.fold_ins [of "ids s" "map of_nat [unat (min a b)..<Suc (unat (max a b))]"] assms
    by (simp add: selection_ok_def range del: set_map upt_Suc)
qed

lemma invert_members:
  shows "selection_ok (invert universe s)"
    and "set (ids (invert universe s)) = set universe - set (ids s)"
proof -
  have "bset_ok []" by (simp add: bset_ok_def)
  from bset.fold_ins_if [OF this, of "\<lambda>i. i \<notin> set (ids s)" universe]
  show "selection_ok (invert universe s)" "set (ids (invert universe s)) = set universe - set (ids s)"
    by (auto simp: invert_def selection_ok_def)
qed

lemma select_all_members:
  shows "selection_ok (select_all universe s)" and "set (ids (select_all universe s)) = set universe"
proof -
  have "bset_ok []" by (simp add: bset_ok_def)
  from bset.fold_ins [OF this, of universe]
  show "selection_ok (select_all universe s)" "set (ids (select_all universe s)) = set universe"
    by (auto simp: select_all_def selection_ok_def)
qed


section \<open>Facts on panes and listings\<close>

definition pane_ok :: "Pane \<Rightarrow> bool" where
  "pane_ok p \<longleftrightarrow> cursor p = 0 \<or> cursor p < length (entries p)"

lemma set_entries_ok: "pane_ok (set_entries new p)"
  by (auto simp: pane_ok_def set_entries_def Let_def)

lemma set_entries_simps [simp]: "cwd (set_entries new p) = cwd p" "entries (set_entries new p) = new"
  by (simp_all add: set_entries_def Let_def)

lemma stat_entry_id [simp]: "e_id (stat_entry i d) = i"
  by (simp add: stat_entry_def Let_def split: option.splits)

text \<open>The rows of a directory carry the ids \<open>0, 1, \<dots>\<close> in the order the kernel lists them.\<close>

lemma number_entries_ids:
  "unat n + length ds < 2 ^ 64 \<Longrightarrow>
   map e_id (number_entries n h ds) = map of_nat [unat n..<unat n + length (number_entries n h ds)]"
proof (induction n h ds rule: number_entries.induct)
  case (3 n h d ds)
  show ?case
  proof (cases "\<not> h \<and> is_hidden (de_name d)")
    case False
    have one: "unat (saturating_add n 1) = unat n + 1"
      using 3(3) by (simp add: unat_saturating_add)
    have "map e_id (number_entries (saturating_add n 1) h ds)
        = map of_nat [unat n + 1..<unat n + 1 + length (number_entries (saturating_add n 1) h ds)]"
      using 3(2) [OF False] 3(3) one by simp
    then show ?thesis
      using False by (auto simp: upt_conv_Cons simp del: upt_Suc)
  qed (use 3 in auto)
qed auto

lemma walk_ids:
  assumes "length ds < 2 ^ 64" "walk_blocking h (Some ds) = Some es"
  shows "mset (map e_id es) = mset (map of_nat [0..<length es])"
proof -
  let ?n = "number_entries 0 h ds"
  have es: "es = sort_entries ?n" using assms(2) by (simp add: walk_blocking_def)
  have "mset (map e_id es) = mset (map e_id ?n)" "length es = length ?n"
    unfolding es by (simp_all add: sort_entries_def)
  then show ?thesis using number_entries_ids [of 0 ds h] assms(1) by (simp del: mset_map mset_upt)
qed

end
