(* ===== verification/File_App.thy ===== *)
theory File_App
  imports File_State
begin

text \<open>
  The reducer of the file manager window (\<open>file/app.rs\<close>): \<open>update\<close> with its key handler, as a
  function from a message and the state to the new state and the task it starts.  Tasks finish
  later with a message of their own, so walks and previews can arrive out of date.  The four
  messages of the knowledge search, which carry floating-point scores, the drag source and the
  mount list are left out; an image handle is not part of its message.
\<close>

section \<open>Messages, tasks and state\<close>

datatype named_key =
  Escape | Space | ArrowDown | ArrowUp | ArrowLeft | ArrowRight | Enter | Backspace | OtherKey

datatype key = Character string | Named named_key

record modifiers =
  mod_shift :: bool
  mod_ctrl :: bool

datatype PreviewPayload = PayText "string list" | PayInfo string | PayImage

datatype DropAction = DropCopy | DropMove

datatype Message =
    Tick
  | Loaded string
  | WindowResized u32 u32
  | KeyPressed key modifiers
  | CommandQueryChanged string
  | CommandSelectVerb string
  | CommandClose
  | Navigate string
  | HoverEntry EntryId
  | PreviewLoaded string
  | PreviewLoadedPng string "byte list"
  | PreviewLoadedText string string
  | PreviewFailed string string
  | DropAccept "string list" DropAction
  | BookmarkPin char
  | BookmarkJump char
  | EntriesLoaded PaneId string "Entry list"
  | CursorTo EntryId
  | ActivateEntry EntryId
  | PreviewResolved string PreviewPayload

text \<open>What \<open>Task::perform\<close> runs is named by its future; \<open>Task::done\<close> carries its message.\<close>

datatype task =
    TaskDone Message
  | WalkForPane PaneId string
  | LoadImage string
  | HighlightText string
  | FormatInfo string
  | HoverImage string
  | PluginPreview string string

datatype ClipboardMode = ClipCopy | ClipMove

record PreviewState =
  current_path :: "string option"
  text_preview :: "(string \<times> string) option"
  resolved :: "(string \<times> PreviewPayload) option"

record State =
  panes :: Panes
  mode :: LayoutMode
  selection :: SelectionSet
  ops :: "Operation list"
  commandbar :: CommandBar
  preview :: PreviewState
  plugin_bridge :: bool
  clipboard :: "(ClipboardMode \<times> string list) option"
  range_anchor :: "EntryId option"
  bookmarks :: "(char \<rightharpoonup> Bookmark) option"
  pending_key_chord :: "char option"

definition state_default :: State where
  "state_default = \<lparr>panes = panes_default, mode = ThreePane, selection = selection_new, ops = [],
     commandbar = bar_default, preview = \<lparr>current_path = None, text_preview = None, resolved = None\<rparr>,
     plugin_bridge = False, clipboard = None, range_anchor = None, bookmarks = None, pending_key_chord = None\<rparr>"

record app_env =
  env_mime :: mime_env
  env_fuzzy :: "string \<Rightarrow> string \<Rightarrow> nat option"
  env_now :: nat

definition cur :: "State \<Rightarrow> Pane" where
  "cur s = current_pane (panes s)"

definition upd_cur :: "(Pane \<Rightarrow> Pane) \<Rightarrow> State \<Rightarrow> State" where
  "upd_cur f s = s\<lparr>panes := (panes s)\<lparr>current_pane := f (cur s)\<rparr>\<rparr>"

text \<open>\<open>Path\<close> equality compares components.\<close>

definition path_eq :: "string \<Rightarrow> string \<Rightarrow> bool" where
  "path_eq p q \<longleftrightarrow> path_components p = path_components q"

definition opt_path_eq :: "string option \<Rightarrow> string \<Rightarrow> bool" where
  "opt_path_eq r p \<longleftrightarrow> (case r of None \<Rightarrow> False | Some q \<Rightarrow> path_eq q p)"

definition nth_opt :: "'a list \<Rightarrow> nat \<Rightarrow> 'a option" where
  "nth_opt xs i = (if i < length xs then Some (xs ! i) else None)"

fun position :: "('a \<Rightarrow> bool) \<Rightarrow> 'a list \<Rightarrow> nat option" where
  "position P [] = None"
| "position P (x # xs) = (if P x then Some 0 else map_option Suc (position P xs))"

section \<open>Handlers\<close>

definition refresh_panes :: "string \<Rightarrow> task list" where
  "refresh_panes d = WalkForPane PaneCurrent d #
     (case path_parent d of None \<Rightarrow> [] | Some p \<Rightarrow> [WalkForPane PaneParent p])"

definition resolve_preview :: "app_env \<Rightarrow> State \<Rightarrow> State \<times> task list" where
  "resolve_preview env s =
     (case nth_opt (entries (cur s)) (cursor (cur s)) of
        None \<Rightarrow> (s\<lparr>preview := (preview s)\<lparr>current_path := None, resolved := None\<rparr>\<rparr>, [])
      | Some e \<Rightarrow>
          (let p = path_push (cwd (cur s)) (e_name e);
               s1 = s\<lparr>preview := (preview s)\<lparr>current_path := Some p\<rparr>\<rparr> in
           if opt_path_eq (map_option fst (resolved (preview s))) p then (s1, [])
           else if e_kind e = KDir then
             (s1\<lparr>panes := (panes s1)\<lparr>preview_pane := (preview_pane (panes s1))\<lparr>cwd := p\<rparr>\<rparr>\<rparr>, [WalkForPane PanePreview p])
           else case kind_for (mime_for_entry (env_mime env) e p) of
             PImage \<Rightarrow> (s1, [LoadImage p])
           | PText \<Rightarrow> (s1, [HighlightText p])
           | PNoBuiltin \<Rightarrow> (s1, [FormatInfo p])))"

definition handle_bookmark_pin :: "app_env \<Rightarrow> char \<Rightarrow> State \<Rightarrow> State" where
  "handle_bookmark_pin env k s = (case bookmarks s of
      None \<Rightarrow> s
    | Some items \<Rightarrow> s\<lparr>bookmarks := Some (pin (env_now env) k (cwd (cur s)) None items)\<rparr>)"

definition handle_bookmark_jump :: "char \<Rightarrow> State \<Rightarrow> State" where
  "handle_bookmark_jump k s = (case bookmarks s of
      None \<Rightarrow> s
    | Some items \<Rightarrow> (case jump k items of None \<Rightarrow> s | Some p \<Rightarrow> upd_cur (\<lambda>c. c\<lparr>cwd := p\<rparr>) s))"

definition selected_paths :: "State \<Rightarrow> string list" where
  "selected_paths s = map (\<lambda>e. path_push (cwd (cur s)) (e_name e))
     (filter (\<lambda>e. selection_contains (e_id e) (selection s)) (entries (cur s)))"

definition handle_drop_accept :: "string list \<Rightarrow> DropAction \<Rightarrow> State \<Rightarrow> State" where
  "handle_drop_accept ps act s =
     (if ps = [] then s
      else s\<lparr>ops := ops s @ [case act of DropCopy \<Rightarrow> OpCopy ps (cwd (cur s)) Skip
                             | DropMove \<Rightarrow> OpMove ps (cwd (cur s)) Skip]\<rparr>)"

definition handle_hover :: "app_env \<Rightarrow> EntryId \<Rightarrow> State \<Rightarrow> State \<times> task list" where
  "handle_hover env i s =
     (case find (\<lambda>e. e_id e = i) (entries (cur s)) of
        None \<Rightarrow> (s, [])
      | Some e \<Rightarrow>
          (let p = path_push (cwd (cur s)) (e_name e);
               s1 = s\<lparr>preview := (preview s)\<lparr>current_path := Some p\<rparr>\<rparr>;
               mime = mime_for_entry (env_mime env) e p in
           case kind_for mime of
             PImage \<Rightarrow> (s1, [HoverImage p])
           | PNoBuiltin \<Rightarrow> (s1, if plugin_bridge s then [PluginPreview mime p] else [])
           | PText \<Rightarrow> (s1, [])))"

text \<open>The row arithmetic of the cursor is done in \<open>i32\<close>.\<close>

definition handle_cursor_move :: "int \<Rightarrow> State \<Rightarrow> State" where
  "handle_cursor_move delta s =
     (let n = length (entries (cur s)) in
      if n = 0 then upd_cur (\<lambda>c. c\<lparr>cursor := 0\<rparr>) s
      else (let moved_to = sint (word_of_int (int (cursor (cur s)) + delta) :: 32 word);
                hi = sint (word_of_int (int (n - 1)) :: 32 word);
                nxt = min (max moved_to 0) hi
            in upd_cur (\<lambda>c. c\<lparr>cursor := nat nxt\<rparr>) s))"

definition handle_cursor_open :: "State \<Rightarrow> task list" where
  "handle_cursor_open s = (case nth_opt (entries (cur s)) (cursor (cur s)) of
      None \<Rightarrow> []
    | Some e \<Rightarrow> if e_kind e \<noteq> KDir then [] else [TaskDone (Navigate (path_push (cwd (cur s)) (e_name e)))])"

definition handle_cursor_up :: "State \<Rightarrow> task list" where
  "handle_cursor_up s = (case path_parent (cwd (cur s)) of
      None \<Rightarrow> [] | Some p \<Rightarrow> [TaskDone (Navigate p)])"

definition handle_space_toggle :: "State \<Rightarrow> State" where
  "handle_space_toggle s = (case nth_opt (entries (cur s)) (cursor (cur s)) of
      None \<Rightarrow> s | Some e \<Rightarrow> s\<lparr>selection := toggle (e_id e) (selection s)\<rparr>)"

definition handle_range_extend :: "int \<Rightarrow> State \<Rightarrow> State" where
  "handle_range_extend delta s =
     (let es = entries (cur s); prev = cursor (cur s) in
      if es = [] then s
      else (let anchor = (case range_anchor s of Some a \<Rightarrow> Some a | None \<Rightarrow> map_option e_id (nth_opt es prev));
                nc = (if delta > 0 then min (prev + 1) (length es - 1) else saturating_sub prev 1);
                s1 = upd_cur (\<lambda>c. c\<lparr>cursor := nc\<rparr>) (s\<lparr>range_anchor := anchor\<rparr>)
            in case (anchor, map_option e_id (nth_opt es nc)) of
                 (Some a, Some b) \<Rightarrow> s1\<lparr>selection := add_range a b (selection s1)\<rparr>
               | _ \<Rightarrow> s1))"

definition handle_select_all :: "State \<Rightarrow> State" where
  "handle_select_all s = s\<lparr>selection := select_all (map e_id (entries (cur s))) (selection s)\<rparr>"

definition handle_invert :: "State \<Rightarrow> State" where
  "handle_invert s = s\<lparr>selection := invert (map e_id (entries (cur s))) (selection s)\<rparr>"

definition handle_clipboard_stash :: "ClipboardMode \<Rightarrow> State \<Rightarrow> State" where
  "handle_clipboard_stash m s =
     (if selected_paths s \<noteq> [] then s\<lparr>clipboard := Some (m, selected_paths s)\<rparr> else s)"

definition handle_trash :: "State \<Rightarrow> State" where
  "handle_trash s = (if selected_paths s \<noteq> [] then s\<lparr>ops := ops s @ [OpTrash (selected_paths s)]\<rparr> else s)"

definition handle_paste :: "State \<Rightarrow> State" where
  "handle_paste s = (case clipboard s of
      None \<Rightarrow> s
    | Some (m, srcs) \<Rightarrow> s\<lparr>clipboard := None, ops := ops s @
        [case m of ClipCopy \<Rightarrow> OpCopy srcs (cwd (cur s)) Skip | ClipMove \<Rightarrow> OpMove srcs (cwd (cur s)) Skip]\<rparr>)"

definition chord_char :: "key \<Rightarrow> char option" where
  "chord_char k = (case k of Character c \<Rightarrow> first_of c | Named _ \<Rightarrow> None)"

text \<open>The arms of \<open>handle_key\<close> for named keys and for characters.\<close>

fun key_named :: "app_env \<Rightarrow> named_key \<Rightarrow> modifiers \<Rightarrow> State \<Rightarrow> State \<times> task list" where
  "key_named env Escape mods s =
     (s\<lparr>commandbar := bar_close (commandbar s), range_anchor := None, pending_key_chord := None\<rparr>, [])"
| "key_named env Space mods s = (handle_space_toggle s, [])"
| "key_named env ArrowDown mods s =
     (if mod_shift mods then (handle_range_extend 1 s, []) else resolve_preview env (handle_cursor_move 1 s))"
| "key_named env ArrowUp mods s =
     (if mod_shift mods then (handle_range_extend (- 1) s, []) else resolve_preview env (handle_cursor_move (- 1) s))"
| "key_named env Enter mods s = (s, handle_cursor_open s)"
| "key_named env ArrowRight mods s = (s, handle_cursor_open s)"
| "key_named env Backspace mods s = (s, handle_cursor_up s)"
| "key_named env ArrowLeft mods s = (s, handle_cursor_up s)"
| "key_named env OtherKey mods s = (s, [])"

definition key_char :: "app_env \<Rightarrow> string \<Rightarrow> State \<Rightarrow> State \<times> task list" where
  "key_char env c s =
     (if c = ''/'' then (s\<lparr>commandbar := open_filter (commandbar s)\<rparr>, [])
      else if c = '':'' then (s\<lparr>commandbar := open_palette (commandbar s)\<rparr>, [])
      else if c = ''b'' then (s\<lparr>pending_key_chord := Some (CHR ''b'')\<rparr>, [])
      else if c = ''B'' then (s\<lparr>pending_key_chord := Some (CHR ''B'')\<rparr>, [])
      else if c = ''j'' then resolve_preview env (handle_cursor_move 1 s)
      else if c = ''k'' then resolve_preview env (handle_cursor_move (- 1) s)
      else if c = ''l'' then (s, handle_cursor_open s)
      else if c = ''h'' then (s, handle_cursor_up s)
      else if c = ''*'' then (handle_select_all s, [])
      else if c = ''a'' then (handle_invert s, [])
      else if c = ''y'' then (handle_clipboard_stash ClipCopy s, [])
      else if c = ''x'' then (handle_clipboard_stash ClipMove s, [])
      else if c = ''d'' then (handle_trash s, [])
      else if c = ''p'' then (handle_paste s, [])
      else (s, []))"

definition handle_key :: "app_env \<Rightarrow> key \<Rightarrow> modifiers \<Rightarrow> State \<Rightarrow> State \<times> task list" where
  "handle_key env k mods s =
     (if pending_key_chord s = Some (CHR ''b'') then
        (let s1 = s\<lparr>pending_key_chord := None\<rparr>
         in (case chord_char k of Some ch \<Rightarrow> handle_bookmark_jump ch s1 | None \<Rightarrow> s1, []))
      else if pending_key_chord s = Some (CHR ''B'') then
        (let s1 = s\<lparr>pending_key_chord := None\<rparr>
         in (case chord_char k of Some ch \<Rightarrow> handle_bookmark_pin env ch s1 | None \<Rightarrow> s1, []))
      else case k of Named n \<Rightarrow> key_named env n mods s | Character c \<Rightarrow> key_char env c s)"

definition go_to :: "string \<Rightarrow> State \<Rightarrow> State \<times> task list" where
  "go_to p s =
     (let s1 = upd_cur (\<lambda>c. c\<lparr>cwd := p\<rparr>) s;
          s2 = (case path_parent p of None \<Rightarrow> s1
                | Some d \<Rightarrow> s1\<lparr>panes := (panes s1)\<lparr>parent_pane := (parent_pane (panes s1))\<lparr>cwd := d\<rparr>\<rparr>\<rparr>)
      in (s2, refresh_panes p))"

definition entries_loaded :: "string option \<Rightarrow> string \<Rightarrow> Entry list \<Rightarrow> Pane \<Rightarrow> Pane" where
  "entries_loaded child d es p =
     (if path_eq (cwd p) d then
        (let p1 = set_entries es p in
         case Option.bind child (\<lambda>c. position (\<lambda>e. e_name e = c) es) of
           Some i \<Rightarrow> p1\<lparr>cursor := i\<rparr> | None \<Rightarrow> p1)
      else p)"

fun update :: "app_env \<Rightarrow> Message \<Rightarrow> State \<Rightarrow> State \<times> task list" where
  "update env Tick s = (s, [])"
| "update env (Loaded p) s = go_to p s"
| "update env (WindowResized w h) s = (s\<lparr>mode := mode_for_width w\<rparr>, [])"
| "update env (KeyPressed k mods) s = handle_key env k mods s"
| "update env (CommandQueryChanged q) s =
     (let b = set_query q (commandbar s)
      in (s\<lparr>commandbar := if bar_mode b = BarFilter
            then b\<lparr>filter_results := filename_matches (env_fuzzy env) (bar_query b) (entries (cur s))\<rparr> else b\<rparr>, []))"
| "update env (CommandSelectVerb v) s = (s\<lparr>commandbar := select_verb v (commandbar s)\<rparr>, [])"
| "update env CommandClose s = (s\<lparr>commandbar := bar_close (commandbar s)\<rparr>, [])"
| "update env (Navigate p) s = go_to p s"
| "update env (HoverEntry i) s = handle_hover env i s"
| "update env (PreviewLoaded p) s = (s, [])"
| "update env (PreviewLoadedPng p bytes) s =
     (if \<not> opt_path_eq (current_path (preview s)) p then (s, [])
      else (s\<lparr>preview := (preview s)\<lparr>text_preview := None\<rparr>\<rparr>, []))"
| "update env (PreviewLoadedText p content) s =
     (if \<not> opt_path_eq (current_path (preview s)) p then (s, [])
      else (s\<lparr>preview := (preview s)\<lparr>text_preview := Some (p, content)\<rparr>\<rparr>, []))"
| "update env (PreviewFailed p err) s =
     (if opt_path_eq (current_path (preview s)) p
      then (s\<lparr>preview := (preview s)\<lparr>text_preview := None\<rparr>\<rparr>, [FormatInfo p]) else (s, []))"
| "update env (DropAccept ps act) s = (handle_drop_accept ps act s, [])"
| "update env (BookmarkPin k) s = (handle_bookmark_pin env k s, [])"
| "update env (BookmarkJump k) s = (handle_bookmark_jump k s, [])"
| "update env (CursorTo i) s =
     resolve_preview env (case position (\<lambda>e. e_id e = i) (entries (cur s)) of
        Some idx \<Rightarrow> upd_cur (\<lambda>c. c\<lparr>cursor := idx\<rparr>) s | None \<Rightarrow> s)"
| "update env (ActivateEntry i) s =
     (s, case find (\<lambda>e. e_id e = i) (entries (cur s)) of
           Some e \<Rightarrow> if e_kind e = KDir then [TaskDone (Navigate (path_push (cwd (cur s)) (e_name e)))] else []
         | None \<Rightarrow> [])"
| "update env (EntriesLoaded pane d es) s =
     (case pane of
        PaneParent \<Rightarrow> (s\<lparr>panes := (panes s)\<lparr>parent_pane :=
          entries_loaded (path_file_name (cwd (cur s))) d es (parent_pane (panes s))\<rparr>\<rparr>, [])
      | PaneCurrent \<Rightarrow> resolve_preview env (upd_cur (entries_loaded None d es) s)
      | PanePreview \<Rightarrow> (s\<lparr>panes := (panes s)\<lparr>preview_pane := entries_loaded None d es (preview_pane (panes s))\<rparr>\<rparr>, []))"
| "update env (PreviewResolved p payload) s =
     (if opt_path_eq (current_path (preview s)) p
      then (s\<lparr>preview := (preview s)\<lparr>resolved := Some (p, payload)\<rparr>\<rparr>, []) else (s, []))"

section \<open>Tasks and runs\<close>

text \<open>
  What the world answers to a task: the listing of a directory at that moment (nothing on an
  error), the preview of a file, the answer of a plugin.
\<close>

record world =
  w_list :: "string \<Rightarrow> dirent option list option"
  w_image_ok :: "string \<Rightarrow> bool"
  w_lines :: "string \<Rightarrow> string list"
  w_info :: "string \<Rightarrow> string"
  w_plugin :: "string \<Rightarrow> string \<Rightarrow> string + (byte list + string)"

fun run_task :: "world \<Rightarrow> task \<Rightarrow> Message" where
  "run_task w (TaskDone m) = m"
| "run_task w (WalkForPane pane d) =
     EntriesLoaded pane d (case walk_blocking False (w_list w d) of None \<Rightarrow> [] | Some es \<Rightarrow> es)"
| "run_task w (LoadImage p) = PreviewResolved p (if w_image_ok w p then PayImage else PayInfo (w_info w p))"
| "run_task w (HighlightText p) = PreviewResolved p (PayText (w_lines w p))"
| "run_task w (FormatInfo p) = PreviewResolved p (PayInfo (w_info w p))"
| "run_task w (HoverImage p) = (if w_image_ok w p then PreviewLoaded p else Tick)"
| "run_task w (PluginPreview mime p) = (case w_plugin w mime p of
      Inr (Inl bytes) \<Rightarrow> PreviewLoadedPng p bytes
    | Inr (Inr txt) \<Rightarrow> PreviewLoadedText p txt
    | Inl err \<Rightarrow> PreviewFailed p err)"

text \<open>
  Runs: a message of the user, or any pending task finishing in whatever the world is then.
  The other messages only come from tasks.
\<close>

fun from_user :: "Message \<Rightarrow> bool" where
  "from_user (Loaded _) = False"
| "from_user (EntriesLoaded _ _ _) = False"
| "from_user (PreviewLoaded _) = False"
| "from_user (PreviewLoadedPng _ _) = False"
| "from_user (PreviewLoadedText _ _) = False"
| "from_user (PreviewFailed _ _) = False"
| "from_user (PreviewResolved _ _) = False"
| "from_user _ = True"

inductive reach :: "app_env \<Rightarrow> State \<Rightarrow> task list \<Rightarrow> bool" for env where
  start: "reach env (s\<lparr>plugin_bridge := b, bookmarks := bm\<rparr>) ts" if "s = state_default" "ts = [TaskDone (Loaded d)]"
| user: "reach env s ts \<Longrightarrow> from_user m \<Longrightarrow> update env m s = (s', new) \<Longrightarrow> reach env s' (ts @ new)"
| finish: "reach env s (ts1 @ t # ts2) \<Longrightarrow> update env (run_task w t) s = (s', new) \<Longrightarrow> reach env s' (ts1 @ ts2 @ new)"

section \<open>Invariants\<close>

definition state_ok :: "State \<Rightarrow> bool" where
  "state_ok s \<longleftrightarrow> pane_ok (parent_pane (panes s)) \<and> pane_ok (current_pane (panes s)) \<and>
     pane_ok (preview_pane (panes s)) \<and> selection_ok (selection s)"

lemma nth_opt_Some: "nth_opt xs i = Some x \<Longrightarrow> i < length xs \<and> x = xs ! i"
  by (auto simp: nth_opt_def split: if_splits)

lemma position_bound: "position P xs = Some i \<Longrightarrow> i < length xs"
  by (induction xs arbitrary: i) (auto split: if_splits)

lemma upd_cur_sel [simp]:
  "parent_pane (panes (upd_cur f s)) = parent_pane (panes s)"
  "current_pane (panes (upd_cur f s)) = f (current_pane (panes s))"
  "preview_pane (panes (upd_cur f s)) = preview_pane (panes s)"
  "selection (upd_cur f s) = selection s" "ops (upd_cur f s) = ops s"
  "pending_key_chord (upd_cur f s) = pending_key_chord s" "clipboard (upd_cur f s) = clipboard s"
  "bookmarks (upd_cur f s) = bookmarks s" "range_anchor (upd_cur f s) = range_anchor s"
  "preview (upd_cur f s) = preview s"
  by (simp_all add: upd_cur_def cur_def)

lemma resolve_preview_sel [simp]:
  "parent_pane (panes (fst (resolve_preview env s))) = parent_pane (panes s)"
  "current_pane (panes (fst (resolve_preview env s))) = current_pane (panes s)"
  "selection (fst (resolve_preview env s)) = selection s" "ops (fst (resolve_preview env s)) = ops s"
  "pending_key_chord (fst (resolve_preview env s)) = pending_key_chord s"
  "clipboard (fst (resolve_preview env s)) = clipboard s"
  by (simp_all add: resolve_preview_def Let_def split: option.splits PreviewKind.splits)

lemma resolve_preview_pane:
  "pane_ok (preview_pane (panes s)) \<Longrightarrow> pane_ok (preview_pane (panes (fst (resolve_preview env s))))"
  by (auto simp: resolve_preview_def Let_def pane_ok_def split: option.splits PreviewKind.splits)

lemma resolve_preview_ok: "state_ok s \<Longrightarrow> state_ok (fst (resolve_preview env s))"
  by (simp add: state_ok_def resolve_preview_pane)

lemma cursor_clamp: "nat (min (max m 0) (sint (word_of_int (int k) :: 32 word))) \<le> k"
proof -
  have "sint (word_of_int i :: 32 word) \<le> i" if "0 \<le> i" for i
  proof -
    have "sint (word_of_int i :: 32 word) = signed_take_bit 31 i" by transfer simp
    with that show ?thesis by (simp add: signed_take_bit_int_less_eq_self_iff)
  qed
  from this [of "int k"] show ?thesis by linarith
qed


lemma handle_cursor_move_ok:
  assumes "state_ok s"
  shows "state_ok (handle_cursor_move delta s)"
proof (cases "entries (cur s) = []")
  case True
  then show ?thesis using assms by (simp add: state_ok_def handle_cursor_move_def pane_ok_def)
next
  case False
  let ?n = "length (entries (cur s))"
  define i where "i = nat (min (max (sint (word_of_int (int (cursor (cur s)) + delta) :: 32 word)) 0)
    (sint (word_of_int (int (?n - 1)) :: 32 word)))"
  have "i \<le> ?n - 1" unfolding i_def by (rule cursor_clamp)
  moreover have "handle_cursor_move delta s = upd_cur (\<lambda>c. c\<lparr>cursor := i\<rparr>) s"
    unfolding handle_cursor_move_def Let_def i_def using False by (simp only: length_0_conv if_False)
  moreover have "?n - 1 < ?n" using False by simp
  ultimately show ?thesis
    using assms by (simp add: state_ok_def pane_ok_def cur_def)
qed

lemma handle_range_extend_ok: "state_ok s \<Longrightarrow> state_ok (handle_range_extend delta s)"
  by (auto simp: state_ok_def handle_range_extend_def Let_def pane_ok_def cur_def add_range_members
      split: option.splits)

lemma handle_select_ok:
  "state_ok s \<Longrightarrow> state_ok (handle_space_toggle s)"
  "state_ok s \<Longrightarrow> state_ok (handle_select_all s)"
  "state_ok s \<Longrightarrow> state_ok (handle_invert s)"
  by (auto simp: state_ok_def handle_space_toggle_def handle_select_all_def handle_invert_def toggle_ok
      select_all_members invert_members split: option.splits)

lemma handle_queue_ok:
  "state_ok s \<Longrightarrow> state_ok (handle_clipboard_stash m s)"
  "state_ok s \<Longrightarrow> state_ok (handle_trash s)"
  "state_ok s \<Longrightarrow> state_ok (handle_paste s)"
  "state_ok s \<Longrightarrow> state_ok (handle_drop_accept ps act s)"
  by (auto simp: state_ok_def handle_clipboard_stash_def handle_trash_def handle_paste_def
      handle_drop_accept_def split: option.splits)

lemma handle_bookmark_ok:
  "state_ok s \<Longrightarrow> state_ok (handle_bookmark_pin env k s)"
  "state_ok s \<Longrightarrow> state_ok (handle_bookmark_jump k s)"
  by (auto simp: state_ok_def handle_bookmark_pin_def handle_bookmark_jump_def pane_ok_def split: option.splits)

lemma state_ok_frame:
  "state_ok (s\<lparr>commandbar := b\<rparr>) = state_ok s" "state_ok (s\<lparr>pending_key_chord := c\<rparr>) = state_ok s"
  "state_ok (s\<lparr>range_anchor := a\<rparr>) = state_ok s"
  "state_ok (s\<lparr>mode := m\<rparr>) = state_ok s" "state_ok (s\<lparr>preview := v\<rparr>) = state_ok s"
  by (simp_all add: state_ok_def)

lemmas handlers_ok = handle_cursor_move_ok handle_range_extend_ok handle_select_ok handle_queue_ok
  handle_bookmark_ok resolve_preview_ok state_ok_frame

lemma key_named_ok: "state_ok s \<Longrightarrow> state_ok (fst (key_named env n mods s))"
  by (cases n) (simp_all add: handlers_ok)

lemma key_char_ok: "state_ok s \<Longrightarrow> state_ok (fst (key_char env c s))"
  unfolding key_char_def by (simp add: handlers_ok if_distrib [of fst] if_distrib [of state_ok]
      cong: if_cong split del: if_split)

lemma handle_key_ok: "state_ok s \<Longrightarrow> state_ok (fst (handle_key env k mods s))"
  by (simp add: handle_key_def Let_def handlers_ok key_named_ok key_char_ok split: key.split option.split)

lemma entries_loaded_ok: "pane_ok p \<Longrightarrow> pane_ok (entries_loaded child d es p)"
  using set_entries_ok [of es p]
  by (auto simp: entries_loaded_def Let_def pane_ok_def bind_eq_Some_conv dest: position_bound split: option.splits)

lemma go_to_ok: "state_ok s \<Longrightarrow> state_ok (fst (go_to p s))"
  by (auto simp: go_to_def Let_def state_ok_def pane_ok_def split: option.splits)

lemma cursor_to_ok:
  "state_ok s \<Longrightarrow> position P (entries (cur s)) = Some i \<Longrightarrow> state_ok (upd_cur (\<lambda>c. c\<lparr>cursor := i\<rparr>) s)"
  by (auto simp: state_ok_def pane_ok_def cur_def dest: position_bound)

lemma update_ok: "state_ok s \<Longrightarrow> state_ok (fst (update env m s))"
proof (induction env m s rule: update.induct)
  case (17 env i s)
  then show ?case
    by (auto simp: resolve_preview_ok cursor_to_ok split: option.splits)
next
  case (19 env pane d es s)
  then show ?case
    by (cases pane) (auto simp: state_ok_def entries_loaded_ok resolve_preview_pane)
next
  case (9 env i s)
  then show ?case
    by (auto simp: handle_hover_def Let_def state_ok_frame split: option.splits PreviewKind.splits)
qed (auto simp: handlers_ok go_to_ok handle_key_ok Let_def)

lemma reach_ok: "reach env s ts \<Longrightarrow> state_ok s"
proof (induction rule: reach.induct)
  case (start s ts b bm d)
  then show ?case
    by (simp add: state_ok_def state_default_def panes_default_def panes_new_def pane_new_def pane_ok_def
        selection_new_def selection_ok_def bset_ok_def)
next
  case (user s ts m s' new)
  then show ?case using update_ok [of s env m] by simp
next
  case (finish s ts1 t ts2 w s' new)
  then show ?case using update_ok [of s env "run_task w t"] by simp
qed


section \<open>Properties\<close>

text \<open>
  C17. In every reachable state of the window, whatever the order in which keys, messages and late
  results arrive, the cursor of each of the three panes points into its rows (or is at the top
  of an empty pane) and the selection is strictly ascending.
\<close>

theorem app_state_wellformed:
  assumes "reach env s ts"
  shows "list_all (\<lambda>p. cursor p = 0 \<or> cursor p < length (entries p))
      [parent_pane (panes s), current_pane (panes s), preview_pane (panes s)] \<and>
    sorted (ids (selection s)) \<and> distinct (ids (selection s))"
  using reach_ok [OF assms] by (simp add: state_ok_def pane_ok_def selection_ok_def bset_ok_def)

definition plain_env :: app_env where
  "plain_env = \<lparr>env_mime = \<lparr>mime_db = \<lambda>_. None, mime_sniff = \<lambda>_. None\<rparr>, env_fuzzy = \<lambda>_ _. None, env_now = 0\<rparr>"

definition plain_dirent :: "string \<Rightarrow> nat \<Rightarrow> dirent option" where
  "plain_dirent n t = Some \<lparr>de_name = n, de_lstat = Some \<lparr>st_type = TReg, st_size = 1, st_mtime = t\<rparr>,
     de_target = None, de_stat_ok = True, de_access = True\<rparr>"

definition plain_world :: "dirent option list \<Rightarrow> world" where
  "plain_world ds = \<lparr>w_list = \<lambda>_. Some ds, w_image_ok = \<lambda>_. False, w_lines = \<lambda>_. [], w_info = \<lambda>_. [],
     w_plugin = \<lambda>_ _. Inl []\<rparr>"

theorem app_state_wellformed_witness:
  "\<exists>s ts. reach plain_env s ts \<and> entries (cur s) \<noteq> [] \<and>
    list_all (\<lambda>p. cursor p = 0 \<or> cursor p < length (entries p))
      [parent_pane (panes s), current_pane (panes s), preview_pane (panes s)] \<and>
    sorted (ids (selection s)) \<and> distinct (ids (selection s))"
proof -
  let ?w = "plain_world [plain_dirent ''x'' 1]"
  obtain s1 n1 where s1: "update plain_env (run_task ?w (TaskDone (Loaded ''/d''))) state_default = (s1, n1)"
    by (rule prod.exhaust)
  have r0: "reach plain_env (state_default\<lparr>plugin_bridge := False, bookmarks := None\<rparr>) [TaskDone (Loaded ''/d'')]"
    by (rule reach.start) simp_all
  have def: "state_default\<lparr>plugin_bridge := False, bookmarks := None\<rparr> = state_default"
    by (simp add: state_default_def)
  have r1: "reach plain_env s1 n1"
    using reach.finish [of plain_env state_default "[]" "TaskDone (Loaded ''/d'')" "[]" ?w s1 n1] r0 s1
    by (simp add: def)
  have parent: "path_parent ''/d'' = Some ''/''" by code_simp
  have n1: "n1 = [] @ WalkForPane PaneCurrent ''/d'' # [WalkForPane PaneParent ''/'']" and c1: "cwd (cur s1) = ''/d''"
    using s1 parent by (auto simp: go_to_def refresh_panes_def cur_def upd_cur_def)
  obtain s2 n2 where s2: "update plain_env (run_task ?w (WalkForPane PaneCurrent ''/d'')) s1 = (s2, n2)"
    by (rule prod.exhaust)
  have r2: "reach plain_env s2 ([WalkForPane PaneParent ''/''] @ n2)"
    using reach.finish [OF r1 [unfolded n1] s2] by simp
  moreover have "entries (cur s2) \<noteq> []"
  proof -
    have "s2 = fst (resolve_preview plain_env (upd_cur (entries_loaded None ''/d''
        (case walk_blocking False (w_list ?w ''/d'') of None \<Rightarrow> [] | Some es \<Rightarrow> es)) s1))"
      using s2 by (simp add: plain_world_def)
    moreover have "walk_blocking False (w_list ?w ''/d'') = Some [stat_entry 0 (the (plain_dirent ''x'' 1))]"
      by (simp add: walk_blocking_def plain_world_def plain_dirent_def sort_entries_def is_hidden_def)
    ultimately show ?thesis
      using c1 by (simp add: cur_def entries_loaded_def path_eq_def)
  qed
  ultimately show ?thesis using app_state_wellformed [OF r2] by blast
qed

text \<open>
  Results that come too late are dropped: a listing for a directory the pane has left changes
  none of its rows, and a preview or plugin answer for a file the cursor has left changes
  nothing at all.
\<close>

theorem late_results_dropped:
  assumes "\<not> path_eq (cwd (cur s)) d" "\<not> opt_path_eq (current_path (preview s)) p"
    and "t \<in> {LoadImage p, HighlightText p, FormatInfo p, HoverImage p, PluginPreview mime p}"
  shows "cur (fst (update env (run_task w (WalkForPane PaneCurrent d)) s)) = cur s \<and>
    update env (run_task w t) s = (s, [])"
  using assms by (auto simp: cur_def entries_loaded_def split: sum.splits)

theorem late_results_dropped_witness:
  "cur (fst (update plain_env (run_task (plain_world []) (WalkForPane PaneCurrent ''/gone'')) state_default)) = cur state_default"
proof -
  have "\<not> path_eq (cwd (cur state_default)) ''/gone''" by code_simp
  moreover have "\<not> opt_path_eq (current_path (preview state_default)) ''/gone/f''"
    by (simp add: state_default_def opt_path_eq_def)
  ultimately show ?thesis
    using late_results_dropped [of state_default "''/gone''" "''/gone/f''" "FormatInfo ''/gone/f''" "[]" plain_env "plain_world []"]
    by simp
qed

text \<open>
  C40. The selection survives a change of directory, and the rows of every directory are numbered
  from zero: a row selected in one directory selects the row with the same number in the next,
  and the trash key queues that file although the user never selected it.
\<close>

theorem stale_selection_trashes_other_directory:
  assumes "i \<in> set (ids (selection s))" "pending_key_chord s = None"
    and "walk_blocking False (Some ds) = Some es" "length ds < 2 ^ 64" "unat i < length es"
  shows "\<exists>e srcs. e \<in> set es \<and> e_id e = i \<and> path_push d (e_name e) \<in> set srcs \<and>
    ops (fst (update env (KeyPressed (Character ''d'') mods)
      (fst (update env (EntriesLoaded PaneCurrent d es) (fst (update env (Navigate d) s)))))) = ops s @ [OpTrash srcs]"
proof -
  have "i = of_nat (unat i)" by simp
  then have "i \<in> set (map of_nat [0..<length es])"
    using assms(5) by (auto intro!: image_eqI [of _ _ "unat i"])
  then have "i \<in> set (map e_id es)"
    using walk_ids [OF assms(4, 3)] by (metis set_mset_mset)
  then obtain e where e: "e \<in> set es" "e_id e = i" by auto
  let ?s1 = "fst (update env (Navigate d) s)"
  let ?s2 = "fst (update env (EntriesLoaded PaneCurrent d es) ?s1)"
  have s1: "cwd (cur ?s1) = d" "selection ?s1 = selection s" "ops ?s1 = ops s" "pending_key_chord ?s1 = None"
    using assms(2) by (auto simp: go_to_def Let_def cur_def split: option.splits)
  have s2: "cwd (cur ?s2) = d" "entries (cur ?s2) = es" "selection ?s2 = selection s" "ops ?s2 = ops s"
      "pending_key_chord ?s2 = None"
    using s1 by (auto simp: cur_def entries_loaded_def path_eq_def)
  have sel: "path_push d (e_name e) \<in> set (selected_paths ?s2)"
    using e assms(1) s2 by (auto simp: selected_paths_def selection_contains_def)
  then have "ops (fst (update env (KeyPressed (Character ''d'') mods) ?s2)) = ops s @ [OpTrash (selected_paths ?s2)]"
    using s2 by (auto simp: handle_key_def key_char_def handle_trash_def)
  with e sel show ?thesis by blast
qed

theorem stale_selection_trashes_other_directory_witness:
  "\<exists>(e :: Entry) srcs. path_push ''/b'' (e_name e) \<in> set srcs \<and>
    ops (fst (update plain_env (KeyPressed (Character ''d'') \<lparr>mod_shift = False, mod_ctrl = False\<rparr>)
      (fst (update plain_env (EntriesLoaded PaneCurrent ''/b'' [stat_entry 0 (the (plain_dirent ''x'' 1))])
        (fst (update plain_env (Navigate ''/b'') (state_default\<lparr>selection := \<lparr>ids = [0]\<rparr>\<rparr>))))))) = [OpTrash srcs]"
proof -
  have "walk_blocking False (Some [plain_dirent ''x'' 1]) = Some [stat_entry 0 (the (plain_dirent ''x'' 1))]"
    by (simp add: walk_blocking_def plain_dirent_def sort_entries_def is_hidden_def)
  moreover have "ids (selection (state_default\<lparr>selection := \<lparr>ids = [0]\<rparr>\<rparr>)) = [0]"
      "pending_key_chord (state_default\<lparr>selection := \<lparr>ids = [0]\<rparr>\<rparr>) = None" "ops (state_default\<lparr>selection := \<lparr>ids = [0]\<rparr>\<rparr>) = []"
    by (simp_all add: state_default_def)
  ultimately show ?thesis
    using stale_selection_trashes_other_directory [of 0 "state_default\<lparr>selection := \<lparr>ids = [0]\<rparr>\<rparr>"
        "[plain_dirent ''x'' 1]" "[stat_entry 0 (the (plain_dirent ''x'' 1))]" "''/b''" plain_env
        "\<lparr>mod_shift = False, mod_ctrl = False\<rparr>"]
    by (simp del: update.simps) (rule exI, assumption)
qed

text \<open>
  A range is a range of row numbers, not of rows: the list is sorted by time, so extending the
  selection from the first row to the second also selects every row whose number lies between
  the two, wherever it is shown.
\<close>

theorem range_selects_by_number:
  assumes "entries (cur s) = a # b # rest" "cursor (cur s) = 0" "range_anchor s = None"
    and "pending_key_chord s = None" "selection_ok (selection s)" "e \<in> set rest"
    and "e_id a < e_id e" "e_id e < e_id b"
  shows "selection_contains (e_id e) (selection (fst (update env
    (KeyPressed (Named ArrowDown) \<lparr>mod_shift = True, mod_ctrl = ctrl\<rparr>) s)))"
proof -
  have "e_id a \<le> e_id b" using assms(7, 8) by simp
  then have "e_id e \<in> set (ids (add_range (e_id a) (e_id b) (selection s)))"
    using add_range_members(2) [OF assms(5), of "e_id a" "e_id b"] assms(7, 8) by (simp add: min_def max_def less_imp_le)
  then show ?thesis
    using assms(1-4) by (simp add: handle_key_def handle_range_extend_def Let_def nth_opt_def selection_contains_def)
qed

theorem range_selects_by_number_witness:
  "let row = (\<lambda>i n. stat_entry i (the (plain_dirent n 1)));
       s = upd_cur (\<lambda>c. c\<lparr>entries := [row 0 ''a'', row 2 ''c'', row 1 ''b'']\<rparr>) state_default
   in selection_contains 1 (selection (fst (update plain_env
        (KeyPressed (Named ArrowDown) \<lparr>mod_shift = True, mod_ctrl = False\<rparr>) s)))"
  using range_selects_by_number [of "upd_cur (\<lambda>c. c\<lparr>entries := [stat_entry 0 (the (plain_dirent ''a'' 1)),
      stat_entry 2 (the (plain_dirent ''c'' 1)), stat_entry 1 (the (plain_dirent ''b'' 1))]\<rparr>) state_default"
      "stat_entry 0 (the (plain_dirent ''a'' 1))" "stat_entry 2 (the (plain_dirent ''c'' 1))"
      "[stat_entry 1 (the (plain_dirent ''b'' 1))]" "stat_entry 1 (the (plain_dirent ''b'' 1))" plain_env False]
  by (simp add: Let_def upd_cur_def cur_def state_default_def panes_default_def panes_new_def pane_new_def
      selection_new_def selection_ok_def bset_ok_def)

text \<open>
  Jumping to a bookmark changes the directory but neither reloads nor clears the rows: the next
  trash key queues the names selected in the old directory under the bookmarked one.
\<close>

theorem bookmark_jump_keeps_old_rows:
  assumes "bookmarks s = Some items" "jump k items = Some d" "pending_key_chord s = None"
    and "selected_paths s \<noteq> []"
  shows "let s' = fst (update env (BookmarkJump k) s) in
    cwd (cur s') = d \<and> entries (cur s') = entries (cur s) \<and> snd (update env (BookmarkJump k) s) = [] \<and>
    ops (fst (update env (KeyPressed (Character ''d'') mods) s')) =
      ops s @ [OpTrash (map (\<lambda>e. path_push d (e_name e))
        (filter (\<lambda>e. selection_contains (e_id e) (selection s)) (entries (cur s))))]"
proof -
  have "fst (update env (BookmarkJump k) s) = upd_cur (\<lambda>c. c\<lparr>cwd := d\<rparr>) s"
    using assms(1, 2) by (simp add: handle_bookmark_jump_def)
  then show ?thesis
    using assms(3, 4) by (simp add: Let_def cur_def handle_key_def key_char_def handle_trash_def selected_paths_def)
qed

theorem bookmark_jump_keeps_old_rows_witness:
  "let s = (upd_cur (\<lambda>c. c\<lparr>entries := [stat_entry 0 (the (plain_dirent ''x'' 1))]\<rparr>) state_default)
        \<lparr>selection := \<lparr>ids = [0]\<rparr>, bookmarks := Some (pin 0 (CHR ''m'') ''/mnt'' None Map.empty)\<rparr>
   in ops (fst (update plain_env (KeyPressed (Character ''d'') \<lparr>mod_shift = False, mod_ctrl = False\<rparr>)
        (fst (update plain_env (BookmarkJump (CHR ''m'')) s)))) = [OpTrash [''/mnt/x'']]"
proof -
  define s where "s = (upd_cur (\<lambda>c. c\<lparr>entries := [stat_entry 0 (the (plain_dirent ''x'' 1))]\<rparr>) state_default)
        \<lparr>selection := \<lparr>ids = [0]\<rparr>, bookmarks := Some (pin 0 (CHR ''m'') ''/mnt'' None Map.empty)\<rparr>"
  have s: "entries (cur s) = [stat_entry 0 (the (plain_dirent ''x'' 1))]" "selection s = \<lparr>ids = [0]\<rparr>" "ops s = []"
      "pending_key_chord s = None" "bookmarks s = Some (pin 0 (CHR ''m'') ''/mnt'' None Map.empty)"
    by (simp_all add: s_def cur_def upd_cur_def state_default_def)
  have "path_push ''/mnt'' ''x'' = ''/mnt/x''" by code_simp
  then show ?thesis
    using bookmark_jump_keeps_old_rows [OF s(5), of "CHR ''m''" "''/mnt''" plain_env "\<lparr>mod_shift = False, mod_ctrl = False\<rparr>"] s
    unfolding s_def [symmetric] Let_def
    by (simp add: jump_def pin_def selected_paths_def selection_contains_def stat_entry_def plain_dirent_def)
qed

text \<open>
  Copy and paste: the files queued by the paste key are exactly the rows selected when the copy
  key was pressed, in the order shown, to be copied into the directory shown at the time of the
  paste under Skip; the clipboard is used up, so a second paste does nothing.
\<close>

theorem copy_then_paste:
  assumes "pending_key_chord s = None" "selected_paths s \<noteq> []"
  shows "let s1 = fst (update env (KeyPressed (Character ''y'') mods) s);
             s2 = fst (update env (Navigate d) s1);
             s3 = fst (update env (KeyPressed (Character ''p'') mods) s2)
    in ops s3 = ops s @ [OpCopy (selected_paths s) d Skip] \<and> clipboard s3 = None \<and>
       update env (KeyPressed (Character ''p'') mods) s3 = (s3, [])"
  using assms
  by (auto simp: Let_def handle_key_def key_char_def handle_clipboard_stash_def handle_paste_def go_to_def cur_def
      split: option.splits)

theorem copy_then_paste_witness:
  "let s = (upd_cur (\<lambda>c. c\<lparr>entries := [stat_entry 0 (the (plain_dirent ''x'' 1))]\<rparr>) state_default)\<lparr>selection := \<lparr>ids = [0]\<rparr>\<rparr>;
       m = \<lparr>mod_shift = False, mod_ctrl = False\<rparr>
   in ops (fst (update plain_env (KeyPressed (Character ''p'') m) (fst (update plain_env (Navigate ''/t'')
        (fst (update plain_env (KeyPressed (Character ''y'') m) s)))))) = [OpCopy [''/x''] ''/t'' Skip]"
proof -
  define s where "s = (upd_cur (\<lambda>c. c\<lparr>entries := [stat_entry 0 (the (plain_dirent ''x'' 1))]\<rparr>) state_default)\<lparr>selection := \<lparr>ids = [0]\<rparr>\<rparr>"
  have "path_push ''/'' ''x'' = ''/x''" by code_simp
  then have "selected_paths s = [''/x'']" "pending_key_chord s = None" "ops s = []"
    by (simp_all add: s_def selected_paths_def selection_contains_def cur_def upd_cur_def state_default_def panes_default_def
        panes_new_def pane_new_def plain_dirent_def stat_entry_def)
  then show ?thesis
    using copy_then_paste [of s plain_env "\<lparr>mod_shift = False, mod_ctrl = False\<rparr>" "''/t''"]
    unfolding s_def [symmetric] by (simp add: Let_def)
qed

end
