(* ===== verification/Uri_List.thy ===== *)
theory Uri_List
  imports Text
begin

unbundle bit_operations_syntax

text \<open>
  The two URI codecs of the file manager: the \<open>text/uri-list\<close> bodies of drag and drop
  (\<open>file/dnd.rs\<close>), on bytes, and the \<open>href\<close> of the recent-directories log
  (\<open>file/bookmarks.rs\<close>), on Unicode code points, because its decoder turns a byte into the
  character with that number.  A path is its bytes; those of a Rust string are well-formed UTF-8.
\<close>

section \<open>Drag and drop\<close>

definition is_unreserved :: "byte \<Rightarrow> bool" where
  "is_unreserved b \<longleftrightarrow> (48 \<le> b \<and> b \<le> 57) \<or> (65 \<le> b \<and> b \<le> 90) \<or> (97 \<le> b \<and> b \<le> 122) \<or>
     b = 45 \<or> b = 46 \<or> b = 95 \<or> b = 126"

text \<open>\<open>{:X}\<close> of a nibble.\<close>

definition hex_digit :: "byte \<Rightarrow> byte" where
  "hex_digit d = (if d < 10 then 48 + d else 55 + d)"

definition hex_nibble :: "byte \<Rightarrow> byte option" where
  "hex_nibble b =
     (if 48 \<le> b \<and> b \<le> 57 then Some (b - 48)
      else if 97 \<le> b \<and> b \<le> 102 then Some (10 + (b - 97))
      else if 65 \<le> b \<and> b \<le> 70 then Some (10 + (b - 65))
      else None)"

definition encode_byte :: "byte \<Rightarrow> byte list" where
  "encode_byte b = (if is_unreserved b \<or> b = 47 then [b]
     else [37, hex_digit (drop_bit 4 b), hex_digit (b AND 15)])"

definition percent_encode_path :: "byte list \<Rightarrow> byte list" where
  "percent_encode_path p = concat (map encode_byte (utf8_lossy p))"

fun decode_from :: "byte list \<Rightarrow> byte list" where
  "decode_from [] = []"
| "decode_from (b # h # l # rest) =
     (if b = 37 then (case (hex_nibble h, hex_nibble l) of
         (Some hi, Some lo) \<Rightarrow> (push_bit 4 hi OR lo) # decode_from rest
       | _ \<Rightarrow> b # decode_from (h # l # rest))
      else b # decode_from (h # l # rest))"
| "decode_from (b # rest) = b # decode_from rest"

definition percent_decode :: "byte list \<Rightarrow> byte list" where
  "percent_decode s = utf8_lossy (decode_from s)"

definition FILE_SCHEME :: "byte list" where
  "FILE_SCHEME = bytes_of ''file://''"

definition paths_to_uri_list :: "byte list list \<Rightarrow> byte list" where
  "paths_to_uri_list ps = concat (map (\<lambda>p. FILE_SCHEME @ percent_encode_path p @ [13, 10]) ps)"

fun split_lf :: "byte list \<Rightarrow> byte list list" where
  "split_lf [] = [[]]"
| "split_lf (b # bs) = (if b = 10 then [] # split_lf bs
     else (case split_lf bs of [] \<Rightarrow> [[b]] | l # ls \<Rightarrow> (b # l) # ls))"

definition strip_prefix :: "'a list \<Rightarrow> 'a list \<Rightarrow> 'a list option" where
  "strip_prefix p s = (if take (length p) s = p then Some (drop (length p) s) else None)"

definition parse_uri_line :: "byte list \<Rightarrow> byte list option" where
  "parse_uri_line line =
     (let trimmed = trim_bytes (rev (dropWhile (\<lambda>b. b = 13) (rev line))) in
      if trimmed = [] \<or> hd trimmed = 35 then None
      else map_option percent_decode (strip_prefix FILE_SCHEME trimmed))"

definition parse_uri_list :: "byte list \<Rightarrow> byte list list" where
  "parse_uri_list body = List.map_filter parse_uri_line (split_lf body)"

section \<open>The recent-directories log\<close>

type_synonym ustring = "nat list"

definition u :: "string \<Rightarrow> ustring" where
  "u s = map of_char s"

definition href_char :: "nat \<Rightarrow> ustring" where
  "href_char c = (if c = 32 then u ''%20'' else if c = 35 then u ''%23'' else if c = 63 then u ''%3F''
     else if c = 37 then u ''%25'' else [c])"

definition path_to_href :: "ustring \<Rightarrow> ustring" where
  "path_to_href s = u ''file://'' @ concat (map href_char s)"

definition hex_value :: "nat \<Rightarrow> nat option" where
  "hex_value c = (if 48 \<le> c \<and> c \<le> 57 then Some (c - 48)
     else if 97 \<le> c \<and> c \<le> 102 then Some (c - 87)
     else if 65 \<le> c \<and> c \<le> 70 then Some (c - 55) else None)"

text \<open>\<open>u8::from_str_radix(_, 16)\<close> on two characters: a leading plus sign is allowed.\<close>

definition radix16 :: "nat \<Rightarrow> nat \<Rightarrow> nat option" where
  "radix16 h l = (if h = 43 then hex_value l
     else Option.bind (hex_value h) (\<lambda>a. map_option (\<lambda>b. 16 * a + b) (hex_value l)))"

fun unescape :: "ustring \<Rightarrow> ustring" where
  "unescape [] = []"
| "unescape (c # h # l # rest) =
     (if c = 37 then (case radix16 h l of
         Some b \<Rightarrow> b # unescape rest
       | None \<Rightarrow> 37 # unescape rest)
      else c # unescape (h # l # rest))"
| "unescape [c, h] = (if c = 37 then [37] else c # unescape [h])"
| "unescape [c] = [c]"

definition href_to_path :: "ustring \<Rightarrow> ustring" where
  "href_to_path href = unescape (case strip_prefix (u ''file://'') href of Some r \<Rightarrow> r | None \<Rightarrow> href)"

section \<open>Round trips\<close>

lemma hex_nibble_digit: "d < 16 \<Longrightarrow> hex_nibble (hex_digit d) = Some d"
proof -
  assume "d < 16"
  then have "unat d < 16" by (simp add: word_less_nat_alt)
  then have "d \<in> of_nat ` {..<16}" by (intro image_eqI [of _ _ "unat d"]) auto
  moreover have "\<forall>n \<in> set [0..<16]. hex_nibble (hex_digit (of_nat n)) = Some (of_nat n)"
    by code_simp
  ultimately show ?thesis by auto
qed

lemma nibbles: "push_bit 4 (drop_bit 4 b) OR (b AND 15) = b" "drop_bit 4 b < 16" "b AND 15 < 16" for b :: byte
proof -
  have all: "\<forall>n \<in> set [0..<256]. let b = of_nat n :: byte in
      push_bit 4 (drop_bit 4 b) OR (b AND 15) = b \<and> drop_bit 4 b < 16 \<and> b AND 15 < 16"
    by code_simp
  have "unat b < 256" using unsigned_less [of b, where ?'a = nat] by simp
  with all show "push_bit 4 (drop_bit 4 b) OR (b AND 15) = b" "drop_bit 4 b < 16" "b AND 15 < 16"
    by (auto simp: Let_def dest!: bspec [of _ _ "unat b"])
qed

lemma decode_plain: "b \<noteq> 37 \<Longrightarrow> decode_from (b # rest) = b # decode_from rest"
  by (cases rest rule: decode_from.cases) auto

lemma decode_encode_byte: "decode_from (encode_byte b @ rest) = b # decode_from rest"
proof (cases "is_unreserved b \<or> b = 47")
  case True
  then have "b \<noteq> 37" by (auto simp: is_unreserved_def)
  with True show ?thesis by (simp add: encode_byte_def decode_plain)
next
  case False
  then show ?thesis
    by (simp add: encode_byte_def hex_nibble_digit nibbles)
qed

lemma decode_encoded_path: "decode_from (concat (map encode_byte bs)) = bs"
  by (induction bs) (simp_all add: decode_encode_byte)

lemma percent_roundtrip: "utf8_valid p \<Longrightarrow> percent_decode (percent_encode_path p) = p"
  by (simp add: percent_decode_def percent_encode_path_def utf8_lossy_valid decode_encoded_path)

lemma hex_digit_solid: "d < 16 \<Longrightarrow> solid (hex_digit d)"
proof -
  assume "d < 16"
  then have "unat d < 16" by (simp add: word_less_nat_alt)
  then have "d \<in> of_nat ` {..<16}" by (intro image_eqI [of _ _ "unat d"]) auto
  moreover have "\<forall>n \<in> set [0..<16]. solid (hex_digit (of_nat n))" by code_simp
  ultimately show ?thesis by auto
qed

lemma encoded_solid: "c \<in> set (percent_encode_path p) \<Longrightarrow> solid c"
proof -
  have "solid b" if "is_unreserved b" for b
    using that by (auto simp: is_unreserved_def solid_def word_le_nat_alt)
  then have "solid c" if "c \<in> set (encode_byte b)" for b
    using that by (auto simp: encode_byte_def hex_digit_solid nibbles split: if_splits) (simp_all add: solid_def)
  then show ?thesis if "c \<in> set (percent_encode_path p)"
    using that by (auto simp: percent_encode_path_def)
qed

lemma scheme_solid: "\<forall>c \<in> set FILE_SCHEME. solid c" "FILE_SCHEME \<noteq> []" "hd FILE_SCHEME = 102"
  by code_simp+

lemma solid_not: "solid c \<Longrightarrow> c \<noteq> 10" "solid c \<Longrightarrow> c \<noteq> 13"
  by (auto simp: solid_def)

text \<open>The line of one path, after the line feed is cut off.\<close>

lemma parse_line:
  assumes "utf8_valid p"
  shows "parse_uri_line (FILE_SCHEME @ percent_encode_path p @ [13]) = Some p"
proof -
  let ?l = "FILE_SCHEME @ percent_encode_path p"
  have sol: "\<forall>c \<in> set ?l. solid c" using scheme_solid(1) encoded_solid by auto
  have ne: "?l \<noteq> []" using scheme_solid(2) by simp
  have "last ?l \<noteq> 13" using sol last_in_set [OF ne] solid_not(2) by blast
  then have "dropWhile (\<lambda>b. b = 13) (rev ?l) = rev ?l"
    unfolding dropWhile_eq_self_iff by (simp only: hd_rev) simp
  then have "dropWhile (\<lambda>b. b = 13) (13 # rev ?l) = rev ?l" by simp
  then have cut: "rev (dropWhile (\<lambda>b. b = 13) (rev (FILE_SCHEME @ percent_encode_path p @ [13]))) = ?l"
    by simp
  have "trim_bytes ?l = ?l"
    using sol hd_in_set [OF ne] last_in_set [OF ne] by (intro trim_solid) blast
  moreover have "hd ?l = 102" using scheme_solid(2, 3) by simp
  ultimately show ?thesis
    using ne assms unfolding parse_uri_line_def Let_def cut
    by (simp add: strip_prefix_def percent_roundtrip)
qed

lemma split_lf_line:
  assumes "10 \<notin> set l"
  shows "split_lf (l @ 10 # rest) = l # split_lf rest"
  using assms by (induction l) auto

lemma parse_paths: "\<forall>p \<in> set ps. utf8_valid p \<Longrightarrow> parse_uri_list (paths_to_uri_list ps) = ps"
proof (induction ps)
  case Nil
  show ?case by (simp add: parse_uri_list_def paths_to_uri_list_def parse_uri_line_def map_filter_def trim_solid)
next
  case (Cons p ps)
  have "10 \<notin> set (FILE_SCHEME @ percent_encode_path p @ [13])"
    using scheme_solid(1) encoded_solid solid_not(1) by auto
  then have "split_lf (paths_to_uri_list (p # ps))
      = (FILE_SCHEME @ percent_encode_path p @ [13]) # split_lf (paths_to_uri_list ps)"
    using split_lf_line [of "FILE_SCHEME @ percent_encode_path p @ [13]" "paths_to_uri_list ps"]
    by (simp add: paths_to_uri_list_def)
  then show ?case
    using Cons parse_line [of p] by (simp add: parse_uri_list_def map_filter_simps)
qed

lemma unescape_plain: "c \<noteq> 37 \<Longrightarrow> unescape (c # rest) = c # unescape rest"
  by (cases rest rule: unescape.cases) auto

lemma unescape_href_char: "unescape (href_char c @ rest) = c # unescape rest"
proof -
  have "radix16 50 48 = Some 32" "radix16 50 51 = Some 35" "radix16 51 70 = Some 63" "radix16 50 53 = Some 37"
    by code_simp+
  then show ?thesis
    by (auto simp: href_char_def u_def unescape_plain)
qed

lemma unescape_href: "unescape (concat (map href_char s)) = s"
  by (induction s) (simp_all add: unescape_href_char)

section \<open>Properties\<close>

text \<open>
  A drag-and-drop body decodes to the paths it was made of, in order, whatever bytes of
  well-formed UTF-8 they hold: line breaks, spaces, percent and hash signs included.
\<close>

theorem uri_list_roundtrip:
  assumes "\<forall>p \<in> set ps. utf8_valid p"
  shows "parse_uri_list (paths_to_uri_list ps) = ps"
  using parse_paths [OF assms] .

theorem uri_list_roundtrip_witness:
  "parse_uri_list (paths_to_uri_list [bytes_of ''/tmp/a b'', [47, 10, 13, 37, 35], []]) = [bytes_of ''/tmp/a b'', [47, 10, 13, 37, 35], []]"
proof -
  have "\<forall>p \<in> set [bytes_of ''/tmp/a b'', [47, 10, 13, 37, 35], []]. utf8_valid p" by code_simp
  then show ?thesis by (rule uri_list_roundtrip)
qed

text \<open>The \<open>href\<close> written to the recent-directories log reads back as the same path.\<close>

theorem href_roundtrip: "href_to_path (path_to_href s) = s"
  by (simp add: href_to_path_def path_to_href_def strip_prefix_def u_def unescape_href)

text \<open>
  Escapes of other programs do not pass through the reader verbatim: an escaped byte becomes
  the character with that number, and a malformed escape swallows the two characters after the
  percent sign.
\<close>

theorem href_foreign_escapes:
  assumes "radix16 h l = None"
  shows "href_to_path (u ''file://'' @ 37 # h # l # rest) = 37 # unescape rest \<and>
    href_to_path (u ''file:///%C3%A9'') = u ''/'' @ [0xC3, 0xA9]"
proof -
  have "href_to_path (u ''file:///%C3%A9'') = u ''/'' @ [0xC3, 0xA9]" by code_simp
  then show ?thesis
    using assms by (simp add: href_to_path_def strip_prefix_def u_def)
qed

theorem href_foreign_escapes_witness:
  "href_to_path (u ''file://%zz/home'') = 37 # unescape (u ''/home'')"
proof -
  have "radix16 122 122 = None" by code_simp
  from href_foreign_escapes [OF this, of "u ''/home''"] show ?thesis by (simp add: u_def)
qed


end
