(* ===== verification/Stack_State.thy ===== *)
theory Stack_State
  imports Paths Text "HOL-Library.Multiset"
begin

unbundle bit_operations_syntax

text \<open>
  The artifact stack of the desktop shell (\<open>stack/state.rs\<close>, \<open>stack/cli.rs\<close>): items of two
  pools in \<open>items.json\<close>, payloads under \<open>blobs/\<close>, materialised links under \<open>links/\<close> and cached
  thumbnails, with the commands that push, pop, remove, move and link. The disk is the record
  \<open>stack_disk\<close>; the clock, the process id, the file system's refusals and the user's own files
  are in \<open>stack_env\<close> and \<open>user_files\<close>. JSON text is not modelled: \<open>items_file\<close> says what reading
  \<open>items.json\<close> gives. Names and ids are bytes as characters.
\<close>

section \<open>Data\<close>

datatype StackKind = KindApp | KindUser

definition Kind_as_str :: "StackKind \<Rightarrow> string" where
  "Kind_as_str k = (case k of KindApp \<Rightarrow> ''app'' | KindUser \<Rightarrow> ''user'')"

datatype stack_error =
    NotFound string
  | UnknownKind string
  | PoolEmpty string
  | PathNotFound string
  | StackIo string

definition Kind_parse :: "string \<Rightarrow> stack_error + StackKind" where
  "Kind_parse s = (if s = ''app'' then Inr KindApp else if s = ''user'' then Inr KindUser else Inl (UnknownKind s))"

record Item =
  it_id :: string
  it_kind :: StackKind
  it_path :: "string option"
  it_name :: string
  created_at :: u64
  content_kind :: string
  it_size :: u64

datatype items_file = ItemsMissing | ItemsBlank | ItemsBroken string | ItemsParsed "Item list"

record stack_disk =
  items_json :: items_file
  blobs :: "string \<rightharpoonup> byte list"
  links :: "string \<rightharpoonup> byte list"
  thumbs :: "string set"
  user_files :: "string \<rightharpoonup> byte list"

datatype stack_io = IoBlob | IoSave | IoStat | IoLink | IoMkdir | IoRename | IoCopy | IoWrite

record stack_env =
  nanos :: "128 word"
  pid :: u32
  now :: u64
  refuses :: "stack_io \<Rightarrow> string option"
  canonicalize :: "string \<Rightarrow> string option"
  alphanumeric :: "byte list \<Rightarrow> bool"

definition guard_io :: "stack_env \<Rightarrow> stack_io \<Rightarrow> stack_error + unit" where
  "guard_io env i = (case refuses env i of None \<Rightarrow> Inr () | Some e \<Rightarrow> Inl (StackIo e))"

section \<open>Loading and saving\<close>

definition stack_load :: "stack_disk \<Rightarrow> stack_error + Item list" where
  "stack_load d = (case items_json d of
      ItemsMissing \<Rightarrow> Inr []
    | ItemsBlank \<Rightarrow> Inr []
    | ItemsBroken e \<Rightarrow> Inl (StackIo e)
    | ItemsParsed is \<Rightarrow> Inr is)"

definition stack_save :: "stack_env \<Rightarrow> Item list \<Rightarrow> stack_disk \<Rightarrow> (stack_error + unit) \<times> stack_disk" where
  "stack_save env is d = (case guard_io env IoSave of
      Inl e \<Rightarrow> (Inl e, d)
    | Inr _ \<Rightarrow> (Inr (), d\<lparr>items_json := ItemsParsed is\<rparr>))"

text \<open>Eight hexadecimal digits of the mixed clock and process id.\<close>

definition hex_char :: "nat \<Rightarrow> char" where
  "hex_char n = ''0123456789abcdef'' ! (n mod 16)"

definition hex8 :: "u32 \<Rightarrow> string" where
  "hex8 w = map (\<lambda>i. hex_char (unat (drop_bit (4 * (7 - i)) w))) [0..<8]"

definition new_id :: "stack_env \<Rightarrow> string" where
  "new_id env = hex8 (ucast (nanos env XOR (ucast (pid env) * 0x9E3779B97F4A7C15)))"

definition push_content ::
  "stack_env \<Rightarrow> StackKind \<Rightarrow> string \<Rightarrow> byte list \<Rightarrow> string \<Rightarrow> stack_disk \<Rightarrow> (stack_error + Item) \<times> stack_disk" where
  "push_content env kind name bytes ck d = (case guard_io env IoBlob of
      Inl e \<Rightarrow> (Inl e, d)
    | Inr _ \<Rightarrow>
        (Inr \<lparr>it_id = new_id env, it_kind = kind, it_path = None, it_name = name, created_at = now env,
              content_kind = ck, it_size = of_nat (length bytes)\<rparr>,
         d\<lparr>blobs := (blobs d)(new_id env \<mapsto> bytes)\<rparr>))"

definition sniff_kind :: "string \<Rightarrow> string" where
  "sniff_kind path =
     (let ext = to_ascii_lowercase (case path_extension path of None \<Rightarrow> [] | Some e \<Rightarrow> e) in
      if ext \<in> {''png'', ''jpg'', ''jpeg'', ''webp'', ''gif'', ''bmp'', ''tiff'', ''svg''} then ''image''
      else if ext \<in> {''txt'', ''md'', ''rs'', ''toml'', ''json'', ''yaml'', ''yml'', ''kdl'', ''css'', ''js'', ''ts'',
          ''html'', ''py'', ''sh'', ''go'', ''c'', ''h'', ''cpp'', ''hpp''} then ''text''
      else ''file'')"

definition push_file ::
  "stack_env \<Rightarrow> StackKind \<Rightarrow> string \<Rightarrow> string \<Rightarrow> stack_disk \<Rightarrow> stack_error + Item" where
  "push_file env kind name path d = (case canonicalize env path of
      None \<Rightarrow> Inl (StackIo path)
    | Some a \<Rightarrow>
        (case (guard_io env IoStat, user_files d a) of
           (Inr _, Some bytes) \<Rightarrow>
             Inr \<lparr>it_id = new_id env, it_kind = kind, it_path = Some a, it_name = name, created_at = now env,
                  content_kind = sniff_kind a, it_size = of_nat (length bytes)\<rparr>
         | _ \<Rightarrow> Inl (StackIo a)))"

definition read_payload :: "string \<Rightarrow> stack_disk \<Rightarrow> stack_error + byte list" where
  "read_payload i d = (case blobs d i of None \<Rightarrow> Inl (StackIo i) | Some b \<Rightarrow> Inr b)"

definition link_path :: "stack_env \<Rightarrow> Item \<Rightarrow> stack_disk \<Rightarrow> (stack_error + string) \<times> stack_disk" where
  "link_path env it d = (case it_path it of
      Some p \<Rightarrow> (Inr p, d)
    | None \<Rightarrow>
        (let name = it_id it @ (if content_kind it = ''text'' then ''.txt'' else '''') in
         if links d name \<noteq> None then (Inr (''links/'' @ name), d)
         else (case read_payload (it_id it) d of
             Inl e \<Rightarrow> (Inl e, d)
           | Inr bytes \<Rightarrow>
               (case guard_io env IoLink of
                  Inl e \<Rightarrow> (Inl e, d)
                | Inr _ \<Rightarrow> (Inr (''links/'' @ name), d\<lparr>links := (links d)(name \<mapsto> bytes)\<rparr>)))))"

definition stack_find :: "Item list \<Rightarrow> string \<Rightarrow> stack_error + Item" where
  "stack_find is i = ok_or (find (\<lambda>it. it_id it = i) is) (NotFound i)"

definition starts_with :: "string \<Rightarrow> string \<Rightarrow> bool" where
  "starts_with p s \<longleftrightarrow> take (length p) s = p"

definition ends_with :: "string \<Rightarrow> string \<Rightarrow> bool" where
  "ends_with p s \<longleftrightarrow> drop (length s - length p) s = p"

definition delete_thumbs_in :: "string \<Rightarrow> string set \<Rightarrow> string set" where
  "delete_thumbs_in i ts = {t \<in> ts. \<not> (starts_with (i @ ''.'') t \<and> ends_with ''.png'' t)}"

definition delete_blobs :: "string \<Rightarrow> stack_disk \<Rightarrow> stack_disk" where
  "delete_blobs i d = d\<lparr>blobs := (blobs d)(i := None),
     links := (\<lambda>n. if n = i \<or> starts_with (i @ ''.'') n then None else links d n),
     thumbs := delete_thumbs_in i (thumbs d)\<rparr>"

section \<open>Caps\<close>

definition remove_at :: "nat \<Rightarrow> 'a list \<Rightarrow> 'a list" where
  "remove_at i xs = take i xs @ drop (Suc i) xs"

definition pool_indices :: "StackKind \<Rightarrow> Item list \<Rightarrow> (u64 \<times> nat) list" where
  "pool_indices kind is =
     map (\<lambda>(i, it). (created_at it, i)) (filter (\<lambda>(i, it). it_kind it = kind) (enumerate 0 is))"

definition newest_first :: "(u64 \<times> nat) list \<Rightarrow> (u64 \<times> nat) list" where
  "newest_first = sort_key (\<lambda>p. - uint (fst p))"

definition evict :: "StackKind \<Rightarrow> nat \<Rightarrow> Item list \<Rightarrow> nat list" where
  "evict kind cap is = map snd (drop cap (newest_first (pool_indices kind is)))"

fun remove_indices :: "nat list \<Rightarrow> Item list \<Rightarrow> stack_disk \<Rightarrow> string list \<times> Item list \<times> stack_disk" where
  "remove_indices [] is d = ([], is, d)"
| "remove_indices (i # ixs) is d =
     (let (ids, is1, d1) = remove_indices ixs (remove_at i is) (delete_blobs (it_id (is ! i)) d)
      in (it_id (is ! i) # ids, is1, d1))"

definition enforce_cap :: "StackKind \<Rightarrow> nat \<Rightarrow> Item list \<Rightarrow> stack_disk \<Rightarrow> string list \<times> Item list \<times> stack_disk" where
  "enforce_cap kind cap is d =
     (if length (pool_indices kind is) \<le> cap then ([], is, d)
      else remove_indices (rev (sort (evict kind cap is))) is d)"

definition check_caps :: "nat \<Rightarrow> nat \<Rightarrow> Item list \<Rightarrow> stack_disk \<Rightarrow> string list \<times> Item list \<times> stack_disk" where
  "check_caps max_app max_user is d =
     (let (e1, is1, d1) = enforce_cap KindApp max_app is d;
          (e2, is2, d2) = enforce_cap KindUser max_user is1 d1
      in (e1 @ e2, is2, d2))"

section \<open>Commands\<close>

definition MAX_APP_DEFAULT :: nat where "MAX_APP_DEFAULT = 8"
definition MAX_USER_DEFAULT :: nat where "MAX_USER_DEFAULT = 8"

text \<open>The first line of the lossily decoded input, at most forty characters.\<close>

definition first_line :: "byte list \<Rightarrow> byte list" where
  "first_line bs = (let l = takeWhile (\<lambda>b. b \<noteq> 10) bs in
     if length l < length bs \<and> l \<noteq> [] \<and> last l = 13 then butlast l else l)"

fun utf8_take :: "nat \<Rightarrow> byte list \<Rightarrow> byte list" where
  "utf8_take 0 bs = []"
| "utf8_take (Suc n) bs = (case utf8_len bs of None \<Rightarrow> [] | Some k \<Rightarrow> take k bs @ utf8_take n (drop k bs))"

definition content_name :: "byte list \<Rightarrow> string" where
  "content_name buf =
     (let head = utf8_lossy buf in
      if head = [] then ''(content)'' else map (\<lambda>b. char_of (unat b)) (utf8_take 40 (first_line head)))"

datatype push_arg = Stdin "byte list" | PathArg string

datatype push_out = WouldPush | Pushed string

definition new_item ::
  "stack_env \<Rightarrow> push_arg \<Rightarrow> StackKind \<Rightarrow> string option \<Rightarrow> bool \<Rightarrow> stack_disk \<Rightarrow> (stack_error + Item option) \<times> stack_disk" where
  "new_item env arg kind name dry d = (case arg of
      Stdin buf \<Rightarrow>
        if dry then (Inr None, d)
        else (case push_content env kind (case name of Some n \<Rightarrow> n | None \<Rightarrow> content_name buf) buf
                     (if utf8_valid buf then ''text'' else ''binary'') d of
            (Inl e, d1) \<Rightarrow> (Inl e, d1) | (Inr it, d1) \<Rightarrow> (Inr (Some it), d1))
    | PathArg p \<Rightarrow>
        if canonicalize env p = None then (Inl (PathNotFound p), d)
        else if dry then (Inr None, d)
        else (case push_file env kind (case name of Some n \<Rightarrow> n | None \<Rightarrow>
                     (case path_file_name p of None \<Rightarrow> ''(file)'' | Some n \<Rightarrow> n)) p d of
            Inl e \<Rightarrow> (Inl e, d) | Inr it \<Rightarrow> (Inr (Some it), d)))"

definition stack_push ::
  "stack_env \<Rightarrow> push_arg \<Rightarrow> string \<Rightarrow> string option \<Rightarrow> bool \<Rightarrow> stack_disk \<Rightarrow> (stack_error + push_out) \<times> stack_disk" where
  "stack_push env arg kind_str name dry d = (case Kind_parse kind_str of
      Inl e \<Rightarrow> (Inl e, d)
    | Inr kind \<Rightarrow>
        (case new_item env arg kind name dry d of
           (Inl e, d1) \<Rightarrow> (Inl e, d1)
         | (Inr None, d1) \<Rightarrow> (Inr WouldPush, d1)
         | (Inr (Some it), d1) \<Rightarrow>
             (case stack_load d1 of
                Inl e \<Rightarrow> (Inl e, d1)
              | Inr is \<Rightarrow>
                  (let (_, is1, d2) = check_caps MAX_APP_DEFAULT MAX_USER_DEFAULT (is @ [it]) d1 in
                   case stack_save env is1 d2 of
                     (Inl e, d3) \<Rightarrow> (Inl e, d3)
                   | (Inr _, d3) \<Rightarrow> (Inr (Pushed (it_id it)), d3)))))"

fun newest_index :: "StackKind \<Rightarrow> nat \<Rightarrow> Item list \<Rightarrow> (u64 \<times> nat) option \<Rightarrow> (u64 \<times> nat) option" where
  "newest_index kind i [] best = best"
| "newest_index kind i (it # is) best =
     newest_index kind (Suc i) is
       (if it_kind it \<noteq> kind then best
        else if (case best of None \<Rightarrow> True | Some b \<Rightarrow> fst b \<le> created_at it) then Some (created_at it, i) else best)"

fun index_of :: "('a \<Rightarrow> bool) \<Rightarrow> 'a list \<Rightarrow> nat option" where
  "index_of P [] = None"
| "index_of P (x # xs) = (if P x then Some 0 else map_option Suc (index_of P xs))"

definition drop_item :: "stack_env \<Rightarrow> Item list \<Rightarrow> nat \<Rightarrow> stack_disk \<Rightarrow> (stack_error + string) \<times> stack_disk" where
  "drop_item env is i d =
     (let it = is ! i; d1 = delete_blobs (it_id it) d in
      case stack_save env (remove_at i is) d1 of
        (Inl e, d2) \<Rightarrow> (Inl e, d2) | (Inr _, d2) \<Rightarrow> (Inr (it_id it), d2))"

definition stack_pop :: "stack_env \<Rightarrow> string \<Rightarrow> string option \<Rightarrow> stack_disk \<Rightarrow> (stack_error + string) \<times> stack_disk" where
  "stack_pop env kind_str sel d = (case Kind_parse kind_str of
      Inl e \<Rightarrow> (Inl e, d)
    | Inr kind \<Rightarrow>
        (case stack_load d of
           Inl e \<Rightarrow> (Inl e, d)
         | Inr is \<Rightarrow>
             (case sel of
                Some i \<Rightarrow>
                  (case index_of (\<lambda>it. it_id it = i) is of
                     None \<Rightarrow> (Inl (NotFound i), d) | Some ix \<Rightarrow> drop_item env is ix d)
              | None \<Rightarrow>
                  (case newest_index kind 0 is None of
                     None \<Rightarrow> (Inl (PoolEmpty (Kind_as_str kind)), d) | Some (_, ix) \<Rightarrow> drop_item env is ix d))))"

definition stack_remove :: "stack_env \<Rightarrow> string \<Rightarrow> stack_disk \<Rightarrow> (stack_error + unit) \<times> stack_disk" where
  "stack_remove env i d = (case stack_load d of
      Inl e \<Rightarrow> (Inl e, d)
    | Inr is \<Rightarrow>
        (case index_of (\<lambda>it. it_id it = i) is of
           None \<Rightarrow> (Inl (NotFound i), d)
         | Some ix \<Rightarrow> (case drop_item env is ix d of (Inl e, d1) \<Rightarrow> (Inl e, d1) | (Inr _, d1) \<Rightarrow> (Inr (), d1))))"

function sanitize_bytes :: "(byte list \<Rightarrow> bool) \<Rightarrow> byte list \<Rightarrow> byte list" where
  "sanitize_bytes alnum bs =
     (if bs = [] then []
      else (let k = (case utf8_len bs of None \<Rightarrow> 1 | Some n \<Rightarrow> n); c = take k bs in
        (if alnum c \<or> c \<in> {[46], [45], [95], [32]} then c else [95]) @ sanitize_bytes alnum (drop k bs)))"
  by pat_completeness auto
termination
  by (relation "measure (length \<circ> snd)") (auto split: option.splits dest: utf8_len_pos)

declare sanitize_bytes.simps [simp del]

definition sanitize_name :: "stack_env \<Rightarrow> string \<Rightarrow> string" where
  "sanitize_name env s =
     (let out = map (\<lambda>b. char_of (unat b)) (sanitize_bytes (alphanumeric env) (bytes_of s))
      in if out = [] then ''item'' else out)"

definition move_payload ::
  "stack_env \<Rightarrow> Item \<Rightarrow> string \<Rightarrow> stack_disk \<Rightarrow> (stack_error + unit) \<times> stack_disk" where
  "move_payload env it target d = (case it_path it of
      Some src \<Rightarrow>
        (case user_files d src of
           None \<Rightarrow> (Inl (StackIo src), d)
         | Some bytes \<Rightarrow>
             (case guard_io env IoRename of
                Inr _ \<Rightarrow> (Inr (), d\<lparr>user_files := (user_files d)(src := None, target \<mapsto> bytes)\<rparr>)
              | Inl _ \<Rightarrow>
                  (case guard_io env IoCopy of
                     Inl e \<Rightarrow> (Inl e, d)
                   | Inr _ \<Rightarrow> (Inr (), d\<lparr>user_files := (user_files d)(target \<mapsto> bytes, src := None)\<rparr>))))
    | None \<Rightarrow>
        (case read_payload (it_id it) d of
           Inl e \<Rightarrow> (Inl e, d)
         | Inr bytes \<Rightarrow>
             (case guard_io env IoWrite of
                Inl e \<Rightarrow> (Inl e, d)
              | Inr _ \<Rightarrow> (Inr (), d\<lparr>user_files := (user_files d)(target \<mapsto> bytes)\<rparr>))))"

definition stack_move_to :: "stack_env \<Rightarrow> string \<Rightarrow> string \<Rightarrow> stack_disk \<Rightarrow> (stack_error + string) \<times> stack_disk" where
  "stack_move_to env i dest d = (case stack_load d of
      Inl e \<Rightarrow> (Inl e, d)
    | Inr is \<Rightarrow>
        (case index_of (\<lambda>it. it_id it = i) is of
           None \<Rightarrow> (Inl (NotFound i), d)
         | Some ix \<Rightarrow>
             (let it = is ! ix; target = path_push dest (sanitize_name env (it_name it)) in
              case guard_io env IoMkdir of
                Inl e \<Rightarrow> (Inl e, d)
              | Inr _ \<Rightarrow>
                  (case move_payload env it target d of
                     (Inl e, d1) \<Rightarrow> (Inl e, d1)
                   | (Inr _, d1) \<Rightarrow>
                       (case drop_item env is ix d1 of
                          (Inl e, d2) \<Rightarrow> (Inl e, d2) | (Inr _, d2) \<Rightarrow> (Inr target, d2))))))"

definition stack_preview :: "string \<Rightarrow> stack_disk \<Rightarrow> stack_error + byte list" where
  "stack_preview i d =
     try_bind (stack_load d) (\<lambda>is. try_bind (stack_find is i) (\<lambda>it.
       case it_path it of
         Some p \<Rightarrow> ok_or (user_files d p) (StackIo p)
       | None \<Rightarrow> read_payload (it_id it) d))"

definition stack_link :: "stack_env \<Rightarrow> string \<Rightarrow> stack_disk \<Rightarrow> (stack_error + string) \<times> stack_disk" where
  "stack_link env i d = (case try_bind (stack_load d) (\<lambda>is. stack_find is i) of
      Inl e \<Rightarrow> (Inl e, d)
    | Inr it \<Rightarrow> link_path env it d)"

section \<open>Removing by index\<close>

lemma nths_below:
  assumes "\<forall>j < length ys. j \<in> A \<longleftrightarrow> j \<in> B"
  shows "nths ys A = nths ys B"
proof -
  have "filter (\<lambda>p. snd p \<in> A) (zip ys [0..<length ys]) = filter (\<lambda>p. snd p \<in> B) (zip ys [0..<length ys])"
    using assms by (intro filter_cong) (auto dest: set_zip_rightD)
  then show ?thesis by (simp add: nths_def)
qed

lemma nths_remove_at:
  assumes "i < length xs" "\<forall>j \<in> A. j < i"
  shows "nths (remove_at i xs) (- A) = nths xs (- insert i A)"
proof -
  obtain ys x zs where xs: "xs = ys @ x # zs" "length ys = i"
  proof (rule that)
    show "xs = take i xs @ xs ! i # drop (Suc i) xs" by (rule id_take_nth_drop [OF assms(1)])
    show "length (take i xs) = i" using assms(1) by simp
  qed
  have "nths ys (- insert i A) = nths ys (- A)" by (rule nths_below) (simp add: xs)
  moreover have "{j. Suc (j + i) \<in> - insert i A} = UNIV" "{j. j + i \<in> - A} = UNIV"
    using assms(2) by force+
  ultimately show ?thesis using xs(2) by (simp add: xs(1) remove_at_def nths_append nths_Cons nths_all)
qed

lemma remove_indices_nths:
  assumes "sorted_wrt (>) ixs" "\<forall>i \<in> set ixs. i < length is"
  shows "remove_indices ixs is d =
    (map (\<lambda>i. it_id (is ! i)) ixs, nths is (- set ixs), fold delete_blobs (map (\<lambda>i. it_id (is ! i)) ixs) d)"
  using assms
proof (induction ixs arbitrary: "is" d)
  case (Cons i ixs)
  have less: "\<forall>j \<in> set ixs. j < i" using Cons.prems by simp
  have nth: "remove_at i is ! j = is ! j" if "j \<in> set ixs" for j
    using that less Cons.prems by (auto simp: remove_at_def nth_append)
  have "\<forall>j \<in> set ixs. j < length (remove_at i is)" using less Cons.prems by (auto simp: remove_at_def)
  with Cons.IH [of "remove_at i is"] Cons.prems have
    "remove_indices ixs (remove_at i is) d' = (map (\<lambda>j. it_id (remove_at i is ! j)) ixs, nths (remove_at i is) (- set ixs),
       fold delete_blobs (map (\<lambda>j. it_id (remove_at i is ! j)) ixs) d')" for d'
    by simp
  moreover have "map (\<lambda>j. it_id (remove_at i is ! j)) ixs = map (\<lambda>j. it_id (is ! j)) ixs"
    using nth by simp
  ultimately show ?case using nths_remove_at [of i "is" "set ixs"] less Cons.prems by simp
qed (simp add: nths_all)

section \<open>What the cap evicts\<close>

lemma insort_key_last: "f y \<le> f x \<Longrightarrow> insort_key f y (zs @ [x]) = insort_key f y zs @ [x]"
  by (induction zs) auto

lemma sort_key_snoc: "(\<And>y. y \<in> set xs \<Longrightarrow> f y \<le> f x) \<Longrightarrow> sort_key f (xs @ [x]) = sort_key f xs @ [x]"
  by (induction xs) (auto simp: insort_key_last)

lemma pool_indices_set:
  "set (pool_indices kind is) = {(created_at (is ! i), i) | i. i < length is \<and> it_kind (is ! i) = kind}"
  by (force simp: pool_indices_def enumerate_eq_zip set_zip)

lemma pool_indices_snd: "map snd (pool_indices kind is) = filter (\<lambda>i. it_kind (is ! i) = kind) [0..<length is]"
proof -
  have "enumerate 0 is = map (\<lambda>i. (i, is ! i)) [0..<length is]"
    by (rule nth_equalityI) (simp_all add: nth_enumerate_eq)
  then show ?thesis by (simp add: pool_indices_def filter_map comp_def)
qed

lemma distinct_pool: "distinct (map snd (pool_indices kind is))"
  by (simp add: pool_indices_snd)

lemma evict_facts:
  shows "distinct (evict kind cap is)" "set (evict kind cap is) \<subseteq> {i. i < length is \<and> it_kind (is ! i) = kind}"
    "length (evict kind cap is) = length (pool_indices kind is) - cap"
    "\<And>e s. e \<in> set (evict kind cap is) \<Longrightarrow> s < length is \<Longrightarrow> it_kind (is ! s) = kind \<Longrightarrow> s \<notin> set (evict kind cap is) \<Longrightarrow>
       created_at (is ! e) \<le> created_at (is ! s)"
proof -
  let ?l = "newest_first (pool_indices kind is)"
  have set_l: "set ?l = set (pool_indices kind is)" by (simp add: newest_first_def)
  have "mset (map snd ?l) = mset (map snd (pool_indices kind is))" by (simp add: newest_first_def)
  then have d: "distinct (map snd ?l)" using distinct_pool mset_eq_imp_distinct_iff by blast
  show "distinct (evict kind cap is)" using d by (simp add: evict_def drop_map flip: drop_map)
  show "set (evict kind cap is) \<subseteq> {i. i < length is \<and> it_kind (is ! i) = kind}"
    using set_l by (auto simp: evict_def pool_indices_set dest!: in_set_dropD)
  show "length (evict kind cap is) = length (pool_indices kind is) - cap"
    by (simp add: evict_def newest_first_def)
  show "created_at (is ! e) \<le> created_at (is ! s)"
    if e: "e \<in> set (evict kind cap is)" and s: "s < length is" "it_kind (is ! s) = kind" "s \<notin> set (evict kind cap is)" for e s
  proof -
    have "(created_at (is ! s), s) \<in> set ?l" using s set_l by (auto simp: pool_indices_set)
    moreover have "(created_at (is ! s), s) \<notin> set (drop cap ?l)" using s(3) by (force simp: evict_def)
    ultimately have s': "(created_at (is ! s), s) \<in> set (take cap ?l)"
      by (metis Un_iff append_take_drop_id set_append)
    from e obtain p where p: "p \<in> set (drop cap ?l)" "snd p = e" by (auto simp: evict_def)
    then have "p = (created_at (is ! e), e)" using set_l by (auto simp: pool_indices_set dest!: in_set_dropD)
    moreover have "sorted (map (\<lambda>p. - uint (fst p)) (take cap ?l @ drop cap ?l))"
      by (simp add: newest_first_def)
    then have "- uint (fst (created_at (is ! s), s)) \<le> - uint (fst p)"
      using s' p(1) unfolding map_append sorted_append by (auto simp: image_iff)
    ultimately show ?thesis by (simp add: word_le_def)
  qed
qed


definition survivors :: "StackKind \<Rightarrow> nat \<Rightarrow> Item list \<Rightarrow> Item list" where
  "survivors kind cap is = nths is (- set (evict kind cap is))"

definition evicted_ids :: "StackKind \<Rightarrow> nat \<Rightarrow> Item list \<Rightarrow> string list" where
  "evicted_ids kind cap is = map (\<lambda>i. it_id (is ! i)) (rev (sort (evict kind cap is)))"

lemma enforce_cap_eq:
  "enforce_cap kind cap is d =
     (evicted_ids kind cap is, survivors kind cap is, fold delete_blobs (evicted_ids kind cap is) d)"
proof (cases "length (pool_indices kind is) \<le> cap")
  case True
  then have "evict kind cap is = []" using evict_facts(3) [of kind cap "is"] by simp
  with True show ?thesis by (simp add: enforce_cap_def evicted_ids_def survivors_def nths_all)
next
  case False
  have "sorted_wrt (>) (rev (sort (evict kind cap is)))"
    using evict_facts(1) [of kind cap "is"] by (simp add: sorted_wrt_rev strict_sorted_iff)
  moreover have "\<forall>i \<in> set (rev (sort (evict kind cap is))). i < length is" using evict_facts(2) by fastforce
  ultimately show ?thesis
    using False remove_indices_nths [of "rev (sort (evict kind cap is))" "is" d]
    by (simp add: enforce_cap_def evicted_ids_def survivors_def)
qed

lemma nths_filter_upt: "nths xs A = map ((!) xs) (filter (\<lambda>i. i \<in> A) [0..<length xs])"
proof -
  have "zip xs [0..<length xs] = map (\<lambda>i. (xs ! i, i)) [0..<length xs]"
    by (rule nth_equalityI) simp_all
  then show ?thesis by (simp add: nths_def filter_map comp_def)
qed

lemma map_filter_upt: "map ((!) xs) (filter (\<lambda>i. P (xs ! i)) [0..<length xs]) = filter P xs"
proof -
  have "filter P (map ((!) xs) [0..<length xs]) = map ((!) xs) (filter (\<lambda>i. P (xs ! i)) [0..<length xs])"
    by (simp add: filter_map comp_def)
  then show ?thesis by (simp add: map_nth)
qed

lemma card_filter_nths: "length (filter P (nths xs A)) = card {i. i < length xs \<and> i \<in> A \<and> P (xs ! i)}"
  by (simp add: nths_filter_upt filter_map comp_def length_filter_conv_card conj_commute conj_left_commute
      cong: conj_cong)

definition pool :: "StackKind \<Rightarrow> Item list \<Rightarrow> Item list" where
  "pool kind is = filter (\<lambda>it. it_kind it = kind) is"

lemma length_pool: "length (pool kind is) = length (pool_indices kind is)"
  using arg_cong [OF pool_indices_snd [of kind "is"], of length]
  by (simp add: pool_def length_filter_conv_card cong: conj_cong)

lemma survivors_pool: "length (pool kind (survivors kind cap is)) = min cap (length (pool kind is))"
proof -
  let ?P = "{i. i < length is \<and> it_kind (is ! i) = kind}" and ?E = "set (evict kind cap is)"
  have fin: "finite ?P" by simp
  have "{i. i < length is \<and> i \<in> - ?E \<and> it_kind (is ! i) = kind} = ?P - ?E" by auto
  moreover have "card (?P - ?E) = card ?P - card ?E"
    by (rule card_Diff_subset) (use evict_facts(2) in auto)
  moreover have "card ?E = length (pool_indices kind is) - cap"
    using evict_facts(1,3) [of kind cap "is"] by (simp add: distinct_card)
  moreover have "card ?P = length (pool_indices kind is)"
    using length_pool [of kind "is"] by (simp add: pool_def length_filter_conv_card)
  ultimately show ?thesis by (simp add: survivors_def pool_def card_filter_nths flip: length_pool [unfolded pool_def])
qed

lemma survivors_other: "kind' \<noteq> kind \<Longrightarrow> pool kind' (survivors kind cap is) = pool kind' is"
proof -
  assume k: "kind' \<noteq> kind"
  have "filter (\<lambda>i. it_kind (is ! i) = kind') (filter (\<lambda>i. i \<in> - set (evict kind cap is)) [0..<length is]) =
      filter (\<lambda>i. it_kind (is ! i) = kind') [0..<length is]"
    using evict_facts(2) [of kind cap "is"] k by (auto intro: filter_cong)
  then have "pool kind' (survivors kind cap is) = map ((!) is) (filter (\<lambda>i. it_kind (is ! i) = kind') [0..<length is])"
    by (simp add: pool_def survivors_def nths_filter_upt filter_map comp_def)
  also have "\<dots> = pool kind' is"
    by (simp add: pool_def map_filter_upt [where P = "\<lambda>it. it_kind it = kind'"])
  finally show ?thesis .
qed

lemma set_survivors: "set (survivors kind cap is) = {is ! i | i. i < length is \<and> i \<notin> set (evict kind cap is)}"
  by (auto simp: survivors_def nths_filter_upt)


section \<open>The store\<close>

definition content_ids :: "Item list \<Rightarrow> string set" where
  "content_ids is = {it_id it | it. it \<in> set is \<and> it_path it = None}"

definition disk_inv :: "Item list \<Rightarrow> stack_disk \<Rightarrow> bool" where
  "disk_inv is d \<longleftrightarrow> distinct (map it_id is) \<and> dom (blobs d) = content_ids is \<and>
     (\<forall>n b. links d n = Some b \<longrightarrow>
        (\<exists>i \<in> content_ids is. (n = i \<or> n = i @ ''.txt'') \<and> blobs d i = Some b))"

definition capped :: "Item list \<Rightarrow> bool" where
  "capped is \<longleftrightarrow> length (pool KindApp is) \<le> MAX_APP_DEFAULT \<and> length (pool KindUser is) \<le> MAX_USER_DEFAULT"

definition stack_ok :: "stack_disk \<Rightarrow> bool" where
  "stack_ok d \<longleftrightarrow> (\<exists>is. stack_load d = Inr is \<and> disk_inv is d \<and> capped is)"

lemma delete_blobs_simps [simp]:
  "blobs (delete_blobs i d) = (blobs d)(i := None)"
  "links (delete_blobs i d) n = (if n = i \<or> starts_with (i @ ''.'') n then None else links d n)"
  "items_json (delete_blobs i d) = items_json d" "user_files (delete_blobs i d) = user_files d"
  by (simp_all add: delete_blobs_def)

lemma fold_delete_simps:
  "items_json (fold delete_blobs ids d) = items_json d" "user_files (fold delete_blobs ids d) = user_files d"
  by (induction ids arbitrary: d) simp_all

lemma disk_inv_delete:
  assumes "disk_inv is d"
  shows "disk_inv (filter (\<lambda>it. it_id it \<noteq> i) is) (delete_blobs i d)"
proof -
  have c: "content_ids (filter (\<lambda>it. it_id it \<noteq> i) is) = content_ids is - {i}" by (auto simp: content_ids_def)
  have l: "j \<noteq> i" if "n = j \<or> n = j @ ''.txt''" "\<not> (n = i \<or> starts_with (i @ ''.'') n)" for j n
    using that by (auto simp: starts_with_def)
  show ?thesis
    unfolding disk_inv_def c
  proof (intro conjI allI impI)
    fix n b
    assume "links (delete_blobs i d) n = Some b"
    then have n: "\<not> (n = i \<or> starts_with (i @ ''.'') n)" "links d n = Some b" by (auto split: if_splits)
    then obtain j where j: "j \<in> content_ids is" "n = j \<or> n = j @ ''.txt''" "blobs d j = Some b"
      using assms unfolding disk_inv_def by blast
    with l [OF j(2) n(1)] show "\<exists>j \<in> content_ids is - {i}. (n = j \<or> n = j @ ''.txt'') \<and> blobs (delete_blobs i d) j = Some b"
      by auto
  qed (use assms in \<open>auto simp: disk_inv_def distinct_map_filter\<close>)
qed

lemma disk_inv_forget:
  "disk_inv is d \<Longrightarrow> disk_inv (filter (\<lambda>it. it_id it \<notin> set ids) is) (fold delete_blobs ids d)"
proof (induction ids arbitrary: "is" d)
  case (Cons i ids)
  have "filter (\<lambda>it. it_id it \<notin> set ids) (filter (\<lambda>it. it_id it \<noteq> i) is) = filter (\<lambda>it. it_id it \<notin> set (i # ids)) is"
    by (simp add: conj_commute)
  with Cons.IH [OF disk_inv_delete [OF Cons.prems, of i]] show ?case by simp
qed simp

lemma nths_forget:
  assumes "distinct (map it_id is)" "\<forall>i \<in> E. i < length is"
  shows "nths is (- E) = filter (\<lambda>it. it_id it \<notin> (\<lambda>i. it_id (is ! i)) ` E) is"
proof -
  have "it_id (is ! j) \<in> (\<lambda>i. it_id (is ! i)) ` E \<longleftrightarrow> j \<in> E" if "j < length is" for j
    using assms that nth_eq_iff_index_eq [OF assms(1)] by (auto simp: image_iff)
  then have "filter (\<lambda>i. i \<in> - E) [0..<length is] =
      filter (\<lambda>i. it_id (is ! i) \<notin> (\<lambda>i. it_id (is ! i)) ` E) [0..<length is]"
    by (intro filter_cong) auto
  then show ?thesis
    unfolding nths_filter_upt by (simp only: map_filter_upt [where P = "\<lambda>it. it_id it \<notin> (\<lambda>i. it_id (is ! i)) ` E"])
qed

lemma survivors_forget:
  assumes "distinct (map it_id is)"
  shows "survivors kind cap is = filter (\<lambda>it. it_id it \<notin> set (evicted_ids kind cap is)) is"
  using nths_forget [OF assms, of "set (evict kind cap is)"] evict_facts(2) [of kind cap "is"]
  by (auto simp: survivors_def evicted_ids_def)

lemma remove_at_forget:
  assumes "distinct (map it_id is)" "i < length is"
  shows "remove_at i is = filter (\<lambda>it. it_id it \<noteq> it_id (is ! i)) is"
  using nths_remove_at [OF assms(2), of "{}"] nths_forget [OF assms(1), of "{i}"] assms(2) by (simp add: nths_all)

lemma enforce_cap_inv:
  assumes "disk_inv is d" "enforce_cap kind cap is d = (ids, is1, d1)"
  shows "disk_inv is1 d1" "items_json d1 = items_json d" "user_files d1 = user_files d"
proof -
  have e: "ids = evicted_ids kind cap is" "is1 = survivors kind cap is" "d1 = fold delete_blobs ids d"
    using assms(2) by (auto simp: enforce_cap_eq)
  show "disk_inv is1 d1"
    using disk_inv_forget [OF assms(1)] survivors_forget assms(1) by (simp add: e disk_inv_def)
  show "items_json d1 = items_json d" "user_files d1 = user_files d"
    by (simp_all add: e fold_delete_simps)
qed


section \<open>Runs of commands\<close>

datatype stack_cmd =
    CPush push_arg string "string option" bool
  | CPop string "string option"
  | CRemove string
  | CMove string string
  | CLink string

fun stack_exec :: "stack_env \<Rightarrow> stack_cmd \<Rightarrow> stack_disk \<Rightarrow> stack_disk" where
  "stack_exec env (CPush arg kind name dry) d = snd (stack_push env arg kind name dry d)"
| "stack_exec env (CPop kind sel) d = snd (stack_pop env kind sel d)"
| "stack_exec env (CRemove i) d = snd (stack_remove env i d)"
| "stack_exec env (CMove i dest) d = snd (stack_move_to env i dest d)"
| "stack_exec env (CLink i) d = snd (stack_link env i d)"

definition stack_empty :: "(string \<rightharpoonup> byte list) \<Rightarrow> stack_disk" where
  "stack_empty files = \<lparr>items_json = ItemsMissing, blobs = Map.empty, links = Map.empty, thumbs = {}, user_files = files\<rparr>"

text \<open>Any commands in any order, as long as saving works and a pushed id is new.\<close>

inductive stack_reach :: "stack_disk \<Rightarrow> bool" where
  start: "stack_reach (stack_empty files)"
| step: "stack_reach d \<Longrightarrow> refuses env IoSave = None \<Longrightarrow>
    (\<And>is. stack_load d = Inr is \<Longrightarrow> new_id env \<notin> it_id ` set is) \<Longrightarrow> stack_reach (stack_exec env cmd d)"

lemma stack_save_ok:
  "refuses env IoSave = None \<Longrightarrow> stack_save env is d = (Inr (), d\<lparr>items_json := ItemsParsed is\<rparr>)"
  by (simp add: stack_save_def guard_io_def)

lemma stack_okI: "disk_inv is d \<Longrightarrow> capped is \<Longrightarrow> stack_ok (d\<lparr>items_json := ItemsParsed is\<rparr>)"
  by (auto simp: stack_ok_def stack_load_def disk_inv_def)

lemma stack_ok_frame: "stack_ok (d\<lparr>user_files := f\<rparr>) = stack_ok d" "stack_load (d\<lparr>user_files := f\<rparr>) = stack_load d"
  by (simp_all add: stack_ok_def stack_load_def disk_inv_def)

lemma check_caps_inv:
  assumes "disk_inv is d" "check_caps MAX_APP_DEFAULT MAX_USER_DEFAULT is d = (ids, is2, d2)"
  shows "disk_inv is2 d2" "capped is2" "user_files d2 = user_files d"
    "set ids \<subseteq> it_id ` set is" "is2 = filter (\<lambda>it. it_id it \<notin> set ids) is"
proof -
  let ?is1 = "survivors KindApp MAX_APP_DEFAULT is"
  obtain e1 d1 where 1: "enforce_cap KindApp MAX_APP_DEFAULT is d = (e1, ?is1, d1)" by (simp add: enforce_cap_eq)
  obtain e2 where 2: "enforce_cap KindUser MAX_USER_DEFAULT ?is1 d1 = (e2, is2, d2)" "ids = e1 @ e2"
    using assms(2) by (auto simp: check_caps_def 1 Let_def split: prod.splits)
  note i1 = enforce_cap_inv [OF assms(1) 1] and i2 = enforce_cap_inv [OF enforce_cap_inv(1) [OF assms(1) 1] 2(1)]
  show "disk_inv is2 d2" "user_files d2 = user_files d" using i1 i2 by simp_all
  have s2: "is2 = survivors KindUser MAX_USER_DEFAULT ?is1" and e: "e1 = evicted_ids KindApp MAX_APP_DEFAULT is"
      "e2 = evicted_ids KindUser MAX_USER_DEFAULT ?is1"
    using 1 2(1) by (auto simp: enforce_cap_eq)
  show "capped is2"
    using survivors_pool [of KindApp MAX_APP_DEFAULT "is"] survivors_pool [of KindUser MAX_USER_DEFAULT ?is1]
      survivors_other [of KindApp KindUser MAX_USER_DEFAULT ?is1] by (simp add: capped_def s2)
  have sub: "set (evicted_ids k c xs) \<subseteq> it_id ` set xs" for k c xs
    using evict_facts(2) [of k c xs] by (auto simp: evicted_ids_def)
  show "set ids \<subseteq> it_id ` set is"
    using sub [of KindApp MAX_APP_DEFAULT "is"] sub [of KindUser MAX_USER_DEFAULT ?is1]
      survivors_forget [of "is" KindApp MAX_APP_DEFAULT] assms(1)
    by (auto simp: 2(2) e disk_inv_def)
  show "is2 = filter (\<lambda>it. it_id it \<notin> set ids) is"
    using survivors_forget [of "is" KindApp MAX_APP_DEFAULT] survivors_forget [of ?is1 KindUser MAX_USER_DEFAULT]
      assms(1) i1(1) by (simp add: s2 2(2) e disk_inv_def conj_commute)
qed

lemma pool_filter: "length (pool k (filter P is)) \<le> length (pool k is)"
  unfolding pool_def by (induction "is") auto

lemma drop_item_ok:
  assumes "disk_inv is d" "capped is" "ix < length is" "refuses env IoSave = None"
  shows "drop_item env is ix d = (Inr (it_id (is ! ix)),
      (delete_blobs (it_id (is ! ix)) d)\<lparr>items_json := ItemsParsed (filter (\<lambda>it. it_id it \<noteq> it_id (is ! ix)) is)\<rparr>)"
    "stack_ok (snd (drop_item env is ix d))"
proof -
  have r: "remove_at ix is = filter (\<lambda>it. it_id it \<noteq> it_id (is ! ix)) is"
    by (rule remove_at_forget) (use assms in \<open>simp_all add: disk_inv_def\<close>)
  then show eq: "drop_item env is ix d = (Inr (it_id (is ! ix)),
      (delete_blobs (it_id (is ! ix)) d)\<lparr>items_json := ItemsParsed (filter (\<lambda>it. it_id it \<noteq> it_id (is ! ix)) is)\<rparr>)"
    by (simp add: drop_item_def Let_def stack_save_ok assms)
  have "capped (filter (\<lambda>it. it_id it \<noteq> it_id (is ! ix)) is)"
    using assms(2) pool_filter le_trans unfolding capped_def by metis
  then show "stack_ok (snd (drop_item env is ix d))"
    unfolding eq snd_conv by (intro stack_okI disk_inv_delete assms)
qed

lemma index_of_Some: "index_of P xs = Some i \<Longrightarrow> i < length xs \<and> P (xs ! i)"
  by (induction xs arbitrary: i) (auto split: if_splits)

lemma newest_index_bound:
  "newest_index kind n is best = Some (t, i) \<Longrightarrow> best = Some (t, i) \<or> (n \<le> i \<and> i < n + length is)"
  by (induction kind n "is" best rule: newest_index.induct) (auto split: if_splits)


lemma disk_inv_link:
  "disk_inv is d \<Longrightarrow> links d n = Some b \<Longrightarrow> \<exists>i \<in> content_ids is. (n = i \<or> n = i @ ''.txt'') \<and> blobs d i = Some b"
  by (simp add: disk_inv_def)

lemma disk_inv_push_content:
  assumes "disk_inv is d" "it_id it \<notin> it_id ` set is" "it_path it = None"
  shows "disk_inv (is @ [it]) (d\<lparr>blobs := (blobs d)(it_id it \<mapsto> bytes)\<rparr>)"
proof -
  have "content_ids (is @ [it]) = insert (it_id it) (content_ids is)" using assms(3) by (auto simp: content_ids_def)
  moreover have "it_id it \<notin> content_ids is" using assms(2) by (auto simp: content_ids_def)
  ultimately show ?thesis
    using assms(1,2) unfolding disk_inv_def
  proof (intro conjI allI impI)
    fix n b
    assume "links (d\<lparr>blobs := (blobs d)(it_id it \<mapsto> bytes)\<rparr>) n = Some b"
    then obtain i where "i \<in> content_ids is" "n = i \<or> n = i @ ''.txt''" "blobs d i = Some b"
      using disk_inv_link [OF assms(1), of n b] by auto
    then show "\<exists>i \<in> content_ids (is @ [it]). (n = i \<or> n = i @ ''.txt'') \<and>
        blobs (d\<lparr>blobs := (blobs d)(it_id it \<mapsto> bytes)\<rparr>) i = Some b"
      using \<open>it_id it \<notin> content_ids is\<close> \<open>content_ids (is @ [it]) = _\<close> by (intro bexI [of _ i]) auto
  qed auto
qed

lemma disk_inv_push_file:
  assumes "disk_inv is d" "it_id it \<notin> it_id ` set is" "it_path it \<noteq> None"
  shows "disk_inv (is @ [it]) d"
proof -
  have "content_ids (is @ [it]) = content_ids is" using assms(3) by (auto simp: content_ids_def)
  then show ?thesis using assms by (simp add: disk_inv_def)
qed

lemma new_item_inv:
  assumes "disk_inv is d" "stack_load d = Inr is" "new_id env \<notin> it_id ` set is" "new_item env arg kind name dry d = (r, d1)"
  shows "(\<exists>it. r = Inr (Some it) \<and> disk_inv (is @ [it]) d1 \<and> stack_load d1 = Inr is \<and> it_id it = new_id env \<and>
      it_kind it = kind \<and> created_at it = now env) \<or>
    d1 = d \<and> (\<forall>it. r \<noteq> Inr (Some it))"
proof (cases arg)
  case (Stdin buf)
  show ?thesis
  proof (cases "dry \<or> refuses env IoBlob \<noteq> None")
    case True
    with assms(4) Stdin show ?thesis by (cases dry) (auto simp: new_item_def push_content_def guard_io_def)
  next
    case False
    let ?it = "\<lparr>it_id = new_id env, it_kind = kind, it_path = None,
        it_name = (case name of Some n \<Rightarrow> n | None \<Rightarrow> content_name buf), created_at = now env,
        content_kind = (if utf8_valid buf then ''text'' else ''binary''), it_size = of_nat (length buf)\<rparr>"
    from False assms(4) Stdin have "r = Inr (Some ?it)" "d1 = d\<lparr>blobs := (blobs d)(new_id env \<mapsto> buf)\<rparr>"
      by (auto simp: new_item_def push_content_def guard_io_def)
    moreover have "disk_inv (is @ [?it]) (d\<lparr>blobs := (blobs d)(new_id env \<mapsto> buf)\<rparr>)"
      using disk_inv_push_content [of "is" d ?it buf] assms(1,3) by simp
    ultimately show ?thesis using assms(2) by (simp add: stack_load_def)
  qed
next
  case (PathArg p)
  show ?thesis
  proof (cases r)
    case (Inl e)
    with assms(4) PathArg show ?thesis by (auto simp: new_item_def split: if_splits sum.splits)
  next
    case (Inr oit)
    show ?thesis
    proof (cases oit)
      case None
      with Inr assms(4) PathArg show ?thesis by (auto simp: new_item_def split: if_splits sum.splits)
    next
      case (Some it)
      then have "d1 = d" and it: "it_id it = new_id env" "it_path it \<noteq> None" "it_kind it = kind" "created_at it = now env"
        using Inr assms(4) PathArg
        by (auto simp: new_item_def push_file_def guard_io_def split: if_splits sum.splits option.splits)
      moreover have "disk_inv (is @ [it]) d" using disk_inv_push_file [of "is" d it] assms it by simp
      ultimately show ?thesis using Inr Some assms(2) by simp
    qed
  qed
qed

lemma stack_push_ok:
  assumes "stack_ok d" "refuses env IoSave = None" "\<And>is. stack_load d = Inr is \<Longrightarrow> new_id env \<notin> it_id ` set is"
  shows "stack_ok (snd (stack_push env arg kind_str name dry d))"
proof (cases "Kind_parse kind_str")
  case (Inr kind)
  obtain "is" where l: "stack_load d = Inr is" "disk_inv is d" using assms(1) by (auto simp: stack_ok_def)
  obtain r d1 where n: "new_item env arg kind name dry d = (r, d1)" by fastforce
  from new_item_inv [OF l(2,1) assms(3) [OF l(1)] n] show ?thesis
  proof
    assume "\<exists>it. r = Inr (Some it) \<and> disk_inv (is @ [it]) d1 \<and> stack_load d1 = Inr is \<and> it_id it = new_id env \<and>
      it_kind it = kind \<and> created_at it = now env"
    then obtain it where it: "r = Inr (Some it)" "disk_inv (is @ [it]) d1" "stack_load d1 = Inr is" by blast
    obtain ids is2 d2 where c: "check_caps MAX_APP_DEFAULT MAX_USER_DEFAULT (is @ [it]) d1 = (ids, is2, d2)"
      by (metis prod.collapse)
    have "snd (stack_push env arg kind_str name dry d) = d2\<lparr>items_json := ItemsParsed is2\<rparr>"
      by (simp add: stack_push_def Inr n it c stack_save_ok assms(2))
    then show ?thesis using stack_okI check_caps_inv(1,2) [OF it(2) c] by simp
  next
    assume "d1 = d \<and> (\<forall>it. r \<noteq> Inr (Some it))"
    then have "snd (stack_push env arg kind_str name dry d) = d"
      by (auto simp: stack_push_def Inr n split: sum.split option.split)
    then show ?thesis using assms(1) by simp
  qed
qed (simp add: stack_push_def assms(1))

lemma link_path_ok:
  assumes "stack_ok d" "stack_load d = Inr is" "it \<in> set is"
  shows "stack_ok (snd (link_path env it d))"
proof -
  have inv: "disk_inv is d" "capped is" using assms(1,2) by (auto simp: stack_ok_def)
  have "stack_ok (d\<lparr>links := (links d)(n \<mapsto> b)\<rparr>)"
    if "it_path it = None" "n = it_id it \<or> n = it_id it @ ''.txt''" "blobs d (it_id it) = Some b" for n b
  proof -
    have "it_id it \<in> content_ids is" using assms(3) that(1) by (auto simp: content_ids_def)
    then have "disk_inv is (d\<lparr>links := (links d)(n \<mapsto> b)\<rparr>)"
      using inv(1) that(2,3) unfolding disk_inv_def by auto
    then show ?thesis using inv(2) assms(2) by (auto simp: stack_ok_def stack_load_def)
  qed
  then show ?thesis
    using assms(1) by (auto simp: link_path_def read_payload_def Let_def split: option.split sum.split)
qed

lemma move_payload_frame:
  "stack_load (snd (move_payload env it t d)) = stack_load d" "disk_inv is (snd (move_payload env it t d)) = disk_inv is d"
  by (simp_all add: move_payload_def stack_load_def disk_inv_def split: option.split sum.split)

lemma stack_exec_ok:
  assumes "stack_ok d" "refuses env IoSave = None" "\<And>is. stack_load d = Inr is \<Longrightarrow> new_id env \<notin> it_id ` set is"
  shows "stack_ok (stack_exec env cmd d)"
proof -
  obtain "is" where l: "stack_load d = Inr is" "disk_inv is d" "capped is" using assms(1) by (auto simp: stack_ok_def)
  note drop = drop_item_ok(2) [OF l(2,3) _ assms(2)]
  show ?thesis
  proof (cases cmd)
    case (CPush arg kind name dry)
    then show ?thesis using stack_push_ok [OF assms] by simp
  next
    case (CPop kind sel)
    then show ?thesis
      using assms(1) drop newest_index_bound [of _ 0 "is" None] index_of_Some [of _ "is"]
      by (auto simp: stack_pop_def l(1) split: sum.split option.split)
  next
    case (CRemove i)
    then show ?thesis
      using assms(1) drop index_of_Some [of _ "is"]
      by (auto simp: stack_remove_def l(1) split: sum.split option.split prod.split) (metis snd_conv)+
  next
    case (CLink i)
    then show ?thesis
      using assms(1) link_path_ok [OF assms(1) l(1)]
      by (auto simp: stack_link_def stack_find_def l(1) find_Some_iff split: sum.split)
  next
    case (CMove i dest)
    have "stack_ok (snd (move_payload env it t d))" for it t
      using assms(1) by (simp add: stack_ok_def move_payload_frame)
    moreover have "stack_ok (snd (drop_item env is ix (snd (move_payload env it t d))))" if "ix < length is" for ix it t
      using drop_item_ok(2) [OF _ l(3) that assms(2), of "snd (move_payload env it t d)"] l(2)
      by (simp add: move_payload_frame)
    ultimately show ?thesis
      using assms(1) CMove index_of_Some [of _ "is"]
      by (auto simp: stack_move_to_def l(1) Let_def split: sum.split option.split prod.split) (metis snd_conv)+
  qed
qed


lemma stack_reach_ok: "stack_reach d \<Longrightarrow> stack_ok d"
proof (induction rule: stack_reach.induct)
  case (start files)
  then show ?case by (simp add: stack_ok_def stack_load_def stack_empty_def disk_inv_def content_ids_def capped_def pool_def)
next
  case (step d env cmd)
  then show ?case by (intro stack_exec_ok)
qed

lemma find_by_id:
  assumes "distinct (map it_id is)" "it \<in> set is"
  shows "find (\<lambda>x. it_id x = it_id it) is = Some it"
proof -
  obtain y where y: "find (\<lambda>x. it_id x = it_id it) is = Some y"
    using assms(2) find_None_iff [of "\<lambda>x. it_id x = it_id it" "is"] by (cases "find (\<lambda>x. it_id x = it_id it) is") auto
  then have "y \<in> set is" "it_id y = it_id it" by (auto simp: find_Some_iff)
  with assms y show ?thesis by (metis distinct_map inj_onD)
qed

lemma preview_by_id:
  assumes "stack_load d = Inr is" "disk_inv is d" "it \<in> set is" "it_path it = None"
  shows "\<exists>b. stack_preview (it_id it) d = Inr b"
proof -
  have "it_id it \<in> dom (blobs d)" using assms(2-4) by (auto simp: disk_inv_def content_ids_def)
  then obtain b where "blobs d (it_id it) = Some b" by blast
  moreover have "find (\<lambda>x. it_id x = it_id it) is = Some it"
    using assms(2,3) by (intro find_by_id) (simp_all add: disk_inv_def)
  ultimately show ?thesis using assms(1,4) by (simp add: stack_preview_def stack_find_def read_payload_def)
qed

section \<open>Properties\<close>


text \<open>
  The cap removes as few items as it must and only from its own pool, keeps the order of the
  rest, and never removes an item that is strictly newer than one it keeps.
\<close>

theorem enforce_cap_keeps_newest:
  assumes "enforce_cap kind cap is d = (ids, is1, d1)"
  shows "length (pool kind is1) = min cap (length (pool kind is)) \<and>
    (\<forall>k. k \<noteq> kind \<longrightarrow> pool k is1 = pool k is) \<and>
    (\<exists>E. is1 = nths is (- E) \<and> set ids = (\<lambda>i. it_id (is ! i)) ` E \<and>
       (\<forall>e \<in> E. e < length is \<and> it_kind (is ! e) = kind) \<and>
       (\<forall>e \<in> E. \<forall>s < length is. s \<notin> E \<longrightarrow> it_kind (is ! s) = kind \<longrightarrow> created_at (is ! e) \<le> created_at (is ! s)))"
proof -
  have e: "ids = evicted_ids kind cap is" "is1 = survivors kind cap is"
    using assms by (auto simp: enforce_cap_eq)
  show ?thesis
  proof (intro conjI exI [of _ "set (evict kind cap is)"])
    show "length (pool kind is1) = min cap (length (pool kind is))" by (simp add: e survivors_pool)
    show "\<forall>k. k \<noteq> kind \<longrightarrow> pool k is1 = pool k is" by (simp add: e survivors_other)
    show "is1 = nths is (- set (evict kind cap is))" by (simp add: e survivors_def)
    show "set ids = (\<lambda>i. it_id (is ! i)) ` set (evict kind cap is)" by (simp add: e evicted_ids_def)
    show "\<forall>e \<in> set (evict kind cap is). e < length is \<and> it_kind (is ! e) = kind" using evict_facts(2) by blast
    show "\<forall>e \<in> set (evict kind cap is). \<forall>s < length is. s \<notin> set (evict kind cap is) \<longrightarrow> it_kind (is ! s) = kind \<longrightarrow>
        created_at (is ! e) \<le> created_at (is ! s)"
      using evict_facts(4) by blast
  qed
qed


lemma newest_index_snoc:
  assumes "it_kind it = kind" "\<forall>x \<in> set (pool kind is). created_at x \<le> created_at it"
    "\<forall>b. best = Some b \<longrightarrow> fst b \<le> created_at it"
  shows "newest_index kind n (is @ [it]) best = Some (created_at it, n + length is)"
  using assms(2,3)
proof (induction "is" arbitrary: n best)
  case Nil
  with assms(1) show ?case by (cases best) auto
next
  case (Cons x "is")
  then show ?case using Cons.IH [of _ "Suc n"] by (auto simp: pool_def)
qed

lemma evict_within: "length (pool kind is) \<le> cap \<Longrightarrow> evict kind cap is = []"
  using evict_facts(3) [of kind cap "is"] by (simp add: length_pool)

lemma enforce_cap_within: "length (pool kind is) \<le> cap \<Longrightarrow> enforce_cap kind cap is d = ([], is, d)"
  by (simp add: enforce_cap_def length_pool)

lemma pool_snoc: "pool k (is @ [it]) = pool k is @ (if it_kind it = k then [it] else [])"
  by (simp add: pool_def)

definition cap_of :: "StackKind \<Rightarrow> nat" where
  "cap_of k = (case k of KindApp \<Rightarrow> MAX_APP_DEFAULT | KindUser \<Rightarrow> MAX_USER_DEFAULT)"

lemma push_result:
  assumes "stack_load d = Inr is" "disk_inv is d" "refuses env IoSave = None" "new_id env \<notin> it_id ` set is"
    "Kind_parse kind_str = Inr kind" "stack_push env arg kind_str name dry d = (Inr (Pushed i), d1)"
  shows "\<exists>it d0 ids is2 d2. i = new_id env \<and> it_id it = i \<and> it_kind it = kind \<and> created_at it = now env \<and>
    disk_inv (is @ [it]) d0 \<and> check_caps MAX_APP_DEFAULT MAX_USER_DEFAULT (is @ [it]) d0 = (ids, is2, d2) \<and>
    d1 = d2\<lparr>items_json := ItemsParsed is2\<rparr>"
proof -
  obtain r d0 where n: "new_item env arg kind name dry d = (r, d0)" by fastforce
  obtain it where it: "r = Inr (Some it)"
    using assms(5,6) n by (auto simp: stack_push_def split: sum.splits option.splits)
  have f: "disk_inv (is @ [it]) d0" "stack_load d0 = Inr is" "it_id it = new_id env" "it_kind it = kind"
      "created_at it = now env"
    using new_item_inv [OF assms(2,1,4) n] it by auto
  obtain ids is2 d2 where c: "check_caps MAX_APP_DEFAULT MAX_USER_DEFAULT (is @ [it]) d0 = (ids, is2, d2)"
    by (metis prod.collapse)
  have "i = it_id it" "d1 = d2\<lparr>items_json := ItemsParsed is2\<rparr>"
    using assms(6) by (auto simp: stack_push_def assms(5) n it f c stack_save_ok assms(3))
  with f c show ?thesis by blast
qed

text \<open>
  Pushing to a pool that has room and popping it again returns the id that was pushed and
  leaves the list as it was, as long as the clock has not gone back.
\<close>

theorem push_then_pop:
  assumes "stack_reach d" "stack_load d = Inr is" "refuses env IoSave = None" "new_id env \<notin> it_id ` set is"
    "Kind_parse kind_str = Inr kind" "length (pool kind is) < cap_of kind"
    "\<forall>x \<in> set (pool kind is). created_at x \<le> now env"
    "stack_push env arg kind_str name dry d = (Inr (Pushed i), d1)" "refuses env' IoSave = None"
  shows "\<exists>d2. stack_pop env' kind_str None d1 = (Inr i, d2) \<and> stack_load d2 = Inr is"
proof -
  have inv: "disk_inv is d" "capped is" using stack_reach_ok [OF assms(1)] assms(2) by (auto simp: stack_ok_def)
  from push_result [OF assms(2) inv(1) assms(3-5,8)] obtain it d0 ids is2 d2 where
    it: "i = new_id env" "it_id it = i" "it_kind it = kind" "created_at it = now env" "disk_inv (is @ [it]) d0"
      "check_caps MAX_APP_DEFAULT MAX_USER_DEFAULT (is @ [it]) d0 = (ids, is2, d2)" "d1 = d2\<lparr>items_json := ItemsParsed is2\<rparr>"
    by blast
  have cap: "capped (is @ [it])"
    using inv(2) assms(6) it(3) by (cases kind) (auto simp: capped_def pool_snoc cap_of_def)
  then have "is2 = is @ [it]" "d2 = d0"
    using it(6) by (auto simp: check_caps_def enforce_cap_within capped_def)
  then have d1: "d1 = d0\<lparr>items_json := ItemsParsed (is @ [it])\<rparr>" using it(7) by simp
  have "newest_index kind 0 (is @ [it]) None = Some (now env, length is)"
    using newest_index_snoc [of it kind "is" None 0] it assms(7) by simp
  moreover have "disk_inv (is @ [it]) d1" using it(5) by (simp add: d1 disk_inv_def)
  note drop = drop_item_ok(1) [OF this cap _ assms(9), of "length is"]
  moreover have "filter (\<lambda>x. it_id x \<noteq> i) is = is"
    using assms(4) it(1) by (force simp: filter_id_conv)
  ultimately show ?thesis
    using it(2) by (simp add: stack_pop_def assms(5) d1 stack_load_def)
qed

text \<open>
  Within one second the cap works against the push: when the pool is full of items that are
  no older than the clock reading, the item just pushed is the one evicted. The command still
  reports its id, but the list is as before and the payload is gone.
\<close>

lemma evict_new_item:
  assumes "it_kind it = kind" "length (pool kind is) = cap" "\<forall>x \<in> set (pool kind is). created_at it \<le> created_at x"
  shows "evict kind cap (is @ [it]) = [length is]"
proof -
  have p: "pool_indices kind (is @ [it]) = pool_indices kind is @ [(created_at it, length is)]"
    using assms(1) by (simp add: pool_indices_def enumerate_append_eq)
  have "newest_first (pool_indices kind (is @ [it])) = newest_first (pool_indices kind is) @ [(created_at it, length is)]"
    unfolding p newest_first_def
  proof (rule sort_key_snoc)
    fix y
    assume "y \<in> set (pool_indices kind is)"
    then obtain j where "j < length is" "it_kind (is ! j) = kind" "fst y = created_at (is ! j)"
      by (auto simp: pool_indices_set)
    then have "created_at it \<le> fst y" using assms(3) by (auto simp: pool_def)
    then show "- uint (fst y) \<le> - uint (fst (created_at it, length is))" by (simp add: word_le_def)
  qed
  moreover have "length (newest_first (pool_indices kind is)) = cap"
    using assms(2) by (simp add: newest_first_def length_pool)
  ultimately show ?thesis by (simp add: evict_def)
qed

lemma enforce_cap_new_item:
  assumes "it_kind it = kind" "length (pool kind is) = cap" "\<forall>x \<in> set (pool kind is). created_at it \<le> created_at x"
  shows "enforce_cap kind cap (is @ [it]) d = ([it_id it], is, delete_blobs (it_id it) d)"
proof -
  have "nths (is @ [it]) (- {length is}) = nths is (- {length is})" by (simp add: nths_append nths_singleton)
  moreover have "nths is (- {length is}) = nths is UNIV" by (rule nths_below) simp
  ultimately show ?thesis
    by (simp add: enforce_cap_eq evicted_ids_def survivors_def evict_new_item [OF assms] nths_all nth_append)
qed

theorem burst_push_evicts_new_item:
  assumes "stack_reach d" "stack_load d = Inr is" "refuses env IoSave = None" "new_id env \<notin> it_id ` set is"
    "Kind_parse kind_str = Inr kind" "length (pool kind is) = cap_of kind"
    "\<forall>x \<in> set (pool kind is). now env \<le> created_at x"
    "stack_push env arg kind_str name dry d = (Inr (Pushed i), d1)"
  shows "stack_load d1 = Inr is \<and> stack_preview i d1 = Inl (NotFound i) \<and> blobs d1 i = None"
proof -
  have inv: "disk_inv is d" "capped is" using stack_reach_ok [OF assms(1)] assms(2) by (auto simp: stack_ok_def)
  from push_result [OF assms(2) inv(1) assms(3-5,8)] obtain it d0 ids is2 d2 where
    it: "i = new_id env" "it_id it = i" "it_kind it = kind" "created_at it = now env" "disk_inv (is @ [it]) d0"
      "check_caps MAX_APP_DEFAULT MAX_USER_DEFAULT (is @ [it]) d0 = (ids, is2, d2)" "d1 = d2\<lparr>items_json := ItemsParsed is2\<rparr>"
    by blast
  have full: "enforce_cap kind (cap_of kind) (is @ [it]) d0 = ([i], is, delete_blobs i d0)"
    using enforce_cap_new_item [of it kind "is" "cap_of kind" d0] it assms(6,7) by simp
  have "is2 = is \<and> d2 = delete_blobs i d0"
    using it(6,3) inv(2) full
    by (cases kind) (auto simp: check_caps_def cap_of_def enforce_cap_within capped_def pool_snoc)
  moreover have "find (\<lambda>x. it_id x = i) is = None" using assms(4) it(1) by (force simp: find_None_iff)
  ultimately show ?thesis by (simp add: it(7) stack_load_def stack_preview_def stack_find_def)
qed

text \<open>
  The payload is deleted before the list is saved, so when saving fails after a pop the item
  is still listed and its payload is lost.
\<close>

theorem failed_save_loses_payload:
  assumes "stack_reach d" "stack_load d = Inr is" "index_of (\<lambda>it. it_id it = i) is = Some ix" "it_path (is ! ix) = None"
    "refuses env IoSave = Some e" "Kind_parse kind_str = Inr kind"
  shows "fst (stack_pop env kind_str (Some i) d) = Inl (StackIo e) \<and>
    stack_load (snd (stack_pop env kind_str (Some i) d)) = Inr is \<and>
    (\<exists>b. stack_preview i d = Inr b) \<and> stack_preview i (snd (stack_pop env kind_str (Some i) d)) = Inl (StackIo i)"
proof -
  have inv: "disk_inv is d" using stack_reach_ok [OF assms(1)] assms(2) by (auto simp: stack_ok_def)
  have ix: "ix < length is" "it_id (is ! ix) = i" using index_of_Some [OF assms(3)] by auto
  have pop: "stack_pop env kind_str (Some i) d = (Inl (StackIo e), delete_blobs i d)"
    by (simp add: stack_pop_def assms(2,3,5,6) drop_item_def ix stack_save_def guard_io_def)
  have "find (\<lambda>x. it_id x = i) is = Some (is ! ix)"
    using find_by_id [of "is" "is ! ix"] inv ix by (simp add: disk_inv_def)
  moreover have "stack_load (delete_blobs i d) = Inr is" using assms(2) by (simp add: stack_load_def)
  ultimately show ?thesis
    using preview_by_id [OF assms(2) inv, of "is ! ix"] assms(4) ix
    by (simp add: pop stack_preview_def stack_find_def read_payload_def)
qed


section \<open>A full pool\<close>

text \<open>Pushes of one byte within the same second, the clock ticking in nanoseconds.\<close>

definition demo_env :: "nat \<Rightarrow> stack_env" where
  "demo_env n = \<lparr>nanos = of_nat n, pid = 0, now = 1700000000, refuses = Map.empty,
     canonicalize = (\<lambda>_. None), alphanumeric = (\<lambda>_. True)\<rparr>"

definition demo_item :: "nat \<Rightarrow> Item" where
  "demo_item n = \<lparr>it_id = new_id (demo_env n), it_kind = KindUser, it_path = None, it_name = ''n'',
     created_at = 1700000000, content_kind = (if utf8_valid [65] then ''text'' else ''binary''), it_size = 1\<rparr>"

fun demo_disk :: "nat \<Rightarrow> stack_disk" where
  "demo_disk 0 = stack_empty Map.empty"
| "demo_disk (Suc n) = stack_exec (demo_env n) (CPush (Stdin [65]) ''user'' (Some ''n'') False) (demo_disk n)"

lemma demo_ids: "distinct (map (\<lambda>n. new_id (demo_env n)) [0..<9])"
  by code_simp

lemma demo_fresh: "n < 9 \<Longrightarrow> new_id (demo_env n) \<notin> it_id ` set (map demo_item [0..<n])"
proof
  assume n: "n < 9" and "new_id (demo_env n) \<in> it_id ` set (map demo_item [0..<n])"
  then obtain m where m: "m < n" "new_id (demo_env n) = new_id (demo_env m)" by (auto simp: demo_item_def)
  have "inj_on (\<lambda>n. new_id (demo_env n)) {0..<9}" using demo_ids by (simp add: distinct_map del: upt_rec_numeral)
  with n m show False by (auto dest!: inj_onD)
qed

lemma demo_env_simps [simp]:
  "refuses (demo_env n) i = None" "now (demo_env n) = 1700000000"
  by (simp_all add: demo_env_def)

lemma demo_pool:
  "pool KindUser (map demo_item ns) = map demo_item ns" "pool KindApp (map demo_item ns) = []"
  by (induction ns) (auto simp: pool_def demo_item_def)

lemma demo_new_item:
  "new_item (demo_env n) (Stdin [65]) KindUser (Some ''n'') False d =
     (Inr (Some (demo_item n)), d\<lparr>blobs := (blobs d)(new_id (demo_env n) \<mapsto> [65])\<rparr>)"
  by (simp add: new_item_def push_content_def guard_io_def demo_item_def)

lemma demo_item_id [simp]: "it_id (demo_item n) = new_id (demo_env n)"
  by (simp add: demo_item_def)

lemma demo_push:
  assumes "stack_load d = Inr (map demo_item [0..<n])" "n < 8"
  shows "stack_push (demo_env n) (Stdin [65]) ''user'' (Some ''n'') False d = (Inr (Pushed (new_id (demo_env n))),
    d\<lparr>blobs := (blobs d)(new_id (demo_env n) \<mapsto> [65]), items_json := ItemsParsed (map demo_item [0..<Suc n])\<rparr>)"
proof -
  let ?d = "d\<lparr>blobs := (blobs d)(new_id (demo_env n) \<mapsto> [65])\<rparr>" and ?is = "map demo_item [0..<n] @ [demo_item n]"
  have p: "length (pool KindApp ?is) \<le> MAX_APP_DEFAULT" "length (pool KindUser ?is) \<le> MAX_USER_DEFAULT"
    using demo_pool [of "[0..<Suc n]"] assms(2) by (simp_all add: MAX_APP_DEFAULT_def MAX_USER_DEFAULT_def)
  have "stack_load ?d = Inr (map demo_item [0..<n])" using assms(1) by (simp add: stack_load_def)
  then show ?thesis
    by (simp add: stack_push_def Kind_parse_def demo_new_item check_caps_def enforce_cap_within p stack_save_def
        guard_io_def)
qed

lemma demo_load: "n \<le> 8 \<Longrightarrow> stack_load (demo_disk n) = Inr (map demo_item [0..<n])"
proof (induction n)
  case (Suc n)
  then show ?case using demo_push [of "demo_disk n" n] by (simp add: stack_load_def)
qed (simp add: stack_load_def stack_empty_def)

lemma demo_reach: "n \<le> 8 \<Longrightarrow> stack_reach (demo_disk n)"
proof (induction n)
  case (Suc n)
  have "stack_reach (stack_exec (demo_env n) (CPush (Stdin [65]) ''user'' (Some ''n'') False) (demo_disk n))"
  proof (rule stack_reach.step)
    show "stack_reach (demo_disk n)" "refuses (demo_env n) IoSave = None" using Suc by simp_all
    show "new_id (demo_env n) \<notin> it_id ` set is" if "stack_load (demo_disk n) = Inr is" for "is"
      using that demo_load [of n] demo_fresh [of n] Suc.prems by simp
  qed
  then show ?case by simp
qed (simp add: stack_reach.start)


theorem enforce_cap_keeps_newest_witness:
  "\<exists>ids is1 d1. enforce_cap KindUser 1 (map demo_item [0, 1]) (demo_disk 2) = (ids, is1, d1) \<and> length (pool KindUser is1) = 1"
proof -
  obtain ids is1 d1 where e: "enforce_cap KindUser 1 (map demo_item [0, 1]) (demo_disk 2) = (ids, is1, d1)"
    by (metis prod.collapse)
  from enforce_cap_keeps_newest [OF this] have "length (pool KindUser is1) = min 1 (length (pool KindUser (map demo_item [0, 1])))" by blast
  with e show ?thesis unfolding demo_pool by auto
qed

theorem push_then_pop_witness:
  "\<exists>d1 d2. stack_push (demo_env 0) (Stdin [65]) ''user'' (Some ''n'') False (demo_disk 0) = (Inr (Pushed (new_id (demo_env 0))), d1) \<and>
     stack_pop (demo_env 1) ''user'' None d1 = (Inr (new_id (demo_env 0)), d2) \<and> stack_load d2 = Inr []"
proof -
  obtain d1 where p: "stack_push (demo_env 0) (Stdin [65]) ''user'' (Some ''n'') False (demo_disk 0) = (Inr (Pushed (new_id (demo_env 0))), d1)"
    using demo_push [of "demo_disk 0" 0] demo_load [of 0] by simp
  have "\<exists>d2. stack_pop (demo_env 1) ''user'' None d1 = (Inr (new_id (demo_env 0)), d2) \<and> stack_load d2 = Inr []"
    by (rule push_then_pop [where kind = KindUser, OF demo_reach [of 0] _ _ _ _ _ _ p])
      (use demo_load [of 0] in \<open>simp_all add: Kind_parse_def pool_def cap_of_def MAX_USER_DEFAULT_def\<close>)
  with p show ?thesis by blast
qed

theorem burst_push_evicts_new_item_witness:
  "\<exists>d1. stack_push (demo_env 8) (Stdin [65]) ''user'' (Some ''n'') False (demo_disk 8) = (Inr (Pushed (new_id (demo_env 8))), d1) \<and>
     stack_load d1 = Inr (map demo_item [0..<8]) \<and> stack_preview (new_id (demo_env 8)) d1 = Inl (NotFound (new_id (demo_env 8)))"
proof -
  let ?d = "(demo_disk 8)\<lparr>blobs := (blobs (demo_disk 8))(new_id (demo_env 8) \<mapsto> [65])\<rparr>"
  obtain ids is2 d2 where c:
    "check_caps MAX_APP_DEFAULT MAX_USER_DEFAULT (map demo_item [0..<8] @ [demo_item 8]) ?d = (ids, is2, d2)"
    by (metis prod.collapse)
  have "stack_load ?d = Inr (map demo_item [0..<8])" using demo_load [of 8] by (simp add: stack_load_def del: demo_disk.simps upt_rec_numeral)
  then obtain d1 where p: "stack_push (demo_env 8) (Stdin [65]) ''user'' (Some ''n'') False (demo_disk 8) = (Inr (Pushed (new_id (demo_env 8))), d1)"
    using c by (simp add: stack_push_def Kind_parse_def demo_new_item stack_save_def guard_io_def
        del: demo_disk.simps upt_rec_numeral)
  have "length (pool KindUser (map demo_item [0..<8])) = cap_of KindUser"
    unfolding demo_pool by (simp add: cap_of_def MAX_USER_DEFAULT_def)
  moreover have "\<forall>x \<in> set (pool KindUser (map demo_item [0..<8])). now (demo_env 8) \<le> created_at x"
    unfolding demo_pool by (simp add: demo_item_def)
  ultimately have "stack_load d1 = Inr (map demo_item [0..<8]) \<and>
      stack_preview (new_id (demo_env 8)) d1 = Inl (NotFound (new_id (demo_env 8))) \<and> blobs d1 (new_id (demo_env 8)) = None"
    using burst_push_evicts_new_item [OF demo_reach [of 8] demo_load [of 8] _ demo_fresh [of 8] _ _ _ p, of KindUser]
    by (simp add: Kind_parse_def del: demo_disk.simps upt_rec_numeral)
  with p show ?thesis by blast
qed

theorem failed_save_loses_payload_witness:
  "\<exists>d1. stack_pop ((demo_env 1)\<lparr>refuses := (\<lambda>_. Some ''disk full'')\<rparr>) ''user'' (Some (new_id (demo_env 0))) (demo_disk 1) =
       (Inl (StackIo ''disk full''), d1) \<and> stack_load d1 = Inr [demo_item 0] \<and>
     stack_preview (new_id (demo_env 0)) d1 = Inl (StackIo (new_id (demo_env 0)))"
proof -
  let ?env = "(demo_env 1)\<lparr>refuses := (\<lambda>_. Some ''disk full'')\<rparr>" and ?i = "new_id (demo_env 0)"
  obtain r d1 where p: "stack_pop ?env ''user'' (Some ?i) (demo_disk 1) = (r, d1)" by fastforce
  have "fst (stack_pop ?env ''user'' (Some ?i) (demo_disk 1)) = Inl (StackIo ''disk full'') \<and>
      stack_load (snd (stack_pop ?env ''user'' (Some ?i) (demo_disk 1))) = Inr [demo_item 0] \<and>
      (\<exists>b. stack_preview ?i (demo_disk 1) = Inr b) \<and>
      stack_preview ?i (snd (stack_pop ?env ''user'' (Some ?i) (demo_disk 1))) = Inl (StackIo ?i)"
    by (rule failed_save_loses_payload [where ix = 0 and kind = KindUser, OF demo_reach [of 1]])
      (use demo_load [of 1] in \<open>simp_all add: demo_item_def Kind_parse_def del: demo_disk.simps\<close>)
  then show ?thesis unfolding p by auto
qed

end
