(* ===== verification/Chunker.thy ===== *)
theory Chunker
  imports Text
begin

text \<open>
  The chunker of the knowledge plane (\<open>chunk.rs\<close>) and the generic pipeline built on it
  (\<open>pipeline/generic.rs\<close>, \<open>pipeline/mod.rs\<close>): a text is split at white space, over-long tokens
  are cut, and overlapping windows of tokens become chunks with stable point ids. A text is a
  list of Unicode scalar values. The hash of a point id is a parameter.
\<close>

type_synonym uchar = u32

section \<open>Splitting at white space\<close>

definition ws_points :: "uchar list" where
  "ws_points = [9, 10, 11, 12, 13, 32, 0x85, 0xA0, 0x1680, 0x2000, 0x2001, 0x2002, 0x2003, 0x2004, 0x2005,
     0x2006, 0x2007, 0x2008, 0x2009, 0x200A, 0x2028, 0x2029, 0x202F, 0x205F, 0x3000]"

definition is_whitespace :: "uchar \<Rightarrow> bool" where
  "is_whitespace c \<longleftrightarrow> c \<in> set ws_points"

fun split_ws :: "uchar list \<Rightarrow> uchar list list" where
  "split_ws [] = [[]]"
| "split_ws (c # cs) =
     (if is_whitespace c then [] # split_ws cs
      else (case split_ws cs of [] \<Rightarrow> [[c]] | t # ts \<Rightarrow> (c # t) # ts))"

definition split_whitespace :: "uchar list \<Rightarrow> uchar list list" where
  "split_whitespace s = filter (\<lambda>t. t \<noteq> []) (split_ws s)"

section \<open>Windows\<close>

definition OVERLAP_TOKENS :: nat where "OVERLAP_TOKENS = 64"

definition MAX_CHUNK_CHARS :: nat where "MAX_CHUNK_CHARS = 1800"

record Chunk =
  ck_index :: u32
  ck_text :: "uchar list"

function cut_token :: "uchar list \<Rightarrow> uchar list list" where
  "cut_token rest =
     (if MAX_CHUNK_CHARS < length rest then take MAX_CHUNK_CHARS rest # cut_token (drop MAX_CHUNK_CHARS rest)
      else if rest \<noteq> [] then [rest] else [])"
  by pat_completeness auto
termination
  by (relation "measure length") (auto simp: MAX_CHUNK_CHARS_def)

declare cut_token.simps [simp del]

definition split_oversized :: "uchar list \<Rightarrow> uchar list list" where
  "split_oversized token = (if length token \<le> MAX_CHUNK_CHARS then [token] else cut_token token)"

definition pieces_of :: "uchar list \<Rightarrow> uchar list list" where
  "pieces_of t = concat (map split_oversized (split_whitespace t))"

function grow :: "nat \<Rightarrow> uchar list list \<Rightarrow> nat \<Rightarrow> nat \<Rightarrow> nat \<Rightarrow> nat" where
  "grow chunk_tokens ps s e chars =
     (if e < length ps \<and> e - s < chunk_tokens then
        (let add = length (ps ! e) + (if s < e then 1 else 0) in
         if s < e \<and> MAX_CHUNK_CHARS < chars + add then e
         else grow chunk_tokens ps s (Suc e) (chars + add))
      else e)"
  by pat_completeness auto
termination
  by (relation "measure (\<lambda>(ct, ps, s, e, chars). length ps - e)") auto

declare grow.simps [simp del]

fun join_space :: "uchar list list \<Rightarrow> uchar list" where
  "join_space [] = []"
| "join_space [p] = p"
| "join_space (p # q # ps) = p @ 32 # join_space (q # ps)"

definition window_end :: "nat \<Rightarrow> uchar list list \<Rightarrow> nat \<Rightarrow> nat" where
  "window_end chunk_tokens ps s = grow chunk_tokens ps s s 0"

function chunk_walk :: "nat \<Rightarrow> uchar list list \<Rightarrow> nat \<Rightarrow> u32 \<Rightarrow> Chunk list" where
  "chunk_walk chunk_tokens ps s idx =
     (if s < length ps then
        (let e = window_end chunk_tokens ps s in
         \<lparr>ck_index = idx, ck_text = join_space (take (e - s) (drop s ps))\<rparr> #
         (if e = length ps then []
          else chunk_walk chunk_tokens ps (s + max (saturating_sub (e - s) OVERLAP_TOKENS) 1) (idx + 1)))
      else [])"
  by pat_completeness auto
termination
  by (relation "measure (\<lambda>(ct, ps, s, idx). length ps - s)") auto

declare chunk_walk.simps [simp del]

definition chunk_sized :: "uchar list \<Rightarrow> nat \<Rightarrow> Chunk list" where
  "chunk_sized t chunk_tokens =
     (let n = max chunk_tokens 1; ps = pieces_of t in if ps = [] then [] else chunk_walk n ps 0 0)"

section \<open>Point ids and records\<close>

definition point_key :: "string \<Rightarrow> u32 \<Rightarrow> string" where
  "point_key file_path chunk_index = file_path @ ''::'' @ nat_str (unat chunk_index)"

text \<open>\<open>blake3_hex\<close> stands for the hash in lower-case hexadecimal digits.\<close>

definition point_id :: "(byte list \<Rightarrow> string) \<Rightarrow> string \<Rightarrow> u32 \<Rightarrow> string" where
  "point_id blake3_hex file_path chunk_index =
     (let s = take 32 (blake3_hex (bytes_of (point_key file_path chunk_index))) in
      slice_at 0 8 s @ ''-'' @ slice_at 8 4 s @ ''-'' @ slice_at 12 4 s @ ''-'' @ slice_at 16 4 s @ ''-'' @ slice_at 20 12 s)"

record RecordPayload =
  rp_chunk_index :: u32
  rp_date :: "string option"
  rp_from :: "string option"
  rp_message_id :: "int option"
  rp_reply_to_id :: "int option"
  rp_has_media :: "bool option"
  rp_model :: "string option"
  rp_project_id :: "string option"
  rp_kind :: "string option"
  rp_file_path :: "string option"

record Record =
  rec_text :: "uchar list"
  rec_payload :: RecordPayload
  chunk_id :: string

definition RecordPayload_default :: RecordPayload where
  "RecordPayload_default = \<lparr>rp_chunk_index = 0, rp_date = None, rp_from = None, rp_message_id = None,
     rp_reply_to_id = None, rp_has_media = None, rp_model = None, rp_project_id = None, rp_kind = None,
     rp_file_path = None\<rparr>"

definition GENERIC_CHUNK_TOKENS :: nat where "GENERIC_CHUNK_TOKENS = 640"

definition generic_records :: "(byte list \<Rightarrow> string) \<Rightarrow> string \<Rightarrow> uchar list \<Rightarrow> Record list" where
  "generic_records blake3_hex key t =
     map (\<lambda>c. \<lparr>rec_text = ck_text c, rec_payload = RecordPayload_default\<lparr>rp_chunk_index := ck_index c\<rparr>,
            chunk_id = point_id blake3_hex key (ck_index c)\<rparr>)
       (chunk_sized t GENERIC_CHUNK_TOKENS)"

section \<open>Pieces\<close>

definition solid_text :: "uchar list \<Rightarrow> uchar list" where
  "solid_text = filter (\<lambda>c. \<not> is_whitespace c)"

definition piece_ok :: "uchar list \<Rightarrow> bool" where
  "piece_ok p \<longleftrightarrow> p \<noteq> [] \<and> length p \<le> MAX_CHUNK_CHARS \<and> (\<forall>c \<in> set p. \<not> is_whitespace c)"

lemma is_whitespace_space [simp]: "is_whitespace 32"
  by (simp add: is_whitespace_def ws_points_def)

lemma concat_split_ws: "concat (split_ws t) = solid_text t"
  by (induction t) (auto simp: solid_text_def split: list.splits)

lemma split_ws_all_solid: "\<forall>p \<in> set (split_ws t). \<forall>c \<in> set p. \<not> is_whitespace c"
  by (induction t) (auto split: list.splits)

lemma split_ws_solid: "p \<in> set (split_ws t) \<Longrightarrow> c \<in> set p \<Longrightarrow> \<not> is_whitespace c"
  using split_ws_all_solid by blast

lemma concat_split_whitespace: "concat (split_whitespace t) = solid_text t"
proof -
  have "concat (filter (\<lambda>t. t \<noteq> []) xs) = concat xs" for xs :: "uchar list list" by (induction xs) auto
  then show ?thesis by (simp add: split_whitespace_def concat_split_ws)
qed

lemma concat_cut_token: "concat (cut_token p) = p"
  by (induction p rule: cut_token.induct) (subst cut_token.simps, simp)

lemma cut_token_bound: "q \<in> set (cut_token p) \<Longrightarrow> q \<noteq> [] \<and> length q \<le> MAX_CHUNK_CHARS"
  by (induction p rule: cut_token.induct, subst (asm) (2) cut_token.simps)
    (auto simp: MAX_CHUNK_CHARS_def split: if_splits)

lemma set_cut_token: "q \<in> set (cut_token p) \<Longrightarrow> set q \<subseteq> set p"
  using concat_cut_token [of p] by (metis UN_upper set_concat)

lemma concat_pieces: "concat (pieces_of t) = solid_text t"
proof -
  have "concat (split_oversized p) = p" for p by (simp add: split_oversized_def concat_cut_token)
  then have "concat (concat (map split_oversized ts)) = concat ts" for ts by (induction ts) auto
  then show ?thesis by (simp add: pieces_of_def concat_split_whitespace)
qed

lemma pieces_ok: "p \<in> set (pieces_of t) \<Longrightarrow> piece_ok p"
  by (auto simp: pieces_of_def split_oversized_def split_whitespace_def piece_ok_def
      dest: cut_token_bound set_cut_token split_ws_solid split: if_splits)


section \<open>Windows stay within the limits\<close>

definition joined_length :: "uchar list list \<Rightarrow> nat" where
  "joined_length ps = length (join_space ps)"

lemma join_space_snoc: "ps \<noteq> [] \<Longrightarrow> join_space (ps @ [p]) = join_space ps @ 32 # p"
  by (induction ps rule: join_space.induct) auto

lemma solid_join: "\<forall>p \<in> set ps. piece_ok p \<Longrightarrow> solid_text (join_space ps) = concat ps"
  by (induction ps rule: join_space.induct) (auto simp: solid_text_def piece_ok_def filter_id_conv)

lemma take_drop_Suc: "s \<le> e \<Longrightarrow> e < length ps \<Longrightarrow> take (Suc e - s) (drop s ps) = take (e - s) (drop s ps) @ [ps ! e]"
  by (simp add: Suc_diff_le take_Suc_conv_app_nth)

lemma grow_bounds:
  assumes "s \<le> e" "e \<le> length ps" "e - s \<le> n" "chars = joined_length (take (e - s) (drop s ps))"
    "Suc s < e \<Longrightarrow> chars \<le> MAX_CHUNK_CHARS"
  shows "e \<le> grow n ps s e chars \<and> grow n ps s e chars \<le> length ps \<and> grow n ps s e chars - s \<le> n \<and>
    (Suc s < grow n ps s e chars \<longrightarrow>
       joined_length (take (grow n ps s e chars - s) (drop s ps)) \<le> MAX_CHUNK_CHARS)"
  using assms
proof (induction n ps s e chars rule: grow.induct)
  case (1 n ps s e chars)
  let ?add = "length (ps ! e) + (if s < e then 1 else 0)"
  show ?case
  proof (cases "e < length ps \<and> e - s < n \<and> \<not> (s < e \<and> MAX_CHUNK_CHARS < chars + ?add)")
    case False
    then have "grow n ps s e chars = e" by (subst grow.simps) (auto simp: Let_def)
    with 1 show ?thesis by auto
  next
    case True
    have "joined_length (take (Suc e - s) (drop s ps)) = chars + ?add"
    proof (cases "s < e")
      case se: True
      then have "take (e - s) (drop s ps) \<noteq> []" using True by auto
      with se True 1(2,5) show ?thesis by (simp add: take_drop_Suc joined_length_def join_space_snoc)
    next
      case se: False
      with 1(2) have "e = s" by simp
      with True 1(5) show ?thesis by (simp add: take_Suc_conv_app_nth joined_length_def)
    qed
    note joined = this
    have step: "grow n ps s e chars = grow n ps s (Suc e) (chars + ?add)"
      using True by (subst grow.simps) (auto simp: Let_def)
    have "Suc e \<le> grow n ps s (Suc e) (chars + ?add) \<and> grow n ps s (Suc e) (chars + ?add) \<le> length ps \<and>
        grow n ps s (Suc e) (chars + ?add) - s \<le> n \<and> (Suc s < grow n ps s (Suc e) (chars + ?add) \<longrightarrow>
        joined_length (take (grow n ps s (Suc e) (chars + ?add) - s) (drop s ps)) \<le> MAX_CHUNK_CHARS)"
      by (rule 1(1)) (use True 1(2) joined in auto)
    then show ?thesis unfolding step by simp
  qed
qed

lemma window_end_bounds:
  assumes "s < length ps" "0 < n" "\<forall>p \<in> set ps. piece_ok p"
  shows "s < window_end n ps s" "window_end n ps s \<le> length ps" "window_end n ps s - s \<le> n"
    "joined_length (take (window_end n ps s - s) (drop s ps)) \<le> MAX_CHUNK_CHARS"
proof -
  have "window_end n ps s = grow n ps s (Suc s) (length (ps ! s))"
    using assms(1,2) by (simp add: window_end_def grow.simps [of n ps s s])
  moreover have one: "take (Suc s - s) (drop s ps) = [ps ! s]"
    using assms(1) by (simp add: take_Suc_conv_app_nth)
  ultimately have b: "Suc s \<le> window_end n ps s" "window_end n ps s \<le> length ps" "window_end n ps s - s \<le> n"
      "Suc s < window_end n ps s \<longrightarrow> joined_length (take (window_end n ps s - s) (drop s ps)) \<le> MAX_CHUNK_CHARS"
    using grow_bounds [of s "Suc s" ps n "length (ps ! s)"] assms(1,2) by (auto simp: joined_length_def)
  then show "s < window_end n ps s" "window_end n ps s \<le> length ps" "window_end n ps s - s \<le> n" by simp_all
  show "joined_length (take (window_end n ps s - s) (drop s ps)) \<le> MAX_CHUNK_CHARS"
  proof (cases "Suc s < window_end n ps s")
    case False
    with b(1) have "window_end n ps s = Suc s" by simp
    then show ?thesis using one assms(1,3) by (auto simp: joined_length_def piece_ok_def)
  qed (use b in simp)
qed

lemma split_ws_space: "split_ws (a @ 32 # b) = split_ws a @ split_ws b"
proof (induction a)
  case (Cons c a)
  have "split_ws a \<noteq> []" by (induction a) (auto split: list.splits)
  with Cons show ?case by (auto split: list.splits)
qed simp

lemma split_ws_word: "\<forall>c \<in> set p. \<not> is_whitespace c \<Longrightarrow> split_ws p = [p]"
  by (induction p) auto

lemma tokens_of_join: "\<forall>p \<in> set ps. piece_ok p \<Longrightarrow> split_whitespace (join_space ps) = ps"
  by (induction ps rule: join_space.induct)
    (auto simp: split_whitespace_def split_ws_space split_ws_word piece_ok_def)

section \<open>The walk\<close>

lemma max_step: "s < e \<Longrightarrow> s < s + max (e - s - OVERLAP_TOKENS) 1 \<and> s + max (e - s - OVERLAP_TOKENS) 1 \<le> e"
  by auto

lemma chunk_walk_step:
  "s < length ps \<Longrightarrow> chunk_walk n ps s idx =
     \<lparr>ck_index = idx, ck_text = join_space (take (window_end n ps s - s) (drop s ps))\<rparr> #
     (if window_end n ps s = length ps then []
      else chunk_walk n ps (s + max (window_end n ps s - s - OVERLAP_TOKENS) 1) (idx + 1))"
  by (subst chunk_walk.simps) (simp add: Let_def)

lemma walk_chunks:
  assumes "0 < n" "\<forall>p \<in> set ps. piece_ok p" "c \<in> set (chunk_walk n ps s idx)"
  shows "\<exists>i e. i < e \<and> e \<le> length ps \<and> e - i \<le> n \<and> ck_text c = join_space (take (e - i) (drop i ps)) \<and>
    length (ck_text c) \<le> MAX_CHUNK_CHARS"
  using assms
proof (induction n ps s idx rule: chunk_walk.induct)
  case (1 n ps s idx)
  show ?case
  proof (cases "s < length ps")
    case True
    note w = window_end_bounds [OF True "1.prems"(1,2)]
    show ?thesis
    proof (cases "c = \<lparr>ck_index = idx, ck_text = join_space (take (window_end n ps s - s) (drop s ps))\<rparr>")
      case c: True
      show ?thesis
        by (rule exI [of _ s], rule exI [of _ "window_end n ps s"]) (use c w in \<open>simp add: joined_length_def\<close>)
    next
      case False
      then show ?thesis
        using 1(1) [OF True refl] "1.prems" by (auto simp: chunk_walk_step [OF True] split: if_splits)
    qed
  qed (use 1(4) in \<open>simp add: chunk_walk.simps [of n ps s]\<close>)
qed


lemma walk_cover:
  assumes "0 < n" "\<forall>p \<in> set ps. piece_ok p" "s < length ps" "s \<le> m" "m \<le> length ps"
  shows "\<exists>ks. length ks = length (chunk_walk n ps s idx) \<and>
    concat (map2 drop ks (map (solid_text \<circ> ck_text) (chunk_walk n ps s idx))) = concat (drop m ps)"
  using assms
proof (induction n ps s idx arbitrary: m rule: chunk_walk.induct)
  case (1 n ps s idx)
  let ?e = "window_end n ps s" and ?m = "max m (window_end n ps s)"
  note w = window_end_bounds [OF 1(4,2,3)]
  have solid: "solid_text (join_space (take (?e - s) (drop s ps))) = concat (take (?e - s) (drop s ps))"
    using 1(3) by (intro solid_join) (auto dest!: in_set_takeD in_set_dropD)
  obtain k where k: "drop k (concat (take (?e - s) (drop s ps))) @ concat (drop ?m ps) = concat (drop m ps)"
  proof (cases "?e \<le> m")
    case True
    show ?thesis by (rule that [of "length (concat (take (?e - s) (drop s ps)))"]) (use True in simp)
  next
    case False
    have w2: "take (?e - s) (drop s ps) = take (m - s) (drop s ps) @ take (?e - m) (drop m ps)"
      using False 1(5) take_add [of "m - s" "?e - m" "drop s ps"] by simp
    have "concat (take (?e - m) (drop m ps)) @ concat (drop ?e ps) = concat (drop m ps)"
    proof -
      have "take (?e - m) (drop m ps) @ drop ?e ps = drop m ps"
        using False append_take_drop_id [of "?e - m" "drop m ps"] by simp
      then show ?thesis by (metis concat_append)
    qed
    then have "drop (length (concat (take (m - s) (drop s ps)))) (concat (take (?e - s) (drop s ps))) @
        concat (drop ?m ps) = concat (drop m ps)"
      using False unfolding w2 by (simp add: max_def)
    then show ?thesis by (rule that)
  qed
  show ?case
  proof (cases "?e = length ps")
    case True
    show ?thesis
      by (rule exI [of _ "[k]"]) (use k True 1(6) solid in \<open>simp add: chunk_walk_step [OF 1(4)]\<close>)
  next
    case False
    let ?s' = "s + max (?e - s - OVERLAP_TOKENS) 1"
    have s': "?s' \<le> ?e" "?s' < length ps" using max_step [OF w(1)] w(2) False by auto
    have "\<exists>ks. length ks = length (chunk_walk n ps ?s' (idx + 1)) \<and>
        concat (map2 drop ks (map (solid_text \<circ> ck_text) (chunk_walk n ps ?s' (idx + 1)))) = concat (drop ?m ps)"
      using 1(1) [OF 1(4) refl False 1(2,3), of ?m] s' 1(6) w(2) by (simp add: le_max_iff_disj comp_def)
    then obtain ks where
      ks: "length ks = length (chunk_walk n ps ?s' (idx + 1))"
        "concat (map2 drop ks (map (solid_text \<circ> ck_text) (chunk_walk n ps ?s' (idx + 1)))) = concat (drop ?m ps)"
      by blast
    show ?thesis
      by (rule exI [of _ "k # ks"]) (use k ks False in \<open>simp add: chunk_walk_step [OF 1(4)] solid comp_def\<close>)
  qed
qed

lemma walk_indices:
  "map ck_index (chunk_walk n ps s idx) = map (\<lambda>i. idx + of_nat i) [0..<length (chunk_walk n ps s idx)]"
proof (induction n ps s idx rule: chunk_walk.induct)
  case (1 n ps s idx)
  show ?case
  proof (cases "s < length ps \<and> window_end n ps s \<noteq> length ps")
    case True
    let ?r = "chunk_walk n ps (s + max (window_end n ps s - s - OVERLAP_TOKENS) 1) (idx + 1)"
    have "map (\<lambda>i. idx + of_nat i) [0..<Suc (length ?r)] = idx # map (\<lambda>i. idx + 1 + of_nat i) [0..<length ?r]"
      by (simp add: upt_conv_Cons map_Suc_upt [symmetric] comp_def algebra_simps del: upt_Suc map_Suc_upt)
    with True 1 show ?thesis by (simp add: chunk_walk_step del: upt_Suc)
  next
    case False
    then show ?thesis by (cases "s < length ps") (auto simp: chunk_walk_step chunk_walk.simps [of n ps s])
  qed
qed

lemma walk_length: "length (chunk_walk n ps s idx) \<le> length ps - s"
proof (induction n ps s idx rule: chunk_walk.induct)
  case (1 n ps s idx)
  show ?case
  proof (cases "s < length ps \<and> window_end n ps s \<noteq> length ps")
    case True
    with 1 show ?thesis by (force simp: chunk_walk_step)
  next
    case False
    then show ?thesis by (cases "s < length ps") (auto simp: chunk_walk_step chunk_walk.simps [of n ps s])
  qed
qed

section \<open>Properties\<close>

text \<open>
  C19. Every chunk fits the embedder's window: it is not empty, has at most
  \<open>MAX_CHUNK_CHARS\<close> characters and at most the requested number of white-space tokens,
  whatever the text. There are at most as many chunks as characters that are not white space.
\<close>

theorem chunks_within_limits:
  "list_all (\<lambda>c. ck_text c \<noteq> [] \<and> length (ck_text c) \<le> MAX_CHUNK_CHARS \<and>
       length (split_whitespace (ck_text c)) \<le> max chunk_tokens 1) (chunk_sized t chunk_tokens) \<and>
   length (chunk_sized t chunk_tokens) \<le> length (solid_text t)"
proof
  let ?ps = "pieces_of t" and ?n = "max chunk_tokens 1"
  have ok: "\<forall>p \<in> set ?ps. piece_ok p" using pieces_ok by blast
  show "list_all (\<lambda>c. ck_text c \<noteq> [] \<and> length (ck_text c) \<le> MAX_CHUNK_CHARS \<and>
       length (split_whitespace (ck_text c)) \<le> max chunk_tokens 1) (chunk_sized t chunk_tokens)"
    unfolding list_all_iff
  proof
    fix c
    assume "c \<in> set (chunk_sized t chunk_tokens)"
    then have "c \<in> set (chunk_walk ?n ?ps 0 0)" by (auto simp: chunk_sized_def Let_def split: if_splits)
    with walk_chunks [OF _ ok] obtain i e where e: "i < e" "e \<le> length ?ps" "e - i \<le> ?n"
        "ck_text c = join_space (take (e - i) (drop i ?ps))" "length (ck_text c) \<le> MAX_CHUNK_CHARS"
      by (metis max.strict_coboundedI2 zero_less_one)
    let ?w = "take (e - i) (drop i ?ps)"
    have w: "\<forall>p \<in> set ?w. piece_ok p" using ok by (auto dest!: in_set_takeD in_set_dropD)
    moreover have "?w \<noteq> []" using e(1,2) by auto
    ultimately have "split_whitespace (ck_text c) = ?w" "?w \<noteq> []" using e(4) tokens_of_join by auto
    moreover from this have "ck_text c \<noteq> []" by (auto simp: split_whitespace_def)
    ultimately show "ck_text c \<noteq> [] \<and> length (ck_text c) \<le> MAX_CHUNK_CHARS \<and>
        length (split_whitespace (ck_text c)) \<le> ?n"
      using e by simp
  qed
  have "length ps \<le> length (concat ps)" if "\<forall>p \<in> set ps. piece_ok p" for ps
    using that
  proof (induction ps)
    case (Cons p ps)
    then have "Suc 0 \<le> length p" by (simp add: piece_ok_def Suc_le_eq)
    moreover have "length ps \<le> length (concat ps)" using Cons by simp
    ultimately show ?case by simp
  qed simp
  from this [OF ok] show "length (chunk_sized t chunk_tokens) \<le> length (solid_text t)"
    using walk_length [of ?n ?ps 0 0] by (auto simp: chunk_sized_def Let_def concat_pieces)
qed

text \<open>
  C20. Nothing is lost: cutting a prefix, the overlap, off every chunk and putting the chunks
  together gives the text without its white space, and the chunks are numbered from zero.
\<close>

theorem chunks_cover_text:
  "\<exists>ks. length ks = length (chunk_sized t chunk_tokens) \<and>
    concat (map2 drop ks (map (solid_text \<circ> ck_text) (chunk_sized t chunk_tokens))) = solid_text t \<and>
    map ck_index (chunk_sized t chunk_tokens) = map of_nat [0..<length (chunk_sized t chunk_tokens)]"
proof (cases "pieces_of t = []")
  case True
  then show ?thesis using concat_pieces [of t] by (simp add: chunk_sized_def)
next
  case False
  let ?w = "chunk_walk (max chunk_tokens 1) (pieces_of t) 0 0"
  have "chunk_sized t chunk_tokens = ?w" using False by (simp add: chunk_sized_def)
  moreover obtain ks where "length ks = length ?w"
      "concat (map2 drop ks (map (solid_text \<circ> ck_text) ?w)) = concat (drop 0 (pieces_of t))"
    using walk_cover [of "max chunk_tokens 1" "pieces_of t" 0 0 0] pieces_ok False by (auto simp: less_max_iff_disj)
  ultimately show ?thesis
    using walk_indices [of "max chunk_tokens 1" "pieces_of t" 0 0] concat_pieces [of t] by auto
qed

section \<open>Ids determine files\<close>

lemma nat_str_no_colon: "CHR '':'' \<notin> set (nat_str n)"
proof
  assume "CHR '':'' \<in> set (nat_str n)"
  then obtain d where d: "d \<in> set (dec_digits n)" "char_of (48 + d) = CHR '':''" by (auto simp: nat_str_def)
  then have "d < 10" "of_char (char_of (48 + d) :: char) = (58 :: nat)" using dec_digits_less by auto
  then show False by (simp add: of_char_of take_bit_nat_eq_self)
qed

lemma append_unique_tail:
  "c \<notin> set u \<Longrightarrow> c \<notin> set v \<Longrightarrow> p @ c # u = q @ c # v \<Longrightarrow> p = q \<and> u = v"
  by (induction p arbitrary: q) (auto simp: Cons_eq_append_conv append_eq_Cons_conv)

lemma point_key_inj: "point_key f i = point_key g j \<longleftrightarrow> f = g \<and> i = j"
proof
  assume "point_key f i = point_key g j"
  then have "(f @ [CHR '':'']) @ CHR '':'' # nat_str (unat i) = (g @ [CHR '':'']) @ CHR '':'' # nat_str (unat j)"
    by (simp add: point_key_def)
  from append_unique_tail [OF nat_str_no_colon nat_str_no_colon this] show "f = g \<and> i = j"
    by (simp add: inj_nat_str word_unat_eq_iff)
qed simp

text \<open>No two of the keys in use have the same first 128 bits of the hash.\<close>

definition no_collision :: "(byte list \<Rightarrow> string) \<Rightarrow> string set \<Rightarrow> bool" where
  "no_collision blake3_hex keys \<longleftrightarrow> inj_on (\<lambda>k. take 32 (blake3_hex (bytes_of k))) keys \<and>
     (\<forall>k \<in> keys. 32 \<le> length (blake3_hex (bytes_of k)))"

lemma point_id_inj:
  assumes "no_collision h keys" "point_key f i \<in> keys" "point_key g j \<in> keys" "point_id h f i = point_id h g j"
  shows "f = g \<and> i = j"
proof -
  let ?s = "take 32 (h (bytes_of (point_key f i)))" and ?t = "take 32 (h (bytes_of (point_key g j)))"
  have l: "length ?s = 32" "length ?t = 32" using assms(1-3) by (auto simp: no_collision_def)
  have "slice_at 0 8 ?s = slice_at 0 8 ?t" "slice_at 8 4 ?s = slice_at 8 4 ?t" "slice_at 12 4 ?s = slice_at 12 4 ?t"
      "slice_at 16 4 ?s = slice_at 16 4 ?t" "slice_at 20 12 ?s = slice_at 20 12 ?t"
    using assms(4) l unfolding point_id_def Let_def by (auto simp: append_eq_append_conv)
  moreover have "xs = slice_at 0 8 xs @ slice_at 8 4 xs @ slice_at 12 4 xs @ slice_at 16 4 xs @ slice_at 20 12 xs"
    if "length xs = 32" for xs :: string
  proof -
    have "xs = take 8 xs @ take 4 (drop 8 xs) @ take 4 (drop 12 xs) @ take 4 (drop 16 xs) @ drop 20 xs"
      using append_take_drop_id [of 8 xs] append_take_drop_id [of 4 "drop 8 xs"]
        append_take_drop_id [of 4 "drop 12 xs"] append_take_drop_id [of 4 "drop 16 xs"] by simp
    with that show ?thesis by (simp add: slice_at_def)
  qed
  ultimately have "?s = ?t" using l by metis
  then show ?thesis using assms(1-3) by (auto simp: no_collision_def point_key_inj dest: inj_onD)
qed

end
