(* ===== verification/Knowledge_Index.thy ===== *)
theory Knowledge_Index
  imports Chunker Paths Core_Vocab "HOL-Library.AList"
begin

text \<open>
  The index pass of the knowledge plane (\<open>run_index\<close> and \<open>flush_batch\<close> of \<open>knowledge/cli.rs\<close>,
  \<open>knowledge/state.rs\<close>, the kinds of \<open>knowledge/sources.rs\<close>) and the two ways the daemon runs it
  (\<open>run_one_pass\<close>, \<open>run_full_resync\<close> and \<open>purge_index_subtree\<close> of \<open>knowledge/daemon.rs\<close>). The
  vector store is the parameter \<open>qdrant\<close>, text extraction, the embedder, the hashes and the
  chat and transcript pipelines are in \<open>index_env\<close>; the walker's output is part of a job.
  \<open>cancel_at\<close> says at which look at the cancel flag it is first seen set.
\<close>

section \<open>Kinds of sources\<close>

datatype SourceKind = Telegram | ClaudeTranscripts | AgentHistory | Email | Slack | Notes | Code | Generic

fun as_kebab :: "SourceKind \<Rightarrow> string" where
  "as_kebab Telegram = ''telegram''"
| "as_kebab ClaudeTranscripts = ''claude-transcripts''"
| "as_kebab AgentHistory = ''agent-history''"
| "as_kebab Email = ''email''"
| "as_kebab Slack = ''slack''"
| "as_kebab Notes = ''notes''"
| "as_kebab Code = ''code''"
| "as_kebab Generic = ''generic''"

definition AGENT_HOMES :: "string list" where
  "AGENT_HOMES = [''/.claude/'', ''/.codex/'', ''/.cursor/'', ''/.gemini/'', ''/.agents/'', ''/.antigravity/'', ''/.hermes/'']"

definition classify_kind :: "string \<Rightarrow> SourceKind" where
  "classify_kind path =
     (let lower = to_ascii_lowercase path in
      if contains_str ''.claude/projects'' lower then ClaudeTranscripts
      else if list_ex (\<lambda>home. contains_str home lower) AGENT_HOMES then AgentHistory
      else if contains_str ''telegram'' lower \<or> contains_str ''result.json'' lower \<or> contains_str ''chatexport'' lower
        then Telegram
      else Generic)"

definition effective_kind :: "string \<Rightarrow> SourceKind \<Rightarrow> SourceKind" where
  "effective_kind file_path job_kind =
     (case classify_kind file_path of Generic \<Rightarrow> job_kind | specific \<Rightarrow> specific)"

section \<open>The index\<close>

record FileEntry =
  fe_mtime :: u64
  content_hash :: string
  point_ids :: "string list"

record Index =
  ix_files :: "(string \<times> FileEntry) list"
  last_sync_unix :: u64
  chunk_schema_version :: u32

definition CHUNK_SCHEMA_VERSION :: u32 where "CHUNK_SCHEMA_VERSION = 1"

definition Index_default :: Index where
  "Index_default = \<lparr>ix_files = [], last_sync_unix = 0, chunk_schema_version = CHUNK_SCHEMA_VERSION\<rparr>"

definition resync_required :: "Index \<Rightarrow> string option" where
  "resync_required idx =
     (if chunk_schema_version idx = CHUNK_SCHEMA_VERSION then None
      else Some (''index was built under chunk-schema v'' @ nat_str (unat (chunk_schema_version idx))))"

datatype index_file = IndexMissing | IndexBlank | IndexBroken string | IndexParsed Index

definition index_load :: "index_file \<Rightarrow> string + Index" where
  "index_load f = (case f of
      IndexMissing \<Rightarrow> Inr Index_default
    | IndexBlank \<Rightarrow> Inr Index_default
    | IndexBroken e \<Rightarrow> Inl e
    | IndexParsed idx \<Rightarrow> Inr idx)"

section \<open>Jobs, records and points\<close>

datatype SkipReason = Binary | TooLarge | Unsupported | PdfToTextMissing | PdfFailed string | ReadFailed string

datatype Extracted = Extracted_Text "uchar list" | Extracted_Skip SkipReason

datatype walk_entry = WalkErr | WalkEntry string bool

definition MANIFEST_FILENAME :: string where "MANIFEST_FILENAME = ''qdr.toml''"

record IndexJob =
  job_exists :: bool
  source_tag :: string
  job_kind :: SourceKind
  job_walk :: "walk_entry list"
  glob_filter :: "(string \<Rightarrow> bool) option"
  max_file_bytes :: u64
  job_tags :: "string list"

record SparseVector =
  sv_indices :: "u32 list"
  sv_values :: "f32 list"

record PointPayload =
  pp_source :: string
  pp_file_path :: string
  pp_chunk_index :: u32
  pp_chunk_text :: "uchar list"
  pp_file_mtime :: u64
  pp_content_hash :: string
  pp_tags :: "string list"
  pp_kind :: "string option"
  pp_record :: RecordPayload

record Point =
  pt_id :: string
  pt_vector :: "f32 list"
  pt_sparse :: SparseVector
  pt_payload :: PointPayload

record PendingFile =
  pf_key :: string
  pf_hash :: string
  pf_records :: "Record list"
  pf_source_tag :: string
  pf_tags :: "string list"
  pf_kind :: SourceKind

record IndexReport =
  scanned :: nat
  indexed :: nat
  skipped :: nat
  deleted :: nat
  chunks :: nat

definition IndexReport_default :: IndexReport where
  "IndexReport_default = \<lparr>scanned = 0, indexed = 0, skipped = 0, deleted = 0, chunks = 0\<rparr>"

record index_env =
  extract_with_limit :: "string \<Rightarrow> u64 \<Rightarrow> string + Extracted"
  hash_text :: "uchar list \<Rightarrow> string"
  blake3_hex :: "byte list \<Rightarrow> string"
  telegram_records :: "string \<Rightarrow> uchar list \<Rightarrow> Record list"
  transcript_records :: "string \<Rightarrow> uchar list \<Rightarrow> Record list"
  voice_records :: "string \<Rightarrow> uchar list \<Rightarrow> Record list"
  sparse_encode :: "uchar list \<Rightarrow> SparseVector"
  embed_batch :: "uchar list list \<Rightarrow> string + f32 list list"
  walk_mtime :: "string \<Rightarrow> u64"
  commit_mtime :: "string \<Rightarrow> u64"
  cancel_at :: "nat option"

record 'q qdrant =
  q_upsert :: "Point list \<Rightarrow> 'q \<Rightarrow> (string + unit) \<times> 'q"
  q_delete :: "string list \<Rightarrow> 'q \<Rightarrow> (string + unit) \<times> 'q"
  q_recreate :: "'q \<Rightarrow> (string + unit) \<times> 'q"

definition upsert :: "'q qdrant \<Rightarrow> Point list \<Rightarrow> 'q \<Rightarrow> (string + unit) \<times> 'q" where
  "upsert qd points q = (if points = [] then (Inr (), q) else q_upsert qd points q)"

definition delete_points :: "'q qdrant \<Rightarrow> string list \<Rightarrow> 'q \<Rightarrow> (string + unit) \<times> 'q" where
  "delete_points qd ids q = (if ids = [] then (Inr (), q) else q_delete qd ids q)"

definition cancelled :: "index_env \<Rightarrow> nat \<Rightarrow> bool" where
  "cancelled env looks = (case cancel_at env of None \<Rightarrow> False | Some k \<Rightarrow> k \<le> looks)"

definition select_records :: "index_env \<Rightarrow> SourceKind \<Rightarrow> string \<Rightarrow> uchar list \<Rightarrow> Record list" where
  "select_records env kind key t = (case kind of
      Telegram \<Rightarrow> telegram_records env key t
    | ClaudeTranscripts \<Rightarrow> transcript_records env key t
    | _ \<Rightarrow> generic_records (blake3_hex env) key t)"

definition file_records :: "index_env \<Rightarrow> SourceKind \<Rightarrow> string \<Rightarrow> uchar list \<Rightarrow> Record list" where
  "file_records env kind key t =
     select_records env kind key t @ (if kind = Telegram then voice_records env key t else [])"

definition build_point :: "index_env \<Rightarrow> string \<Rightarrow> f32 list \<Rightarrow> Record \<Rightarrow> PendingFile \<Rightarrow> Point" where
  "build_point env i vector r item =
     \<lparr>pt_id = i, pt_vector = vector, pt_sparse = sparse_encode env (rec_text r),
      pt_payload =
        \<lparr>pp_source = pf_source_tag item,
         pp_file_path = (case rp_file_path (rec_payload r) of Some f \<Rightarrow> f | None \<Rightarrow> pf_key item),
         pp_chunk_index = rp_chunk_index (rec_payload r), pp_chunk_text = rec_text r,
         pp_file_mtime = commit_mtime env (pf_key item), pp_content_hash = pf_hash item, pp_tags = pf_tags item,
         pp_kind = Some (case rp_kind (rec_payload r) of Some k \<Rightarrow> k | None \<Rightarrow> as_kebab (pf_kind item)),
         pp_record = rec_payload r\<rparr>\<rparr>"

section \<open>Scanning\<close>

record 'q scan_state =
  sc_files :: "(string \<times> FileEntry) list"
  sc_q :: 'q
  sc_report :: IndexReport
  sc_seen :: "string list"
  sc_pending :: "PendingFile list"
  sc_looks :: nat

datatype outcome = Go | Stop | Fail string

text \<open>One file the walker gives, past the checks that pass over it without a trace.\<close>

definition scan_file :: "index_env \<Rightarrow> 'q qdrant \<Rightarrow> bool \<Rightarrow> IndexJob \<Rightarrow> string \<Rightarrow> 'q scan_state \<Rightarrow> outcome \<times> 'q scan_state" where
  "scan_file env qd full job p st0 =
     (let st = st0\<lparr>sc_report := (sc_report st0)\<lparr>scanned := Suc (scanned (sc_report st0))\<rparr>, sc_seen := p # sc_seen st0\<rparr>;
          mtime = walk_mtime env p;
          skip = st\<lparr>sc_report := (sc_report st)\<lparr>skipped := Suc (skipped (sc_report st))\<rparr>\<rparr> in
      if \<not> full \<and> (case map_of (sc_files st) p of Some e \<Rightarrow> fe_mtime e = mtime | None \<Rightarrow> False) then (Go, st)
      else case extract_with_limit env p (max_file_bytes job) of
        Inl e \<Rightarrow> (Fail e, st)
      | Inr (Extracted_Skip _) \<Rightarrow> (Go, skip)
      | Inr (Extracted_Text t) \<Rightarrow>
          let hash = hash_text env t; kind = effective_kind p (job_kind job); rs = file_records env kind p t;
              item = \<lparr>pf_key = p, pf_hash = hash, pf_records = rs, pf_source_tag = source_tag job, pf_tags = job_tags job, pf_kind = kind\<rparr> in
          if \<not> full \<and> (case map_of (sc_files st) p of Some e \<Rightarrow> content_hash e = hash \<and> fe_mtime e = mtime | None \<Rightarrow> False)
            then (Go, st)
          else if rs = [] then (Go, skip)
          else case (if full then None else map_of (sc_files st) p) of
            None \<Rightarrow> (Go, st\<lparr>sc_pending := sc_pending st @ [item]\<rparr>)
          | Some e \<Rightarrow>
              let st1 = st\<lparr>sc_files := AList.delete p (sc_files st)\<rparr> in
              case delete_points qd (point_ids e) (sc_q st1) of
                (Inl err, q1) \<Rightarrow> (Fail err, st1\<lparr>sc_q := q1\<rparr>)
              | (Inr _, q1) \<Rightarrow> (Go, st1\<lparr>sc_q := q1, sc_pending := sc_pending st1 @ [item]\<rparr>))"

fun scan_entries :: "index_env \<Rightarrow> 'q qdrant \<Rightarrow> bool \<Rightarrow> IndexJob \<Rightarrow> walk_entry list \<Rightarrow> 'q scan_state \<Rightarrow> outcome \<times> 'q scan_state" where
  "scan_entries env qd full job [] st = (Go, st)"
| "scan_entries env qd full job (d # ds) st0 =
     (let st = st0\<lparr>sc_looks := Suc (sc_looks st0)\<rparr> in
      if cancelled env (sc_looks st0) then (Stop, st)
      else case d of
        WalkErr \<Rightarrow> scan_entries env qd full job ds st
      | WalkEntry p is_file \<Rightarrow>
          if \<not> is_file \<or> path_file_name p = Some MANIFEST_FILENAME \<or>
             (case glob_filter job of None \<Rightarrow> False | Some f \<Rightarrow> \<not> f p)
          then scan_entries env qd full job ds st
          else (case scan_file env qd full job p st of
              (Go, st1) \<Rightarrow> scan_entries env qd full job ds st1 | r \<Rightarrow> r))"

fun scan_jobs :: "index_env \<Rightarrow> 'q qdrant \<Rightarrow> bool \<Rightarrow> IndexJob list \<Rightarrow> 'q scan_state \<Rightarrow> outcome \<times> 'q scan_state" where
  "scan_jobs env qd full [] st = (Go, st)"
| "scan_jobs env qd full (job # jobs) st =
     (if \<not> job_exists job then scan_jobs env qd full jobs st
      else (case scan_entries env qd full job (job_walk job) st of
          (Go, st1) \<Rightarrow> scan_jobs env qd full jobs st1 | r \<Rightarrow> r))"

section \<open>Embedding in batches\<close>

definition UPSERT_BATCH :: nat where "UPSERT_BATCH = 64"

record 'q embed_state =
  em_batch :: "(nat \<times> nat) list"
  em_ids :: "string list list"
  em_q :: 'q
  em_report :: IndexReport
  em_looks :: nat

definition rec_at :: "PendingFile list \<Rightarrow> nat \<times> nat \<Rightarrow> Record" where
  "rec_at pending m = pf_records (pending ! fst m) ! snd m"

definition note_ids :: "PendingFile list \<Rightarrow> (nat \<times> nat) list \<Rightarrow> string list list \<Rightarrow> string list list" where
  "note_ids pending meta ids =
     fold (\<lambda>m ids. ids[fst m := ids ! fst m @ [chunk_id (rec_at pending m)]]) meta ids"

definition batch_points :: "index_env \<Rightarrow> PendingFile list \<Rightarrow> (nat \<times> nat) list \<Rightarrow> f32 list list \<Rightarrow> Point list" where
  "batch_points env pending meta vectors =
     map2 (\<lambda>m v. build_point env (chunk_id (rec_at pending m)) v (rec_at pending m) (pending ! fst m)) meta vectors"

definition flush_batch :: "index_env \<Rightarrow> 'q qdrant \<Rightarrow> PendingFile list \<Rightarrow> 'q embed_state \<Rightarrow> (string + unit) \<times> 'q embed_state" where
  "flush_batch env qd pending st0 =
     (if em_batch st0 = [] then (Inr (), st0)
      else let st = st0\<lparr>em_looks := Suc (em_looks st0)\<rparr> in
        if cancelled env (em_looks st0) then (Inr (), st\<lparr>em_batch := []\<rparr>)
        else case embed_batch env (map (\<lambda>m. rec_text (rec_at pending m)) (em_batch st)) of
          Inl e \<Rightarrow> (Inl e, st)
        | Inr vectors \<Rightarrow>
            if length (em_batch st) < length vectors then (Inl ''index out of bounds'', st)
            else let meta = take (length vectors) (em_batch st);
                     st1 = st\<lparr>em_ids := note_ids pending meta (em_ids st),
                       em_report := (em_report st)\<lparr>chunks := chunks (em_report st) + length vectors\<rparr>\<rparr> in
              case upsert qd (batch_points env pending meta vectors) (em_q st1) of
                (Inl e, q1) \<Rightarrow> (Inl e, st1\<lparr>em_q := q1\<rparr>)
              | (Inr _, q1) \<Rightarrow> (Inr (), st1\<lparr>em_q := q1, em_batch := []\<rparr>))"

fun embed_records :: "index_env \<Rightarrow> 'q qdrant \<Rightarrow> PendingFile list \<Rightarrow> (nat \<times> nat) list \<Rightarrow> 'q embed_state \<Rightarrow> outcome \<times> 'q embed_state" where
  "embed_records env qd pending [] st = (Go, st)"
| "embed_records env qd pending (m # ms) st0 =
     (let st = st0\<lparr>em_batch := em_batch st0 @ [m]\<rparr> in
      if UPSERT_BATCH \<le> length (em_batch st) then
        (case flush_batch env qd pending st of
           (Inl e, st1) \<Rightarrow> (Fail e, st1)
         | (Inr _, st1) \<Rightarrow>
             let st2 = st1\<lparr>em_looks := Suc (em_looks st1)\<rparr> in
             if cancelled env (em_looks st1) then (Stop, st2) else embed_records env qd pending ms st2)
      else embed_records env qd pending ms st)"

fun embed_files :: "index_env \<Rightarrow> 'q qdrant \<Rightarrow> PendingFile list \<Rightarrow> nat list \<Rightarrow> 'q embed_state \<Rightarrow> outcome \<times> 'q embed_state" where
  "embed_files env qd pending [] st = (Go, st)"
| "embed_files env qd pending (fi # fis) st0 =
     (let st = st0\<lparr>em_looks := Suc (em_looks st0)\<rparr> in
      if cancelled env (em_looks st0) then (Stop, st)
      else case embed_records env qd pending (map (Pair fi) [0..<length (pf_records (pending ! fi))]) st of
        (Go, st1) \<Rightarrow> embed_files env qd pending fis st1 | r \<Rightarrow> r)"

section \<open>Committing and cleaning up\<close>

fun commit_files :: "index_env \<Rightarrow> (PendingFile \<times> string list) list \<Rightarrow> (string \<times> FileEntry) list \<Rightarrow> IndexReport \<Rightarrow>
    (string \<times> FileEntry) list \<times> IndexReport" where
  "commit_files env [] files rep = (files, rep)"
| "commit_files env ((item, ids) # rest) files rep =
     (if ids = [] then commit_files env rest files rep
      else commit_files env rest
        (AList.update (pf_key item)
          \<lparr>fe_mtime = commit_mtime env (pf_key item), content_hash = pf_hash item, point_ids = ids\<rparr> files)
        (rep\<lparr>indexed := Suc (indexed rep)\<rparr>))"

fun drop_stale :: "'q qdrant \<Rightarrow> string list \<Rightarrow> (string \<times> FileEntry) list \<Rightarrow> 'q \<Rightarrow> IndexReport \<Rightarrow>
    (string \<times> FileEntry) list \<times> 'q \<times> IndexReport" where
  "drop_stale qd [] files q rep = (files, q, rep)"
| "drop_stale qd (k # ks) files q rep =
     (case map_of files k of
        None \<Rightarrow> drop_stale qd ks files q rep
      | Some e \<Rightarrow>
          drop_stale qd ks (AList.delete k files) (snd (delete_points qd (point_ids e) q))
            (rep\<lparr>deleted := Suc (deleted rep)\<rparr>))"

definition run_index ::
  "index_env \<Rightarrow> 'q qdrant \<Rightarrow> string + IndexJob list \<Rightarrow> bool \<Rightarrow> bool \<Rightarrow> Index \<Rightarrow> 'q \<Rightarrow> (string + IndexReport) \<times> Index \<times> 'q" where
  "run_index env qd collect_jobs only_source full_resync idx0 q0 =
     (if resync_required idx0 \<noteq> None \<and> \<not> full_resync then (Inl (the (resync_required idx0)), idx0, q0)
      else let idx = (if full_resync then idx0\<lparr>chunk_schema_version := CHUNK_SCHEMA_VERSION\<rparr> else idx0) in
      case collect_jobs of
        Inl e \<Rightarrow> (Inl e, idx, q0)
      | Inr jobs \<Rightarrow>
          if jobs = [] then (Inr IndexReport_default, idx, q0)
          else let (out, st) = scan_jobs env qd full_resync jobs
                 \<lparr>sc_files = ix_files idx, sc_q = q0, sc_report = IndexReport_default, sc_seen = [], sc_pending = [], sc_looks = 0\<rparr> in
          case out of
            Fail e \<Rightarrow> (Inl e, idx\<lparr>ix_files := sc_files st\<rparr>, sc_q st)
          | _ \<Rightarrow>
            let (out2, em) = embed_files env qd (sc_pending st) [0..<length (sc_pending st)]
                  \<lparr>em_batch = [], em_ids = replicate (length (sc_pending st)) [], em_q = sc_q st, em_report = sc_report st, em_looks = sc_looks st\<rparr> in
            case out2 of
              Fail e \<Rightarrow> (Inl e, idx\<lparr>ix_files := sc_files st\<rparr>, em_q em)
            | _ \<Rightarrow>
              case flush_batch env qd (sc_pending st) em of
                (Inl e, em1) \<Rightarrow> (Inl e, idx\<lparr>ix_files := sc_files st\<rparr>, em_q em1)
              | (Inr _, em1) \<Rightarrow>
                let (files, rep) = commit_files env (zip (sc_pending st) (em_ids em1)) (sc_files st) (em_report em1) in
                if \<not> only_source \<and> \<not> cancelled env (em_looks em1) then
                  let (files1, q1, rep1) = drop_stale qd (filter (\<lambda>k. k \<notin> set (sc_seen st)) (map fst files)) files (em_q em1) rep
                  in (Inr rep1, idx\<lparr>ix_files := files1\<rparr>, q1)
                else (Inr rep, idx\<lparr>ix_files := files\<rparr>, em_q em1))"


section \<open>What the vector store is relied on for\<close>

fun put_points :: "Point list \<Rightarrow> (string \<rightharpoonup> Point) \<Rightarrow> (string \<rightharpoonup> Point)" where
  "put_points [] m = m"
| "put_points (p # ps) m = put_points ps (m(pt_id p \<mapsto> p))"

text \<open>\<open>pts q\<close> are the points that can be found in the store \<open>q\<close>.\<close>

definition qdrant_ok :: "'q qdrant \<Rightarrow> ('q \<Rightarrow> string \<rightharpoonup> Point) \<Rightarrow> bool" where
  "qdrant_ok qd pts \<longleftrightarrow>
     (\<forall>ps q q'. q_upsert qd ps q = (Inr (), q') \<longrightarrow> pts q' = put_points ps (pts q)) \<and>
     (\<forall>ids q q'. q_delete qd ids q = (Inr (), q') \<longrightarrow> pts q' = pts q |` (- set ids)) \<and>
     (\<forall>q q'. q_recreate qd q = (Inr (), q') \<longrightarrow> pts q' = Map.empty)"

definition deletes_succeed :: "'q qdrant \<Rightarrow> bool" where
  "deletes_succeed qd \<longleftrightarrow> (\<forall>ids q. fst (q_delete qd ids q) = Inr ())"

lemma upsert_pts: "qdrant_ok qd pts \<Longrightarrow> upsert qd ps q = (Inr (), q') \<Longrightarrow> pts q' = put_points ps (pts q)"
  by (auto simp: upsert_def qdrant_ok_def split: if_splits)

lemma delete_pts: "qdrant_ok qd pts \<Longrightarrow> delete_points qd ids q = (Inr (), q') \<Longrightarrow> pts q' = pts q |` (- set ids)"
  by (auto simp: delete_points_def qdrant_ok_def split: if_splits)

lemma delete_points_Inr: "deletes_succeed qd \<Longrightarrow> \<exists>q'. delete_points qd ids q = (Inr (), q')"
  unfolding delete_points_def deletes_succeed_def by (metis prod.collapse)

lemma put_points_other: "i \<notin> pt_id ` set ps \<Longrightarrow> put_points ps m i = m i"
  by (induction ps arbitrary: m) auto

lemma put_points_in: "i \<in> pt_id ` set ps \<Longrightarrow> \<exists>p \<in> set ps. pt_id p = i \<and> put_points ps m i = Some p"
proof (induction ps arbitrary: m)
  case (Cons p ps)
  show ?case
  proof (cases "i \<in> pt_id ` set ps")
    case True
    from Cons.IH [OF this] obtain r where "r \<in> set ps" "pt_id r = i" "put_points (p # ps) m i = Some r"
      unfolding put_points.simps by blast
    then show ?thesis by (intro bexI [of _ r]) simp_all
  next
    case False
    with Cons.prems put_points_other [of i ps "m(pt_id p \<mapsto> p)"] show ?thesis by auto
  qed
qed simp

lemma dom_put_points: "dom (put_points ps m) = dom m \<union> pt_id ` set ps"
proof -
  have "put_points ps m i = None \<longleftrightarrow> m i = None \<and> i \<notin> pt_id ` set ps" for i
    using put_points_other [of i ps m] put_points_in [of i ps m] by (cases "i \<in> pt_id ` set ps") auto
  then show ?thesis by (auto simp: dom_def)
qed

section \<open>The scan\<close>

definition walks :: "IndexJob \<Rightarrow> walk_entry \<Rightarrow> bool" where
  "walks job d \<longleftrightarrow> (case d of WalkErr \<Rightarrow> False
    | WalkEntry p is_file \<Rightarrow> is_file \<and> path_file_name p \<noteq> Some MANIFEST_FILENAME \<and>
        (case glob_filter job of None \<Rightarrow> True | Some f \<Rightarrow> f p))"

fun entry_path :: "walk_entry \<Rightarrow> string" where
  "entry_path WalkErr = []"
| "entry_path (WalkEntry p _) = p"

text \<open>The files a pass looks at, with their jobs, in order.\<close>

definition walked :: "IndexJob list \<Rightarrow> (IndexJob \<times> string) list" where
  "walked jobs = concat (map (\<lambda>job. map (\<lambda>d. (job, entry_path d)) (filter (walks job) (job_walk job))) (filter job_exists jobs))"

text \<open>What is to be embedded for a file, given the entry the index has for it.\<close>

definition plan :: "index_env \<Rightarrow> bool \<Rightarrow> FileEntry option \<Rightarrow> IndexJob \<times> string \<Rightarrow> PendingFile option" where
  "plan env full old = (\<lambda>(job, p).
     if \<not> full \<and> (\<exists>e. old = Some e \<and> fe_mtime e = walk_mtime env p) then None
     else case extract_with_limit env p (max_file_bytes job) of
       Inr (Extracted_Text t) \<Rightarrow>
         let kind = effective_kind p (job_kind job); rs = file_records env kind p t in
         if rs = [] then None
         else Some \<lparr>pf_key = p, pf_hash = hash_text env t, pf_records = rs, pf_source_tag = source_tag job,
                pf_tags = job_tags job, pf_kind = kind\<rparr>
     | _ \<Rightarrow> None)"

definition plans :: "index_env \<Rightarrow> bool \<Rightarrow> (string \<rightharpoonup> FileEntry) \<Rightarrow> (IndexJob \<times> string) list \<Rightarrow> PendingFile list" where
  "plans env full files ws = List.map_filter (\<lambda>w. plan env full (files (snd w)) w) ws"

lemma plan_key: "plan env full old w = Some item \<Longrightarrow> pf_key item = snd w \<and> pf_records item \<noteq> []"
  by (auto simp: plan_def Let_def split: prod.splits if_splits sum.splits Extracted.splits)

definition entry_ids :: "(string \<rightharpoonup> FileEntry) \<Rightarrow> string set \<Rightarrow> string set" where
  "entry_ids files ks = (\<Union>k \<in> ks. case files k of None \<Rightarrow> {} | Some e \<Rightarrow> set (point_ids e))"

text \<open>Where a scan stands after the files \<open>ws\<close>.\<close>

definition scan_inv ::
  "index_env \<Rightarrow> bool \<Rightarrow> ('q \<Rightarrow> string \<rightharpoonup> Point) \<Rightarrow> (string \<rightharpoonup> FileEntry) \<Rightarrow> 'q \<Rightarrow> (IndexJob \<times> string) list \<Rightarrow> 'q scan_state \<Rightarrow> bool" where
  "scan_inv env full pts files q ws st \<longleftrightarrow>
     (let ps = plans env full files ws; ks = (if full then {} else pf_key ` set ps) in
      set (sc_seen st) = snd ` set ws \<and> sc_pending st = ps \<and>
      map_of (sc_files st) = files |` (- ks) \<and> pts (sc_q st) = pts q |` (- entry_ids files ks))"

lemma plans_snoc:
  "plans env full files (ws @ [w]) = plans env full files ws @ (case plan env full (files (snd w)) w of None \<Rightarrow> [] | Some i \<Rightarrow> [i])"
  by (simp add: plans_def map_filter_def split: option.split)

lemma set_plans: "item \<in> set (plans env full files ws) \<longleftrightarrow> (\<exists>w \<in> set ws. plan env full (files (snd w)) w = Some item)"
  by (force simp: plans_def map_filter_def)

lemma plans_keys: "pf_key ` set (plans env full files ws) \<subseteq> snd ` set ws"
proof
  fix k
  assume "k \<in> pf_key ` set (plans env full files ws)"
  then obtain item w where "w \<in> set ws" "plan env full (files (snd w)) w = Some item" "k = pf_key item"
    by (auto simp: set_plans)
  then show "k \<in> snd ` set ws" using plan_key by fastforce
qed

lemma entry_ids_insert: "entry_ids files (insert k ks) = entry_ids files ks \<union> (case files k of None \<Rightarrow> {} | Some e \<Rightarrow> set (point_ids e))"
  by (auto simp: entry_ids_def)

lemma entry_ids_empty [simp]: "entry_ids files {} = {}"
  by (simp add: entry_ids_def)

lemma scan_file_inv:
  assumes "qdrant_ok qd pts" "scan_inv env full pts files q ws st" "p \<notin> snd ` set ws"
    "scan_file env qd full job p st = (out, st1)" "\<forall>e. out \<noteq> Fail e"
  shows "out = Go \<and> scan_inv env full pts files q (ws @ [(job, p)]) st1 \<and> sc_looks st1 = sc_looks st"
proof -
  have "p \<notin> pf_key ` set (plans env full files ws)" using assms(3) plans_keys by blast
  then have old: "map_of (sc_files st) p = files p"
    using assms(2) by (cases full) (simp_all add: scan_inv_def Let_def)
  show ?thesis
  proof (cases "plan env full (files p) (job, p)")
    case None
    have "out = Go \<and> sc_seen st1 = p # sc_seen st \<and> sc_pending st1 = sc_pending st \<and> sc_files st1 = sc_files st \<and>
        sc_q st1 = sc_q st \<and> sc_looks st1 = sc_looks st"
      using None assms(4,5)
      by (auto simp: scan_file_def plan_def old Let_def split: if_splits sum.splits Extracted.splits option.splits)
    with assms(2) None show ?thesis by (auto simp: scan_inv_def Let_def plans_snoc)
  next
    case (Some item)
    then obtain t where t: "extract_with_limit env p (max_file_bytes job) = Inr (Extracted_Text t)"
        "file_records env (effective_kind p (job_kind job)) p t \<noteq> []"
        "full \<or> \<not> (\<exists>e. files p = Some e \<and> fe_mtime e = walk_mtime env p)"
        "item = \<lparr>pf_key = p, pf_hash = hash_text env t, pf_records = file_records env (effective_kind p (job_kind job)) p t,
           pf_source_tag = source_tag job, pf_tags = job_tags job, pf_kind = effective_kind p (job_kind job)\<rparr>"
      by (auto simp: plan_def Let_def split: if_splits sum.splits Extracted.splits)
    show ?thesis
    proof (cases "if full then None else files p")
      case None
      then have "out = Go \<and> sc_seen st1 = p # sc_seen st \<and> sc_pending st1 = sc_pending st @ [item] \<and> sc_files st1 = sc_files st \<and>
          sc_q st1 = sc_q st \<and> sc_looks st1 = sc_looks st"
        using assms(4) t by (auto simp: scan_file_def old Let_def split: if_splits)
      with assms(2) Some None show ?thesis
        by (auto simp: scan_inv_def Let_def plans_snoc entry_ids_insert t(4) restrict_map_def fun_eq_iff split: if_splits)
    next
      case (Some e)
      then have e: "\<not> full" "files p = Some e" by (auto split: if_splits)
      obtain r q1 where d: "delete_points qd (point_ids e) (sc_q st) = (r, q1)" by fastforce
      with e assms(4,5) t have g: "out = Go \<and> r = Inr () \<and> sc_seen st1 = p # sc_seen st \<and> sc_pending st1 = sc_pending st @ [item] \<and>
          sc_files st1 = AList.delete p (sc_files st) \<and> sc_q st1 = q1 \<and> sc_looks st1 = sc_looks st"
        by (auto simp: scan_file_def old Let_def split: if_splits sum.splits)
      with delete_pts [OF assms(1)] d have "pts q1 = pts (sc_q st) |` (- set (point_ids e))" by simp
      with g assms(2) \<open>plan _ _ _ _ = Some item\<close> e show ?thesis
        by (auto simp: scan_inv_def Let_def plans_snoc entry_ids_insert t(4) restrict_map_def fun_eq_iff AList.delete_conv')
    qed
  qed
qed


lemma scan_inv_looks [simp]: "scan_inv env full pts files q ws (st\<lparr>sc_looks := n\<rparr>) = scan_inv env full pts files q ws st"
  by (simp add: scan_inv_def)

definition job_files :: "IndexJob \<Rightarrow> walk_entry list \<Rightarrow> (IndexJob \<times> string) list" where
  "job_files job ds = map (\<lambda>d. (job, entry_path d)) (filter (walks job) ds)"

lemma scan_entries_inv:
  assumes "qdrant_ok qd pts" "scan_inv env full pts files q ws st" "distinct (map snd (ws @ job_files job ds))"
    "scan_entries env qd full job ds st = (out, st1)" "\<forall>e. out \<noteq> Fail e"
  shows "\<exists>us vs. job_files job ds = us @ vs \<and> scan_inv env full pts files q (ws @ us) st1 \<and>
    (out = Go \<longrightarrow> vs = []) \<and> (cancel_at env = None \<longrightarrow> out = Go)"
  using assms(2-5)
proof (induction ds arbitrary: ws st)
  case Nil
  then show ?case by (simp add: job_files_def)
next
  case (Cons d ds)
  let ?st = "st\<lparr>sc_looks := Suc (sc_looks st)\<rparr>"
  show ?case
  proof (cases "cancelled env (sc_looks st)")
    case True
    with Cons.prems have "out = Stop" "st1 = ?st" by auto
    with Cons.prems True show ?thesis
      by (intro exI [of _ "[]"] exI [of _ "job_files job (d # ds)"]) (auto simp: cancelled_def)
  next
    case False
    show ?thesis
    proof (cases "walks job d")
      case no: False
      then have "scan_entries env qd full job (d # ds) st = scan_entries env qd full job ds ?st" "job_files job (d # ds) = job_files job ds"
        using False by (auto simp: Let_def walks_def job_files_def split: walk_entry.splits option.splits)
      with Cons.IH [of ws ?st] Cons.prems show ?thesis by simp
    next
      case yes: True
      then obtain p where d: "d = WalkEntry p True" by (cases d) (auto simp: walks_def)
      have jf: "job_files job (d # ds) = (job, p) # job_files job ds" using yes by (simp add: job_files_def d)
      obtain o1 s1 where f: "scan_file env qd full job p ?st = (o1, s1)" by fastforce
      have e: "scan_entries env qd full job (d # ds) st = (case o1 of Go \<Rightarrow> scan_entries env qd full job ds s1 | _ \<Rightarrow> (o1, s1))"
        using False yes by (cases o1) (simp_all add: d f walks_def Let_def split: option.splits)
      have "\<forall>e. o1 \<noteq> Fail e" using Cons.prems(3,4) e by (cases o1) auto
      with scan_file_inv [OF assms(1) _ _ f, of files q ws] Cons.prems(1,2) jf
      have s1: "o1 = Go" "scan_inv env full pts files q (ws @ [(job, p)]) s1" by auto
      have sc: "scan_entries env qd full job ds s1 = (out, st1)" using Cons.prems(3) e s1(1) by simp
      have di: "distinct (map snd ((ws @ [(job, p)]) @ job_files job ds))" using Cons.prems(2) jf by auto
      obtain us vs where
        "job_files job ds = us @ vs" "scan_inv env full pts files q ((ws @ [(job, p)]) @ us) st1"
        "out = Go \<longrightarrow> vs = []" "cancel_at env = None \<longrightarrow> out = Go"
        using Cons.IH [OF s1(2) di sc Cons.prems(4)] by (elim exE conjE)
      with jf show ?thesis by (intro exI [of _ "(job, p) # us"] exI [of _ vs]) simp
    qed
  qed
qed

lemma walked_Cons: "walked (job # jobs) = (if job_exists job then job_files job (job_walk job) else []) @ walked jobs"
  by (simp add: walked_def job_files_def)

lemma scan_jobs_inv:
  assumes "qdrant_ok qd pts" "scan_inv env full pts files q ws st" "distinct (map snd (ws @ walked jobs))"
    "scan_jobs env qd full jobs st = (out, st1)" "\<forall>e. out \<noteq> Fail e"
  shows "\<exists>us vs. walked jobs = us @ vs \<and> scan_inv env full pts files q (ws @ us) st1 \<and>
    (out = Go \<longrightarrow> vs = []) \<and> (cancel_at env = None \<longrightarrow> out = Go)"
  using assms(2-5)
proof (induction jobs arbitrary: ws st)
  case Nil
  then show ?case by (simp add: walked_def)
next
  case (Cons job jobs)
  show ?case
  proof (cases "job_exists job")
    case False
    with Cons show ?thesis by (simp add: walked_Cons)
  next
    case True
    let ?new = "job_files job (job_walk job)"
    obtain o1 s1 where f: "scan_entries env qd full job (job_walk job) st = (o1, s1)" by fastforce
    have e: "(out, st1) = (case o1 of Go \<Rightarrow> scan_jobs env qd full jobs s1 | _ \<Rightarrow> (o1, s1))"
      using Cons.prems(3) True f by (cases o1) auto
    have nf: "\<forall>e. o1 \<noteq> Fail e" using Cons.prems(4) e by (cases o1) auto
    have di: "distinct (map snd (ws @ ?new))" using Cons.prems(2) True by (auto simp: walked_Cons)
    obtain us vs where
      u: "?new = us @ vs" "scan_inv env full pts files q (ws @ us) s1" "o1 = Go \<longrightarrow> vs = []" "cancel_at env = None \<longrightarrow> o1 = Go"
      using scan_entries_inv [OF assms(1) Cons.prems(1) di f nf] by (elim exE conjE)
    show ?thesis
    proof (cases "o1 = Go")
      case False
      with e have "out = o1" "st1 = s1" by (cases o1; simp)+
      with u False True show ?thesis by (intro exI [of _ us] exI [of _ "vs @ walked jobs"]) (simp add: walked_Cons)
    next
      case go: True
      with u have new: "us = ?new" by simp
      have sc: "scan_jobs env qd full jobs s1 = (out, st1)" using e go by simp
      have inv: "scan_inv env full pts files q (ws @ ?new) s1" using u(2) new by simp
      have dj: "distinct (map snd ((ws @ ?new) @ walked jobs))" using Cons.prems(2) True by (auto simp: walked_Cons)
      obtain us' vs' where
        "walked jobs = us' @ vs'" "scan_inv env full pts files q ((ws @ ?new) @ us') st1"
        "out = Go \<longrightarrow> vs' = []" "cancel_at env = None \<longrightarrow> out = Go"
        using Cons.IH [OF inv dj sc Cons.prems(4)] by (elim exE conjE)
      with True show ?thesis by (intro exI [of _ "?new @ us'"] exI [of _ vs']) (simp add: walked_Cons)
    qed
  qed
qed

section \<open>Embedding\<close>

definition item_metas :: "PendingFile list \<Rightarrow> nat \<Rightarrow> (nat \<times> nat) list" where
  "item_metas pending fi = map (Pair fi) [0..<length (pf_records (pending ! fi))]"

definition meta_ok :: "PendingFile list \<Rightarrow> nat \<times> nat \<Rightarrow> bool" where
  "meta_ok pending m \<longleftrightarrow> fst m < length pending \<and> snd m < length (pf_records (pending ! fst m))"

definition stored :: "index_env \<Rightarrow> PendingFile list \<Rightarrow> (nat \<times> nat) list \<Rightarrow> (string \<rightharpoonup> Point) \<Rightarrow> (string \<rightharpoonup> Point) \<Rightarrow> bool" where
  "stored env pending ms m0 m \<longleftrightarrow>
     (\<forall>i. if i \<in> (\<lambda>x. chunk_id (rec_at pending x)) ` set ms
        then \<exists>x \<in> set ms. \<exists>v. chunk_id (rec_at pending x) = i \<and>
               m i = Some (build_point env i v (rec_at pending x) (pending ! fst x))
        else m i = m0 i)"

definition embed_inv ::
  "index_env \<Rightarrow> ('q \<Rightarrow> string \<rightharpoonup> Point) \<Rightarrow> PendingFile list \<Rightarrow> 'q \<Rightarrow> (nat \<times> nat) list \<Rightarrow> (nat \<times> nat) list \<Rightarrow> 'q embed_state \<Rightarrow> bool" where
  "embed_inv env pts pending q all ms em \<longleftrightarrow>
     em_ids em = note_ids pending ms (replicate (length pending) []) \<and>
     stored env pending ms (pts q) (pts (em_q em)) \<and> list_all (meta_ok pending) (ms @ em_batch em) \<and>
     (cancel_at env = None \<longrightarrow> (\<forall>texts vs. embed_batch env texts = Inr vs \<longrightarrow> length vs = length texts) \<longrightarrow> ms @ em_batch em = all)"

lemma pt_id_batch:
  "length vs = length ms \<Longrightarrow> pt_id ` set (batch_points env pending ms vs) = (\<lambda>x. chunk_id (rec_at pending x)) ` set ms"
proof -
  assume l: "length vs = length ms"
  have "map pt_id (batch_points env pending ms vs) = map (\<lambda>x. chunk_id (rec_at pending x)) ms"
    using l by (intro nth_equalityI) (simp_all add: batch_points_def build_point_def)
  then show ?thesis by (metis list.set_map)
qed

lemma stored_put:
  assumes "stored env pending ms m0 m" "length vs = length ns"
  shows "stored env pending (ms @ ns) m0 (put_points (batch_points env pending ns vs) m)"
  unfolding stored_def
proof
  fix i
  let ?id = "\<lambda>x. chunk_id (rec_at pending x)" and ?b = "batch_points env pending ns vs"
  show "if i \<in> ?id ` set (ms @ ns)
      then \<exists>x \<in> set (ms @ ns). \<exists>v. ?id x = i \<and> put_points ?b m i = Some (build_point env i v (rec_at pending x) (pending ! fst x))
      else put_points ?b m i = m0 i"
  proof (cases "i \<in> ?id ` set ns")
    case True
    with put_points_in [of i ?b m] pt_id_batch [OF assms(2), of env pending] obtain b where
      b: "b \<in> set ?b" "pt_id b = i" "put_points ?b m i = Some b" by auto
    then obtain x v where "x \<in> set ns" "b = build_point env (?id x) v (rec_at pending x) (pending ! fst x)"
      by (auto simp: batch_points_def dest: set_zip_leftD)
    with b show ?thesis by (auto simp: build_point_def)
  next
    case False
    then have "put_points ?b m i = m i" using put_points_other [of i ?b m] pt_id_batch [OF assms(2), of env pending] by simp
    note same = this
    show ?thesis
    proof (cases "i \<in> ?id ` set ms")
      case True
      with assms(1) [unfolded stored_def, rule_format, of i] obtain x v where "x \<in> set ms" "?id x = i"
          "m i = Some (build_point env i v (rec_at pending x) (pending ! fst x))" by auto
      then have "\<exists>x \<in> set (ms @ ns). \<exists>v. ?id x = i \<and> put_points ?b m i = Some (build_point env i v (rec_at pending x) (pending ! fst x))"
        unfolding same by auto
      moreover have "i \<in> ?id ` set (ms @ ns)" using True by auto
      ultimately show ?thesis by simp
    next
      case no: False
      with assms(1) [unfolded stored_def, rule_format, of i] have "m i = m0 i" by simp
      moreover have "i \<notin> ?id ` set (ms @ ns)" using False no by auto
      ultimately show ?thesis using same by simp
    qed
  qed
qed

lemma note_ids_append: "note_ids pending (ms @ ns) ids = note_ids pending ns (note_ids pending ms ids)"
  by (simp add: note_ids_def)

lemma flush_batch_inv:
  assumes "qdrant_ok qd pts" "embed_inv env pts pending q all ms em" "flush_batch env qd pending em = (Inr (), em1)"
  shows "\<exists>ns. embed_inv env pts pending q all ns em1 \<and> em_batch em1 = []"
proof (cases "em_batch em = [] \<or> cancelled env (em_looks em)")
  case True
  then have "em_batch em1 = [] \<and> em_ids em1 = em_ids em \<and> em_q em1 = em_q em"
    using assms(3) by (auto simp: flush_batch_def split: if_splits)
  moreover have "em_batch em = [] \<or> cancel_at env \<noteq> None" using True by (auto simp: cancelled_def)
  ultimately show ?thesis using assms(2) by (intro exI [of _ ms]) (auto simp: embed_inv_def)
next
  case False
  from assms(3) False obtain vs where vs: "embed_batch env (map (\<lambda>m. rec_text (rec_at pending m)) (em_batch em)) = Inr vs"
      "length vs \<le> length (em_batch em)"
    by (auto simp: flush_batch_def Let_def split: sum.splits if_splits)
  let ?ns = "take (length vs) (em_batch em)"
  obtain r q1 where u: "upsert qd (batch_points env pending ?ns vs) (em_q em) = (r, q1)" by fastforce
  with assms(3) False vs have e: "r = Inr ()" "em_batch em1 = []" "em_q em1 = q1" "em_ids em1 = note_ids pending ?ns (em_ids em)"
    by (auto simp: flush_batch_def Let_def split: sum.splits)
  have "pts q1 = put_points (batch_points env pending ?ns vs) (pts (em_q em))"
    using upsert_pts [OF assms(1)] u e(1) by simp
  then have "stored env pending (ms @ ?ns) (pts q) (pts q1)"
    using stored_put [of env pending ms "pts q" "pts (em_q em)" vs ?ns] assms(2) vs(2) by (simp add: embed_inv_def)
  moreover have "list_all (meta_ok pending) (ms @ ?ns)"
    using assms(2) by (auto simp: embed_inv_def list_all_iff dest!: in_set_takeD)
  ultimately show ?thesis
    using assms(2) e vs
    by (intro exI [of _ "ms @ ?ns"]) (auto simp: embed_inv_def note_ids_append)
qed


lemma embed_inv_looks [simp]: "embed_inv env pts pending q all ms (em\<lparr>em_looks := n\<rparr>) = embed_inv env pts pending q all ms em"
  by (simp add: embed_inv_def)

lemma embed_inv_cancelled: "cancelled env n \<Longrightarrow> embed_inv env pts pending q all ms em \<Longrightarrow> embed_inv env pts pending q all' ms em"
  by (auto simp: embed_inv_def cancelled_def)

lemma embed_inv_push:
  "embed_inv env pts pending q all ms em \<Longrightarrow> meta_ok pending m \<Longrightarrow>
     embed_inv env pts pending q (all @ [m]) ms (em\<lparr>em_batch := em_batch em @ [m]\<rparr>)"
  by (auto simp: embed_inv_def)

lemma embed_records_inv:
  assumes "qdrant_ok qd pts" "embed_inv env pts pending q all ms em" "list_all (meta_ok pending) new"
    "embed_records env qd pending new em = (out, em1)" "\<forall>e. out \<noteq> Fail e"
  shows "(\<exists>ns. embed_inv env pts pending q (all @ new) ns em1) \<and> (cancel_at env = None \<longrightarrow> out = Go)"
  using assms(2-5)
proof (induction new arbitrary: all ms em)
  case Nil
  then show ?case by auto
next
  case (Cons m new)
  let ?em = "em\<lparr>em_batch := em_batch em @ [m]\<rparr>"
  have inv: "embed_inv env pts pending q (all @ [m]) ms ?em"
    using Cons.prems(1,2) by (intro embed_inv_push) simp_all
  show ?case
  proof (cases "UPSERT_BATCH \<le> length (em_batch ?em)")
    case False
    then have "embed_records env qd pending new ?em = (out, em1)" using Cons.prems(3) by simp
    from Cons.IH [OF inv _ this Cons.prems(4)] Cons.prems(2) show ?thesis by simp
  next
    case True
    obtain r em2 where f: "flush_batch env qd pending ?em = (r, em2)" by fastforce
    then have r: "r = Inr ()" using Cons.prems(3,4) True by (cases r) (auto simp: Let_def)
    from flush_batch_inv [OF assms(1) inv f [unfolded r]] obtain ns where
      ns: "embed_inv env pts pending q (all @ [m]) ns em2" by blast
    show ?thesis
    proof (cases "cancelled env (em_looks em2)")
      case c: True
      then have "em1 = em2\<lparr>em_looks := Suc (em_looks em2)\<rparr>" using Cons.prems(3) True f r by (simp add: Let_def)
      moreover have "embed_inv env pts pending q (all @ m # new) ns em2" using embed_inv_cancelled [OF c ns] .
      ultimately show ?thesis using c by (auto simp: cancelled_def split: option.splits)
    next
      case c: False
      then have "embed_records env qd pending new (em2\<lparr>em_looks := Suc (em_looks em2)\<rparr>) = (out, em1)"
        using Cons.prems(3) True f r by (simp add: Let_def)
      from Cons.IH [OF _ _ this Cons.prems(4), of "all @ [m]" ns] ns Cons.prems(2) show ?thesis by simp
    qed
  qed
qed

lemma embed_files_inv:
  assumes "qdrant_ok qd pts" "embed_inv env pts pending q all ms em" "\<forall>fi \<in> set fis. fi < length pending"
    "embed_files env qd pending fis em = (out, em1)" "\<forall>e. out \<noteq> Fail e"
  shows "(\<exists>ns. embed_inv env pts pending q (all @ concat (map (item_metas pending) fis)) ns em1) \<and>
    (cancel_at env = None \<longrightarrow> out = Go)"
  using assms(2-5)
proof (induction fis arbitrary: all ms em)
  case Nil
  then show ?case by auto
next
  case (Cons fi fis)
  let ?em = "em\<lparr>em_looks := Suc (em_looks em)\<rparr>" and ?rest = "concat (map (item_metas pending) (fi # fis))"
  show ?case
  proof (cases "cancelled env (em_looks em)")
    case True
    then have "out = Stop" "em1 = ?em" using Cons.prems(3) by (simp_all add: Let_def)
    moreover have "embed_inv env pts pending q (all @ ?rest) ms em" using embed_inv_cancelled [OF True Cons.prems(1)] .
    ultimately show ?thesis using True by (auto simp: cancelled_def split: option.splits)
  next
    case False
    obtain o1 em2 where r: "embed_records env qd pending (item_metas pending fi) ?em = (o1, em2)" by fastforce
    then have e: "(out, em1) = (case o1 of Go \<Rightarrow> embed_files env qd pending fis em2 | _ \<Rightarrow> (o1, em2))"
      using Cons.prems(3) False by (cases o1) (auto simp: Let_def item_metas_def)
    then have nf: "\<forall>e. o1 \<noteq> Fail e" using Cons.prems(4) by (cases o1) auto
    have "list_all (meta_ok pending) (item_metas pending fi)"
      using Cons.prems(2) by (auto simp: list_all_iff item_metas_def meta_ok_def)
    from embed_records_inv [OF assms(1) _ this r nf, of q all ms] Cons.prems(1) obtain ns where
      ns: "embed_inv env pts pending q (all @ item_metas pending fi) ns em2" "cancel_at env = None \<longrightarrow> o1 = Go" by auto
    show ?thesis
    proof (cases "o1 = Go")
      case True
      then have "embed_files env qd pending fis em2 = (out, em1)" using e by simp
      from Cons.IH [OF ns(1) _ this Cons.prems(4)] Cons.prems(2) show ?thesis by simp
    next
      case no: False
      then have "em1 = em2" "out = o1" using e nf by (cases o1; simp)+
      then show ?thesis using ns no by (auto simp: embed_inv_def)
    qed
  qed
qed

lemma length_note_ids [simp]: "length (note_ids pending ms ids) = length ids"
  by (induction ms arbitrary: ids) (simp_all add: note_ids_def)

lemma note_ids_nth:
  "fi < length ids \<Longrightarrow> note_ids pending ms ids ! fi =
     ids ! fi @ map (\<lambda>m. chunk_id (rec_at pending m)) (filter (\<lambda>m. fst m = fi) ms)"
  by (induction ms arbitrary: ids) (auto simp: note_ids_def nth_list_update)

lemma filter_item_metas:
  "filter (\<lambda>m. fst m = fi) (concat (map (item_metas pending) fis)) =
     (concat (map (\<lambda>f. if f = fi then item_metas pending f else []) fis))"
  by (induction fis) (auto simp: item_metas_def filter_empty_conv filter_id_conv)

lemma concat_single: "fi < n \<Longrightarrow> concat (map (\<lambda>f. if f = fi then g f else []) [0..<n]) = g fi"
  by (induction n) (auto simp: less_Suc_eq)

lemma note_ids_all:
  assumes "fi < length pending"
  shows "note_ids pending (concat (map (item_metas pending) [0..<length pending])) (replicate (length pending) []) ! fi =
    map chunk_id (pf_records (pending ! fi))"
proof -
  have "map (\<lambda>m. chunk_id (rec_at pending m)) (item_metas pending fi) = map chunk_id (pf_records (pending ! fi))"
    by (rule nth_equalityI) (simp_all add: item_metas_def rec_at_def)
  then show ?thesis using assms by (simp add: note_ids_nth filter_item_metas concat_single)
qed

section \<open>Committing\<close>

lemma commit_files_map:
  "map_of (fst (commit_files env items files rep)) =
     fold (\<lambda>(item, ids) m. if ids = [] then m else m(pf_key item \<mapsto>
        \<lparr>fe_mtime = commit_mtime env (pf_key item), content_hash = pf_hash item, point_ids = ids\<rparr>)) items (map_of files)"
  by (induction env items files rep rule: commit_files.induct) (simp_all add: AList.update_conv' del: fun_upd_apply)

lemma fold_upd_other:
  "k \<notin> (\<lambda>x. pf_key (fst x)) ` set items \<Longrightarrow> fold (\<lambda>(item, ids) m. if ids = [] then m else m(pf_key item \<mapsto> g item ids)) items m k = m k"
  by (induction items arbitrary: m) (auto split: prod.splits)

lemma fold_upd_in:
  assumes "distinct (map (\<lambda>x. pf_key (fst x)) items)" "(item, ids) \<in> set items"
  shows "fold (\<lambda>(item, ids) m. if ids = [] then m else m(pf_key item \<mapsto> g item ids)) items m (pf_key item) =
    (if ids = [] then m (pf_key item) else Some (g item ids))"
  using assms
proof (induction items arbitrary: m)
  case (Cons x items)
  show ?case
  proof (cases "x = (item, ids)")
    case True
    with Cons.prems(1) have "pf_key item \<notin> (\<lambda>x. pf_key (fst x)) ` set items" by auto
    then show ?thesis by (simp add: True fold_upd_other)
  next
    case False
    with Cons.prems have x: "(item, ids) \<in> set items" "pf_key (fst x) \<noteq> pf_key item" by force+
    with Cons show ?thesis by (cases x) auto
  qed
qed simp

lemma drop_stale_eq:
  assumes "qdrant_ok qd pts" "deletes_succeed qd" "drop_stale qd ks files q rep = (files1, q1, rep1)"
  shows "map_of files1 = map_of files |` (- set ks) \<and> pts q1 = pts q |` (- entry_ids (map_of files) (set ks))"
  using assms(3)
proof (induction ks arbitrary: files q rep)
  case (Cons k ks)
  show ?case
  proof (cases "map_of files k")
    case None
    with Cons show ?thesis by (auto simp: entry_ids_insert restrict_map_def fun_eq_iff)
  next
    case (Some e)
    obtain q2 where q2: "delete_points qd (point_ids e) q = (Inr (), q2)" using delete_points_Inr [OF assms(2)] by blast
    have "entry_ids (map_of (AList.delete k files)) (set ks) \<union> set (point_ids e) =
        entry_ids (map_of files) (set ks) \<union> set (point_ids e)"
      using Some by (auto simp: entry_ids_def AList.delete_conv' split: if_splits) (metis option.simps(5))
    then have ids: "entry_ids (map_of files) (set (k # ks)) = entry_ids (map_of (AList.delete k files)) (set ks) \<union> set (point_ids e)"
      using Some by (auto simp: entry_ids_insert)
    have "drop_stale qd ks (AList.delete k files) q2 (rep\<lparr>deleted := Suc (deleted rep)\<rparr>) = (files1, q1, rep1)"
      using Cons.prems Some q2 by simp
    from Cons.IH [OF this] have "map_of files1 = (map_of files)(k := None) |` (- set ks)"
        "pts q1 = pts q |` (- set (point_ids e)) |` (- entry_ids (map_of (AList.delete k files)) (set ks))"
      by (simp_all add: AList.delete_conv' delete_pts [OF assms(1) q2] del: fun_upd_apply)
    then show ?thesis unfolding ids by (auto simp: restrict_map_def fun_eq_iff)
  qed
qed (simp add: restrict_map_def)


section \<open>A pass as a whole\<close>

definition new_entry :: "index_env \<Rightarrow> PendingFile \<Rightarrow> string list \<Rightarrow> FileEntry" where
  "new_entry env item ids = \<lparr>fe_mtime = commit_mtime env (pf_key item), content_hash = pf_hash item, point_ids = ids\<rparr>"

definition committed ::
  "index_env \<Rightarrow> PendingFile list \<Rightarrow> (nat \<times> nat) list \<Rightarrow> (string \<rightharpoonup> FileEntry) \<Rightarrow> (string \<rightharpoonup> FileEntry)" where
  "committed env items ms base =
     fold (\<lambda>(item, ids) m. if ids = [] then m else m(pf_key item \<mapsto> new_entry env item ids))
       (zip items (note_ids items ms (replicate (length items) []))) base"

definition full_batches :: "index_env \<Rightarrow> bool" where
  "full_batches env \<longleftrightarrow> (\<forall>texts vs. embed_batch env texts = Inr vs \<longrightarrow> length vs = length texts)"

text \<open>
  What a pass over \<open>jobs\<close> that returned did to the entries \<open>files\<close> and the points \<open>pm\<close>: the
  files \<open>us\<close> were scanned, the records at \<open>ms\<close> were stored.
\<close>

definition pass_done ::
  "index_env \<Rightarrow> bool \<Rightarrow> bool \<Rightarrow> IndexJob list \<Rightarrow> (string \<rightharpoonup> FileEntry) \<Rightarrow> (string \<rightharpoonup> Point) \<Rightarrow>
     (IndexJob \<times> string) list \<Rightarrow> (nat \<times> nat) list \<Rightarrow> bool \<Rightarrow> (string \<rightharpoonup> FileEntry) \<Rightarrow> (string \<rightharpoonup> Point) \<Rightarrow> bool" where
  "pass_done env full only jobs files pm us ms swept files' pm' \<longleftrightarrow>
     (\<exists>vs. walked jobs = us @ vs \<and> (cancel_at env = None \<longrightarrow> vs = [])) \<and>
     (let items = plans env full files us; ks = (if full then {} else pf_key ` set items);
          f1 = committed env items ms (files |` (- ks)) in
      list_all (meta_ok items) ms \<and>
      (cancel_at env = None \<longrightarrow> full_batches env \<longrightarrow> ms = concat (map (item_metas items) [0..<length items])) \<and>
      (cancel_at env = None \<longrightarrow> swept = (\<not> only)) \<and>
      (\<exists>p1. stored env items ms (pm |` (- entry_ids files ks)) p1 \<and>
        (if swept then files' = f1 |` (snd ` set us) \<and> pm' = p1 |` (- entry_ids f1 (- snd ` set us))
         else files' = f1 \<and> pm' = p1)))"

lemma restrict_dom: "m |` (- dom m \<union> A) = m |` A"
  by (auto simp: restrict_map_def fun_eq_iff)

lemma entry_ids_dom: "entry_ids m (dom m \<inter> K) = entry_ids m K"
  by (fastforce simp: entry_ids_def dom_def split: option.splits)

lemma run_index_pass:
  assumes "qdrant_ok qd pts" "deletes_succeed qd" "distinct (map snd (walked jobs))" "jobs \<noteq> []"
    "run_index env qd (Inr jobs) only full idx q = (Inr rep, idx', q')"
  shows "\<exists>us ms swept. pass_done env full only jobs (map_of (ix_files idx)) (pts q) us ms swept (map_of (ix_files idx')) (pts q')"
proof -
  let ?files = "map_of (ix_files idx)"
  let ?st0 = "\<lparr>sc_files = ix_files idx, sc_q = q, sc_report = IndexReport_default, sc_seen = [], sc_pending = [], sc_looks = 0\<rparr>"
  obtain out st where sc: "scan_jobs env qd full jobs ?st0 = (out, st)" by fastforce
  let ?items = "sc_pending st"
  let ?em0 = "\<lparr>em_batch = [], em_ids = replicate (length ?items) [], em_q = sc_q st, em_report = sc_report st, em_looks = sc_looks st\<rparr>"
  obtain out2 em where em: "embed_files env qd ?items [0..<length ?items] ?em0 = (out2, em)" by fastforce
  obtain r em1 where fl: "flush_batch env qd ?items em = (r, em1)" by fastforce
  obtain files rep0 where co: "commit_files env (zip ?items (em_ids em1)) (sc_files st) (em_report em1) = (files, rep0)" by fastforce
  obtain files1 q1 rep1 where dr: "drop_stale qd (filter (\<lambda>k. k \<notin> set (sc_seen st)) (map fst files)) files (em_q em1) rep0 = (files1, q1, rep1)"
    by (metis prod.collapse)
  let ?swept = "\<not> only \<and> \<not> cancelled env (em_looks em1)"
  let ?idx = "if full then idx\<lparr>chunk_schema_version := CHUNK_SCHEMA_VERSION\<rparr> else idx"
  have g: "\<not> (resync_required idx \<noteq> None \<and> \<not> full)"
  proof
    assume "resync_required idx \<noteq> None \<and> \<not> full"
    then have "fst (run_index env qd (Inr jobs) only full idx q) = Inl (the (resync_required idx))"
      unfolding run_index_def by simp
    with assms(5) show False by simp
  qed
  have ixf: "ix_files ?idx = ix_files idx" by simp
  have run: "(Inr rep, idx', q') = (case out of Fail e \<Rightarrow> (Inl e, ?idx\<lparr>ix_files := sc_files st\<rparr>, sc_q st)
      | _ \<Rightarrow> case out2 of Fail e \<Rightarrow> (Inl e, ?idx\<lparr>ix_files := sc_files st\<rparr>, em_q em)
      | _ \<Rightarrow> case r of Inl e \<Rightarrow> (Inl e, ?idx\<lparr>ix_files := sc_files st\<rparr>, em_q em1)
      | Inr _ \<Rightarrow> if ?swept then (Inr rep1, ?idx\<lparr>ix_files := files1\<rparr>, q1) else (Inr rep0, ?idx\<lparr>ix_files := files\<rparr>, em_q em1))"
    unfolding assms(5) [symmetric] run_index_def if_not_P [OF g] Let_def sum.case if_not_P [OF assms(4)] ixf sc prod.case em
    by (simp add: fl co dr split: outcome.split sum.split)
  have nofail: "\<forall>e. out \<noteq> Fail e" "\<forall>e. out2 \<noteq> Fail e" "r = Inr ()"
    using run by (auto split: outcome.splits sum.splits)
  have res: "ix_files idx' = (if ?swept then files1 else files)" "q' = (if ?swept then q1 else em_q em1)"
    using run nofail by (auto split: outcome.splits if_splits)
  have si: "scan_inv env full pts ?files q [] ?st0" by (simp add: scan_inv_def plans_def map_filter_def restrict_map_def)
  have di: "distinct (map snd ([] @ walked jobs))" using assms(3) by simp
  obtain us vs where u: "walked jobs = us @ vs" "scan_inv env full pts ?files q ([] @ us) st" "out = Go \<longrightarrow> vs = []" "cancel_at env = None \<longrightarrow> out = Go"
    using scan_jobs_inv [OF assms(1) si di sc nofail(1)] by (elim exE conjE)
  have items: "?items = plans env full ?files us" using u(2) by (simp add: scan_inv_def Let_def)
  define ks where "ks = (if full then {} else pf_key ` set ?items)"
  have base: "map_of (sc_files st) = ?files |` (- ks)" "pts (sc_q st) = pts q |` (- entry_ids ?files ks)" "set (sc_seen st) = snd ` set us"
    using u(2) by (simp_all add: scan_inv_def Let_def ks_def items)
  have "embed_inv env pts ?items (sc_q st) [] [] ?em0" by (simp add: embed_inv_def note_ids_def stored_def)
  from embed_files_inv [OF assms(1) this _ em nofail(2)] obtain ns where
    "embed_inv env pts ?items (sc_q st) (concat (map (item_metas ?items) [0..<length ?items])) ns em" by auto
  from flush_batch_inv [OF assms(1) this fl [unfolded nofail(3)]] obtain ms where
    ms: "embed_inv env pts ?items (sc_q st) (concat (map (item_metas ?items) [0..<length ?items])) ms em1" "em_batch em1 = []" by blast
  have f1: "map_of files = committed env ?items ms (?files |` (- ks))"
    using commit_files_map [of env "zip ?items (em_ids em1)" "sc_files st" "em_report em1"] ms(1) base(1)
    unfolding committed_def new_entry_def by (simp add: co embed_inv_def)
  have st: "stored env ?items ms (pts q |` (- entry_ids ?files ks)) (pts (em_q em1))"
    using ms(1) base(2) by (simp add: embed_inv_def)
  have swept: "map_of files1 = map_of files |` (snd ` set us) \<and> pts q1 = pts (em_q em1) |` (- entry_ids (map_of files) (- snd ` set us))"
  proof -
    have "set (filter (\<lambda>k. k \<notin> set (sc_seen st)) (map fst files)) = dom (map_of files) \<inter> - snd ` set us"
      by (auto simp: base(3) dom_map_of_conv_image_fst)
    with drop_stale_eq [OF assms(1,2) dr] show ?thesis
      by (simp add: entry_ids_dom restrict_dom)
  qed
  have fin: "if ?swept then map_of (ix_files idx') = committed env ?items ms (?files |` (- ks)) |` (snd ` set us) \<and>
        pts q' = pts (em_q em1) |` (- entry_ids (committed env ?items ms (?files |` (- ks))) (- snd ` set us))
      else map_of (ix_files idx') = committed env ?items ms (?files |` (- ks)) \<and> pts q' = pts (em_q em1)"
    using swept res f1 by simp
  have "pass_done env full only jobs ?files (pts q) us ms ?swept (map_of (ix_files idx')) (pts q')"
    unfolding pass_done_def Let_def items [symmetric] ks_def [symmetric]
    using u ms fin st
    by (auto simp: embed_inv_def full_batches_def cancelled_def)
  then show ?thesis by blast
qed


section \<open>Entries and points in step\<close>

text \<open>
  The points of the store are those the index lists, and the id of a point belongs to one file.
\<close>

definition index_matches :: "(string \<Rightarrow> string) \<Rightarrow> (string \<rightharpoonup> FileEntry) \<Rightarrow> (string \<rightharpoonup> Point) \<Rightarrow> bool" where
  "index_matches owner files pm \<longleftrightarrow> dom pm = entry_ids files UNIV \<and>
     (\<forall>k e. files k = Some e \<longrightarrow> (\<forall>i \<in> set (point_ids e). owner i = k))"

lemma entry_idsI: "files k = Some e \<Longrightarrow> i \<in> set (point_ids e) \<Longrightarrow> k \<in> K \<Longrightarrow> i \<in> entry_ids files K"
  by (force simp: entry_ids_def)

lemma entry_idsE:
  assumes "i \<in> entry_ids files K"
  obtains k e where "files k = Some e" "i \<in> set (point_ids e)" "k \<in> K"
  using assms by (auto simp: entry_ids_def split: option.splits)

lemma matches_restrict:
  assumes "index_matches owner m P"
  shows "index_matches owner (m |` (- K)) (P |` (- entry_ids m K))"
proof -
  have own: "m k = Some e \<Longrightarrow> i \<in> set (point_ids e) \<Longrightarrow> owner i = k" for k e i using assms by (auto simp: index_matches_def)
  have "entry_ids (m |` (- K)) UNIV = entry_ids m UNIV - entry_ids m K"
  proof (intro set_eqI iffI)
    fix i
    assume "i \<in> entry_ids (m |` (- K)) UNIV"
    then obtain k e where k: "m k = Some e" "i \<in> set (point_ids e)" "k \<notin> K"
      by (auto elim!: entry_idsE simp: restrict_map_def split: if_splits)
    have "i \<notin> entry_ids m K"
    proof
      assume "i \<in> entry_ids m K"
      then obtain k' e' where "m k' = Some e'" "i \<in> set (point_ids e')" "k' \<in> K" by (rule entry_idsE)
      with own k show False by metis
    qed
    moreover have "i \<in> entry_ids m UNIV" using k by (intro entry_idsI [of m k e]) simp_all
    ultimately show "i \<in> entry_ids m UNIV - entry_ids m K" by simp
  next
    fix i
    assume "i \<in> entry_ids m UNIV - entry_ids m K"
    then obtain k e where "m k = Some e" "i \<in> set (point_ids e)" "k \<notin> K"
      by (metis DiffD1 DiffD2 entry_idsE entry_idsI)
    then show "i \<in> entry_ids (m |` (- K)) UNIV" by (intro entry_idsI [of _ k e]) simp_all
  qed
  then have "dom (P |` (- entry_ids m K)) = entry_ids (m |` (- K)) UNIV" using assms by (auto simp: index_matches_def)
  moreover have "owner i = k" if "(m |` (- K)) k = Some e" "i \<in> set (point_ids e)" for k e i
    using that own by (auto simp: restrict_map_def split: if_splits)
  ultimately show ?thesis by (auto simp: index_matches_def)
qed

definition ids_at :: "PendingFile list \<Rightarrow> (nat \<times> nat) list \<Rightarrow> nat \<Rightarrow> string list" where
  "ids_at items ms fi = map (\<lambda>m. chunk_id (rec_at items m)) (filter (\<lambda>m. fst m = fi) ms)"

lemma committed_other: "k \<notin> pf_key ` set items \<Longrightarrow> committed env items ms base k = base k"
  unfolding committed_def by (rule fold_upd_other) (auto dest: set_zip_leftD)

lemma committed_at:
  assumes "distinct (map pf_key items)" "fi < length items"
  shows "committed env items ms base (pf_key (items ! fi)) =
    (if ids_at items ms fi = [] then base (pf_key (items ! fi)) else Some (new_entry env (items ! fi) (ids_at items ms fi)))"
proof -
  let ?z = "zip items (note_ids items ms (replicate (length items) []))"
  have "map (\<lambda>x. pf_key (fst x)) ?z = map pf_key items"
    by (rule nth_equalityI) simp_all
  moreover have "(items ! fi, ids_at items ms fi) \<in> set ?z"
    using assms(2) by (auto simp: in_set_zip note_ids_nth ids_at_def intro!: exI [of _ fi])
  ultimately show ?thesis
    unfolding committed_def using assms(1) by (intro fold_upd_in [of ?z]) simp_all
qed

lemma distinct_plans: "distinct (map snd us) \<Longrightarrow> distinct (map pf_key (plans env full files us))"
proof (induction us rule: rev_induct)
  case (snoc w us)
  then have "snd w \<notin> pf_key ` set (plans env full files us)" using plans_keys [of env full files us] by auto
  with snoc show ?case by (auto simp: plans_snoc split: option.split dest!: plan_key) (metis image_eqI)
qed (simp add: plans_def map_filter_def)

lemma stored_dom: "stored env items ms m0 m \<Longrightarrow> dom m = dom m0 \<union> (\<lambda>x. chunk_id (rec_at items x)) ` set ms"
proof -
  assume s: "stored env items ms m0 m"
  have "m i \<noteq> None \<longleftrightarrow> m0 i \<noteq> None \<or> i \<in> (\<lambda>x. chunk_id (rec_at items x)) ` set ms" for i
    using s [unfolded stored_def, rule_format, of i] by (cases "i \<in> (\<lambda>x. chunk_id (rec_at items x)) ` set ms") auto
  then show ?thesis by (auto simp: dom_def)
qed

lemma matches_commit:
  assumes "index_matches owner base P" "distinct (map pf_key items)" "\<forall>item \<in> set items. base (pf_key item) = None"
    "\<forall>item \<in> set items. \<forall>r \<in> set (pf_records item). owner (chunk_id r) = pf_key item"
    "list_all (meta_ok items) ms" "stored env items ms P P1"
  shows "index_matches owner (committed env items ms base) P1"
proof -
  let ?c = "committed env items ms base" and ?ids = "(\<lambda>x. chunk_id (rec_at items x)) ` set ms"
  have look: "?c k = Some e \<longleftrightarrow> base k = Some e \<or>
      (\<exists>fi < length items. k = pf_key (items ! fi) \<and> ids_at items ms fi \<noteq> [] \<and> e = new_entry env (items ! fi) (ids_at items ms fi))" for k e
  proof (cases "k \<in> pf_key ` set items")
    case True
    then obtain fi where fi: "fi < length items" "k = pf_key (items ! fi)" by (auto simp: in_set_conv_nth)
    have "fj = fi" if "fj < length items" "pf_key (items ! fj) = pf_key (items ! fi)" for fj
      using that fi(1) assms(2) nth_eq_iff_index_eq [of "map pf_key items" fj fi] by simp
    note uniq = this
    have none: "base k = None" using assms(3) fi by auto
    have "?c k = (if ids_at items ms fi = [] then None else Some (new_entry env (items ! fi) (ids_at items ms fi)))"
      using committed_at [OF assms(2) fi(1)] none fi(2) by simp
    then show ?thesis using fi uniq none by (metis option.distinct(1) option.inject)
  next
    case False
    then show ?thesis using committed_other [OF False] by auto
  qed
  have at: "i \<in> set (ids_at items ms fi) \<longleftrightarrow> (\<exists>m \<in> set ms. fst m = fi \<and> chunk_id (rec_at items m) = i)" for i fi
    by (auto simp: ids_at_def)
  have "entry_ids ?c UNIV = entry_ids base UNIV \<union> ?ids"
  proof (intro set_eqI iffI)
    fix i
    assume "i \<in> entry_ids ?c UNIV"
    then obtain k e where "?c k = Some e" "i \<in> set (point_ids e)" by (rule entry_idsE)
    then consider "base k = Some e" | fi where "e = new_entry env (items ! fi) (ids_at items ms fi)"
      unfolding look by blast
    then show "i \<in> entry_ids base UNIV \<union> ?ids"
    proof cases
      case 1
      with \<open>i \<in> set (point_ids e)\<close> have "i \<in> entry_ids base UNIV" by (intro entry_idsI [of _ k e]) simp_all
      then show ?thesis by simp
    next
      case 2
      with \<open>i \<in> set (point_ids e)\<close> show ?thesis by (auto simp: new_entry_def at)
    qed
  next
    fix i
    assume "i \<in> entry_ids base UNIV \<union> ?ids"
    then show "i \<in> entry_ids ?c UNIV"
    proof
      assume "i \<in> entry_ids base UNIV"
      then obtain k e where "base k = Some e" "i \<in> set (point_ids e)" by (rule entry_idsE)
      with look show ?thesis by (intro entry_idsI [of _ k e]) auto
    next
      assume "i \<in> ?ids"
      then obtain m where m: "m \<in> set ms" "i = chunk_id (rec_at items m)" by blast
      with assms(5) have "fst m < length items" by (auto simp: list_all_iff meta_ok_def)
      moreover have "i \<in> set (ids_at items ms (fst m))" using at m by blast
      ultimately show ?thesis
        by (intro entry_idsI [of _ "pf_key (items ! fst m)" "new_entry env (items ! fst m) (ids_at items ms (fst m))"])
          (auto simp: look new_entry_def)
    qed
  qed
  moreover have "owner i = k" if "?c k = Some e" "i \<in> set (point_ids e)" for k e i
  proof -
    from that(1) consider "base k = Some e" | fi where "fi < length items" "k = pf_key (items ! fi)" "e = new_entry env (items ! fi) (ids_at items ms fi)"
      unfolding look by blast
    then show ?thesis
    proof cases
      case 1
      with assms(1) that(2) show ?thesis by (auto simp: index_matches_def)
    next
      case 2
      with that(2) at obtain m where "m \<in> set ms" "fst m = fi" "i = chunk_id (rec_at items m)" by (auto simp: new_entry_def)
      moreover from this assms(5) have "rec_at items m \<in> set (pf_records (items ! fi))"
        by (auto simp: list_all_iff meta_ok_def rec_at_def)
      ultimately show ?thesis using assms(4) 2 by auto
    qed
  qed
  ultimately show ?thesis using stored_dom [OF assms(6)] assms(1) by (auto simp: index_matches_def)
qed

lemma pass_matches:
  assumes "pass_done env full only jobs files pm us ms swept files' pm'" "distinct (map snd (walked jobs))"
    "index_matches owner files pm" "full \<longrightarrow> files = Map.empty"
    "\<forall>w \<in> set (walked jobs). \<forall>item. plan env full (files (snd w)) w = Some item \<longrightarrow>
       (\<forall>r \<in> set (pf_records item). owner (chunk_id r) = snd w)"
  shows "index_matches owner files' pm'"
proof -
  define items where "items = plans env full files us"
  define ks where "ks = (if full then {} else pf_key ` set items)"
  define f1 where "f1 = committed env items ms (files |` (- ks))"
  from assms(1) obtain vs p1 where d: "walked jobs = us @ vs" "list_all (meta_ok items) ms"
      "stored env items ms (pm |` (- entry_ids files ks)) p1"
      "if swept then files' = f1 |` (snd ` set us) \<and> pm' = p1 |` (- entry_ids f1 (- snd ` set us)) else files' = f1 \<and> pm' = p1"
    unfolding pass_done_def Let_def items_def [symmetric] ks_def [symmetric] f1_def [symmetric] by blast
  have "distinct (map snd us)" using assms(2) d(1) by simp
  then have di: "distinct (map pf_key items)" unfolding items_def by (rule distinct_plans)
  have b: "index_matches owner (files |` (- ks)) (pm |` (- entry_ids files ks))" by (rule matches_restrict [OF assms(3)])
  have "\<forall>item \<in> set items. (files |` (- ks)) (pf_key item) = None" using assms(4) by (auto simp: ks_def)
  moreover have "\<forall>item \<in> set items. \<forall>r \<in> set (pf_records item). owner (chunk_id r) = pf_key item"
  proof (intro ballI)
    fix item r
    assume i: "item \<in> set items" "r \<in> set (pf_records item)"
    then obtain w where "w \<in> set us" "plan env full (files (snd w)) w = Some item" by (auto simp: items_def set_plans)
    with assms(5) i(2) d(1) show "owner (chunk_id r) = pf_key item" using plan_key by fastforce
  qed
  ultimately have m: "index_matches owner f1 p1" unfolding f1_def by (intro matches_commit [OF b di _ _ d(2,3)])
  show ?thesis
  proof (cases swept)
    case True
    with d(4) matches_restrict [OF m, of "- snd ` set us"] show ?thesis by simp
  qed (use d(4) m in simp)
qed


section \<open>A healthy pass returns\<close>

definition healthy :: "index_env \<Rightarrow> 'q qdrant \<Rightarrow> bool" where
  "healthy env qd \<longleftrightarrow> (\<forall>p n. \<exists>x. extract_with_limit env p n = Inr x) \<and>
     (\<forall>texts. \<exists>vs. embed_batch env texts = Inr vs \<and> length vs = length texts) \<and>
     (\<forall>ps q. fst (q_upsert qd ps q) = Inr ()) \<and> deletes_succeed qd"

lemma upsert_Inr: "healthy env qd \<Longrightarrow> \<exists>q'. upsert qd ps q = (Inr (), q')"
  unfolding upsert_def healthy_def by (metis prod.collapse)

lemma scan_file_ok: "healthy env qd \<Longrightarrow> fst (scan_file env qd full job p st) = Go"
proof -
  assume h: "healthy env qd"
  then obtain x where x: "extract_with_limit env p (max_file_bytes job) = Inr x"
    unfolding healthy_def by blast
  have "deletes_succeed qd" using h by (simp add: healthy_def)
  then have d: "a = Inr ()" if "delete_points qd ids q = (a, b)" for ids q a b
    using that delete_points_Inr [of qd ids q] by auto
  show ?thesis
    using x by (cases x) (auto simp: scan_file_def Let_def dest!: d split: option.split sum.split prod.split)
qed

lemma scan_entries_ok: "healthy env qd \<Longrightarrow> fst (scan_entries env qd full job ds st) \<noteq> Fail e"
proof (induction ds arbitrary: st)
  case (Cons d ds)
  have f: "fst (case scan_file env qd full job p s of (Go, s1) \<Rightarrow> scan_entries env qd full job ds s1 | r \<Rightarrow> r) \<noteq> Fail e" for p s
    using scan_file_ok [OF Cons.prems, of full job p s] Cons.IH [OF Cons.prems]
    by (cases "scan_file env qd full job p s") simp
  show ?case using Cons f by (auto simp: Let_def split: walk_entry.split option.split)
qed simp

lemma scan_jobs_ok: "healthy env qd \<Longrightarrow> fst (scan_jobs env qd full jobs st) \<noteq> Fail e"
proof (induction jobs arbitrary: st)
  case (Cons job jobs)
  obtain o1 s1 where s: "scan_entries env qd full job (job_walk job) st = (o1, s1)" by fastforce
  have "o1 \<noteq> Fail e" for e using scan_entries_ok [OF Cons.prems, of full job "job_walk job" st e] s by simp
  then show ?case using Cons s by (cases o1) auto
qed simp

lemma flush_batch_ok: "healthy env qd \<Longrightarrow> \<exists>em'. flush_batch env qd pending em = (Inr (), em')"
proof -
  assume h: "healthy env qd"
  then obtain vs where "embed_batch env (map (\<lambda>m. rec_text (rec_at pending m)) (em_batch em)) = Inr vs" "length vs = length (em_batch em)"
    by (auto simp: healthy_def dest!: spec [of _ "map (\<lambda>m. rec_text (rec_at pending m)) (em_batch em)"])
  moreover obtain q1 where "upsert qd (batch_points env pending (em_batch em) vs) (em_q em) = (Inr (), q1)"
    using upsert_Inr [OF h] by blast
  ultimately show ?thesis by (simp add: flush_batch_def Let_def)
qed

lemma embed_records_ok: "healthy env qd \<Longrightarrow> fst (embed_records env qd pending ms em) \<noteq> Fail e"
proof (induction ms arbitrary: em)
  case (Cons m ms)
  obtain em' where "flush_batch env qd pending (em\<lparr>em_batch := em_batch em @ [m]\<rparr>) = (Inr (), em')"
    using flush_batch_ok [OF Cons.prems] by blast
  with Cons show ?case by (simp add: Let_def)
qed simp

lemma embed_files_ok: "healthy env qd \<Longrightarrow> fst (embed_files env qd pending fis em) \<noteq> Fail e"
proof (induction fis arbitrary: em)
  case (Cons fi fis)
  let ?em = "em\<lparr>em_looks := Suc (em_looks em)\<rparr>" and ?ms = "map (Pair fi) [0..<length (pf_records (pending ! fi))]"
  obtain o1 s1 where s: "embed_records env qd pending ?ms ?em = (o1, s1)" by fastforce
  have "o1 \<noteq> Fail e" for e using embed_records_ok [OF Cons.prems, of pending ?ms ?em e] s by simp
  then show ?case using Cons s by (cases o1) (auto simp: Let_def)
qed simp

lemma run_index_returns:
  assumes "healthy env qd" "resync_required idx = None \<or> full"
  shows "\<exists>rep idx' q'. run_index env qd (Inr jobs) only full idx q = (Inr rep, idx', q')"
proof (cases "jobs = []")
  case True
  then show ?thesis using assms(2) by (auto simp: run_index_def Let_def)
next
  case False
  let ?st0 = "\<lparr>sc_files = ix_files idx, sc_q = q, sc_report = IndexReport_default, sc_seen = [], sc_pending = [], sc_looks = 0\<rparr>"
  obtain out st where sc: "scan_jobs env qd full jobs ?st0 = (out, st)" by fastforce
  let ?items = "sc_pending st"
  let ?em0 = "\<lparr>em_batch = [], em_ids = replicate (length ?items) [], em_q = sc_q st, em_report = sc_report st, em_looks = sc_looks st\<rparr>"
  obtain out2 em where em: "embed_files env qd ?items [0..<length ?items] ?em0 = (out2, em)" by fastforce
  obtain em1 where fl: "flush_batch env qd ?items em = (Inr (), em1)" using flush_batch_ok [OF assms(1)] by blast
  have nf: "\<forall>e. out \<noteq> Fail e" "\<forall>e. out2 \<noteq> Fail e"
    using scan_jobs_ok [OF assms(1), of full jobs ?st0] embed_files_ok [OF assms(1), of ?items "[0..<length ?items]" ?em0]
    by (auto simp: sc em)
  have g: "\<not> (resync_required idx \<noteq> None \<and> \<not> full)" using assms(2) by auto
  have ixf: "ix_files (if full then idx\<lparr>chunk_schema_version := CHUNK_SCHEMA_VERSION\<rparr> else idx) = ix_files idx" by simp
  show ?thesis
    unfolding run_index_def if_not_P [OF g] Let_def sum.case if_not_P [OF False] ixf sc prod.case em
    using nf by (cases out; cases out2) (auto simp: fl split: prod.split)
qed

end
