(* ===== verification/Knowledge_Pass.thy ===== *)
theory Knowledge_Pass
  imports Knowledge_Index
begin

text \<open>
  The passes the knowledge daemon runs (\<open>run_one_pass\<close>, \<open>run_full_resync\<close>,
  \<open>purge_index_subtree\<close> of \<open>knowledge/daemon.rs\<close>) over the index pass, and what the passes
  achieve: index and store stay in step, a healthy pass reaches the state the files call for,
  and the cases in which it does not.
\<close>

section \<open>The daemon's passes\<close>

record PassStats =
  ps_at_unix :: u64
  ps_indexed :: nat
  ps_skipped :: nat
  ps_deleted :: nat
  ps_chunks :: nat
  ps_error :: "string option"

record 'q plane =
  pl_index :: index_file
  pl_q :: 'q
  pl_last :: PassStats

definition pass_stats :: "u64 \<Rightarrow> IndexReport \<Rightarrow> PassStats" where
  "pass_stats now rep = \<lparr>ps_at_unix = now, ps_indexed = indexed rep, ps_skipped = skipped rep, ps_deleted = deleted rep,
     ps_chunks = chunks rep, ps_error = None\<rparr>"

definition save_index :: "bool \<Rightarrow> Index \<Rightarrow> index_file \<Rightarrow> index_file" where
  "save_index save_ok idx f = (if save_ok then IndexParsed idx else f)"

definition finish_pass :: "u64 \<Rightarrow> bool \<Rightarrow> (string + IndexReport) \<times> Index \<times> 'q \<Rightarrow> 'q plane \<Rightarrow> 'q plane" where
  "finish_pass now save_ok res s = (case res of
      (Inr rep, idx, q) \<Rightarrow>
        s\<lparr>pl_index := save_index save_ok (idx\<lparr>last_sync_unix := now\<rparr>) (pl_index s), pl_q := q, pl_last := pass_stats now rep\<rparr>
    | (Inl e, idx, q) \<Rightarrow> s\<lparr>pl_q := q, pl_last := (pl_last s)\<lparr>ps_error := Some e, ps_at_unix := now\<rparr>\<rparr>)"

definition load_or_default :: "index_file \<Rightarrow> Index" where
  "load_or_default f = (case index_load f of Inr idx \<Rightarrow> idx | Inl _ \<Rightarrow> Index_default)"

definition run_one_pass :: "index_env \<Rightarrow> 'q qdrant \<Rightarrow> string + IndexJob list \<Rightarrow> u64 \<Rightarrow> bool \<Rightarrow> 'q plane \<Rightarrow> 'q plane" where
  "run_one_pass env qd jobs now save_ok s =
     finish_pass now save_ok (run_index env qd jobs False False (load_or_default (pl_index s)) (pl_q s)) s"

definition run_full_resync :: "index_env \<Rightarrow> 'q qdrant \<Rightarrow> string + IndexJob list \<Rightarrow> u64 \<Rightarrow> bool \<Rightarrow> 'q plane \<Rightarrow> (string + unit) \<times> 'q plane" where
  "run_full_resync env qd jobs now save_ok s = (case q_recreate qd (pl_q s) of
      (Inl e, q) \<Rightarrow> (Inl e, s\<lparr>pl_q := q, pl_last := (pl_last s)\<lparr>ps_error := Some (''recreate_collection: '' @ e)\<rparr>\<rparr>)
    | (Inr _, q) \<Rightarrow> (Inr (), finish_pass now save_ok (run_index env qd jobs False True Index_default q) (s\<lparr>pl_q := q\<rparr>)))"

definition purge_index_subtree :: "string \<Rightarrow> bool \<Rightarrow> index_file \<Rightarrow> index_file" where
  "purge_index_subtree folder save_ok f = (case index_load f of
      Inl _ \<Rightarrow> f
    | Inr idx \<Rightarrow> save_index save_ok (idx\<lparr>ix_files := filter (\<lambda>(k, e). take (length folder) k \<noteq> folder) (ix_files idx)\<rparr>) f)"

section \<open>A pass with nothing to do\<close>

lemma plans_none: "(\<And>w. w \<in> set us \<Longrightarrow> plan env full (files (snd w)) w = None) \<Longrightarrow> plans env full files us = []"
  by (simp add: plans_def map_filter_def filter_empty_conv)

lemma committed_nil [simp]: "committed env [] ms base = base"
  by (simp add: committed_def)

lemma restrict_superset: "dom m \<subseteq> A \<Longrightarrow> m |` A = m"
  by (rule ext) (metis domIff restrict_in restrict_out subsetD)

lemma entry_ids_outside: "dom m \<inter> K = {} \<Longrightarrow> entry_ids m K = {}"
  by (force simp: entry_ids_def split: option.splits)

lemma healthy_pass:
  assumes "qdrant_ok qd pts" "healthy env qd" "resync_required idx = None \<or> full"
    "distinct (map snd (walked jobs))" "jobs \<noteq> []"
  obtains rep idx' q' us ms swept where "run_index env qd (Inr jobs) only full idx q = (Inr rep, idx', q')"
    "pass_done env full only jobs (map_of (ix_files idx)) (pts q) us ms swept (map_of (ix_files idx')) (pts q')"
proof -
  from run_index_returns [OF assms(2,3)] obtain rep idx' q' where
    r: "run_index env qd (Inr jobs) only full idx q = (Inr rep, idx', q')" by blast
  have "deletes_succeed qd" using assms(2) by (simp add: healthy_def)
  from run_index_pass [OF assms(1) this assms(4,5) r] r that show ?thesis by blast
qed

lemma healthy_full_batches: "healthy env qd \<Longrightarrow> full_batches env"
  unfolding full_batches_def healthy_def by (metis Inr_inject)

lemma quiet_pass:
  assumes "qdrant_ok qd pts" "healthy env qd" "resync_required idx = None" "cancel_at env = None"
    "distinct (map snd (walked jobs))" "jobs \<noteq> []"
    "\<And>w. w \<in> set (walked jobs) \<Longrightarrow> plan env False (map_of (ix_files idx) (snd w)) w = None"
    "dom (map_of (ix_files idx)) \<subseteq> snd ` set (walked jobs)"
  shows "\<exists>rep idx' q'. run_index env qd (Inr jobs) False False idx q = (Inr rep, idx', q') \<and>
    map_of (ix_files idx') = map_of (ix_files idx) \<and> pts q' = pts q"
proof -
  let ?f = "map_of (ix_files idx)"
  obtain rep idx' q' us ms swept where r: "run_index env qd (Inr jobs) False False idx q = (Inr rep, idx', q')"
      "pass_done env False False jobs ?f (pts q) us ms swept (map_of (ix_files idx')) (pts q')"
    by (rule healthy_pass [OF assms(1,2) _ assms(5,6), of idx False False q]) (use assms(3) in auto)
  have us: "us = walked jobs" using r(2) assms(4) by (auto simp: pass_done_def)
  have p: "plans env False ?f us = []" using assms(7) us by (intro plans_none) simp
  have "list_all (meta_ok []) ms" using r(2) by (simp add: pass_done_def Let_def p)
  then have ms: "ms = []" by (cases ms) (auto simp: meta_ok_def)
  have "map_of (ix_files idx') = ?f |` (snd ` set us) \<and> pts q' = pts q |` (- entry_ids ?f (- snd ` set us))"
    using r(2) assms(4) by (auto simp: pass_done_def Let_def p ms stored_def restrict_superset simp flip: fun_eq_iff)
  moreover have "dom ?f \<inter> - snd ` set us = {}" using assms(8) us by auto
  ultimately show ?thesis
    using r(1) restrict_superset [OF assms(8)] us by (auto simp: entry_ids_outside)
qed

section \<open>Properties\<close>

text \<open>
  C3. A pass that returns leaves index and store in step, also when it was cancelled half-way:
  if the store held exactly the points the index lists, it does so afterwards. The hypotheses
  are that the store does what it acknowledges and does not refuse deletions, that every file is
  walked once, and that a point id belongs to one file.
\<close>

theorem index_pass_keeps_in_step:
  assumes "qdrant_ok qd pts" "deletes_succeed qd" "distinct (map snd (walked jobs))"
    "index_matches owner (map_of (ix_files idx)) (pts q)"
    "\<forall>w \<in> set (walked jobs). \<forall>item. plan env False (map_of (ix_files idx) (snd w)) w = Some item \<longrightarrow>
       (\<forall>r \<in> set (pf_records item). owner (chunk_id r) = snd w)"
    "run_index env qd (Inr jobs) only False idx q = (Inr rep, idx', q')"
  shows "index_matches owner (map_of (ix_files idx')) (pts q')"
proof (cases "jobs = []")
  case True
  then have "idx' = idx" "q' = q" using assms(6) by (auto simp: run_index_def split: if_splits)
  with assms(4) show ?thesis by simp
next
  case False
  from run_index_pass [OF assms(1-3) False assms(6)] obtain us ms swept where
    "pass_done env False only jobs (map_of (ix_files idx)) (pts q) us ms swept (map_of (ix_files idx')) (pts q')" by blast
  from pass_matches [OF this assms(3,4) _ assms(5)] show ?thesis by simp
qed

definition wanted :: "index_env \<Rightarrow> FileEntry option \<Rightarrow> IndexJob \<times> string \<Rightarrow> FileEntry option" where
  "wanted env old w = (case plan env False old w of
     None \<Rightarrow> old | Some item \<Rightarrow> Some (new_entry env item (map chunk_id (pf_records item))))"

lemma ids_at_all:
  "fi < length items \<Longrightarrow> ids_at items (concat (map (item_metas items) [0..<length items])) fi = map chunk_id (pf_records (items ! fi))"
  using note_ids_all [of fi items] by (simp add: note_ids_nth ids_at_def)

lemma healthy_pass_files:
  assumes "qdrant_ok qd pts" "healthy env qd" "resync_required idx = None" "cancel_at env = None"
    "distinct (map snd (walked jobs))" "jobs \<noteq> []"
  shows "\<exists>rep idx' q'. run_index env qd (Inr jobs) False False idx q = (Inr rep, idx', q') \<and>
    (\<forall>w \<in> set (walked jobs). map_of (ix_files idx') (snd w) = wanted env (map_of (ix_files idx) (snd w)) w) \<and>
    dom (map_of (ix_files idx')) \<subseteq> snd ` set (walked jobs)"
proof -
  let ?f = "map_of (ix_files idx)"
  obtain rep idx' q' us ms swept where r: "run_index env qd (Inr jobs) False False idx q = (Inr rep, idx', q')"
      "pass_done env False False jobs ?f (pts q) us ms swept (map_of (ix_files idx')) (pts q')"
    by (rule healthy_pass [OF assms(1,2) _ assms(5,6), of idx False False q]) (use assms(3) in auto)
  define items where "items = plans env False ?f (walked jobs)"
  have us: "us = walked jobs" using r(2) assms(4) by (auto simp: pass_done_def)
  have ms: "ms = concat (map (item_metas items) [0..<length items])"
    using r(2) assms(4) healthy_full_batches [OF assms(2)] us by (auto simp: pass_done_def Let_def items_def)
  have f': "map_of (ix_files idx') = committed env items ms (?f |` (- pf_key ` set items)) |` (snd ` set (walked jobs))"
    using r(2) assms(4) us by (auto simp: pass_done_def Let_def items_def)
  have di: "distinct (map pf_key items)" unfolding items_def by (rule distinct_plans [OF assms(5)])
  have "map_of (ix_files idx') (snd w) = wanted env (?f (snd w)) w" if w: "w \<in> set (walked jobs)" for w
  proof (cases "plan env False (?f (snd w)) w")
    case (Some item)
    then have "item \<in> set items" using w by (auto simp: items_def set_plans)
    then obtain fi where fi: "fi < length items" "items ! fi = item" by (auto simp: in_set_conv_nth)
    have key: "pf_key item = snd w" "pf_records item \<noteq> []" using plan_key [OF Some] by auto
    with committed_at [OF di fi(1)] fi w show ?thesis
      by (simp add: f' wanted_def Some ids_at_all [OF fi(1)] ms del: map_of_eq_None_iff)
  next
    case None
    have "snd w \<notin> pf_key ` set items"
    proof
      assume "snd w \<in> pf_key ` set items"
      then obtain w2 item where w2: "w2 \<in> set (walked jobs)" "plan env False (?f (snd w2)) w2 = Some item" "pf_key item = snd w"
        by (auto simp: items_def set_plans)
      with plan_key [OF w2(2)] w assms(5) have "w2 = w" by (auto simp: distinct_map dest: inj_onD)
      with w2 None show False by simp
    qed
    with committed_other [OF this] w show ?thesis by (simp add: f' wanted_def None)
  qed
  moreover have "dom (map_of (ix_files idx')) \<subseteq> snd ` set (walked jobs)" unfolding f' by auto
  ultimately show ?thesis using r(1) by blast
qed

lemma wanted_settles:
  assumes "\<And>p. commit_mtime env p = walk_mtime env p"
  shows "plan env False (wanted env old w) w = None"
proof (cases "plan env False old w")
  case None
  then show ?thesis by (simp add: wanted_def)
next
  case (Some item)
  obtain job p where w: "w = (job, p)" by fastforce
  have "pf_key item = p" using plan_key [OF Some] w by simp
  then show ?thesis by (simp add: wanted_def Some) (simp add: plan_def w new_entry_def assms)
qed

lemma run_index_schema: "run_index env qd jobs only False idx q = (Inr rep, idx', q') \<Longrightarrow>
    resync_required idx = None \<and> chunk_schema_version idx' = chunk_schema_version idx"
  by (auto simp: run_index_def Let_def split: if_splits sum.splits outcome.splits prod.splits)

lemma run_index_schema': "run_index env qd jobs only False idx q = (Inr rep, idx', q') \<Longrightarrow> resync_required idx' = None"
  using run_index_schema [of env qd jobs only idx q rep idx' q'] by (auto simp: resync_required_def split: if_splits)

text \<open>
  C4. A healthy pass that nobody cancels returns, and the index is what the files call for: a file
  that is no longer walked has no entry, a walked file whose time differs from its entry and
  whose text yields records has a fresh entry that lists all its records, any other file keeps
  the entry it had. A second pass over the same files changes neither the index nor the store.
\<close>

theorem index_pass_meets_spec:
  assumes "qdrant_ok qd pts" "healthy env qd" "resync_required idx = None" "cancel_at env = None"
    "distinct (map snd (walked jobs))" "jobs \<noteq> []" "\<forall>p. commit_mtime env p = walk_mtime env p"
  shows "\<exists>rep idx' q'. run_index env qd (Inr jobs) False False idx q = (Inr rep, idx', q') \<and>
    (\<forall>w \<in> set (walked jobs). map_of (ix_files idx') (snd w) = wanted env (map_of (ix_files idx) (snd w)) w) \<and>
    dom (map_of (ix_files idx')) \<subseteq> snd ` set (walked jobs) \<and>
    (\<exists>rep2 idx2 q2. run_index env qd (Inr jobs) False False idx' q' = (Inr rep2, idx2, q2) \<and>
       map_of (ix_files idx2) = map_of (ix_files idx') \<and> pts q2 = pts q')"
proof -
  obtain rep idx' q' where r: "run_index env qd (Inr jobs) False False idx q = (Inr rep, idx', q')"
    and f: "\<forall>w \<in> set (walked jobs). map_of (ix_files idx') (snd w) = wanted env (map_of (ix_files idx) (snd w)) w"
    and d: "dom (map_of (ix_files idx')) \<subseteq> snd ` set (walked jobs)"
    using healthy_pass_files [OF assms(1-6), of q] by blast
  have "\<exists>rep2 idx2 q2. run_index env qd (Inr jobs) False False idx' q' = (Inr rep2, idx2, q2) \<and>
       map_of (ix_files idx2) = map_of (ix_files idx') \<and> pts q2 = pts q'"
    by (rule quiet_pass [OF assms(1,2) run_index_schema' [OF r] assms(4-6) _ d]) (use f assms(7) in \<open>simp add: wanted_settles\<close>)
  with r f d show ?thesis by blast
qed

text \<open>
  C38. A file that changes after it was read and before the pass commits is recorded with its new
  time and its old text. The next pass takes it for unchanged, so the new text is never
  indexed, whatever it is.
\<close>

theorem change_during_pass_never_indexed:
  assumes "qdrant_ok qd pts" "healthy env qd" "healthy env2 qd" "resync_required idx = None" "cancel_at env = None" "cancel_at env2 = None"
    "distinct (map snd (walked jobs))" "w \<in> set (walked jobs)"
    "plan env False (map_of (ix_files idx) (snd w)) w = Some item" "walk_mtime env2 = commit_mtime env"
    "set (walked jobs) = {w}"
  shows "\<exists>rep idx' q' rep2 idx2 q2. run_index env qd (Inr jobs) False False idx q = (Inr rep, idx', q') \<and>
    run_index env2 qd (Inr jobs) False False idx' q' = (Inr rep2, idx2, q2) \<and> pts q2 = pts q' \<and>
    map_of (ix_files idx2) (snd w) = Some (new_entry env item (map chunk_id (pf_records item)))"
proof -
  have ne: "jobs \<noteq> []" using assms(8) by (auto simp: walked_def)
  obtain rep idx' q' where r: "run_index env qd (Inr jobs) False False idx q = (Inr rep, idx', q')"
    and f: "\<forall>w \<in> set (walked jobs). map_of (ix_files idx') (snd w) = wanted env (map_of (ix_files idx) (snd w)) w"
    and d: "dom (map_of (ix_files idx')) \<subseteq> snd ` set (walked jobs)"
    using healthy_pass_files [OF assms(1,2,4,5,7) ne, of q] by blast
  have e: "map_of (ix_files idx') (snd w) = Some (new_entry env item (map chunk_id (pf_records item)))"
    using f assms(8) by (simp add: wanted_def assms(9))
  have "pf_key item = snd w" using plan_key [OF assms(9)] by simp
  then have "plan env2 False (map_of (ix_files idx') (snd w)) w = None"
    unfolding e by (cases w) (simp add: plan_def new_entry_def assms(10))
  with quiet_pass [OF assms(1,3) run_index_schema' [OF r] assms(6,7) ne _ d, of q'] assms(11) obtain rep2 idx2 q2 where
    "run_index env2 qd (Inr jobs) False False idx' q' = (Inr rep2, idx2, q2)" "map_of (ix_files idx2) = map_of (ix_files idx')" "pts q2 = pts q'"
    by auto
  with r e show ?thesis by auto
qed

text \<open>
  A file that no longer yields any text, because it was emptied, turned binary or grew past the
  limit, keeps its entry and its points, and it does so pass after pass: the old content stays
  searchable.
\<close>

theorem emptied_file_stays_searchable:
  assumes "qdrant_ok qd pts" "healthy env qd" "resync_required idx = None" "cancel_at env = None"
    "set (walked jobs) = {(job, p)}" "distinct (map snd (walked jobs))"
    "extract_with_limit env p (max_file_bytes job) = Inr (Extracted_Skip reason)"
    "map_of (ix_files idx) = [p \<mapsto> e]" "fe_mtime e \<noteq> walk_mtime env p"
  shows "\<exists>rep idx' q'. run_index env qd (Inr jobs) False False idx q = (Inr rep, idx', q') \<and>
    map_of (ix_files idx') = [p \<mapsto> e] \<and> pts q' = pts q"
proof -
  have ne: "jobs \<noteq> []" using assms(5) by (auto simp: walked_def)
  have "plan env False (map_of (ix_files idx) (snd w)) w = None" if "w \<in> set (walked jobs)" for w
    using that assms(5,7) by (simp add: plan_def)
  from quiet_pass [OF assms(1-4,6) ne this, of q] assms(5,8) show ?thesis by auto
qed

text \<open>
  A full resync drops the collection first and saves the index only when the pass succeeds. When
  it fails, the old index stays on disk and every later pass finds its files unchanged: the store
  stays empty while the index lists everything.
\<close>

theorem failed_resync_empties_corpus:
  assumes "qdrant_ok qd pts" "q_recreate qd (pl_q s) = (Inr (), q0)"
    "run_index env qd (Inr jobs) False True Index_default q0 = (Inl err, idxf, q1)" "pts q1 = Map.empty"
    "healthy env2 qd" "cancel_at env2 = None" "distinct (map snd (walked jobs))" "jobs \<noteq> []"
    "pl_index s = IndexParsed idx" "resync_required idx = None" "dom (map_of (ix_files idx)) = snd ` set (walked jobs)"
    "\<forall>w \<in> set (walked jobs). fe_mtime (the (map_of (ix_files idx) (snd w))) = walk_mtime env2 (snd w)"
  shows "\<exists>s1 s2. run_full_resync env qd (Inr jobs) now1 True s = (Inr (), s1) \<and>
    run_one_pass env2 qd (Inr jobs) now2 True s1 = s2 \<and> pts (pl_q s2) = Map.empty \<and> ps_error (pl_last s2) = None \<and>
    (\<exists>idx2. pl_index s2 = IndexParsed idx2 \<and> map_of (ix_files idx2) = map_of (ix_files idx))"
proof -
  obtain s1 where s1: "run_full_resync env qd (Inr jobs) now1 True s = (Inr (), s1)" "pl_index s1 = pl_index s" "pl_q s1 = q1"
    by (simp add: run_full_resync_def assms(2,3) finish_pass_def)
  have "plan env2 False (map_of (ix_files idx) (snd w)) w = None" if w: "w \<in> set (walked jobs)" for w
  proof -
    obtain e where "map_of (ix_files idx) (snd w) = Some e" using w assms(11) by blast
    with assms(12) w show ?thesis by (cases w) (auto simp: plan_def)
  qed
  with quiet_pass [OF assms(1,5,10,6-8) _ _, of q1] assms(11) obtain rep idx' q' where
    "run_index env2 qd (Inr jobs) False False idx q1 = (Inr rep, idx', q')" "map_of (ix_files idx') = map_of (ix_files idx)" "pts q' = pts q1"
    by auto
  with s1 assms(4,9) show ?thesis
    by (simp add: run_one_pass_def load_or_default_def index_load_def finish_pass_def save_index_def pass_stats_def)
qed

lemma embed_records_fill:
  "length (em_batch em) + length xs < UPSERT_BATCH \<Longrightarrow>
     embed_records env qd pending (xs @ ys) em = embed_records env qd pending ys (em\<lparr>em_batch := em_batch em @ xs\<rparr>)"
  by (induction xs arbitrary: em) simp_all

lemma embed_records_first_batch:
  assumes "length ms = UPSERT_BATCH" "em_batch em = []"
    "flush_batch env qd pending (em\<lparr>em_batch := ms\<rparr>) = (Inr (), em1)" "cancelled env (em_looks em1)"
  shows "embed_records env qd pending (ms @ ys) em = (Stop, em1\<lparr>em_looks := Suc (em_looks em1)\<rparr>)"
proof -
  obtain xs m where ms: "ms = xs @ [m]" "length xs < UPSERT_BATCH"
    using assms(1) by (cases ms rule: rev_cases) (auto simp: UPSERT_BATCH_def)
  have "embed_records env qd pending (ms @ ys) em = embed_records env qd pending (m # ys) (em\<lparr>em_batch := xs\<rparr>)"
    using embed_records_fill [of em xs env qd pending "m # ys"] ms assms(2) by simp
  also have "\<dots> = (Stop, em1\<lparr>em_looks := Suc (em_looks em1)\<rparr>)"
    using assms ms by (simp add: Let_def)
  finally show ?thesis .
qed

lemma single_scan:
  assumes "job_exists job" "job_walk job = [WalkEntry p True]" "walks job (WalkEntry p True)" "\<not> cancelled env 0"
    "plan env False None (job, p) = Some item" "map_of files p = None"
  shows "\<exists>rep. scan_jobs env qd False [job] \<lparr>sc_files = files, sc_q = q, sc_report = IndexReport_default, sc_seen = [], sc_pending = [], sc_looks = 0\<rparr> =
    (Go, \<lparr>sc_files = files, sc_q = q, sc_report = rep, sc_seen = [p], sc_pending = [item], sc_looks = 1\<rparr>)"
  using assms
  by (auto simp: plan_def scan_file_def walks_def Let_def split: if_splits sum.splits Extracted.splits option.splits)

text \<open>
  A pass cancelled between two batches commits a file whose first batch is stored, with the ids
  of that batch and its current time. The next pass takes the file for unchanged, so its other
  records are never indexed.
\<close>

theorem cancelled_pass_commits_partial_file:
  assumes "qdrant_ok qd pts" "healthy env qd" "cancel_at env = Some 3" "resync_required idx = None" "ix_files idx = []"
    "job_exists job" "job_walk job = [WalkEntry p True]" "walks job (WalkEntry p True)"
    "plan env False None (job, p) = Some item" "UPSERT_BATCH < length (pf_records item)" "commit_mtime env p = walk_mtime env p"
  shows "\<exists>rep idx' q' rep2 idx2 q2. run_index env qd (Inr [job]) False False idx q = (Inr rep, idx', q') \<and>
    run_index (env\<lparr>cancel_at := None\<rparr>) qd (Inr [job]) False False idx' q' = (Inr rep2, idx2, q2) \<and> pts q2 = pts q' \<and>
    map_of (ix_files idx2) p = Some (new_entry env item (take UPSERT_BATCH (map chunk_id (pf_records item))))"
proof -
  let ?env2 = "env\<lparr>cancel_at := None\<rparr>" and ?n = "length (pf_records item)" and ?e = "new_entry env item (take UPSERT_BATCH (map chunk_id (pf_records item)))"
  obtain rep0 where sc: "scan_jobs env qd False [job] \<lparr>sc_files = [], sc_q = q, sc_report = IndexReport_default, sc_seen = [], sc_pending = [], sc_looks = 0\<rparr> =
      (Go, \<lparr>sc_files = [], sc_q = q, sc_report = rep0, sc_seen = [p], sc_pending = [item], sc_looks = 1\<rparr>)"
    using single_scan [OF assms(6-8) _ assms(9), of "[]" qd q] by (auto simp: cancelled_def assms(3))
  let ?eb = "\<lparr>em_batch = [], em_ids = [[]], em_q = q, em_report = rep0, em_looks = 1\<rparr>"
  let ?em = "?eb\<lparr>em_looks := 2\<rparr>" and ?ms = "map (Pair 0) [0..<UPSERT_BATCH]"
  obtain vs where vs: "embed_batch env (map (\<lambda>m. rec_text (rec_at [item] m)) ?ms) = Inr vs" "length vs = UPSERT_BATCH"
    using assms(2) unfolding healthy_def by (metis length_map length_upt minus_nat.diff_0)
  obtain q1 where up: "upsert qd (batch_points env [item] ?ms vs) q = (Inr (), q1)" using upsert_Inr [OF assms(2)] by blast
  have ids: "note_ids [item] ?ms [[]] = [take UPSERT_BATCH (map chunk_id (pf_records item))]"
  proof (rule nth_equalityI)
    fix i
    assume "i < length (note_ids [item] ?ms [[]])"
    then show "note_ids [item] ?ms [[]] ! i = [take UPSERT_BATCH (map chunk_id (pf_records item))] ! i"
      using assms(10) by (simp add: note_ids_nth rec_at_def comp_def list_eq_iff_nth_eq)
  qed simp
  obtain em1 where fl: "flush_batch env qd [item] (?em\<lparr>em_batch := ?ms\<rparr>) = (Inr (), em1)" "em_looks em1 = 3" "em_batch em1 = []"
      "em_q em1 = q1" "em_ids em1 = [take UPSERT_BATCH (map chunk_id (pf_records item))]"
    using vs up ids by (simp add: flush_batch_def Let_def cancelled_def assms(3) UPSERT_BATCH_def)
  have "[0..<?n] = [0..<UPSERT_BATCH] @ [UPSERT_BATCH..<?n]" using assms(10) upt_add_eq_append [of 0 UPSERT_BATCH "?n - UPSERT_BATCH"] by simp
  then have "map (Pair (0::nat)) [0..<?n] = ?ms @ map (Pair 0) [UPSERT_BATCH..<?n]" by (metis map_append)
  then have em: "embed_files env qd [item] [0] ?eb = (Stop, em1\<lparr>em_looks := 4\<rparr>)"
    using embed_records_first_batch [of ?ms ?em env qd "[item]" em1 "map (Pair 0) [UPSERT_BATCH..<?n]"] fl(1,2)
    by (simp add: Let_def cancelled_def assms(3) numeral_2_eq_2)
  have key: "pf_key item = p" "pf_records item \<noteq> []" using plan_key [OF assms(9)] by auto
  obtain rep where r: "run_index env qd (Inr [job]) False False idx q = (Inr rep, idx\<lparr>ix_files := [(p, ?e)]\<rparr>, q1)"
  proof -
    have "flush_batch env qd [item] (em1\<lparr>em_looks := 4\<rparr>) = (Inr (), em1\<lparr>em_looks := 4\<rparr>)" by (simp add: flush_batch_def fl(3))
    moreover have "take UPSERT_BATCH (map chunk_id (pf_records item)) \<noteq> []" using key(2) by (simp add: UPSERT_BATCH_def)
    ultimately show ?thesis
      using that assms(4,5) key(1) fl(4,5)
      by (simp add: run_index_def Let_def sc em cancelled_def assms(3) new_entry_def
          del: scan_jobs.simps embed_files.simps One_nat_def)
  qed
  have w: "walked [job] = [(job, p)]" using assms(6-8) by (simp add: walked_def)
  have "plan ?env2 False (Some ?e) (job, p) = None" using key assms(11) by (simp add: plan_def new_entry_def)
  moreover have "healthy ?env2 qd" using assms(2) by (simp add: healthy_def)
  ultimately obtain rep2 idx2 q2 where
    "run_index ?env2 qd (Inr [job]) False False (idx\<lparr>ix_files := [(p, ?e)]\<rparr>) q1 = (Inr rep2, idx2, q2)"
    "map_of (ix_files idx2) = map_of [(p, ?e)]" "pts q2 = pts q1"
    using quiet_pass [OF assms(1), of ?env2 "idx\<lparr>ix_files := [(p, ?e)]\<rparr>" "[job]" q1] run_index_schema' [OF r]
    by (auto simp: w)
  with r show ?thesis by (intro exI conjI) (assumption | simp)+
qed


section \<open>A store and a file\<close>

definition map_store :: "(string \<rightharpoonup> Point) qdrant" where
  "map_store = \<lparr>q_upsert = (\<lambda>ps m. (Inr (), put_points ps m)), q_delete = (\<lambda>ids m. (Inr (), m |` (- set ids))),
     q_recreate = (\<lambda>_. (Inr (), Map.empty))\<rparr>"

definition chat_records :: "Record list" where
  "chat_records = map (\<lambda>n. \<lparr>rec_text = [65], rec_payload = RecordPayload_default, chunk_id = nat_str n\<rparr>) [0..<65]"

definition chat_env :: index_env where
  "chat_env = \<lparr>extract_with_limit = (\<lambda>_ _. Inr (Extracted_Text [65])), hash_text = (\<lambda>_. ''h''), blake3_hex = (\<lambda>_. []),
     telegram_records = (\<lambda>_ _. chat_records), transcript_records = (\<lambda>_ _. []), voice_records = (\<lambda>_ _. []),
     sparse_encode = (\<lambda>_. \<lparr>sv_indices = [], sv_values = []\<rparr>), embed_batch = (\<lambda>ts. Inr (map (\<lambda>_. []) ts)),
     walk_mtime = (\<lambda>_. 1), commit_mtime = (\<lambda>_. 1), cancel_at = None\<rparr>"

definition chat_job :: IndexJob where
  "chat_job = \<lparr>job_exists = True, source_tag = ''/a'', job_kind = Telegram, job_walk = [WalkEntry ''/a'' True],
     glob_filter = None, max_file_bytes = 100, job_tags = []\<rparr>"

definition chat_item :: PendingFile where
  "chat_item = \<lparr>pf_key = ''/a'', pf_hash = ''h'', pf_records = chat_records, pf_source_tag = ''/a'', pf_tags = [], pf_kind = Telegram\<rparr>"

lemma chat_env_simps [simp]:
  "cancel_at chat_env = None" "walk_mtime chat_env = (\<lambda>_. 1)" "commit_mtime chat_env = (\<lambda>_. 1)"
  "extract_with_limit chat_env = (\<lambda>_ _. Inr (Extracted_Text [65]))"
  "telegram_records chat_env = (\<lambda>_ _. chat_records)" "voice_records chat_env = (\<lambda>_ _. [])" "hash_text chat_env = (\<lambda>_. ''h'')"
  by (simp_all add: chat_env_def)

lemma chat_kind: "effective_kind ''/a'' Telegram = Telegram"
  by code_simp

lemma chat_walk: "walks chat_job (WalkEntry ''/a'' True)"
  by code_simp

lemma chat_records_props: "chat_records \<noteq> []" "UPSERT_BATCH < length chat_records"
  by (simp_all add: chat_records_def UPSERT_BATCH_def)

lemma chat_walked: "walked [chat_job] = [(chat_job, ''/a'')]"
  using chat_walk by (simp add: walked_def) (simp add: chat_job_def)

lemma chat_plan:
  assumes "telegram_records env = (\<lambda>_ _. chat_records)" "voice_records env = (\<lambda>_ _. [])" "hash_text env = (\<lambda>_. ''h'')"
    "extract_with_limit env = (\<lambda>_ _. Inr (Extracted_Text [65]))"
  shows "plan env False None (chat_job, ''/a'') = Some chat_item"
  using chat_records_props(1) chat_kind assms
  by (simp add: plan_def chat_job_def file_records_def select_records_def chat_item_def)

lemma map_store_ok: "qdrant_ok map_store id"
  by (simp add: qdrant_ok_def map_store_def)

lemma chat_healthy:
  "extract_with_limit env = extract_with_limit chat_env \<Longrightarrow> embed_batch env = embed_batch chat_env \<Longrightarrow> healthy env map_store"
  by (simp add: healthy_def map_store_def deletes_succeed_def chat_env_def)

lemma map_store_deletes: "deletes_succeed map_store"
  by (simp add: map_store_def deletes_succeed_def)

lemma default_current: "resync_required Index_default = None" "ix_files Index_default = []"
  by (simp_all add: resync_required_def Index_default_def)

lemma chat_item_simps [simp]: "pf_records chat_item = chat_records" "pf_key chat_item = ''/a''"
  by (simp_all add: chat_item_def)

theorem index_pass_meets_spec_witness:
  "\<exists>rep idx' q'. run_index chat_env map_store (Inr [chat_job]) False False Index_default Map.empty = (Inr rep, idx', q') \<and>
     map_of (ix_files idx') ''/a'' = Some (new_entry chat_env chat_item (map chunk_id chat_records))"
proof -
  have p: "plan chat_env False None (chat_job, ''/a'') = Some chat_item" by (rule chat_plan) simp_all
  have h: "healthy chat_env map_store" by (rule chat_healthy) simp_all
  from index_pass_meets_spec [OF map_store_ok h default_current(1), of "[chat_job]" Map.empty] obtain rep idx' q' where
    "run_index chat_env map_store (Inr [chat_job]) False False Index_default Map.empty = (Inr rep, idx', q')"
    "map_of (ix_files idx') ''/a'' = wanted chat_env None (chat_job, ''/a'')"
    by (auto simp: chat_walked default_current)
  with p show ?thesis by (auto simp: wanted_def)
qed

theorem index_pass_keeps_in_step_witness:
  "\<exists>rep idx' q'. run_index (chat_env\<lparr>cancel_at := Some 3\<rparr>) map_store (Inr [chat_job]) False False Index_default Map.empty = (Inr rep, idx', q') \<and>
     index_matches (\<lambda>_. ''/a'') (map_of (ix_files idx')) (id q')"
proof -
  let ?env = "chat_env\<lparr>cancel_at := Some 3\<rparr>"
  have h: "healthy ?env map_store" by (rule chat_healthy) simp_all
  obtain rep idx' q' where r: "run_index ?env map_store (Inr [chat_job]) False False Index_default Map.empty = (Inr rep, idx', q')"
    using run_index_returns [OF h, of Index_default False "[chat_job]" False Map.empty] default_current(1) by auto
  have "index_matches (\<lambda>_. ''/a'') (map_of (ix_files idx')) (id q')"
    by (rule index_pass_keeps_in_step [OF map_store_ok map_store_deletes _ _ _ r])
      (simp_all add: chat_walked index_matches_def default_current entry_ids_def)
  with r show ?thesis by blast
qed

theorem change_during_pass_never_indexed_witness:
  "\<exists>rep idx' q' rep2 idx2 q2. run_index (chat_env\<lparr>commit_mtime := \<lambda>_. 2\<rparr>) map_store (Inr [chat_job]) False False Index_default Map.empty = (Inr rep, idx', q') \<and>
     run_index (chat_env\<lparr>walk_mtime := \<lambda>_. 2, hash_text := \<lambda>_. ''new''\<rparr>) map_store (Inr [chat_job]) False False idx' q' = (Inr rep2, idx2, q2) \<and>
     id q2 = id q' \<and> map_of (ix_files idx2) ''/a'' = Some (new_entry (chat_env\<lparr>commit_mtime := \<lambda>_. 2\<rparr>) chat_item (map chunk_id chat_records))"
proof -
  let ?env = "chat_env\<lparr>commit_mtime := \<lambda>_. 2\<rparr>" and ?env2 = "chat_env\<lparr>walk_mtime := \<lambda>_. 2, hash_text := \<lambda>_. ''new''\<rparr>"
  have p: "plan ?env False None (chat_job, ''/a'') = Some chat_item" by (rule chat_plan) simp_all
  have h: "healthy ?env map_store" "healthy ?env2 map_store" by (rule chat_healthy; simp)+
  show ?thesis
    using change_during_pass_never_indexed [OF map_store_ok h default_current(1), of "[chat_job]" "(chat_job, ''/a'')" chat_item Map.empty] p
    by (simp add: chat_walked default_current)
qed

theorem emptied_file_stays_searchable_witness:
  "\<exists>rep idx' q'. run_index (chat_env\<lparr>extract_with_limit := \<lambda>_ _. Inr (Extracted_Skip Unsupported)\<rparr>) map_store (Inr [chat_job]) False False
       (Index_default\<lparr>ix_files := [(''/a'', \<lparr>fe_mtime = 0, content_hash = ''h'', point_ids = [''x'']\<rparr>)]\<rparr>) Map.empty = (Inr rep, idx', q') \<and>
     map_of (ix_files idx') = [''/a'' \<mapsto> \<lparr>fe_mtime = 0, content_hash = ''h'', point_ids = [''x'']\<rparr>] \<and> id q' = id Map.empty"
proof -
  let ?env = "chat_env\<lparr>extract_with_limit := \<lambda>_ _. Inr (Extracted_Skip Unsupported)\<rparr>"
  have h: "healthy ?env map_store"
    by (simp add: healthy_def map_store_def deletes_succeed_def) (simp add: chat_env_def)
  show ?thesis
    by (rule emptied_file_stays_searchable [OF map_store_ok h, where job = chat_job])
      (simp_all add: chat_walked resync_required_def Index_default_def)
qed

theorem failed_resync_empties_corpus_witness:
  "\<exists>s1 s2. run_full_resync (chat_env\<lparr>extract_with_limit := \<lambda>_ _. Inl ''stat /a''\<rparr>) map_store (Inr [chat_job]) 5 True
       \<lparr>pl_index = IndexParsed (Index_default\<lparr>ix_files := [(''/a'', \<lparr>fe_mtime = 1, content_hash = ''h'', point_ids = [''x'']\<rparr>)]\<rparr>),
        pl_q = Map.empty, pl_last = pass_stats 0 IndexReport_default\<rparr> = (Inr (), s1) \<and>
     run_one_pass chat_env map_store (Inr [chat_job]) 6 True s1 = s2 \<and> id (pl_q s2) = Map.empty \<and> ps_error (pl_last s2) = None"
proof -
  let ?bad = "chat_env\<lparr>extract_with_limit := \<lambda>_ _. Inl ''stat /a''\<rparr>"
  let ?idx = "Index_default\<lparr>ix_files := [(''/a'', \<lparr>fe_mtime = 1, content_hash = ''h'', point_ids = [''x'']\<rparr>)]\<rparr>"
  let ?s = "\<lparr>pl_index = IndexParsed ?idx, pl_q = Map.empty, pl_last = pass_stats 0 IndexReport_default\<rparr>"
  have h: "healthy chat_env map_store" by (rule chat_healthy) simp_all
  have f: "run_index ?bad map_store (Inr [chat_job]) False True Index_default Map.empty = (Inl ''stat /a'', Index_default, Map.empty)"
  proof -
    have j: "job_exists chat_job" "job_walk chat_job = [WalkEntry ''/a'' True]" "glob_filter chat_job = None"
        "path_file_name ''/a'' \<noteq> Some MANIFEST_FILENAME"
      using chat_walk by (simp_all add: chat_job_def walks_def)
    show ?thesis
      by (simp add: run_index_def Let_def cancelled_def scan_file_def j Index_default_def resync_required_def)
  qed
  have c: "q_recreate map_store (pl_q ?s) = (Inr (), Map.empty)" by (simp add: map_store_def)
  from failed_resync_empties_corpus [OF map_store_ok c f _ h, of ?idx 5 6] show ?thesis
    by (auto simp: chat_walked resync_required_def Index_default_def)
qed

theorem cancelled_pass_commits_partial_file_witness:
  "\<exists>rep idx' q' rep2 idx2 q2. run_index (chat_env\<lparr>cancel_at := Some 3\<rparr>) map_store (Inr [chat_job]) False False Index_default Map.empty = (Inr rep, idx', q') \<and>
     run_index chat_env map_store (Inr [chat_job]) False False idx' q' = (Inr rep2, idx2, q2) \<and> id q2 = id q' \<and>
     map_of (ix_files idx2) ''/a'' = Some (new_entry chat_env chat_item (take 64 (map chunk_id chat_records)))"
proof -
  let ?env = "chat_env\<lparr>cancel_at := Some 3\<rparr>"
  have p: "plan ?env False None (chat_job, ''/a'') = Some chat_item" by (rule chat_plan) simp_all
  have h: "healthy ?env map_store" by (rule chat_healthy) simp_all
  have e: "?env\<lparr>cancel_at := None\<rparr> = chat_env" "new_entry ?env = new_entry chat_env"
    by (simp_all add: chat_env_def new_entry_def fun_eq_iff)
  have j: "job_exists chat_job" "job_walk chat_job = [WalkEntry ''/a'' True]" by (simp_all add: chat_job_def)
  show ?thesis
    using cancelled_pass_commits_partial_file [OF map_store_ok h _ default_current j chat_walk p, of Map.empty] chat_records_props(2)
    by (simp add: e UPSERT_BATCH_def)
qed

end
