(* ===== verification/Knowledge_Daemon.thy ===== *)
theory Knowledge_Daemon
  imports Prelude
begin

text \<open>
  The control loop of the knowledge daemon (\<open>run\<close> and \<open>apply_op\<close> of \<open>knowledge/daemon.rs\<close>): one
  thread translates requests into the loop's channel and the two shared flags, the loop drains
  the channel, decides on a pass and runs it. The threads meet only in the channel and the
  flags, so a step is one access to them; the pass itself is between \<open>start\<close> and \<open>finish\<close> (or
  \<open>recreate_failed\<close>, the early return of a resync, which leaves the cancel flag as it is).
  \<open>tickle\<close> is the file watcher, \<open>abort\<close> the cancel method of the server, \<open>signal\<close> the handler of
  SIGTERM, whose flag the loop reads at its top. What an iteration finds outside the channel
  (the manifests on disk, the worker gate, the clocks) is the record \<open>conditions\<close>.
\<close>

section \<open>Requests\<close>

datatype Op = RefreshSources | IndexNow | FullResync | ReloadSchedule | RescanDiscovery
  | Pause | Resume | TogglePause | Cancel | Shutdown

datatype DaemonOp = Ipc Op | FsTickle | DiscoveryTickle

record wants =
  want_index_user :: bool
  want_index_fs :: bool
  want_rescan :: bool
  want_refresh :: bool
  want_full_resync :: bool
  want_schedule_reload :: bool
  want_pause :: bool
  want_resume :: bool
  want_toggle_pause :: bool
  want_cancel :: bool
  want_shutdown :: bool

definition no_wants :: wants where
  "no_wants = \<lparr>want_index_user = False, want_index_fs = False, want_rescan = False, want_refresh = False,
     want_full_resync = False, want_schedule_reload = False, want_pause = False, want_resume = False,
     want_toggle_pause = False, want_cancel = False, want_shutdown = False\<rparr>"

fun apply_op :: "DaemonOp \<Rightarrow> wants \<Rightarrow> wants" where
  "apply_op (Ipc IndexNow) w = w\<lparr>want_index_user := True\<rparr>"
| "apply_op (Ipc RefreshSources) w = w\<lparr>want_refresh := True, want_rescan := True, want_index_user := True\<rparr>"
| "apply_op (Ipc FullResync) w = w\<lparr>want_full_resync := True\<rparr>"
| "apply_op (Ipc ReloadSchedule) w = w\<lparr>want_schedule_reload := True\<rparr>"
| "apply_op (Ipc RescanDiscovery) w = w\<lparr>want_rescan := True\<rparr>"
| "apply_op (Ipc Pause) w = w\<lparr>want_pause := True\<rparr>"
| "apply_op (Ipc Resume) w = w\<lparr>want_resume := True\<rparr>"
| "apply_op (Ipc TogglePause) w = w\<lparr>want_toggle_pause := True\<rparr>"
| "apply_op (Ipc Cancel) w = w\<lparr>want_cancel := True\<rparr>"
| "apply_op (Ipc Shutdown) w = w\<lparr>want_shutdown := True\<rparr>"
| "apply_op FsTickle w = w\<lparr>want_index_fs := True\<rparr>"
| "apply_op DiscoveryTickle w = w\<lparr>want_rescan := True\<rparr>"

section \<open>The bridge thread\<close>

record shared =
  paused :: bool
  cancel :: bool
  channel :: "DaemonOp list"

text \<open>What is left to do for a request after its first access to the shared state.\<close>

datatype bridge = BIdle | BSetCancel | BSend Op | BToggle bool

fun bridge_begin :: "Op \<Rightarrow> shared \<Rightarrow> bridge \<times> shared" where
  "bridge_begin Pause s = (BSetCancel, s\<lparr>paused := True\<rparr>)"
| "bridge_begin Resume s = ((if paused s then BSend IndexNow else BIdle), s\<lparr>paused := False\<rparr>)"
| "bridge_begin TogglePause s = (BToggle (\<not> paused s), s)"
| "bridge_begin Cancel s = (BIdle, s\<lparr>cancel := True\<rparr>)"
| "bridge_begin other s = (BIdle, s\<lparr>channel := channel s @ [Ipc other]\<rparr>)"

fun bridge_rest :: "bridge \<Rightarrow> shared \<Rightarrow> bridge \<times> shared" where
  "bridge_rest BIdle s = (BIdle, s)"
| "bridge_rest BSetCancel s = (BIdle, s\<lparr>cancel := True\<rparr>)"
| "bridge_rest (BSend op) s = (BIdle, s\<lparr>channel := channel s @ [Ipc op]\<rparr>)"
| "bridge_rest (BToggle now_paused) s = ((if now_paused then BSetCancel else BSend IndexNow), s\<lparr>paused := now_paused\<rparr>)"

section \<open>The loop\<close>

record conditions =
  manifests_changed :: bool
  workers_ready :: bool
  interval_over :: bool
  fs_floor_over :: bool

definition drain :: "DaemonOp list \<Rightarrow> wants" where
  "drain ops = fold apply_op ops no_wants"

definition loop_wants :: "conditions \<Rightarrow> bool \<Rightarrow> wants \<Rightarrow> wants" where
  "loop_wants c first_pass w0 =
     (let w1 = (if first_pass then w0\<lparr>want_index_user := True\<rparr> else w0);
          w2 = (if want_rescan w1 \<and> manifests_changed c then w1\<lparr>want_refresh := True, want_index_user := True\<rparr> else w1) in
      if workers_ready c then w2
      else w2\<lparr>want_index_user := False, want_index_fs := False, want_full_resync := False\<rparr>)"

datatype pass = Resync | Pass bool

definition choose_pass :: "bool \<Rightarrow> conditions \<Rightarrow> wants \<Rightarrow> pass option" where
  "choose_pass is_paused c w =
     (if is_paused then None
      else if want_full_resync w then Some Resync
      else let scheduled_due = (workers_ready c \<and> interval_over c); fs_due = (want_index_fs w \<and> fs_floor_over c) in
        if want_index_user w \<or> scheduled_due \<or> fs_due then Some (Pass (scheduled_due \<or> fs_due)) else None)"

datatype phase = Waiting | Deciding conditions wants | Starting pass | Running pass | Stopped

record daemon =
  d_shared :: shared
  d_bridge :: bridge
  d_phase :: phase
  d_first :: bool

inductive daemon_step :: "daemon \<Rightarrow> daemon \<Rightarrow> bool" where
  request: "d_bridge d = BIdle \<Longrightarrow> bridge_begin op (d_shared d) = (b, s) \<Longrightarrow>
    daemon_step d (d\<lparr>d_bridge := b, d_shared := s\<rparr>)"
| continue: "d_bridge d \<noteq> BIdle \<Longrightarrow> bridge_rest (d_bridge d) (d_shared d) = (b, s) \<Longrightarrow>
    daemon_step d (d\<lparr>d_bridge := b, d_shared := s\<rparr>)"
| tickle: "ev \<in> {FsTickle, DiscoveryTickle} \<Longrightarrow>
    daemon_step d (d\<lparr>d_shared := (d_shared d)\<lparr>channel := channel (d_shared d) @ [ev]\<rparr>\<rparr>)"
| abort: "daemon_step d (d\<lparr>d_shared := (d_shared d)\<lparr>cancel := True\<rparr>\<rparr>)"
| tick: "d_phase d = Waiting \<Longrightarrow> w = drain (channel (d_shared d)) \<Longrightarrow>
    daemon_step d (d\<lparr>d_shared := (d_shared d)\<lparr>channel := []\<rparr>,
      d_phase := (if want_shutdown w then Stopped else Deciding c (loop_wants c (d_first d) w)),
      d_first := (if want_shutdown w then d_first d else False)\<rparr>)"
| decide: "d_phase d = Deciding c w \<Longrightarrow>
    daemon_step d (d\<lparr>d_phase := (case choose_pass (paused (d_shared d)) c w of None \<Rightarrow> Waiting | Some p \<Rightarrow> Starting p)\<rparr>)"
| start: "d_phase d = Starting p \<Longrightarrow>
    daemon_step d (d\<lparr>d_shared := (d_shared d)\<lparr>cancel := False\<rparr>, d_phase := Running p\<rparr>)"
| signal: "d_phase d = Waiting \<Longrightarrow> daemon_step d (d\<lparr>d_phase := Stopped\<rparr>)"
| recreate_failed: "d_phase d = Running Resync \<Longrightarrow> daemon_step d (d\<lparr>d_phase := Waiting\<rparr>)"
| finish: "d_phase d = Running p \<Longrightarrow>
    daemon_step d (d\<lparr>d_shared := (d_shared d)\<lparr>cancel := False\<rparr>, d_phase := Waiting\<rparr>)"

inductive_cases daemon_stepE: "daemon_step d d'"

definition daemon_init :: "bool \<Rightarrow> daemon" where
  "daemon_init migrate_schema =
     \<lparr>d_shared = \<lparr>paused = False, cancel = False, channel = (if migrate_schema then [Ipc FullResync] else [])\<rparr>,
      d_bridge = BIdle, d_phase = Waiting, d_first = True\<rparr>"

section \<open>Lemmas\<close>

lemma bridge_begin_cancel: "bridge_begin op s = (b, s') \<Longrightarrow> cancel s \<Longrightarrow> cancel s'"
  by (cases op) auto

lemma bridge_rest_cancel: "bridge_rest b0 s = (b, s') \<Longrightarrow> cancel s \<Longrightarrow> cancel s'"
  by (cases b0) auto

lemma fold_flag:
  assumes "\<And>e w. f (apply_op e w) \<longleftrightarrow> f w \<or> e \<in> A"
  shows "f (fold apply_op ops w) \<longleftrightarrow> f w \<or> set ops \<inter> A \<noteq> {}"
  using assms by (induction ops arbitrary: w) auto

lemma drain_flags:
  "want_full_resync (drain ops) \<longleftrightarrow> Ipc FullResync \<in> set ops"
  "want_shutdown (drain ops) \<longleftrightarrow> Ipc Shutdown \<in> set ops"
  "want_index_user (drain ops) \<longleftrightarrow> Ipc IndexNow \<in> set ops \<or> Ipc RefreshSources \<in> set ops"
proof -
  have f: "want_full_resync (apply_op e w) \<longleftrightarrow> want_full_resync w \<or> e \<in> {Ipc FullResync}"
      "want_shutdown (apply_op e w) \<longleftrightarrow> want_shutdown w \<or> e \<in> {Ipc Shutdown}"
      "want_index_user (apply_op e w) \<longleftrightarrow> want_index_user w \<or> e \<in> {Ipc IndexNow, Ipc RefreshSources}" for e w
    by (cases "(e, w)" rule: apply_op.cases; simp)+
  show "want_full_resync (drain ops) \<longleftrightarrow> Ipc FullResync \<in> set ops"
    unfolding drain_def fold_flag [of want_full_resync, OF f(1)] by (simp add: no_wants_def)
  show "want_shutdown (drain ops) \<longleftrightarrow> Ipc Shutdown \<in> set ops"
    unfolding drain_def fold_flag [of want_shutdown, OF f(2)] by (simp add: no_wants_def)
  show "want_index_user (drain ops) \<longleftrightarrow> Ipc IndexNow \<in> set ops \<or> Ipc RefreshSources \<in> set ops"
    unfolding drain_def fold_flag [of want_index_user, OF f(3)] by (auto simp: no_wants_def)
qed

lemma loop_wants_resync: "want_full_resync (loop_wants c first w) \<longleftrightarrow> want_full_resync w \<and> workers_ready c"
  by (simp add: loop_wants_def Let_def)

lemma choose_not_ready: "\<not> workers_ready c \<Longrightarrow> choose_pass pz c (loop_wants c first w) = None"
  by (simp add: loop_wants_def choose_pass_def Let_def)

lemma cancel_kept:
  assumes "daemon_step d d'" "d_phase d = Running p" "d_phase d' = Running p" "cancel (d_shared d)"
  shows "cancel (d_shared d')"
  using assms by cases (auto dest: bridge_begin_cancel bridge_rest_cancel)

section \<open>Properties\<close>



text \<open>
  A pause that arrives after the loop has looked at the paused flag and before the pass clears
  the cancel flag is missed: the daemon is paused, the request is fully handled, and a pass runs
  with the cancel flag down.
\<close>

theorem pause_can_miss_starting_pass:
  "\<exists>d. daemon_step\<^sup>*\<^sup>* (daemon_init False) d \<and> d_phase d = Running (Pass False) \<and> paused (d_shared d) \<and>
     \<not> cancel (d_shared d) \<and> d_bridge d = BIdle"
proof -
  let ?c = "\<lparr>manifests_changed = False, workers_ready = True, interval_over = False, fs_floor_over = False\<rparr>"
  let ?w = "loop_wants ?c True no_wants"
  define s0 where "s0 = \<lparr>paused = False, cancel = False, channel = []\<rparr>"
  define d0 where "d0 = \<lparr>d_shared = s0, d_bridge = BIdle, d_phase = Waiting, d_first = True\<rparr>"
  define d1 where "d1 = d0\<lparr>d_phase := Deciding ?c ?w, d_first := False\<rparr>"
  define d2 where "d2 = d1\<lparr>d_phase := Starting (Pass False)\<rparr>"
  define d3 where "d3 = d2\<lparr>d_bridge := BSetCancel, d_shared := s0\<lparr>paused := True\<rparr>\<rparr>"
  define d4 where "d4 = d2\<lparr>d_bridge := BIdle, d_shared := s0\<lparr>paused := True, cancel := True\<rparr>\<rparr>"
  define d5 where "d5 = d2\<lparr>d_bridge := BIdle, d_shared := s0\<lparr>paused := True, cancel := False\<rparr>, d_phase := Running (Pass False)\<rparr>"
  have w: "choose_pass False ?c ?w = Some (Pass False)" by (simp add: choose_pass_def loop_wants_def no_wants_def)
  have "daemon_step d0 d1"
    using daemon_step.tick [of d0 no_wants ?c]
    by (simp add: d0_def d1_def s0_def drain_def no_wants_def)
  moreover have "daemon_step d1 d2"
    using daemon_step.decide [of d1 ?c ?w] w by (simp add: d0_def d1_def d2_def s0_def)
  moreover have "daemon_step d2 d3"
    using daemon_step.request [of d2 Pause BSetCancel] by (simp add: d0_def d1_def d2_def d3_def s0_def)
  moreover have "daemon_step d3 d4"
    using daemon_step.continue [of d3 BIdle] by (simp add: d0_def d1_def d2_def d3_def d4_def s0_def)
  moreover have "daemon_step d4 d5"
    using daemon_step.start [of d4 "Pass False"] by (simp add: d0_def d1_def d2_def d4_def d5_def s0_def)
  ultimately have "daemon_step\<^sup>*\<^sup>* d0 d5" by (meson converse_rtranclp_into_rtranclp rtranclp.rtrancl_refl)
  moreover have "d0 = daemon_init False" by (simp add: d0_def daemon_init_def s0_def)
  ultimately show ?thesis by (intro exI [of _ d5]) (simp add: d5_def)
qed

definition no_resync :: "daemon \<Rightarrow> bool" where
  "no_resync d \<longleftrightarrow> Ipc FullResync \<notin> set (channel (d_shared d)) \<and> d_bridge d \<noteq> BSend FullResync \<and>
     (case d_phase d of Deciding c w \<Rightarrow> \<not> want_full_resync w | Starting p \<Rightarrow> p \<noteq> Resync | Running p \<Rightarrow> p \<noteq> Resync | _ \<Rightarrow> True)"

lemma choose_resync: "choose_pass pz c w = Some Resync \<Longrightarrow> want_full_resync w"
  by (auto simp: choose_pass_def Let_def split: if_splits)

lemma no_resync_step:
  assumes "daemon_step d d'" "no_resync d" "Ipc FullResync \<notin> set (channel (d_shared d'))"
  shows "no_resync d'"
  using assms
proof cases
  case (request op b s)
  have "b \<noteq> BSend FullResync" using request(3) by (cases op) (auto split: if_splits)
  with assms request show ?thesis by (auto simp: no_resync_def)
next
  case (continue b s)
  have "b \<noteq> BSend FullResync" using continue(3) by (cases "d_bridge d") (auto split: if_splits)
  with assms continue show ?thesis by (auto simp: no_resync_def)
qed (auto simp: no_resync_def drain_flags loop_wants_resync dest: choose_resync split: option.split)

text \<open>
  A full resync asked for while the daemon is paused, or while a required worker is not loaded,
  is forgotten: the loop takes it off the channel and no later iteration runs it unless it is
  asked for again. The request the daemon queues for itself at start-up to migrate the
  collection is no exception.
\<close>

theorem resync_lost_while_unready:
  assumes "d_phase d = Waiting" "Ipc Shutdown \<notin> set (channel (d_shared d))" "d_bridge d = BIdle" "paused (d_shared d) \<or> \<not> workers_ready c"
  shows "\<exists>d1 d2. daemon_step d d1 \<and> d_phase d1 = Deciding c (loop_wants c (d_first d) (drain (channel (d_shared d)))) \<and>
    daemon_step d1 d2 \<and> d_phase d2 = Waiting \<and>
    (\<forall>d'. (\<lambda>x y. daemon_step x y \<and> Ipc FullResync \<notin> set (channel (d_shared y)))\<^sup>*\<^sup>* d2 d' \<longrightarrow>
       d_phase d' \<noteq> Starting Resync \<and> d_phase d' \<noteq> Running Resync)"
proof -
  let ?w = "loop_wants c (d_first d) (drain (channel (d_shared d)))"
  let ?d1 = "d\<lparr>d_shared := (d_shared d)\<lparr>channel := []\<rparr>, d_phase := Deciding c ?w, d_first := False\<rparr>"
  let ?d2 = "?d1\<lparr>d_phase := Waiting\<rparr>"
  have "daemon_step d ?d1" using daemon_step.tick [OF assms(1) refl, of c] assms(2) by (simp add: drain_flags)
  moreover have "choose_pass (paused (d_shared d)) c ?w = None"
  proof (cases "paused (d_shared d)")
    case True
    then show ?thesis by (simp add: choose_pass_def)
  next
    case False
    then show ?thesis using assms(4) choose_not_ready by simp
  qed
  then have "daemon_step ?d1 ?d2" using daemon_step.decide [of ?d1 c ?w] by simp
  moreover have "d_phase d' \<noteq> Starting Resync \<and> d_phase d' \<noteq> Running Resync"
    if "(\<lambda>x y. daemon_step x y \<and> Ipc FullResync \<notin> set (channel (d_shared y)))\<^sup>*\<^sup>* ?d2 d'" for d'
  proof -
    have "no_resync ?d2" using assms(3) by (simp add: no_resync_def)
    with that have "no_resync d'"
      by (induction rule: rtranclp_induct) (auto intro: no_resync_step)
    then show ?thesis by (auto simp: no_resync_def)
  qed
  ultimately show ?thesis by (intro exI [of _ ?d1] exI [of _ ?d2]) simp
qed

theorem resync_lost_while_unready_witness:
  "\<exists>d1 d2. daemon_step (daemon_init True) d1 \<and> daemon_step d1 d2 \<and> d_phase d2 = Waiting \<and>
    (\<forall>d'. (\<lambda>x y. daemon_step x y \<and> Ipc FullResync \<notin> set (channel (d_shared y)))\<^sup>*\<^sup>* d2 d' \<longrightarrow>
       d_phase d' \<noteq> Starting Resync \<and> d_phase d' \<noteq> Running Resync)"
proof -
  let ?c = "\<lparr>manifests_changed = False, workers_ready = False, interval_over = False, fs_floor_over = False\<rparr>"
  have "d_phase (daemon_init True) = Waiting" "Ipc Shutdown \<notin> set (channel (d_shared (daemon_init True)))"
      "d_bridge (daemon_init True) = BIdle" "paused (d_shared (daemon_init True)) \<or> \<not> workers_ready ?c"
    by (simp_all add: daemon_init_def)
  from resync_lost_while_unready [OF this] show ?thesis by blast
qed

text \<open>
  Resuming catches up: the request to index that the bridge queues when it lifts the pause
  leads to a pass in the next iteration, whatever else was queued, when the workers are loaded.
\<close>

theorem resume_catches_up:
  assumes "paused s" "bridge_begin Resume s = (b, s1)" "bridge_rest b s1 = (b2, s2)" "workers_ready c"
  shows "\<not> paused s2 \<and> choose_pass (paused s2) c (loop_wants c first (drain (channel s2))) \<noteq> None"
proof -
  have s2: "s2 = s\<lparr>paused := False, channel := channel s @ [Ipc IndexNow]\<rparr>" using assms(1-3) by auto
  have "want_index_user (loop_wants c first (drain (channel s2)))"
    using assms(4) by (simp add: s2 loop_wants_def drain_flags Let_def)
  then show ?thesis by (simp add: s2 choose_pass_def Let_def)
qed

theorem resume_catches_up_witness:
  "choose_pass False \<lparr>manifests_changed = False, workers_ready = True, interval_over = False, fs_floor_over = False\<rparr>
     (loop_wants \<lparr>manifests_changed = False, workers_ready = True, interval_over = False, fs_floor_over = False\<rparr> False
       (drain [FsTickle, Ipc IndexNow])) \<noteq> None"
  using resume_catches_up [of "\<lparr>paused = True, cancel = False, channel = [FsTickle]\<rparr>" "BSend IndexNow"
      "\<lparr>paused = False, cancel = False, channel = [FsTickle]\<rparr>" BIdle "\<lparr>paused = False, cancel = False, channel = [FsTickle, Ipc IndexNow]\<rparr>"
      "\<lparr>manifests_changed = False, workers_ready = True, interval_over = False, fs_floor_over = False\<rparr>" False]
  by simp

text \<open>
  A file change reported less than \<open>FS_TICKLE_FLOOR\<close> after the last pass that a change
  triggered is taken off the channel without a pass and is not remembered: the next pass is the
  scheduled one, or one that something else asks for.
\<close>

theorem change_within_floor_forgotten:
  assumes "d_phase d = Waiting" "\<not> d_first d" "channel (d_shared d) = [FsTickle]" "\<not> interval_over c" "\<not> fs_floor_over c"
  shows "\<exists>d1 d2. daemon_step d d1 \<and> d_phase d1 = Deciding c (loop_wants c False (drain [FsTickle])) \<and>
    daemon_step d1 d2 \<and> d_phase d2 = Waiting \<and> channel (d_shared d2) = []"
proof -
  let ?w = "loop_wants c False (drain [FsTickle])"
  let ?d1 = "d\<lparr>d_shared := (d_shared d)\<lparr>channel := []\<rparr>, d_phase := Deciding c ?w, d_first := False\<rparr>"
  let ?d2 = "?d1\<lparr>d_phase := Waiting\<rparr>"
  have "daemon_step d ?d1"
    using daemon_step.tick [OF assms(1) refl, of c] assms(2,3) by (simp add: drain_flags)
  moreover have "choose_pass (paused (d_shared d)) c ?w = None"
    using assms(4,5) by (simp add: choose_pass_def loop_wants_def drain_def no_wants_def Let_def)
  then have "daemon_step ?d1 ?d2" using daemon_step.decide [of ?d1 c ?w] by simp
  ultimately show ?thesis by (intro exI [of _ ?d1] exI [of _ ?d2]) simp
qed

theorem change_within_floor_forgotten_witness:
  "\<exists>d1 d2. daemon_step \<lparr>d_shared = \<lparr>paused = False, cancel = False, channel = [FsTickle]\<rparr>, d_bridge = BIdle,
      d_phase = Waiting, d_first = False\<rparr> d1 \<and> daemon_step d1 d2 \<and> d_phase d2 = Waiting \<and> channel (d_shared d2) = []"
proof -
  let ?d = "\<lparr>d_shared = \<lparr>paused = False, cancel = False, channel = [FsTickle]\<rparr>, d_bridge = BIdle,
      d_phase = Waiting, d_first = False\<rparr>"
  let ?c = "\<lparr>manifests_changed = False, workers_ready = True, interval_over = False, fs_floor_over = False\<rparr>"
  from change_within_floor_forgotten [of ?d ?c] show ?thesis by auto
qed

end
