(* ===== verification/Ai_Worker.thy ===== *)
theory Ai_Worker
  imports Ipc_Envelope
begin

text \<open>
  A worker process of the AI plane (\<open>aiplane/worker/runner.rs\<close>) and its wire types
  (\<open>aiplane/worker_ipc.rs\<close>): the loader thread, the serve loop and one thread per batch, which
  meet in the worker's state and in the slot that names the batch in flight. A step is one
  access to these two; the model's own answer (ONNX Runtime) is part of the step.
\<close>

section \<open>Wire types\<close>

text \<open>\<open>f64\<close> values are their bit patterns: the modelled code hands the average on and never compares it.\<close>

type_synonym f64 = u64

datatype WorkerReq = ReqHealth | ReqRunBatch ulid "WorkloadInput list" | ReqCancel ulid | ReqShutdown

record WorkerHealth =
  wh_kind :: "WorkloadKind option"
  wh_state :: WorkloadState
  wh_model_stem :: string
  wh_pid :: u32
  wh_ready_at_unix :: u64
  wh_ema_ms :: f64
  wh_calls :: u64
  wh_errors :: u64
  inflight_request_id :: "ulid option"

datatype WorkerResp = RespHealth WorkerHealth | RespRunBatch "WorkloadOutput list" | RespError string
  | RespCancelAck | RespShutdownAck

datatype WorkerIpcError = WorkerDown | Wire string

section \<open>The worker's state\<close>

record InternalState =
  ws_kind :: WorkloadKind
  ws_model_stem :: string
  ws_pid :: u32
  workload_state :: WorkloadState
  ws_ready_at_unix :: u64
  ws_ema_ms :: f64
  ws_calls :: u64
  ws_errors :: u64

definition InternalState_new :: "WorkloadKind \<Rightarrow> string \<Rightarrow> u32 \<Rightarrow> InternalState" where
  "InternalState_new kind stem pid =
     \<lparr>ws_kind = kind, ws_model_stem = stem, ws_pid = pid, workload_state = NotPrepared,
      ws_ready_at_unix = 0, ws_ema_ms = 0, ws_calls = 0, ws_errors = 0\<rparr>"

definition to_health :: "InternalState \<Rightarrow> ulid option \<Rightarrow> WorkerHealth" where
  "to_health s inflight_id =
     \<lparr>wh_kind = Some (ws_kind s), wh_state = workload_state s, wh_model_stem = ws_model_stem s, wh_pid = ws_pid s,
      wh_ready_at_unix = ws_ready_at_unix s, wh_ema_ms = ws_ema_ms s, wh_calls = ws_calls s, wh_errors = ws_errors s,
      inflight_request_id = inflight_id\<rparr>"

text \<open>\<open>None\<close> is the error for a kind without a worker.\<close>

definition build_workload :: "WorkloadKind \<Rightarrow> WorkloadKind option" where
  "build_workload kind = (if kind \<in> {Embed, Rerank, Vad, Stt, Ocr} then Some kind else None)"

section \<open>The loader thread\<close>

definition loader_begin :: "InternalState \<Rightarrow> InternalState" where
  "loader_begin s = s\<lparr>workload_state := Loading\<rparr>"

text \<open>\<open>loaded\<close> is the answer of \<open>Workload::load\<close>, on success the name of the backend.\<close>

definition loader_end :: "u64 \<Rightarrow> string + string \<Rightarrow> InternalState \<Rightarrow> InternalState" where
  "loader_end now loaded s =
     (case loaded of
        Inr backend \<Rightarrow> s\<lparr>workload_state := WsReady (if backend = [] then ''unknown'' else backend), ws_ready_at_unix := now\<rparr>
      | Inl reason \<Rightarrow> s\<lparr>workload_state := WsFailed reason\<rparr>)"

section \<open>One batch\<close>

fun batch_gate :: "WorkloadState \<Rightarrow> WorkerResp option" where
  "batch_gate (WsReady _) = None"
| "batch_gate Loading = Some (RespError ''worker still loading'')"
| "batch_gate (WsFailed reason) = Some (RespError (''worker load failed: '' @ reason))"
| "batch_gate NotPrepared = Some (RespError ''worker not prepared (model file missing)'')"
| "batch_gate Unavailable = Some (RespError ''worker unavailable'')"

text \<open>\<open>length_error\<close> renders the two lengths, \<open>next_ema\<close> is the floating-point average.\<close>

definition batch_finish ::
  "(nat \<Rightarrow> nat \<Rightarrow> string) \<Rightarrow> (f64 \<Rightarrow> f64) \<Rightarrow> nat \<Rightarrow> string + WorkloadOutput list \<Rightarrow> InternalState \<Rightarrow> WorkerResp \<times> InternalState" where
  "batch_finish length_error next_ema n result s =
     (case result of
        Inr outputs \<Rightarrow>
          if length outputs \<noteq> n then (RespError (length_error (length outputs) n), s\<lparr>ws_errors := ws_errors s + 1\<rparr>)
          else (RespRunBatch outputs, s\<lparr>ws_calls := ws_calls s + 1, ws_ema_ms := next_ema (ws_ema_ms s)\<rparr>)
      | Inl e \<Rightarrow> (RespError e, s\<lparr>ws_errors := ws_errors s + 1\<rparr>))"

section \<open>Threads\<close>

datatype loader = LoaderNew | LoaderRunning | LoaderDone

datatype batch_phase = Spawned | Marked | InModel | Answering WorkerResp | Unmarked WorkerResp | Replied WorkerResp

record batch =
  bt_id :: ulid
  bt_inputs :: "WorkloadInput list"
  bt_phase :: batch_phase

record worker =
  wk_state :: InternalState
  wk_inflight :: "ulid option"
  wk_loader :: loader
  wk_shutdown :: bool
  wk_batches :: "batch list"
  wk_try_cancels :: nat

definition worker_new :: "WorkloadKind \<Rightarrow> string \<Rightarrow> u32 \<Rightarrow> worker" where
  "worker_new kind stem pid =
     \<lparr>wk_state = InternalState_new kind stem pid, wk_inflight = None, wk_loader = LoaderNew, wk_shutdown = False,
      wk_batches = [], wk_try_cancels = 0\<rparr>"

definition dispatch_req :: "WorkerReq \<Rightarrow> worker \<Rightarrow> WorkerResp" where
  "dispatch_req req w = (case req of
      ReqHealth \<Rightarrow> RespHealth (to_health (wk_state w) (wk_inflight w))
    | ReqShutdown \<Rightarrow> RespShutdownAck
    | _ \<Rightarrow> RespError ''internal: RunBatch/Cancel must route through serve_loop'')"

text \<open>
  One turn of the serve loop: the reply it writes itself, if any, and the state it leaves. A
  batch is handed to a thread of its own.
\<close>

definition serve_req :: "WorkerReq \<Rightarrow> worker \<Rightarrow> WorkerResp option \<times> worker" where
  "serve_req req w = (case req of
      ReqRunBatch rid inputs \<Rightarrow>
        (None, w\<lparr>wk_batches := wk_batches w @ [\<lparr>bt_id = rid, bt_inputs = inputs, bt_phase = Spawned\<rparr>]\<rparr>)
    | ReqCancel rid \<Rightarrow>
        (Some RespCancelAck, if wk_inflight w = Some rid then w\<lparr>wk_try_cancels := Suc (wk_try_cancels w)\<rparr> else w)
    | ReqShutdown \<Rightarrow> (Some (dispatch_req ReqShutdown w), w\<lparr>wk_shutdown := True\<rparr>)
    | ReqHealth \<Rightarrow> (Some (dispatch_req ReqHealth w), w))"

text \<open>One step of a batch thread, with the answer of the model where it calls it.\<close>

definition batch_step ::
  "(nat \<Rightarrow> nat \<Rightarrow> string) \<Rightarrow> (f64 \<Rightarrow> f64) \<Rightarrow> string + WorkloadOutput list \<Rightarrow> nat \<Rightarrow> worker \<Rightarrow> worker" where
  "batch_step length_error next_ema result i w =
     (let b = wk_batches w ! i; put = (\<lambda>ph. (wk_batches w)[i := b\<lparr>bt_phase := ph\<rparr>]) in
      case bt_phase b of
        Spawned \<Rightarrow> w\<lparr>wk_inflight := Some (bt_id b), wk_batches := put Marked\<rparr>
      | Marked \<Rightarrow> w\<lparr>wk_batches := put (case batch_gate (workload_state (wk_state w)) of None \<Rightarrow> InModel | Some r \<Rightarrow> Answering r)\<rparr>
      | InModel \<Rightarrow>
          (let (r, s) = batch_finish length_error next_ema (length (bt_inputs b)) result (wk_state w)
           in w\<lparr>wk_state := s, wk_batches := put (Answering r)\<rparr>)
      | Answering r \<Rightarrow> w\<lparr>wk_inflight := None, wk_batches := put (Unmarked r)\<rparr>
      | Unmarked r \<Rightarrow> w\<lparr>wk_batches := put (Replied r)\<rparr>
      | Replied r \<Rightarrow> w)"

inductive worker_step :: "worker \<Rightarrow> worker \<Rightarrow> bool" where
  serve: "\<not> wk_shutdown w \<Longrightarrow> worker_step w (snd (serve_req req w))"
| load: "wk_loader w = LoaderNew \<Longrightarrow>
    worker_step w (w\<lparr>wk_loader := LoaderRunning, wk_state := loader_begin (wk_state w)\<rparr>)"
| loaded: "wk_loader w = LoaderRunning \<Longrightarrow>
    worker_step w (w\<lparr>wk_loader := LoaderDone, wk_state := loader_end now r (wk_state w)\<rparr>)"
| batch: "i < length (wk_batches w) \<Longrightarrow> worker_step w (batch_step le ne r i w)"
| stop: "worker_step w (w\<lparr>wk_shutdown := True\<rparr>)"

inductive_cases worker_stepE: "worker_step w w'"

section \<open>Replies\<close>

fun batch_ok :: "WorkloadState \<Rightarrow> batch \<Rightarrow> bool" where
  "batch_ok st b = (case bt_phase b of
      InModel \<Rightarrow> is_ready st
    | Answering (RespRunBatch outs) \<Rightarrow> is_ready st \<and> length outs = length (bt_inputs b)
    | Unmarked (RespRunBatch outs) \<Rightarrow> is_ready st \<and> length outs = length (bt_inputs b)
    | Replied (RespRunBatch outs) \<Rightarrow> is_ready st \<and> length outs = length (bt_inputs b)
    | _ \<Rightarrow> True)"

definition worker_inv :: "worker \<Rightarrow> bool" where
  "worker_inv w \<longleftrightarrow> list_all (batch_ok (workload_state (wk_state w))) (wk_batches w) \<and>
     (is_ready (workload_state (wk_state w)) \<longrightarrow> wk_loader w = LoaderDone)"

lemma batch_finish_state [simp]: "workload_state (snd (batch_finish le ne n r s)) = workload_state s"
  by (simp add: batch_finish_def split: sum.split)

lemma batch_finish_run: "fst (batch_finish le ne n r s) = RespRunBatch outs \<Longrightarrow> length outs = n"
  by (auto simp: batch_finish_def split: sum.splits if_splits)

lemma batch_gate_ready: "batch_gate st = None \<longleftrightarrow> is_ready st"
  by (cases st) simp_all

lemma batch_gate_error: "batch_gate st = Some r \<Longrightarrow> \<exists>msg. r = RespError msg"
  by (cases st) auto

lemma list_all_update: "list_all P xs \<Longrightarrow> P x \<Longrightarrow> list_all P (xs[i := x])"
  by (auto simp: list_all_iff dest: set_update_subset_insert [THEN subsetD])

lemma serve_req_frame:
  "wk_state (snd (serve_req req w)) = wk_state w" "wk_loader (snd (serve_req req w)) = wk_loader w"
  "wk_inflight (snd (serve_req req w)) = wk_inflight w"
  "\<exists>bs. wk_batches (snd (serve_req req w)) = wk_batches w @ bs \<and> (\<forall>b \<in> set bs. bt_phase b = Spawned)"
  by (auto simp: serve_req_def split: WorkerReq.split)

lemma batch_step_frame [simp]:
  "workload_state (wk_state (batch_step le ne r i w)) = workload_state (wk_state w)"
  "wk_loader (batch_step le ne r i w) = wk_loader w"
  by (auto simp: batch_step_def Let_def split: batch_phase.split prod.split dest: arg_cong [of _ _ snd] arg_cong [of _ _ "\<lambda>p. workload_state (snd p)"])

lemma batch_step_put:
  assumes "i < length (wk_batches w)"
  shows "\<exists>ph. wk_batches (batch_step le ne r i w) = (wk_batches w)[i := (wk_batches w ! i)\<lparr>bt_phase := ph\<rparr>] \<and>
    (batch_ok st (wk_batches w ! i) \<and> st = workload_state (wk_state w) \<longrightarrow> batch_ok st ((wk_batches w ! i)\<lparr>bt_phase := ph\<rparr>))"
proof (cases "bt_phase (wk_batches w ! i)")
  case Spawned
  then show ?thesis by (intro exI [of _ Marked]) (simp add: batch_step_def Let_def)
next
  case Marked
  let ?g = "batch_gate (workload_state (wk_state w))"
  show ?thesis
  proof (cases ?g)
    case None
    then have "is_ready (workload_state (wk_state w))" by (simp add: batch_gate_ready)
    then show ?thesis using Marked None by (intro exI [of _ InModel]) (simp add: batch_step_def Let_def)
  next
    case (Some resp)
    with batch_gate_error obtain msg where "resp = RespError msg" by blast
    with Some show ?thesis using Marked by (intro exI [of _ "Answering resp"]) (simp add: batch_step_def Let_def)
  qed
next
  case InModel
  let ?f = "batch_finish le ne (length (bt_inputs (wk_batches w ! i))) r (wk_state w)"
  show ?thesis using InModel batch_finish_run [of le ne "length (bt_inputs (wk_batches w ! i))" r "wk_state w"]
    by (intro exI [of _ "Answering (fst ?f)"]) (auto simp: batch_step_def Let_def split: prod.split WorkerResp.split)
next
  case (Answering resp)
  then show ?thesis by (intro exI [of _ "Unmarked resp"]) (auto simp: batch_step_def Let_def split: WorkerResp.split)
next
  case (Unmarked resp)
  then show ?thesis by (intro exI [of _ "Replied resp"]) (auto simp: batch_step_def Let_def split: WorkerResp.split)
next
  case (Replied resp)
  then have same: "(wk_batches w ! i)\<lparr>bt_phase := Replied resp\<rparr> = wk_batches w ! i" by simp
  have "batch_step le ne r i w = w" using Replied by (simp add: batch_step_def Let_def)
  then show ?thesis by (intro exI [of _ "Replied resp"]) (simp only: same list_update_id simp_thms, blast)
qed

lemma worker_step_inv: "worker_step w w' \<Longrightarrow> worker_inv w \<Longrightarrow> worker_inv w'"
proof (induction rule: worker_step.induct)
  case (serve w req)
  obtain bs where bs: "wk_batches (snd (serve_req req w)) = wk_batches w @ bs" "\<forall>b \<in> set bs. bt_phase b = Spawned"
    using serve_req_frame(4) by blast
  from bs(2) have "list_all (batch_ok st) bs" for st by (simp add: list_all_iff)
  with serve show ?case by (simp add: worker_inv_def serve_req_frame bs(1))
next
  case (load w)
  then have "\<not> is_ready (workload_state (wk_state w))" by (auto simp: worker_inv_def)
  then have "batch_ok (workload_state (wk_state w)) b \<Longrightarrow> batch_ok Loading b" for b
    by (auto split: batch_phase.splits WorkerResp.splits)
  with load show ?case by (auto simp: worker_inv_def loader_begin_def list_all_iff)
next
  case (loaded w now r)
  then have "\<not> is_ready (workload_state (wk_state w))" by (auto simp: worker_inv_def)
  then have "batch_ok (workload_state (wk_state w)) b \<Longrightarrow> batch_ok st b" for b st
    by (auto split: batch_phase.splits WorkerResp.splits)
  with loaded show ?case by (auto simp: worker_inv_def list_all_iff)
next
  case (batch i w le ne r)
  let ?st = "workload_state (wk_state w)"
  have "batch_ok ?st (wk_batches w ! i)" using batch by (simp add: worker_inv_def list_all_length)
  with batch_step_put [OF batch.hyps, of le ne r ?st] obtain ph where
    "wk_batches (batch_step le ne r i w) = (wk_batches w)[i := (wk_batches w ! i)\<lparr>bt_phase := ph\<rparr>]"
    "batch_ok ?st ((wk_batches w ! i)\<lparr>bt_phase := ph\<rparr>)" by blast
  with batch.prems show ?case by (simp add: worker_inv_def list_all_update del: batch_ok.simps)
qed (simp add: worker_inv_def)

section \<open>Batches one at a time\<close>

definition batch_open :: "batch \<Rightarrow> bool" where
  "batch_open b \<longleftrightarrow> (case bt_phase b of Unmarked _ \<Rightarrow> False | Replied _ \<Rightarrow> False | _ \<Rightarrow> True)"

definition batch_marked :: "batch \<Rightarrow> bool" where
  "batch_marked b \<longleftrightarrow> (case bt_phase b of Marked \<Rightarrow> True | InModel \<Rightarrow> True | Answering _ \<Rightarrow> True | _ \<Rightarrow> False)"

definition serial :: "worker \<Rightarrow> bool" where
  "serial w \<longleftrightarrow> length (filter batch_open (wk_batches w)) \<le> 1"

definition running_id :: "worker \<Rightarrow> ulid option" where
  "running_id w = (case filter batch_marked (wk_batches w) of [] \<Rightarrow> None | b # _ \<Rightarrow> Some (bt_id b))"

lemma marked_open: "batch_marked b \<Longrightarrow> batch_open b"
  by (auto simp: batch_marked_def batch_open_def split: batch_phase.splits)

lemma filter_single_update:
  assumes "i < length xs" "P (xs ! i)" "length (filter P xs) \<le> 1" "\<And>x. Q x \<Longrightarrow> P x"
  shows "filter Q (xs[i := y]) = (if Q y then [y] else [])"
proof -
  have split: "xs = take i xs @ xs ! i # drop (Suc i) xs" using assms(1) by (simp add: id_take_nth_drop)
  have "filter P xs = filter P (take i xs) @ xs ! i # filter P (drop (Suc i) xs)"
    by (subst split) (simp add: assms(2))
  with assms(3) have "filter P (take i xs) = []" "filter P (drop (Suc i) xs) = []" by simp_all
  then have "filter Q (take i xs) = []" "filter Q (drop (Suc i) xs) = []"
    using assms(4) by (auto simp: filter_empty_conv)
  with assms(1) show ?thesis by (simp add: upd_conv_take_nth_drop)
qed

lemma batch_step_serial:
  assumes "i < length (wk_batches w)" "serial w" "wk_inflight w = running_id w"
  shows "wk_inflight (batch_step le ne r i w) = running_id (batch_step le ne r i w)"
proof (cases "batch_open (wk_batches w ! i)")
  case True
  let ?b = "wk_batches w ! i"
  have f: "filter batch_marked ((wk_batches w)[i := y]) = (if batch_marked y then [y] else [])" for y
    using filter_single_update [OF assms(1), of batch_open batch_marked y] True assms(2) marked_open
    by (simp add: serial_def)
  have self: "running_id w = (if batch_marked ?b then Some (bt_id ?b) else None)"
    using f [of ?b] by (simp add: running_id_def)
  show ?thesis
  proof (cases "bt_phase ?b")
    case Marked
    then show ?thesis using self assms(3)
      by (simp add: batch_step_def Let_def running_id_def f batch_marked_def split: option.split)
  next
    case InModel
    then show ?thesis using self assms(3)
      by (simp add: batch_step_def Let_def running_id_def f batch_marked_def split: prod.split)
  qed (use True in \<open>simp_all add: batch_step_def Let_def running_id_def f batch_marked_def batch_open_def\<close>)
next
  case False
  then consider r' where "bt_phase (wk_batches w ! i) = Unmarked r'" | r' where "bt_phase (wk_batches w ! i) = Replied r'"
    by (cases "bt_phase (wk_batches w ! i)") (auto simp: batch_open_def)
  then show ?thesis
  proof cases
    case 1
    let ?b = "(wk_batches w ! i)\<lparr>bt_phase := Replied r'\<rparr>"
    have "wk_batches w = take i (wk_batches w) @ wk_batches w ! i # drop (Suc i) (wk_batches w)"
      using assms(1) by (simp add: id_take_nth_drop)
    moreover have "\<not> batch_marked (wk_batches w ! i)" "\<not> batch_marked ?b" using 1 by (simp_all add: batch_marked_def)
    ultimately have "filter batch_marked ((wk_batches w)[i := ?b]) = filter batch_marked (wk_batches w)"
      by (metis assms(1) filter.simps(2) filter_append upd_conv_take_nth_drop)
    with 1 assms(3) show ?thesis by (simp add: batch_step_def Let_def running_id_def)
  qed (use assms(3) in \<open>simp add: batch_step_def Let_def\<close>)
qed

lemma serial_step_inv: "worker_step w w' \<Longrightarrow> serial w \<Longrightarrow> wk_inflight w = running_id w \<Longrightarrow> wk_inflight w' = running_id w'"
proof (induction rule: worker_step.induct)
  case (serve w req)
  obtain bs where bs: "wk_batches (snd (serve_req req w)) = wk_batches w @ bs" "\<forall>b \<in> set bs. bt_phase b = Spawned"
    using serve_req_frame(4) by blast
  from bs(2) have "filter batch_marked bs = []" by (simp add: filter_empty_conv batch_marked_def)
  with serve show ?case by (simp add: serve_req_frame running_id_def bs(1))
qed (simp_all add: running_id_def batch_step_serial [unfolded running_id_def])

section \<open>Properties\<close>

text \<open>
  C29. Whatever order the loader, the serve loop and the batch threads run in, a batch is only
  answered with outputs by a worker whose model is loaded, and with one output per input.
\<close>

theorem worker_batch_replies_honest:
  assumes "worker_step\<^sup>*\<^sup>* (worker_new kind stem pid) w" "b \<in> set (wk_batches w)" "bt_phase b = Replied (RespRunBatch outs)"
  shows "length outs = length (bt_inputs b) \<and> is_ready (workload_state (wk_state w))"
proof -
  have "worker_inv (worker_new kind stem pid)" by (simp add: worker_inv_def worker_new_def InternalState_new_def)
  with assms(1) have "worker_inv w" by (induction rule: rtranclp_induct) (auto intro: worker_step_inv)
  then have "batch_ok (workload_state (wk_state w)) b" using assms(2) by (simp add: worker_inv_def list_all_iff)
  then show ?thesis using assms(3) by simp
qed

lemma serial_reach_inflight:
  assumes "(\<lambda>x y. worker_step x y \<and> serial y)\<^sup>*\<^sup>* (worker_new kind stem pid) w"
  shows "serial w \<and> wk_inflight w = running_id w"
  using assms
proof (induction rule: rtranclp_induct)
  case base
  show ?case by (simp add: worker_new_def serial_def running_id_def)
next
  case (step y z)
  then show ?case using serial_step_inv by blast
qed

text \<open>
  With one batch at a time, the slot names the batch that is running, so a cancel request
  reaches the model exactly when it names that batch.
\<close>

theorem serial_cancel_exact:
  assumes "(\<lambda>x y. worker_step x y \<and> serial y)\<^sup>*\<^sup>* (worker_new kind stem pid) w"
  shows "wk_inflight w = running_id w \<and>
    (wk_try_cancels (snd (serve_req (ReqCancel rid) w)) = Suc (wk_try_cancels w) \<longleftrightarrow> running_id w = Some rid)"
  using serial_reach_inflight [OF assms] by (auto simp: serve_req_def)

text \<open>
  A model that failed to load is never loaded again: the worker goes on answering, and every
  probe reports the failure, whatever it is asked and however long it runs.
\<close>

theorem failed_load_is_final:
  assumes "workload_state (wk_state w) = WsFailed reason" "wk_loader w = LoaderDone" "worker_step\<^sup>*\<^sup>* w w'"
  shows "workload_state (wk_state w') = WsFailed reason \<and>
    (\<exists>h. dispatch_req ReqHealth w' = RespHealth h \<and> wh_state h = WsFailed reason)"
proof -
  from assms(3) have "workload_state (wk_state w') = WsFailed reason \<and> wk_loader w' = LoaderDone"
  proof (induction rule: rtranclp_induct)
    case (step y z)
    from step.hyps(2) step.IH show ?case by cases (simp_all add: serve_req_frame)
  qed (use assms in simp)
  then show ?thesis by (simp add: dispatch_req_def to_health_def)
qed

section \<open>A run with two batches\<close>

definition demo_ready :: worker where
  "demo_ready = (let w = worker_new Embed ''e5'' 7 in
     w\<lparr>wk_loader := LoaderDone, wk_state := loader_end 1 (Inr ''cpu'') (loader_begin (wk_state w))\<rparr>)"

definition demo_batch :: "batch_phase \<Rightarrow> ulid \<Rightarrow> batch" where
  "demo_batch ph n = \<lparr>bt_id = n, bt_inputs = [InText ''a''], bt_phase = ph\<rparr>"

definition demo_step :: "nat \<Rightarrow> worker \<Rightarrow> worker" where
  "demo_step = batch_step (\<lambda>m n. ''length'') id (Inr [OutScore 0])"

definition demo_req :: "ulid \<Rightarrow> worker \<Rightarrow> worker" where
  "demo_req n w = snd (serve_req (ReqRunBatch n [InText ''a'']) w)"

lemmas demo_defs = demo_ready_def demo_batch_def demo_step_def demo_req_def worker_new_def InternalState_new_def
  loader_begin_def loader_end_def batch_step_def serve_req_def batch_finish_def Let_def

lemma demo_ready_reach: "worker_step\<^sup>*\<^sup>* (worker_new Embed ''e5'' 7) demo_ready"
proof -
  let ?w = "worker_new Embed ''e5'' 7"
  let ?v = "?w\<lparr>wk_loader := LoaderRunning, wk_state := loader_begin (wk_state ?w)\<rparr>"
  have "worker_step ?w ?v" by (rule worker_step.load) (simp add: worker_new_def)
  moreover have "worker_step ?v demo_ready"
    using worker_step.loaded [of ?v 1 "Inr ''cpu''"] by (simp add: demo_ready_def Let_def)
  ultimately show ?thesis by (meson converse_rtranclp_into_rtranclp rtranclp.rtrancl_refl)
qed

lemma demo_req_reach: "worker_step\<^sup>*\<^sup>* w0 w \<Longrightarrow> \<not> wk_shutdown w \<Longrightarrow> worker_step\<^sup>*\<^sup>* w0 (demo_req n w)"
  unfolding demo_req_def by (rule rtranclp.rtrancl_into_rtrancl) (auto intro: worker_step.serve)

lemma demo_step_reach: "worker_step\<^sup>*\<^sup>* w0 w \<Longrightarrow> i < length (wk_batches w) \<Longrightarrow> worker_step\<^sup>*\<^sup>* w0 (demo_step i w)"
  unfolding demo_step_def by (rule rtranclp.rtrancl_into_rtrancl) (auto intro: worker_step.batch)

text \<open>
  With two batches at once the slot is overwritten by the second and cleared by whichever ends
  first: the other one then runs while a probe reports the worker idle, and a cancel request
  for it is acknowledged and does nothing.
\<close>

theorem overlapping_batches_hide_inflight:
  "\<exists>w b. worker_step\<^sup>*\<^sup>* (worker_new Embed ''e5'' 7) w \<and> b \<in> set (wk_batches w) \<and> bt_phase b = InModel \<and>
     wk_inflight w = None \<and> serve_req (ReqCancel (bt_id b)) w = (Some RespCancelAck, w)"
proof -
  let ?a = "demo_req 2 (demo_req 1 demo_ready)"
  let ?b = "demo_step 1 (demo_step 1 (demo_step 0 (demo_step 0 ?a)))"
  let ?c = "demo_step 0 (demo_step 0 ?b)"
  have c: "wk_batches ?c = [demo_batch (Unmarked (RespRunBatch [OutScore 0])) 1, demo_batch InModel 2]"
      "wk_inflight ?c = None"
    by (simp_all add: demo_defs)
  have len: "length (wk_batches (demo_step i w)) = length (wk_batches w)" for i w
    by (auto simp: demo_step_def batch_step_def Let_def split: batch_phase.split prod.split)
  have "length (wk_batches ?a) = 2" by (simp add: demo_defs)
  moreover have "worker_step\<^sup>*\<^sup>* (worker_new Embed ''e5'' 7) ?a"
    by (intro demo_req_reach demo_ready_reach) (simp_all add: demo_defs)
  ultimately have "worker_step\<^sup>*\<^sup>* (worker_new Embed ''e5'' 7) ?c"
    by (intro demo_step_reach) (simp_all add: len)
  moreover have "demo_batch InModel 2 \<in> set (wk_batches ?c)" unfolding c(1) by simp
  moreover have "serve_req (ReqCancel 2) ?c = (Some RespCancelAck, ?c)" using c(2) by (simp add: serve_req_def)
  moreover have "bt_phase (demo_batch InModel 2) = InModel" "bt_id (demo_batch InModel 2) = 2" by (simp_all add: demo_batch_def)
  ultimately show ?thesis using c(2) by metis
qed

section \<open>Witnesses\<close>

lemma demo_served:
  "wk_batches (demo_step 0 (demo_step 0 (demo_step 0 (demo_step 0 (demo_step 0 (demo_req 1 demo_ready)))))) =
     [demo_batch (Replied (RespRunBatch [OutScore 0])) 1]"
  by (simp add: demo_defs)

theorem worker_batch_replies_honest_witness:
  "length [OutScore 0] = length [InText ''a''] \<and>
     is_ready (workload_state (wk_state (demo_step 0 (demo_step 0 (demo_step 0 (demo_step 0 (demo_step 0 (demo_req 1 demo_ready))))))))"
proof -
  let ?w = "demo_step 0 (demo_step 0 (demo_step 0 (demo_step 0 (demo_step 0 (demo_req 1 demo_ready)))))"
  have len: "length (wk_batches (demo_step i w)) = length (wk_batches w)" for i w
    by (auto simp: demo_step_def batch_step_def Let_def split: batch_phase.split prod.split)
  have "worker_step\<^sup>*\<^sup>* (worker_new Embed ''e5'' 7) ?w"
    by (intro demo_step_reach demo_req_reach demo_ready_reach) (simp_all add: len, simp_all add: demo_defs)
  from worker_batch_replies_honest [OF this, of "demo_batch (Replied (RespRunBatch [OutScore 0])) 1" "[OutScore 0]"]
  show ?thesis unfolding demo_served by (simp add: demo_batch_def)
qed

theorem serial_cancel_exact_witness:
  "wk_try_cancels (snd (serve_req (ReqCancel 5) (worker_new Embed ''e5'' 7))) = 0"
proof -
  have "(\<lambda>x y. worker_step x y \<and> serial y)\<^sup>*\<^sup>* (worker_new Embed ''e5'' 7) (worker_new Embed ''e5'' 7)" by simp
  from serial_cancel_exact [OF this, of 5] show ?thesis
    by (simp add: serve_req_def running_id_def worker_new_def)
qed

theorem failed_load_is_final_witness:
  "\<exists>h. dispatch_req ReqHealth (demo_req 1 (demo_ready\<lparr>wk_state := loader_end 1 (Inl ''no model'') (wk_state demo_ready)\<rparr>)) = RespHealth h \<and>
     wh_state h = WsFailed ''no model''"
proof -
  let ?w = "demo_ready\<lparr>wk_state := loader_end 1 (Inl ''no model'') (wk_state demo_ready)\<rparr>"
  have "worker_step\<^sup>*\<^sup>* ?w (demo_req 1 ?w)" by (intro demo_req_reach) (simp_all add: demo_defs)
  moreover have "workload_state (wk_state ?w) = WsFailed ''no model''" "wk_loader ?w = LoaderDone"
    by (simp_all add: demo_defs)
  ultimately show ?thesis using failed_load_is_final by blast
qed

end
