(* ===== verification/Ai_Supervisor.thy ===== *)
theory Ai_Supervisor
  imports Ai_Worker Warm_Pool Scheduler
begin

text \<open>
  The worker manager of the AI plane (\<open>aiplane/supervisor/mod.rs\<close>, \<open>health.rs\<close>, \<open>child.rs\<close>):
  spawning, readiness, batches, cancellation with its kill guard, the health poll with its
  restarts, and shutdown, together with what the knowledge daemon builds on it (raising the
  required workers, the recovery thread). The operating system (processes, sockets, the clock)
  is the interface \<open>child_processes\<close>; it is interpreted on processes that run the worker of
  \<open>Ai_Worker\<close>. Times are in milliseconds.
\<close>

section \<open>Constants\<close>

definition HEALTH_PROBE_TIMEOUT :: nat where "HEALTH_PROBE_TIMEOUT = 2000"
definition HEALTH_POLL_INTERVAL :: nat where "HEALTH_POLL_INTERVAL = 1000"
definition SOCKET_BIND_DEADLINE :: nat where "SOCKET_BIND_DEADLINE = 5000"
definition RUN_BATCH_TIMEOUT :: nat where "RUN_BATCH_TIMEOUT = 900000"
definition WORKER_RAISE_DEADLINE :: nat where "WORKER_RAISE_DEADLINE = 900000"
definition CANCEL_YIELD_DEADLINE :: nat where "CANCEL_YIELD_DEADLINE = 500"
definition CANCEL_POLL_INTERVAL :: nat where "CANCEL_POLL_INTERVAL = 25"

definition BASE_BACKOFF :: nat where "BASE_BACKOFF = 1000"
definition MAX_BACKOFF :: nat where "MAX_BACKOFF = 60000"

definition backoff_for_attempt :: "u32 \<Rightarrow> nat" where
  "backoff_for_attempt attempt =
     (if attempt = 0 then 0 else min (BASE_BACKOFF * 2 ^ min (unat attempt) 6) MAX_BACKOFF)"

section \<open>The operating system\<close>

text \<open>
  A child handle is the number of the spawn that made it. \<open>os_request\<close> answers with the time it
  took, \<open>os_sleep\<close> with the time by which the sleep was late.
\<close>

record 'w worker_os =
  os_spawn :: "WorkloadKind \<Rightarrow> string \<Rightarrow> nat \<Rightarrow> 'w \<Rightarrow> (string + unit) \<times> 'w"
  os_alive :: "nat \<Rightarrow> 'w \<Rightarrow> bool"
  os_terminate :: "nat \<Rightarrow> 'w \<Rightarrow> 'w"
  os_request :: "string \<Rightarrow> WorkerReq \<Rightarrow> nat \<Rightarrow> 'w \<Rightarrow> (WorkerIpcError + WorkerResp) \<times> nat \<times> 'w"
  os_exists :: "string \<Rightarrow> 'w \<Rightarrow> bool"
  os_sleep :: "nat \<Rightarrow> 'w \<Rightarrow> nat \<times> 'w"
  worker_socket_path :: "WorkloadKind \<Rightarrow> string"

record ManagedChild =
  mc_handle :: nat
  mc_socket_path :: string
  last_health :: "WorkerHealth option"
  last_health_at :: "nat option"
  restart_attempts :: u32
  backoff_until :: "nat option"

text \<open>\<open>sup_spawns\<close> logs the spawn attempts, \<open>sup_unbound\<close> the handles dropped because their socket did not appear.\<close>

record 'w sup =
  children :: "WorkloadKind \<rightharpoonup> ManagedChild"
  sup_pool :: WarmPool
  sup_now :: nat
  sup_world :: 'w
  sup_spawns :: "WorkloadKind list"
  sup_unbound :: "nat list"

definition sup_new :: "nat \<Rightarrow> 'w \<Rightarrow> 'w sup" where
  "sup_new now w = \<lparr>children = Map.empty, sup_pool = WarmPool_new, sup_now = now, sup_world = w, sup_spawns = [], sup_unbound = []\<rparr>"

datatype sup_error =
    SpawnFailed WorkloadKind string
  | SocketNotBound WorkloadKind
  | LoadFailed WorkloadKind string
  | ModelNotPrepared WorkloadKind
  | UnexpectedResp WorkloadKind WorkerResp
  | SocketGone WorkloadKind
  | ProbeFailed WorkloadKind string
  | NotReadyInTime WorkloadKind nat
  | WorkerMsg WorkloadKind string
  | WorkerIpc WorkloadKind WorkerIpcError
  | CancelSendFailed WorkloadKind WorkerIpcError
  | DidNotYield WorkloadKind

definition sleep :: "'w worker_os \<Rightarrow> nat \<Rightarrow> 'w sup \<Rightarrow> 'w sup" where
  "sleep os d s = (let (late, w) = os_sleep os d (sup_world s) in s\<lparr>sup_now := sup_now s + d + late, sup_world := w\<rparr>)"

definition request :: "'w worker_os \<Rightarrow> string \<Rightarrow> WorkerReq \<Rightarrow> nat \<Rightarrow> 'w sup \<Rightarrow> (WorkerIpcError + WorkerResp) \<times> 'w sup" where
  "request os path req timeout s =
     (let (r, t, w) = os_request os path req timeout (sup_world s) in (r, s\<lparr>sup_now := sup_now s + t, sup_world := w\<rparr>))"

lemma sleep_later [simp]: "0 < d \<Longrightarrow> sup_now s < sup_now (sleep os d s)"
  by (simp add: sleep_def split: prod.split)

section \<open>Spawning\<close>

function wait_for_socket :: "'w worker_os \<Rightarrow> string \<Rightarrow> nat \<Rightarrow> nat \<Rightarrow> 'w sup \<Rightarrow> bool \<times> 'w sup" where
  "wait_for_socket os path deadline start s =
     (if sup_now s - start < deadline then
        (if os_exists os path (sup_world s) then (True, s)
         else wait_for_socket os path deadline start (sleep os 20 s))
      else (False, s))"
  by pat_completeness auto
termination
  by (relation "measure (\<lambda>(os, path, deadline, start, s). Suc (start + deadline) - sup_now s)")
    (auto intro!: diff_less_mono2)

declare wait_for_socket.simps [simp del]

definition ensure_spawned :: "'w worker_os \<Rightarrow> WorkloadKind \<Rightarrow> 'w sup \<Rightarrow> (sup_error + unit) \<times> 'w sup" where
  "ensure_spawned os kind s =
     (if (case children s kind of Some mc \<Rightarrow> os_alive os (mc_handle mc) (sup_world s) | None \<Rightarrow> False) then (Inr (), s)
      else let h = length (sup_spawns s); socket = worker_socket_path os kind;
               s1 = s\<lparr>children := (children s)(kind := None), sup_spawns := sup_spawns s @ [kind]\<rparr> in
        case os_spawn os kind socket h (sup_world s1) of
          (Inl e, w) \<Rightarrow> (Inl (SpawnFailed kind e), s1\<lparr>sup_world := w\<rparr>)
        | (Inr _, w) \<Rightarrow>
            case wait_for_socket os socket SOCKET_BIND_DEADLINE (sup_now s1) (s1\<lparr>sup_world := w\<rparr>) of
              (False, s2) \<Rightarrow> (Inl (SocketNotBound kind), s2\<lparr>sup_unbound := h # sup_unbound s2\<rparr>)
            | (True, s2) \<Rightarrow> (Inr (), s2\<lparr>children := (children s2)(kind \<mapsto>
                \<lparr>mc_handle = h, mc_socket_path = socket, last_health = None, last_health_at = None,
                 restart_attempts = 0, backoff_until = None\<rparr>)\<rparr>))"

definition socket_for :: "'w worker_os \<Rightarrow> WorkloadKind \<Rightarrow> 'w sup \<Rightarrow> string" where
  "socket_for os kind s = (case children s kind of Some mc \<Rightarrow> mc_socket_path mc | None \<Rightarrow> worker_socket_path os kind)"

definition record_health :: "WorkloadKind \<Rightarrow> WorkerHealth \<Rightarrow> 'w sup \<Rightarrow> 'w sup" where
  "record_health kind h s = (case children s kind of
      None \<Rightarrow> s
    | Some mc \<Rightarrow>
        let mc1 = mc\<lparr>last_health := Some h, last_health_at := Some (sup_now s)\<rparr>;
            mc2 = (if is_ready (wh_state h) then mc1\<lparr>restart_attempts := 0, backoff_until := None\<rparr> else mc1)
        in s\<lparr>children := (children s)(kind \<mapsto> mc2)\<rparr>)"

section \<open>Readiness and batches\<close>

datatype verdict = Settled "sup_error + WorkerHealth" | Again

fun probe_verdict :: "WorkloadKind \<Rightarrow> bool \<Rightarrow> WorkerIpcError + WorkerResp \<Rightarrow> verdict" where
  "probe_verdict kind late (Inr (RespHealth h)) = (case wh_state h of
      WsReady _ \<Rightarrow> Settled (Inr h)
    | WsFailed reason \<Rightarrow> Settled (Inl (LoadFailed kind reason))
    | NotPrepared \<Rightarrow> Settled (Inl (ModelNotPrepared kind))
    | _ \<Rightarrow> Again)"
| "probe_verdict kind late (Inr other) = Settled (Inl (UnexpectedResp kind other))"
| "probe_verdict kind late (Inl WorkerDown) = (if late then Settled (Inl (SocketGone kind)) else Again)"
| "probe_verdict kind late (Inl (Wire e)) = Settled (Inl (ProbeFailed kind e))"

definition note_probe :: "WorkloadKind \<Rightarrow> WorkerIpcError + WorkerResp \<Rightarrow> 'w sup \<Rightarrow> 'w sup" where
  "note_probe kind r s = (case r of Inr (RespHealth h) \<Rightarrow> record_health kind h s | _ \<Rightarrow> s)"

definition probe :: "'w worker_os \<Rightarrow> WorkloadKind \<Rightarrow> 'w sup \<Rightarrow> (WorkerIpcError + WorkerResp) \<times> 'w sup" where
  "probe os kind s =
     (let (r, s1) = request os (socket_for os kind s) ReqHealth HEALTH_PROBE_TIMEOUT s in (r, note_probe kind r s1))"

lemma sup_now_record_health [simp]: "sup_now (record_health kind h s) = sup_now s"
  by (simp add: record_health_def Let_def split: option.split)

lemma probe_later [simp]: "sup_now s \<le> sup_now (snd (probe os kind s))"
  by (simp add: probe_def request_def note_probe_def split: prod.split sum.split WorkerResp.split)

function wait_for_ready :: "'w worker_os \<Rightarrow> WorkloadKind \<Rightarrow> nat \<Rightarrow> nat \<Rightarrow> 'w sup \<Rightarrow> (sup_error + WorkerHealth) \<times> 'w sup" where
  "wait_for_ready os kind deadline start s =
     (let p = probe os kind s; s1 = snd p; late = (deadline \<le> sup_now s1 - start) in
      case probe_verdict kind late (fst p) of
        Settled res \<Rightarrow> (res, s1)
      | Again \<Rightarrow>
          if late then (Inl (NotReadyInTime kind deadline), s1)
          else wait_for_ready os kind deadline start (sleep os HEALTH_POLL_INTERVAL s1))"
  by pat_completeness auto
termination
proof (relation "measure (\<lambda>(os, kind, deadline, start, s). start + deadline - sup_now s)")
  fix os :: "'w worker_os" and kind deadline start and s :: "'w sup" and p s1 late
  assume p: "p = probe os kind s" "s1 = snd p" "late = (deadline \<le> sup_now s1 - start)" "\<not> late"
  have "sup_now s \<le> sup_now s1" using p by simp
  moreover have "sup_now s1 < sup_now (sleep os HEALTH_POLL_INTERVAL s1)" by (simp add: HEALTH_POLL_INTERVAL_def)
  moreover have "sup_now s1 < start + deadline" using p(3,4) by linarith
  ultimately show "((os, kind, deadline, start, sleep os HEALTH_POLL_INTERVAL s1), os, kind, deadline, start, s)
      \<in> measure (\<lambda>(os, kind, deadline, start, s). start + deadline - sup_now s)"
    by auto
qed simp

declare wait_for_ready.simps [simp del]

definition ensure :: "'w worker_os \<Rightarrow> WorkloadKind \<Rightarrow> nat \<Rightarrow> 'w sup \<Rightarrow> (sup_error + WorkerHealth) \<times> 'w sup" where
  "ensure os kind ready_deadline s = (case ensure_spawned os kind s of
      (Inl e, s1) \<Rightarrow> (Inl e, s1)
    | (Inr _, s1) \<Rightarrow>
        let s2 = s1\<lparr>sup_pool := snd (touch (sup_now s1) kind (sup_pool s1))\<rparr>
        in wait_for_ready os kind ready_deadline (sup_now s2) s2)"

definition batch_request :: "WorkloadInput list \<Rightarrow> WorkerReq" where
  "batch_request inputs = ReqRunBatch 0 inputs"

definition sup_run_batch ::
  "'w worker_os \<Rightarrow> WorkloadKind \<Rightarrow> WorkloadInput list \<Rightarrow> 'w sup \<Rightarrow> (sup_error + WorkloadOutput list) \<times> 'w sup" where
  "sup_run_batch os kind inputs s = (case ensure os kind WORKER_RAISE_DEADLINE s of
      (Inl e, s1) \<Rightarrow> (Inl e, s1)
    | (Inr _, s1) \<Rightarrow>
        (case request os (socket_for os kind s1) (batch_request inputs) RUN_BATCH_TIMEOUT s1 of
           (Inr (RespRunBatch outputs), s2) \<Rightarrow> (Inr outputs, s2)
         | (Inr (RespError msg), s2) \<Rightarrow> (Inl (WorkerMsg kind msg), s2)
         | (Inr other, s2) \<Rightarrow> (Inl (UnexpectedResp kind other), s2)
         | (Inl e, s2) \<Rightarrow> (Inl (WorkerIpc kind e), s2)))"

section \<open>Cancellation\<close>

definition escalate_to_kill :: "'w worker_os \<Rightarrow> WorkloadKind \<Rightarrow> 'w sup \<Rightarrow> 'w sup" where
  "escalate_to_kill os kind s =
     snd (ensure_spawned os kind (case children s kind of
         None \<Rightarrow> s | Some mc \<Rightarrow> s\<lparr>sup_world := os_terminate os (mc_handle mc) (sup_world s)\<rparr>))"

text \<open>The poll after the cancel request: whether the worker yielded.\<close>

function cancel_poll :: "'w worker_os \<Rightarrow> WorkloadKind \<Rightarrow> string \<Rightarrow> ulid \<Rightarrow> nat \<Rightarrow> 'w sup \<Rightarrow> bool \<times> 'w sup" where
  "cancel_poll os kind socket rid start s =
     (if sup_now s - start < CANCEL_YIELD_DEADLINE then
        (let p = request os socket ReqHealth HEALTH_PROBE_TIMEOUT s; s1 = snd p in
         case fst p of
           Inr (RespHealth h) \<Rightarrow>
             if inflight_request_id h \<noteq> Some rid then (True, record_health kind h s1)
             else cancel_poll os kind socket rid start (sleep os CANCEL_POLL_INTERVAL s1)
         | _ \<Rightarrow> (False, s1))
      else (False, s))"
  by pat_completeness auto
termination
proof (relation "measure (\<lambda>(os, kind, socket, rid, start, s). start + CANCEL_YIELD_DEADLINE - sup_now s)")
  fix os :: "'w worker_os" and kind and socket :: string and rid start and s :: "'w sup" and p s1
  assume a: "sup_now s - start < CANCEL_YIELD_DEADLINE" "p = request os socket ReqHealth HEALTH_PROBE_TIMEOUT s" "s1 = snd p"
  have "sup_now s \<le> sup_now s1" using a(2,3) by (simp add: request_def split: prod.split)
  moreover have "sup_now s1 < sup_now (sleep os CANCEL_POLL_INTERVAL s1)" by (simp add: CANCEL_POLL_INTERVAL_def)
  ultimately show "((os, kind, socket, rid, start, sleep os CANCEL_POLL_INTERVAL s1), os, kind, socket, rid, start, s)
      \<in> measure (\<lambda>(os, kind, socket, rid, start, s). start + CANCEL_YIELD_DEADLINE - sup_now s)"
    using a(1) by auto
qed simp

declare cancel_poll.simps [simp del]

definition sup_cancel :: "'w worker_os \<Rightarrow> WorkloadKind \<Rightarrow> ulid \<Rightarrow> 'w sup \<Rightarrow> (sup_error + unit) \<times> 'w sup" where
  "sup_cancel os kind rid s =
     (let socket = socket_for os kind s in
      case request os socket (ReqCancel rid) HEALTH_PROBE_TIMEOUT s of
        (Inr RespCancelAck, s1) \<Rightarrow>
          (case cancel_poll os kind socket rid (sup_now s1) s1 of
             (True, s2) \<Rightarrow> (Inr (), s2)
           | (False, s2) \<Rightarrow> (Inl (DidNotYield kind), escalate_to_kill os kind s2))
      | (Inr other, s1) \<Rightarrow> (Inl (UnexpectedResp kind other), s1)
      | (Inl e, s1) \<Rightarrow> (Inl (CancelSendFailed kind e), s1))"

section \<open>The health poll\<close>

definition all_health :: "'w sup \<Rightarrow> WorkloadKind \<Rightarrow> WorkerHealth option option" where
  "all_health s kind = map_option last_health (children s kind)"

definition probe_all :: "'w worker_os \<Rightarrow> WorkloadKind list \<Rightarrow> 'w sup \<Rightarrow> 'w sup" where
  "probe_all os kinds s = fold (\<lambda>kind s. snd (probe os kind s)) kinds s"

definition due_for_restart :: "'w worker_os \<Rightarrow> ManagedChild \<Rightarrow> 'w sup \<Rightarrow> bool" where
  "due_for_restart os mc s \<longleftrightarrow> \<not> os_alive os (mc_handle mc) (sup_world s) \<and>
     (case backoff_until mc of None \<Rightarrow> True | Some until \<Rightarrow> until \<le> sup_now s)"

text \<open>The kinds come in the order in which the map is walked.\<close>

fun reap_mark :: "'w worker_os \<Rightarrow> WorkloadKind list \<Rightarrow> 'w sup \<Rightarrow> WorkloadKind list \<times> 'w sup" where
  "reap_mark os [] s = ([], s)"
| "reap_mark os (kind # kinds) s = (case children s kind of
      None \<Rightarrow> reap_mark os kinds s
    | Some mc \<Rightarrow>
        if \<not> due_for_restart os mc s then reap_mark os kinds s
        else let attempts = restart_attempts mc + 1;
                 mc1 = mc\<lparr>restart_attempts := attempts, backoff_until := Some (sup_now s + backoff_for_attempt attempts)\<rparr>;
                 r = reap_mark os kinds (s\<lparr>children := (children s)(kind \<mapsto> mc1)\<rparr>)
             in (kind # fst r, snd r))"

definition respawn_all :: "'w worker_os \<Rightarrow> WorkloadKind list \<Rightarrow> 'w sup \<Rightarrow> 'w sup" where
  "respawn_all os kinds s = fold (\<lambda>kind s. snd (ensure_spawned os kind s)) kinds s"

definition reap_and_restart :: "'w worker_os \<Rightarrow> WorkloadKind list \<Rightarrow> 'w sup \<Rightarrow> 'w sup" where
  "reap_and_restart os order s = (let r = reap_mark os order s in respawn_all os (fst r) (snd r))"

definition poll_once :: "'w worker_os \<Rightarrow> WorkloadKind list \<Rightarrow> 'w sup \<Rightarrow> 'w sup" where
  "poll_once os order s =
     reap_and_restart os order (probe_all os (filter (\<lambda>k. children s k \<noteq> None) order) s)"

section \<open>Shutdown\<close>

definition any_alive :: "'w worker_os \<Rightarrow> WorkloadKind list \<Rightarrow> 'w sup \<Rightarrow> bool" where
  "any_alive os order s \<longleftrightarrow>
     list_ex (\<lambda>k. case children s k of Some mc \<Rightarrow> os_alive os (mc_handle mc) (sup_world s) | None \<Rightarrow> False) order"

function wait_all_dead :: "'w worker_os \<Rightarrow> WorkloadKind list \<Rightarrow> nat \<Rightarrow> nat \<Rightarrow> 'w sup \<Rightarrow> bool \<times> 'w sup" where
  "wait_all_dead os order deadline start s =
     (if sup_now s - start < deadline then
        (if \<not> any_alive os order s then (True, s) else wait_all_dead os order deadline start (sleep os 100 s))
      else (False, s))"
  by pat_completeness auto
termination
  by (relation "measure (\<lambda>(os, order, deadline, start, s). Suc (start + deadline) - sup_now s)")
    (auto intro!: diff_less_mono2)

declare wait_all_dead.simps [simp del]

definition terminate_child :: "'w worker_os \<Rightarrow> WorkloadKind \<Rightarrow> 'w sup \<Rightarrow> 'w sup" where
  "terminate_child os kind s = (case children s kind of
      Some mc \<Rightarrow> if os_alive os (mc_handle mc) (sup_world s)
        then s\<lparr>sup_world := os_terminate os (mc_handle mc) (sup_world s)\<rparr> else s
    | None \<Rightarrow> s)"

definition send_shutdown :: "'w worker_os \<Rightarrow> WorkloadKind \<Rightarrow> 'w sup \<Rightarrow> 'w sup" where
  "send_shutdown os kind s = snd (request os (socket_for os kind s) ReqShutdown HEALTH_PROBE_TIMEOUT s)"

definition sup_shutdown :: "'w worker_os \<Rightarrow> WorkloadKind list \<Rightarrow> nat \<Rightarrow> 'w sup \<Rightarrow> 'w sup" where
  "sup_shutdown os order deadline s =
     (let s1 = fold (send_shutdown os) (filter (\<lambda>k. children s k \<noteq> None) order) s in
      case wait_all_dead os order deadline (sup_now s1) s1 of
        (True, s2) \<Rightarrow> s2
      | (False, s2) \<Rightarrow> fold (terminate_child os) order s2)"

section \<open>What the daemon builds on it\<close>

definition REQUIRED_WORKLOADS :: "WorkloadKind list" where "REQUIRED_WORKLOADS = [Embed, Rerank]"

definition READY_DEADLINE :: nat where "READY_DEADLINE = 1800000"

text \<open>The loop of \<open>init_aiplane_supervisor\<close>; \<open>describe\<close> renders an error.\<close>

fun raise_workers ::
  "'w worker_os \<Rightarrow> (sup_error \<Rightarrow> string) \<Rightarrow> WorkloadKind list \<Rightarrow> 'w sup \<times> DegradedWorkers \<Rightarrow> 'w sup \<times> DegradedWorkers" where
  "raise_workers os describe [] (s, gate) = (s, gate)"
| "raise_workers os describe (kind # kinds) (s, gate) = (case ensure os kind READY_DEADLINE s of
      (Inr _, s1) \<Rightarrow> raise_workers os describe kinds (s1, gate)
    | (Inl e, s1) \<Rightarrow> raise_workers os describe kinds (s1, record_degraded kind (describe e) gate))"

definition recovery_tick :: "WorkloadKind list \<Rightarrow> 'w sup \<Rightarrow> DegradedWorkers \<Rightarrow> DegradedWorkers" where
  "recovery_tick order s gate = fold (\<lambda>kind gate.
     case all_health s kind of
       Some (Some h) \<Rightarrow> if is_ready (wh_state h) then snd (clear_degraded kind gate) else gate
     | _ \<Rightarrow> gate) order gate"

section \<open>Sequences of operations\<close>

datatype sup_op =
    OpEnsure WorkloadKind nat
  | OpRunBatch WorkloadKind "WorkloadInput list"
  | OpCancel WorkloadKind ulid
  | OpPoll "WorkloadKind list"
  | OpShutdown "WorkloadKind list" nat

fun sup_exec :: "'w worker_os \<Rightarrow> sup_op \<Rightarrow> 'w sup \<Rightarrow> 'w sup" where
  "sup_exec os (OpEnsure kind d) s = snd (ensure os kind d s)"
| "sup_exec os (OpRunBatch kind ins) s = snd (sup_run_batch os kind ins s)"
| "sup_exec os (OpCancel kind rid) s = snd (sup_cancel os kind rid s)"
| "sup_exec os (OpPoll order) s = poll_once os order s"
| "sup_exec os (OpShutdown order d) s = sup_shutdown os order d s"

definition sup_run :: "'w worker_os \<Rightarrow> sup_op list \<Rightarrow> 'w sup \<Rightarrow> 'w sup" where
  "sup_run os ops s = fold (sup_exec os) ops s"

section \<open>Invariants\<close>

text \<open>Every process that runs is the child of its kind, or was dropped because its socket never appeared.\<close>

definition sup_inv :: "'w worker_os \<Rightarrow> 'w sup \<Rightarrow> bool" where
  "sup_inv os s \<longleftrightarrow>
     (\<forall>h. os_alive os h (sup_world s) \<longrightarrow> h < length (sup_spawns s) \<and>
        (h \<in> set (sup_unbound s) \<or> (\<exists>k mc. children s k = Some mc \<and> mc_handle mc = h))) \<and>
     (\<forall>k mc. children s k = Some mc \<longrightarrow> mc_handle mc < length (sup_spawns s) \<and> sup_spawns s ! mc_handle mc = k \<and>
        mc_socket_path mc = worker_socket_path os k)"

definition no_backoff :: "WorkloadKind set \<Rightarrow> 'w sup \<Rightarrow> bool" where
  "no_backoff K s \<longleftrightarrow> (\<forall>k mc. children s k = Some mc \<longrightarrow> k \<notin> K \<longrightarrow> restart_attempts mc = 0 \<and> backoff_until mc = None)"

text \<open>Steps that start no process (probes, waits, kills) keep the children and can only reset their backoff.\<close>

definition kept :: "ManagedChild \<Rightarrow> ManagedChild \<Rightarrow> bool" where
  "kept mc mc' \<longleftrightarrow> mc_handle mc' = mc_handle mc \<and> mc_socket_path mc' = mc_socket_path mc \<and>
     (restart_attempts mc' = restart_attempts mc \<and> backoff_until mc' = backoff_until mc \<or>
      restart_attempts mc' = 0 \<and> backoff_until mc' = None)"

definition calm :: "'w worker_os \<Rightarrow> 'w sup \<Rightarrow> 'w sup \<Rightarrow> bool" where
  "calm os s s' \<longleftrightarrow> sup_spawns s' = sup_spawns s \<and> sup_unbound s' = sup_unbound s \<and>
     (\<forall>h. os_alive os h (sup_world s') \<longrightarrow> os_alive os h (sup_world s)) \<and>
     (\<forall>k. rel_option kept (children s k) (children s' k))"

lemma kept_refl [simp]: "kept mc mc"
  by (simp add: kept_def)

lemma kept_trans: "kept a b \<Longrightarrow> kept b c \<Longrightarrow> kept a c"
  by (auto simp: kept_def)

lemma rel_kept_refl [simp]: "rel_option kept x x"
  by (simp add: option.rel_refl)

lemma calm_refl [simp]: "calm os s s"
  by (simp add: calm_def)

lemma calm_child:
  assumes "calm os s s'" "children s' k = Some mc'"
  shows "\<exists>mc. children s k = Some mc \<and> kept mc mc'"
proof -
  have "rel_option kept (children s k) (Some mc')" using assms by (metis calm_def)
  then show ?thesis by (cases "children s k") simp_all
qed

lemma calm_child_kept:
  assumes "calm os s s'" "children s k = Some mc"
  shows "\<exists>mc'. children s' k = Some mc' \<and> kept mc mc'"
proof -
  have "rel_option kept (Some mc) (children s' k)" using assms by (metis calm_def)
  then show ?thesis by (cases "children s' k") simp_all
qed

lemma calm_trans:
  assumes "calm os a b" "calm os b c"
  shows "calm os a c"
proof -
  have "rel_option kept (children a k) (children c k)" for k
  proof -
    have "rel_option kept (children a k) (children b k)" "rel_option kept (children b k) (children c k)"
      using assms by (simp_all add: calm_def)
    then show ?thesis by (cases "children a k"; cases "children b k"; cases "children c k") (auto intro: kept_trans)
  qed
  with assms show ?thesis by (simp add: calm_def)
qed

lemma calm_inv:
  assumes "calm os s s'" "sup_inv os s"
  shows "sup_inv os s'"
proof -
  have same: "sup_spawns s' = sup_spawns s" "sup_unbound s' = sup_unbound s"
    and alive: "os_alive os h (sup_world s') \<Longrightarrow> os_alive os h (sup_world s)" for h
    using assms(1) by (simp_all add: calm_def)
  show ?thesis unfolding sup_inv_def same
  proof (intro conjI allI impI)
    fix h assume "os_alive os h (sup_world s')"
    with alive assms(2) have h: "h < length (sup_spawns s)" "h \<in> set (sup_unbound s) \<or> (\<exists>k mc. children s k = Some mc \<and> mc_handle mc = h)"
      by (simp_all add: sup_inv_def)
    then show "h < length (sup_spawns s)" by simp
    from h(2) show "h \<in> set (sup_unbound s) \<or> (\<exists>k mc. children s' k = Some mc \<and> mc_handle mc = h)"
      using calm_child_kept [OF assms(1)] by (metis kept_def)
  next
    fix k mc assume "children s' k = Some mc"
    from calm_child [OF assms(1) this] obtain m0 where "children s k = Some m0" "kept m0 mc" by blast
    with assms(2) show "mc_handle mc < length (sup_spawns s)" "sup_spawns s ! mc_handle mc = k" "mc_socket_path mc = worker_socket_path os k"
      by (simp_all add: sup_inv_def kept_def)
  qed
qed

lemma calm_no_backoff:
  assumes "calm os s s'" "no_backoff K s"
  shows "no_backoff K s'"
  unfolding no_backoff_def
proof (intro allI impI)
  fix k mc assume "children s' k = Some mc" "k \<notin> K"
  from calm_child [OF assms(1) this(1)] obtain m0 where "children s k = Some m0" "kept m0 mc" by blast
  with assms(2) \<open>k \<notin> K\<close> show "restart_attempts mc = 0 \<and> backoff_until mc = None"
    by (auto simp: no_backoff_def kept_def)
qed

definition settled :: "'w worker_os \<Rightarrow> WorkloadKind set \<Rightarrow> 'w sup \<Rightarrow> bool" where
  "settled os K s \<longleftrightarrow> (\<forall>k mc. children s k = Some mc \<longrightarrow>
     restart_attempts mc = 0 \<and> backoff_until mc = None \<or> k \<in> K \<and> \<not> os_alive os (mc_handle mc) (sup_world s))"

lemma settled_no_backoff: "settled os {} s \<longleftrightarrow> no_backoff {} s"
  by (simp add: settled_def no_backoff_def)

lemma calm_settled:
  assumes "calm os s s'" "settled os K s"
  shows "settled os K s'"
  unfolding settled_def
proof (intro allI impI)
  fix k mc assume "children s' k = Some mc"
  from calm_child [OF assms(1) this] obtain m0 where m0: "children s k = Some m0" "kept m0 mc" by blast
  then have "restart_attempts m0 = 0 \<and> backoff_until m0 = None \<or> k \<in> K \<and> \<not> os_alive os (mc_handle m0) (sup_world s)"
    using assms(2) by (simp add: settled_def)
  moreover have "os_alive os h (sup_world s') \<Longrightarrow> os_alive os h (sup_world s)" for h
    using assms(1) by (simp add: calm_def)
  ultimately show "restart_attempts mc = 0 \<and> backoff_until mc = None \<or> k \<in> K \<and> \<not> os_alive os (mc_handle mc) (sup_world s')"
    using m0(2) by (auto simp: kept_def)
qed

lemma sup_invI:
  assumes "\<And>h. os_alive os h (sup_world s) \<Longrightarrow> h < length (sup_spawns s)"
    "\<And>h. os_alive os h (sup_world s) \<Longrightarrow> h \<notin> set (sup_unbound s) \<Longrightarrow> \<exists>k mc. children s k = Some mc \<and> mc_handle mc = h"
    "\<And>k mc. children s k = Some mc \<Longrightarrow> mc_handle mc < length (sup_spawns s) \<and> sup_spawns s ! mc_handle mc = k \<and>
        mc_socket_path mc = worker_socket_path os k"
  shows "sup_inv os s"
  using assms unfolding sup_inv_def by blast

lemma sup_inv_alive:
  assumes "sup_inv os s" "os_alive os h (sup_world s)"
  shows "h < length (sup_spawns s)" "h \<notin> set (sup_unbound s) \<Longrightarrow> \<exists>k mc. children s k = Some mc \<and> mc_handle mc = h"
  using assms unfolding sup_inv_def by blast+

lemma sup_inv_child: "sup_inv os s \<Longrightarrow> children s k = Some mc \<Longrightarrow> mc_handle mc < length (sup_spawns s) \<and>
    sup_spawns s ! mc_handle mc = k \<and> mc_socket_path mc = worker_socket_path os k"
  unfolding sup_inv_def by blast

lemma sup_inv_upd:
  assumes "sup_inv os s" "children s k = Some mc" "mc_handle mc' = mc_handle mc" "mc_socket_path mc' = mc_socket_path mc"
  shows "sup_inv os (s\<lparr>children := (children s)(k \<mapsto> mc')\<rparr>)"
proof (rule sup_invI, goal_cases)
  case (1 h)
  then show ?case using sup_inv_alive(1) [OF assms(1)] by simp
next
  case (2 h)
  then obtain k0 m0 where "children s k0 = Some m0" "mc_handle m0 = h" using sup_inv_alive(2) [OF assms(1)] by fastforce
  with assms(2,3) show ?case by (cases "k0 = k") (auto intro: exI [of _ k] exI [of _ k0])
next
  case (3 k' m)
  then show ?case using sup_inv_child [OF assms(1)] assms(2-4) by (auto split: if_splits)
qed

lemma reap_mark_world: "sup_world (snd (reap_mark os ks s)) = sup_world s"
  by (induction os ks s rule: reap_mark.induct) (auto simp: Let_def split: option.split)

lemma reap_mark_inv: "sup_inv os s \<Longrightarrow> sup_inv os (snd (reap_mark os ks s))"
proof (induction os ks s rule: reap_mark.induct)
  case (2 os kind kinds s)
  show ?case
  proof (cases "children s kind")
    case (Some mc)
    then show ?thesis using "2.IH"(2,3) [OF Some] "2.prems" sup_inv_upd [OF "2.prems" Some]
      by (simp add: Let_def)
  qed (use 2 in simp)
qed simp

lemma reap_mark_settled: "settled os K s \<Longrightarrow> settled os (K \<union> set (fst (reap_mark os ks s))) (snd (reap_mark os ks s))"
proof (induction os ks s arbitrary: K rule: reap_mark.induct)
  case (2 os kind kinds s)
  show ?case
  proof (cases "children s kind")
    case None
    then show ?thesis using 2 by simp
  next
    case (Some mc)
    show ?thesis
    proof (cases "due_for_restart os mc s")
      case True
      let ?mc = "mc\<lparr>restart_attempts := restart_attempts mc + 1,
          backoff_until := Some (sup_now s + backoff_for_attempt (restart_attempts mc + 1))\<rparr>"
      let ?s = "s\<lparr>children := (children s)(kind \<mapsto> ?mc)\<rparr>"
      have st: "settled os (insert kind K) ?s"
        using "2.prems" True by (auto simp: settled_def due_for_restart_def)
      have nn: "\<not> \<not> due_for_restart os mc s" using True by simp
      have "settled os (insert kind K \<union> set (fst (reap_mark os kinds ?s))) (snd (reap_mark os kinds ?s))"
        by (rule "2.IH"(3) [OF Some nn refl refl st])
      then show ?thesis using Some True by (simp add: Let_def)
    next
      case False
      then show ?thesis using "2.IH"(2) [OF Some False "2.prems"] Some by simp
    qed
  qed
qed simp

section \<open>The interface to the processes\<close>

text \<open>
  What the supervisor relies on: a dead child stays dead (handles are not reused), a kill
  works, and a failed spawn leaves no process.
\<close>

locale child_processes =
  fixes os :: "'w worker_os"
  assumes spawn_failed: "os_spawn os kind path h w = (Inl e, w') \<Longrightarrow> \<not> os_alive os h w'"
    and spawn_other: "os_alive os h' (snd (os_spawn os kind path h w)) \<Longrightarrow> h' = h \<or> os_alive os h' w"
    and terminate_kills: "\<not> os_alive os h (os_terminate os h w)"
    and terminate_other: "os_alive os h' (os_terminate os h w) \<Longrightarrow> os_alive os h' w"
    and request_only_dies: "os_alive os h (snd (snd (os_request os path req t w))) \<Longrightarrow> os_alive os h w"
    and sleep_only_dies: "os_alive os h (snd (os_sleep os d w)) \<Longrightarrow> os_alive os h w"
begin

lemma calm_sleep: "calm os s (sleep os d s)"
  using sleep_only_dies [of _ d "sup_world s"] by (cases "os_sleep os d (sup_world s)") (auto simp: calm_def sleep_def)

lemma calm_request: "calm os s (snd (request os path req t s))"
  using request_only_dies [of _ path req t "sup_world s"]
  by (cases "os_request os path req t (sup_world s)") (auto simp: calm_def request_def)

lemma calm_record_health: "calm os s (record_health kind h s)"
  by (auto simp: calm_def kept_def record_health_def Let_def split: option.split)

lemma calm_probe: "calm os s (snd (probe os kind s))"
proof -
  obtain r s1 where r: "request os (socket_for os kind s) ReqHealth HEALTH_PROBE_TIMEOUT s = (r, s1)" by fastforce
  have "calm os s s1" using calm_request [of s "socket_for os kind s" ReqHealth HEALTH_PROBE_TIMEOUT] by (simp add: r)
  moreover have "calm os s1 (note_probe kind r s1)"
    by (simp add: note_probe_def calm_record_health split: sum.split WorkerResp.split)
  ultimately show ?thesis unfolding probe_def r by (simp add: calm_trans)
qed

lemma calm_wait_for_socket: "calm os s (snd (wait_for_socket os path deadline start s))"
proof (induction "Suc (start + deadline) - sup_now s" arbitrary: s rule: less_induct)
  case less
  have "calm os s (snd (wait_for_socket os path deadline start (sleep os 20 s)))" if "sup_now s - start < deadline"
  proof (rule calm_trans [OF calm_sleep less])
    show "Suc (start + deadline) - sup_now (sleep os 20 s) < Suc (start + deadline) - sup_now s"
      using that by (intro diff_less_mono2) auto
  qed
  then show ?case by (simp add: wait_for_socket.simps [of os path deadline start s])
qed

lemma calm_wait_all_dead: "calm os s (snd (wait_all_dead os order deadline start s))"
proof (induction "Suc (start + deadline) - sup_now s" arbitrary: s rule: less_induct)
  case less
  have "calm os s (snd (wait_all_dead os order deadline start (sleep os 100 s)))" if "sup_now s - start < deadline"
  proof (rule calm_trans [OF calm_sleep less])
    show "Suc (start + deadline) - sup_now (sleep os 100 s) < Suc (start + deadline) - sup_now s"
      using that by (intro diff_less_mono2) auto
  qed
  then show ?case by (simp add: wait_all_dead.simps [of os order deadline start s])
qed

lemma calm_wait_for_ready: "calm os s (snd (wait_for_ready os kind deadline start s))"
proof (induction "start + deadline - sup_now s" arbitrary: s rule: less_induct)
  case less
  let ?s1 = "snd (probe os kind s)"
  let ?s2 = "sleep os HEALTH_POLL_INTERVAL ?s1"
  have "calm os s (snd (wait_for_ready os kind deadline start ?s2))" if "\<not> deadline \<le> sup_now ?s1 - start"
  proof (rule calm_trans [OF calm_trans [OF calm_probe calm_sleep] less])
    have "sup_now ?s1 < sup_now ?s2" by (simp add: HEALTH_POLL_INTERVAL_def)
    then show "start + deadline - sup_now ?s2 < start + deadline - sup_now s"
      using that probe_later [of s os kind] by linarith
  qed
  then show ?case using calm_probe
    by (subst wait_for_ready.simps) (simp add: Let_def split: verdict.split)
qed

lemma calm_cancel_poll: "calm os s (snd (cancel_poll os kind socket rid start s))"
proof (induction "start + CANCEL_YIELD_DEADLINE - sup_now s" arbitrary: s rule: less_induct)
  case less
  let ?s1 = "snd (request os socket ReqHealth HEALTH_PROBE_TIMEOUT s)"
  let ?s2 = "sleep os CANCEL_POLL_INTERVAL ?s1"
  have c: "calm os s ?s1" by (rule calm_request)
  have "calm os s (snd (cancel_poll os kind socket rid start ?s2))" if "sup_now s - start < CANCEL_YIELD_DEADLINE"
  proof (rule calm_trans [OF calm_trans [OF c calm_sleep] less])
    have "sup_now ?s1 < sup_now ?s2" by (simp add: CANCEL_POLL_INTERVAL_def)
    moreover have "sup_now s \<le> sup_now ?s1" by (simp add: request_def split: prod.split)
    ultimately show "start + CANCEL_YIELD_DEADLINE - sup_now ?s2 < start + CANCEL_YIELD_DEADLINE - sup_now s"
      using that by linarith
  qed
  moreover have "calm os s (record_health kind h ?s1)" for h by (rule calm_trans [OF c calm_record_health])
  ultimately show ?case using c
    by (subst cancel_poll.simps) (simp add: Let_def split: sum.split WorkerResp.split)
qed

lemma calm_fold: "(\<And>k s. calm os s (f k s)) \<Longrightarrow> calm os s (fold f ks s)"
  by (induction ks arbitrary: s) (auto intro: calm_trans)

lemma calm_terminate: "calm os s (s\<lparr>sup_world := os_terminate os h (sup_world s)\<rparr>)"
  by (auto simp: calm_def dest: terminate_other)

lemma calm_probe_all: "calm os s (probe_all os ks s)"
  unfolding probe_all_def by (rule calm_fold) (rule calm_probe)

lemma calm_shutdown: "calm os s (sup_shutdown os order deadline s)"
proof -
  let ?s1 = "fold (send_shutdown os) (filter (\<lambda>k. children s k \<noteq> None) order) s"
  have 1: "calm os s ?s1" by (rule calm_fold) (simp add: send_shutdown_def calm_request)
  obtain b s2 where w: "wait_all_dead os order deadline (sup_now ?s1) ?s1 = (b, s2)" by fastforce
  have "calm os ?s1 s2" using calm_wait_all_dead [of ?s1 order deadline "sup_now ?s1"] unfolding w by simp
  with 1 have 2: "calm os s s2" by (rule calm_trans)
  have "calm os s2 (fold (terminate_child os) order s2)"
    by (rule calm_fold) (simp add: terminate_child_def calm_terminate split: option.split)
  with 2 show ?thesis unfolding sup_shutdown_def Let_def w by (auto intro: calm_trans split: bool.split)
qed

lemma calm_unbound: "calm os s s' \<Longrightarrow> calm os (s\<lparr>sup_unbound := h # sup_unbound s\<rparr>) (s'\<lparr>sup_unbound := h # sup_unbound s'\<rparr>)"
  by (simp add: calm_def)

lemma spawned_inv:
  assumes "sup_inv os s" "\<And>mc. children s kind = Some mc \<Longrightarrow> \<not> os_alive os (mc_handle mc) (sup_world s)"
    "os_spawn os kind path (length (sup_spawns s)) (sup_world s) = (r, w)"
  shows "sup_inv os (s\<lparr>children := (children s)(kind := None), sup_spawns := sup_spawns s @ [kind], sup_world := w,
    sup_unbound := length (sup_spawns s) # sup_unbound s\<rparr>)"
proof -
  have old: "h = length (sup_spawns s) \<or> os_alive os h (sup_world s)" if "os_alive os h w" for h
    using spawn_other [of h kind path "length (sup_spawns s)" "sup_world s"] that assms(3) by simp
  show ?thesis
  proof (rule sup_invI, goal_cases)
    case (1 h)
    then show ?case using old [of h] sup_inv_alive(1) [OF assms(1)] by fastforce
  next
    case (2 h)
    then have a: "os_alive os h (sup_world s)" "h \<notin> set (sup_unbound s)" using old [of h] by auto
    then obtain k mc where k: "children s k = Some mc" "mc_handle mc = h" using sup_inv_alive(2) [OF assms(1)] by blast
    with a(1) assms(2) have "k \<noteq> kind" by auto
    with k show ?case by auto
  next
    case (3 k mc)
    then show ?case using sup_inv_child [OF assms(1), of k mc] by (auto simp: nth_append split: if_splits)
  qed
qed

lemma ensure_spawned_cases [consumes 1, case_names alive failed spawned]:
  assumes "sup_inv os s"
  obtains mc where "children s kind = Some mc" "os_alive os (mc_handle mc) (sup_world s)" "ensure_spawned os kind s = (Inr (), s)"
  | e w where "\<And>mc. children s kind = Some mc \<Longrightarrow> \<not> os_alive os (mc_handle mc) (sup_world s)"
      "ensure_spawned os kind s = (Inl (SpawnFailed kind e),
         s\<lparr>children := (children s)(kind := None), sup_spawns := sup_spawns s @ [kind], sup_world := w\<rparr>)"
      "\<not> os_alive os (length (sup_spawns s)) w"
      "sup_inv os (s\<lparr>children := (children s)(kind := None), sup_spawns := sup_spawns s @ [kind], sup_world := w,
         sup_unbound := length (sup_spawns s) # sup_unbound s\<rparr>)"
      "\<And>h. h \<noteq> length (sup_spawns s) \<Longrightarrow> os_alive os h w \<Longrightarrow> os_alive os h (sup_world s)"
  | b w s2 where "\<And>mc. children s kind = Some mc \<Longrightarrow> \<not> os_alive os (mc_handle mc) (sup_world s)"
      "calm os (s\<lparr>children := (children s)(kind := None), sup_spawns := sup_spawns s @ [kind], sup_world := w\<rparr>) s2"
      "sup_inv os (s2\<lparr>sup_unbound := length (sup_spawns s) # sup_unbound s2\<rparr>)"
      "ensure_spawned os kind s =
         (if b then (Inr (), s2\<lparr>children := (children s2)(kind \<mapsto>
            \<lparr>mc_handle = length (sup_spawns s), mc_socket_path = worker_socket_path os kind, last_health = None,
             last_health_at = None, restart_attempts = 0, backoff_until = None\<rparr>)\<rparr>)
          else (Inl (SocketNotBound kind), s2\<lparr>sup_unbound := length (sup_spawns s) # sup_unbound s2\<rparr>))"
      "\<And>h. h \<noteq> length (sup_spawns s) \<Longrightarrow> os_alive os h w \<Longrightarrow> os_alive os h (sup_world s)"
proof (cases "case children s kind of Some mc \<Rightarrow> os_alive os (mc_handle mc) (sup_world s) | None \<Rightarrow> False")
  case True
  then show ?thesis using that(1) by (auto simp: ensure_spawned_def split: option.splits)
next
  case False
  then have dead: "\<And>mc. children s kind = Some mc \<Longrightarrow> \<not> os_alive os (mc_handle mc) (sup_world s)" by auto
  obtain r w where sp: "os_spawn os kind (worker_socket_path os kind) (length (sup_spawns s)) (sup_world s) = (r, w)" by fastforce
  note inv = spawned_inv [OF assms dead sp]
  have al: "\<And>h. h \<noteq> length (sup_spawns s) \<Longrightarrow> os_alive os h w \<Longrightarrow> os_alive os h (sup_world s)"
    using spawn_other [of _ kind "worker_socket_path os kind" "length (sup_spawns s)" "sup_world s"] sp by auto
  show ?thesis
  proof (cases r)
    case (Inl e)
    then show ?thesis using that(2) [OF dead _ _ inv al, of e] sp False spawn_failed [of kind _ "length (sup_spawns s)"]
      by (simp add: ensure_spawned_def Let_def)
  next
    case (Inr u)
    let ?s1 = "s\<lparr>children := (children s)(kind := None), sup_spawns := sup_spawns s @ [kind], sup_world := w\<rparr>"
    obtain b s2 where wt: "wait_for_socket os (worker_socket_path os kind) SOCKET_BIND_DEADLINE (sup_now s) ?s1 = (b, s2)" by fastforce
    have c: "calm os ?s1 s2" using calm_wait_for_socket [of ?s1 "worker_socket_path os kind" SOCKET_BIND_DEADLINE "sup_now s"] unfolding wt by simp
    have "sup_inv os (?s1\<lparr>sup_unbound := length (sup_spawns s) # sup_unbound ?s1\<rparr>)" using inv by simp
    from calm_inv [OF calm_unbound [OF c] this] have i2: "sup_inv os (s2\<lparr>sup_unbound := length (sup_spawns s) # sup_unbound s2\<rparr>)" .
    show ?thesis
      by (rule that(3) [OF dead c i2 _ al, of b]) (use False sp Inr wt in \<open>simp_all add: ensure_spawned_def Let_def split: bool.split\<close>)
  qed
qed

lemma ensure_spawned_inv:
  assumes "sup_inv os s"
  shows "sup_inv os (snd (ensure_spawned os kind s))"
  using assms
proof (cases rule: ensure_spawned_cases [where kind = kind])
  case alive
  then show ?thesis using assms by simp
next
  case (failed e w)
  let ?s = "s\<lparr>children := (children s)(kind := None), sup_spawns := sup_spawns s @ [kind], sup_world := w\<rparr>"
  have "sup_inv os ?s"
  proof (rule sup_invI, goal_cases)
    case (1 h)
    then show ?case using sup_inv_alive(1) [OF failed(4)] by simp
  next
    case (2 h)
    then have "h \<noteq> length (sup_spawns s)" using failed(3) by auto
    with 2 show ?case using sup_inv_alive(2) [OF failed(4), of h] by simp
  next
    case (3 k mc)
    then show ?case using sup_inv_child [OF failed(4), of k mc] by simp
  qed
  with failed(2) show ?thesis by simp
next
  case (spawned b w s2)
  show ?thesis
  proof (cases b)
    case True
    have none: "children s2 kind = None"
      using calm_child [OF spawned(2), of kind] by (cases "children s2 kind") auto
    have len: "sup_spawns s2 = sup_spawns s @ [kind]" using spawned(2) by (simp add: calm_def)
    let ?mc = "\<lparr>mc_handle = length (sup_spawns s), mc_socket_path = worker_socket_path os kind, last_health = None,
             last_health_at = None, restart_attempts = 0, backoff_until = None\<rparr>"
    have "sup_inv os (s2\<lparr>children := (children s2)(kind \<mapsto> ?mc)\<rparr>)"
    proof (rule sup_invI, goal_cases)
      case (1 h)
      then show ?case using sup_inv_alive(1) [OF spawned(3)] by simp
    next
      case (2 h)
      show ?case
      proof (cases "h = length (sup_spawns s)")
        case True
        then show ?thesis by (intro exI [of _ kind]) simp
      next
        case False
        then obtain k mc where k: "children s2 k = Some mc" "mc_handle mc = h" using 2 sup_inv_alive(2) [OF spawned(3), of h] by auto
        then have "k \<noteq> kind" using none by auto
        with k show ?thesis by (intro exI [of _ k]) simp
      qed
    next
      case (3 k mc)
      then show ?case using sup_inv_child [OF spawned(3), of k mc] len by (auto simp: nth_append split: if_splits)
    qed
    then show ?thesis unfolding spawned(4) using True by simp
  next
    case False
    with spawned show ?thesis by simp
  qed
qed

lemma spawned_settled:
  assumes "sup_inv os s" "settled os (insert kind K) s"
    "\<And>h. h \<noteq> length (sup_spawns s) \<Longrightarrow> os_alive os h w \<Longrightarrow> os_alive os h (sup_world s)"
  shows "settled os K (s\<lparr>children := (children s)(kind := None), sup_spawns := sup_spawns s @ [kind], sup_world := w\<rparr>)"
  unfolding settled_def
proof (intro allI impI, goal_cases)
  case (1 k mc)
  then have k: "children s k = Some mc" "k \<noteq> kind" by (auto split: if_splits)
  have "mc_handle mc \<noteq> length (sup_spawns s)" using sup_inv_child [OF assms(1) k(1)] by auto
  with assms(2,3) k show ?case by (auto simp: settled_def)
qed

lemma ensure_spawned_settled:
  assumes "sup_inv os s" "settled os (insert kind K) s"
  shows "settled os K (snd (ensure_spawned os kind s))"
  using assms(1)
proof (cases rule: ensure_spawned_cases [where kind = kind])
  case (alive mc)
  have "settled os K s" unfolding settled_def
  proof (intro allI impI, goal_cases)
    case (1 k m)
    then have "restart_attempts m = 0 \<and> backoff_until m = None \<or> k \<in> insert kind K \<and> \<not> os_alive os (mc_handle m) (sup_world s)"
      using assms(2) by (simp add: settled_def)
    with 1 alive show ?case by auto
  qed
  with alive show ?thesis by simp
next
  case (failed e w)
  then show ?thesis using spawned_settled [OF assms failed(5)] by simp
next
  case (spawned b w s2)
  from calm_settled [OF spawned(2) spawned_settled [OF assms spawned(5)]] have "settled os K s2" .
  then show ?thesis unfolding spawned(4) by (auto simp: settled_def)
qed

lemma ensure_spawned_settled': "sup_inv os s \<Longrightarrow> settled os K s \<Longrightarrow> settled os K (snd (ensure_spawned os kind s))"
  by (rule ensure_spawned_settled) (auto simp: settled_def)

lemma respawn_all_inv: "sup_inv os s \<Longrightarrow> settled os (set ks) s \<Longrightarrow>
    sup_inv os (respawn_all os ks s) \<and> settled os {} (respawn_all os ks s)"
  unfolding respawn_all_def
  by (induction ks arbitrary: s) (simp_all add: ensure_spawned_inv ensure_spawned_settled)

definition good :: "'w sup \<Rightarrow> bool" where
  "good s \<longleftrightarrow> sup_inv os s \<and> settled os {} s"

lemma good_calm: "calm os s s' \<Longrightarrow> good s \<Longrightarrow> good s'"
  by (auto simp: good_def intro: calm_inv calm_settled)

lemma good_ensure_spawned: "good s \<Longrightarrow> good (snd (ensure_spawned os kind s))"
  by (simp add: good_def ensure_spawned_inv ensure_spawned_settled')

lemma good_poll: "good s \<Longrightarrow> good (poll_once os order s)"
proof -
  assume "good s"
  with calm_probe_all have "good (probe_all os (filter (\<lambda>k. children s k \<noteq> None) order) s)" (is "good ?s") by (rule good_calm)
  then have "sup_inv os (snd (reap_mark os order ?s))"
      "settled os (set (fst (reap_mark os order ?s))) (snd (reap_mark os order ?s))"
    using reap_mark_inv reap_mark_settled [of os "{}" ?s order] by (auto simp: good_def)
  then show ?thesis by (simp add: poll_once_def reap_and_restart_def Let_def good_def respawn_all_inv)
qed

lemma good_pool: "good s \<Longrightarrow> good (s\<lparr>sup_pool := p\<rparr>)"
  by (simp add: good_def sup_inv_def settled_def)

lemma good_ensure: "good s \<Longrightarrow> good (snd (ensure os kind d s))"
proof -
  assume g: "good s"
  obtain r s1 where e: "ensure_spawned os kind s = (r, s1)" by fastforce
  have "good s1" using good_ensure_spawned [OF g, of kind] by (simp add: e)
  then show ?thesis using good_calm [OF calm_wait_for_ready good_pool]
    by (cases r) (simp_all add: ensure_def e Let_def)
qed

lemma good_run_batch: "good s \<Longrightarrow> good (snd (sup_run_batch os kind ins s))"
proof -
  assume g: "good s"
  obtain r s1 where e: "ensure os kind WORKER_RAISE_DEADLINE s = (r, s1)" by fastforce
  have g1: "good s1" using good_ensure [OF g, of kind WORKER_RAISE_DEADLINE] by (simp add: e)
  obtain q s2 where q: "request os (socket_for os kind s1) (batch_request ins) RUN_BATCH_TIMEOUT s1 = (q, s2)" by fastforce
  have "good s2" using good_calm [OF calm_request g1, of "socket_for os kind s1" "batch_request ins" RUN_BATCH_TIMEOUT] by (simp add: q)
  with g1 show ?thesis unfolding sup_run_batch_def e by (auto simp: q split: sum.split WorkerResp.split)
qed

lemma good_escalate: "good s \<Longrightarrow> good (escalate_to_kill os kind s)"
  unfolding escalate_to_kill_def
  by (intro good_ensure_spawned) (auto intro: good_calm [OF calm_terminate] split: option.split)

lemma good_cancel: "good s \<Longrightarrow> good (snd (sup_cancel os kind rid s))"
proof -
  assume g: "good s"
  obtain r s1 where r: "request os (socket_for os kind s) (ReqCancel rid) HEALTH_PROBE_TIMEOUT s = (r, s1)" by fastforce
  have g1: "good s1" using good_calm [OF calm_request g, of "socket_for os kind s" "ReqCancel rid" HEALTH_PROBE_TIMEOUT] by (simp add: r)
  obtain b s2 where c: "cancel_poll os kind (socket_for os kind s) rid (sup_now s1) s1 = (b, s2)" by fastforce
  have "good s2" using good_calm [OF calm_cancel_poll g1, of kind "socket_for os kind s" rid "sup_now s1"] by (simp add: c)
  with g1 show ?thesis unfolding sup_cancel_def Let_def r
    by (auto simp: c good_escalate split: sum.split WorkerResp.split bool.split)
qed

lemma good_exec: "good s \<Longrightarrow> good (sup_exec os op s)"
  by (cases op) (simp_all add: good_ensure good_run_batch good_cancel good_poll good_calm [OF calm_shutdown])

lemma good_sup_run: "good s \<Longrightarrow> good (sup_run os ops s)"
  unfolding sup_run_def by (induction ops arbitrary: s) (simp_all add: good_exec)

lemma good_new: "(\<And>h. \<not> os_alive os h w) \<Longrightarrow> good (sup_new t w)"
  by (simp add: good_def sup_inv_def settled_def sup_new_def)

end

section \<open>Processes that run the worker\<close>

text \<open>
  The interface on the model of the worker. \<open>pc_binds\<close> says which processes bind their socket
  in time, \<open>pc_progress\<close> what the threads of a worker do while the supervisor sleeps,
  \<open>pc_model\<close> what the loaded model answers.
\<close>

record plane_cfg =
  pc_stem :: string
  pc_pid :: "nat \<Rightarrow> u32"
  pc_binds :: "nat \<Rightarrow> bool"
  pc_progress :: "worker \<Rightarrow> worker"
  pc_model :: "WorkloadInput list \<Rightarrow> string + WorkloadOutput list"
  pc_path :: "WorkloadKind \<Rightarrow> string"

record plane =
  pw_procs :: "nat \<rightharpoonup> worker"
  pw_sockets :: "string \<rightharpoonup> nat"

definition plane_spawn :: "plane_cfg \<Rightarrow> WorkloadKind \<Rightarrow> string \<Rightarrow> nat \<Rightarrow> plane \<Rightarrow> (string + unit) \<times> plane" where
  "plane_spawn cfg kind path h w =
     (Inr (), if build_workload kind = None then w
      else w\<lparr>pw_procs := (pw_procs w)(h \<mapsto> worker_new kind (pc_stem cfg) (pc_pid cfg h)),
        pw_sockets := (if pc_binds cfg h then (pw_sockets w)(path \<mapsto> h) else pw_sockets w)\<rparr>)"

definition run_thread :: "plane_cfg \<Rightarrow> WorkloadInput list \<Rightarrow> nat \<Rightarrow> worker \<Rightarrow> worker" where
  "run_thread cfg ins i wk =
     (let f = batch_step (\<lambda>m n. ''run_batch length'') id (pc_model cfg ins) i in f (f (f (f (f wk)))))"

definition plane_serve :: "plane_cfg \<Rightarrow> WorkerReq \<Rightarrow> worker \<Rightarrow> WorkerResp \<times> worker" where
  "plane_serve cfg req wk = (case serve_req req wk of
      (Some r, wk1) \<Rightarrow> (r, wk1)
    | (None, wk1) \<Rightarrow>
        (let i = length (wk_batches wk); wk2 = run_thread cfg (bt_inputs (wk_batches wk1 ! i)) i wk1 in
         (case bt_phase (wk_batches wk2 ! i) of Replied r \<Rightarrow> (r, wk2) | _ \<Rightarrow> (RespError [], wk2))))"

definition plane_request ::
  "plane_cfg \<Rightarrow> string \<Rightarrow> WorkerReq \<Rightarrow> nat \<Rightarrow> plane \<Rightarrow> (WorkerIpcError + WorkerResp) \<times> nat \<times> plane" where
  "plane_request cfg path req t w = (case pw_sockets w path of
      None \<Rightarrow> (Inl WorkerDown, 0, w)
    | Some h \<Rightarrow> (case pw_procs w h of
        None \<Rightarrow> (Inl WorkerDown, 0, w)
      | Some wk \<Rightarrow>
          (let (r, wk1) = plane_serve cfg req wk in
           (Inr r, 0, if wk_shutdown wk1 then w\<lparr>pw_procs := (pw_procs w)(h := None), pw_sockets := (pw_sockets w)(path := None)\<rparr>
             else w\<lparr>pw_procs := (pw_procs w)(h \<mapsto> wk1)\<rparr>))))"

definition plane_os :: "plane_cfg \<Rightarrow> plane worker_os" where
  "plane_os cfg =
     \<lparr>os_spawn = plane_spawn cfg, os_alive = (\<lambda>h w. pw_procs w h \<noteq> None),
      os_terminate = (\<lambda>h w. w\<lparr>pw_procs := (pw_procs w)(h := None)\<rparr>), os_request = plane_request cfg,
      os_exists = (\<lambda>path w. pw_sockets w path \<noteq> None),
      os_sleep = (\<lambda>d w. (0, w\<lparr>pw_procs := map_option (pc_progress cfg) \<circ> pw_procs w\<rparr>)),
      worker_socket_path = pc_path cfg\<rparr>"

lemma plane_os_simps [simp]:
  "os_spawn (plane_os cfg) = plane_spawn cfg" "os_alive (plane_os cfg) h w \<longleftrightarrow> pw_procs w h \<noteq> None"
  "os_terminate (plane_os cfg) h w = w\<lparr>pw_procs := (pw_procs w)(h := None)\<rparr>" "os_request (plane_os cfg) = plane_request cfg"
  "os_exists (plane_os cfg) path w \<longleftrightarrow> pw_sockets w path \<noteq> None"
  "os_sleep (plane_os cfg) d w = (0, w\<lparr>pw_procs := map_option (pc_progress cfg) \<circ> pw_procs w\<rparr>)"
  "worker_socket_path (plane_os cfg) = pc_path cfg"
  by (simp_all add: plane_os_def)

interpretation plane: child_processes "plane_os cfg" for cfg
proof (unfold_locales, goal_cases)
  case (5 h path req t w)
  then show ?case
    by (auto simp: plane_request_def split: option.splits prod.splits if_splits)
qed (auto simp: plane_spawn_def split: if_splits)

definition no_processes :: plane where
  "no_processes = \<lparr>pw_procs = Map.empty, pw_sockets = Map.empty\<rparr>"

lemma plane_good: "plane.good cfg (sup_run (plane_os cfg) ops (sup_new t no_processes))"
  by (intro plane.good_sup_run plane.good_new) (simp add: no_processes_def)

section \<open>Polls and a kind without a child\<close>

lemma record_health_none: "children (record_health k h s) kind = None \<longleftrightarrow> children s kind = None"
  by (simp add: record_health_def Let_def split: option.split)

lemma probe_frame:
  "children (snd (probe os k s)) kind = None \<longleftrightarrow> children s kind = None" "sup_spawns (snd (probe os k s)) = sup_spawns s"
  by (auto simp: probe_def request_def note_probe_def record_health_none record_health_def Let_def
      split: prod.split sum.split WorkerResp.split option.split)

lemma probe_all_frame:
  "children (probe_all os ks s) kind = None \<longleftrightarrow> children s kind = None" "sup_spawns (probe_all os ks s) = sup_spawns s"
  unfolding probe_all_def by (induction ks arbitrary: s) (simp_all add: probe_frame)

lemma reap_mark_children: "children (snd (reap_mark os ks s)) kind = None \<longleftrightarrow> children s kind = None"
  by (induction os ks s rule: reap_mark.induct) (simp_all add: Let_def split: option.split)

lemma reap_mark_spawns: "sup_spawns (snd (reap_mark os ks s)) = sup_spawns s"
  by (induction os ks s rule: reap_mark.induct) (simp_all add: Let_def split: option.split)

lemma reap_mark_absent: "children s kind = None \<Longrightarrow> kind \<notin> set (fst (reap_mark os ks s))"
proof (induction os ks s rule: reap_mark.induct)
  case (2 os k ks s)
  show ?case
  proof (cases "children s k")
    case None
    then show ?thesis using "2.IH"(1) "2.prems" by simp
  next
    case (Some mc)
    then have "k \<noteq> kind" using "2.prems" by auto
    then show ?thesis using "2.IH"(2,3) [OF Some] "2.prems" Some by (simp add: Let_def)
  qed
qed simp

lemma wait_for_socket_frame:
  "children (snd (wait_for_socket os path deadline start s)) = children s \<and>
   sup_spawns (snd (wait_for_socket os path deadline start s)) = sup_spawns s"
proof (induction os path deadline start s rule: wait_for_socket.induct)
  case (1 os path deadline start s)
  then show ?case
    by (subst (1 2) wait_for_socket.simps) (auto simp: sleep_def split: prod.split)
qed

lemma ensure_spawned_result:
  "ensure_spawned os k s = (Inr (), s) \<or>
   (\<exists>c. children (snd (ensure_spawned os k s)) = (children s)(k := c) \<and>
      sup_spawns (snd (ensure_spawned os k s)) = sup_spawns s @ [k] \<and> (isl (fst (ensure_spawned os k s)) \<longrightarrow> c = None))"
proof (cases "case children s k of Some mc \<Rightarrow> os_alive os (mc_handle mc) (sup_world s) | None \<Rightarrow> False")
  case True
  then show ?thesis by (simp add: ensure_spawned_def)
next
  case False
  let ?p = "worker_socket_path os k"
  obtain r w where sp: "os_spawn os k ?p (length (sup_spawns s)) (sup_world s) = (r, w)" by fastforce
  let ?s1 = "s\<lparr>children := (children s)(k := None), sup_spawns := sup_spawns s @ [k], sup_world := w\<rparr>"
  obtain b s2 where wt: "wait_for_socket os ?p SOCKET_BIND_DEADLINE (sup_now s) ?s1 = (b, s2)" by fastforce
  have "children s2 = (children s)(k := None)" "sup_spawns s2 = sup_spawns s @ [k]"
    using wait_for_socket_frame [of os ?p SOCKET_BIND_DEADLINE "sup_now s" ?s1] wt by simp_all
  then show ?thesis using False sp wt by (cases r; cases b) (auto simp: ensure_spawned_def Let_def)
qed

lemma ensure_spawned_frame:
  assumes "k \<noteq> kind"
  shows "children (snd (ensure_spawned os k s)) kind = children s kind"
    "count_list (sup_spawns (snd (ensure_spawned os k s))) kind = count_list (sup_spawns s) kind"
  using assms ensure_spawned_result [of os k s] by auto

lemma respawn_all_frame:
  "kind \<notin> set ks \<Longrightarrow> children (respawn_all os ks s) kind = children s kind \<and>
     count_list (sup_spawns (respawn_all os ks s)) kind = count_list (sup_spawns s) kind"
  unfolding respawn_all_def
proof (induction ks arbitrary: s)
  case (Cons k ks)
  then have "k \<noteq> kind" by auto
  with Cons show ?case by (simp add: ensure_spawned_frame)
qed simp

lemma poll_once_absent:
  assumes "children s kind = None"
  shows "children (poll_once os order s) kind = None \<and>
    count_list (sup_spawns (poll_once os order s)) kind = count_list (sup_spawns s) kind"
proof -
  let ?s = "probe_all os (filter (\<lambda>k. children s k \<noteq> None) order) s"
  have "kind \<notin> set (fst (reap_mark os order ?s))" using assms by (intro reap_mark_absent) (simp add: probe_all_frame)
  from respawn_all_frame [OF this, of os "snd (reap_mark os order ?s)"] assms show ?thesis
    unfolding poll_once_def reap_and_restart_def Let_def by (simp add: reap_mark_children reap_mark_spawns probe_all_frame)
qed

lemma ensure_spawned_failed:
  assumes "ensure_spawned os kind s = (Inl e, s1)"
  shows "children s1 kind = None"
proof -
  have "\<exists>c. children s1 = (children s)(kind := c) \<and> c = None"
    using ensure_spawned_result [of os kind s] assms by auto
  then show ?thesis by auto
qed

section \<open>Cancellation in time\<close>

definition timely :: "'w worker_os \<Rightarrow> nat \<Rightarrow> nat \<Rightarrow> bool" where
  "timely os p l \<longleftrightarrow> (\<forall>path req t w. fst (snd (os_request os path req t w)) \<le> p) \<and> (\<forall>d w. fst (os_sleep os d w) \<le> l)"

lemma timely_request:
  assumes "timely os p l"
  shows "sup_now (snd (request os path req t s)) \<le> sup_now s + p"
proof -
  have "fst (snd (os_request os path req t (sup_world s))) \<le> p" using assms by (simp add: timely_def)
  then show ?thesis by (auto simp: request_def split: prod.split)
qed

lemma timely_sleep:
  assumes "timely os p l"
  shows "sup_now (sleep os d s) \<le> sup_now s + d + l"
proof -
  have "fst (os_sleep os d (sup_world s)) \<le> l" using assms by (simp add: timely_def)
  then show ?thesis by (auto simp: sleep_def split: prod.split)
qed

lemma timely_cancel_poll:
  assumes "timely os p l" "sup_now s \<le> start + (525 + p + l)"
  shows "sup_now (snd (cancel_poll os kind socket rid start s)) \<le> start + (525 + p + l)"
  using assms
proof (induction os kind socket rid start s rule: cancel_poll.induct)
  case (1 os kind socket rid start s)
  let ?p = "request os socket ReqHealth HEALTH_PROBE_TIMEOUT s"
  let ?s2 = "sleep os CANCEL_POLL_INTERVAL (snd ?p)"
  show ?case
  proof (cases "sup_now s - start < CANCEL_YIELD_DEADLINE")
    case True
    have r: "sup_now (snd ?p) \<le> start + 500 + p"
      using timely_request [OF "1.prems"(1), of socket ReqHealth HEALTH_PROBE_TIMEOUT s] True
      by (simp add: CANCEL_YIELD_DEADLINE_def)
    then have "sup_now ?s2 \<le> start + (525 + p + l)"
      using timely_sleep [OF "1.prems"(1), of CANCEL_POLL_INTERVAL "snd ?p"] by (simp add: CANCEL_POLL_INTERVAL_def)
    then have "sup_now (snd (cancel_poll os kind socket rid start ?s2)) \<le> start + (525 + p + l)"
      if "fst ?p = Inr (RespHealth h)" "\<not> inflight_request_id h \<noteq> Some rid" for h
      using "1.IH" [OF True refl refl that(1) refl that(2) "1.prems"(1)] by simp
    with True r show ?thesis
      by (subst cancel_poll.simps) (auto simp: Let_def split: sum.split WorkerResp.split)
  next
    case False
    with "1.prems" show ?thesis by (subst cancel_poll.simps) simp
  qed
qed

lemma timely_wait_for_socket:
  assumes "timely os p l" "sup_now s \<le> start + (deadline + 20 + l)"
  shows "sup_now (snd (wait_for_socket os path deadline start s)) \<le> start + (deadline + 20 + l)"
  using assms
proof (induction os path deadline start s rule: wait_for_socket.induct)
  case (1 os path deadline start s)
  show ?case
  proof (cases "sup_now s - start < deadline \<and> \<not> os_exists os path (sup_world s)")
    case True
    then have "sup_now (sleep os 20 s) \<le> start + (deadline + 20 + l)"
      using timely_sleep [OF "1.prems"(1), of 20 s] by linarith
    with 1 True show ?thesis by (subst wait_for_socket.simps) simp
  next
    case False
    with "1.prems" show ?thesis by (subst wait_for_socket.simps) simp
  qed
qed

lemma timely_ensure_spawned:
  assumes "timely os p l"
  shows "sup_now (snd (ensure_spawned os kind s)) \<le> sup_now s + (SOCKET_BIND_DEADLINE + 20 + l)"
proof -
  let ?p = "worker_socket_path os kind"
  have "sup_now (snd (wait_for_socket os ?p SOCKET_BIND_DEADLINE (sup_now s) (s\<lparr>children := c, sup_spawns := ss, sup_world := w\<rparr>)))
      \<le> sup_now s + (SOCKET_BIND_DEADLINE + 20 + l)" for c ss w
    by (rule timely_wait_for_socket [OF assms]) simp
  then show ?thesis
    unfolding ensure_spawned_def Let_def
    by (auto split: prod.splits sum.splits bool.splits) (metis snd_conv)+
qed

lemma cancel_poll_yielded:
  "fst (cancel_poll os kind socket rid start s) \<Longrightarrow>
     \<exists>s1 h s2. request os socket ReqHealth HEALTH_PROBE_TIMEOUT s1 = (Inr (RespHealth h), s2) \<and>
       inflight_request_id h \<noteq> Some rid \<and> snd (cancel_poll os kind socket rid start s) = record_health kind h s2"
proof (induction os kind socket rid start s rule: cancel_poll.induct)
  case (1 os kind socket rid start s)
  let ?p = "request os socket ReqHealth HEALTH_PROBE_TIMEOUT s"
  have g: "sup_now s - start < CANCEL_YIELD_DEADLINE"
    using "1.prems" by (subst (asm) cancel_poll.simps) (auto split: if_splits)
  from "1.prems" obtain h where h: "fst ?p = Inr (RespHealth h)"
    by (subst (asm) cancel_poll.simps) (auto simp: g Let_def split: sum.splits WorkerResp.splits)
  show ?case
  proof (cases "inflight_request_id h \<noteq> Some rid")
    case True
    then have "cancel_poll os kind socket rid start s = (True, record_health kind h (snd ?p))"
      using g h by (subst cancel_poll.simps) (simp add: Let_def)
    with True h show ?thesis by (intro exI [of _ s] exI [of _ h] exI [of _ "snd ?p"]) (simp add: prod_eq_iff)
  next
    case False
    then have "cancel_poll os kind socket rid start s = cancel_poll os kind socket rid start (sleep os CANCEL_POLL_INTERVAL (snd ?p))"
      using g h by (subst cancel_poll.simps) (simp add: Let_def)
    with "1.IH" [OF g refl refl h refl False] "1.prems" show ?thesis by simp
  qed
qed

section \<open>A worker whose model does not load\<close>

definition stays_failed :: "'w worker_os \<Rightarrow> WorkloadKind \<Rightarrow> nat \<Rightarrow> string \<Rightarrow> bool" where
  "stays_failed os kind h reason \<longleftrightarrow> (\<forall>w. os_alive os h w) \<and>
     (\<forall>t w. \<exists>hl. fst (os_request os (worker_socket_path os kind) ReqHealth t w) = Inr (RespHealth hl) \<and> wh_state hl = WsFailed reason)"

definition dud :: "'w worker_os \<Rightarrow> WorkloadKind \<Rightarrow> nat \<Rightarrow> 'w sup \<Rightarrow> bool" where
  "dud os kind h s \<longleftrightarrow> (\<exists>mc. children s kind = Some mc \<and> mc_handle mc = h \<and> mc_socket_path mc = worker_socket_path os kind \<and>
     (\<forall>hl. last_health mc = Some hl \<longrightarrow> \<not> is_ready (wh_state hl)))"

lemma dud_request:
  assumes "stays_failed os kind h reason" "dud os kind h s"
  shows "\<exists>hl s1. request os (socket_for os kind s) ReqHealth t s = (Inr (RespHealth hl), s1) \<and> wh_state hl = WsFailed reason \<and>
    children s1 = children s \<and> sup_spawns s1 = sup_spawns s"
proof -
  have p: "socket_for os kind s = worker_socket_path os kind" using assms(2) by (auto simp: dud_def socket_for_def)
  obtain hl where hl: "fst (os_request os (worker_socket_path os kind) ReqHealth t (sup_world s)) = Inr (RespHealth hl)" "wh_state hl = WsFailed reason"
    using assms(1) unfolding stays_failed_def by blast
  then show ?thesis unfolding p
    by (cases "os_request os (worker_socket_path os kind) ReqHealth t (sup_world s)") (simp add: request_def)
qed

lemma dud_probe:
  assumes "stays_failed os kind h reason" "dud os kind h s"
  shows "dud os kind h (snd (probe os k s))"
proof (cases "k = kind")
  case True
  obtain hl s1 where r: "request os (socket_for os kind s) ReqHealth HEALTH_PROBE_TIMEOUT s = (Inr (RespHealth hl), s1)"
      "wh_state hl = WsFailed reason" "children s1 = children s"
    using dud_request [OF assms] by blast
  with assms(2) True show ?thesis by (auto simp: probe_def note_probe_def dud_def record_health_def Let_def)
next
  case False
  obtain r s1 where r: "request os (socket_for os k s) ReqHealth HEALTH_PROBE_TIMEOUT s = (r, s1)" by fastforce
  then have "children s1 = children s" by (auto simp: request_def split: prod.splits)
  then have "children (note_probe k r s1) kind = children s kind"
    using False by (auto simp: note_probe_def record_health_def Let_def split: sum.split WorkerResp.split option.split)
  then show ?thesis using assms(2) by (simp add: probe_def r dud_def)
qed

lemma dud_probe_all: "stays_failed os kind h reason \<Longrightarrow> dud os kind h s \<Longrightarrow> dud os kind h (probe_all os ks s)"
  unfolding probe_all_def by (induction ks arbitrary: s) (simp_all add: dud_probe)

lemma dud_reap:
  assumes "stays_failed os kind h reason" "dud os kind h s"
  shows "dud os kind h (snd (reap_mark os ks s)) \<and> kind \<notin> set (fst (reap_mark os ks s))"
  using assms
proof (induction os ks s rule: reap_mark.induct)
  case (2 os k ks s)
  show ?case
  proof (cases "children s k")
    case None
    then show ?thesis using "2.IH"(1) "2.prems" by simp
  next
    case (Some mc)
    show ?thesis
    proof (cases "due_for_restart os mc s")
      case True
      then have "k \<noteq> kind" using "2.prems" Some by (auto simp: due_for_restart_def stays_failed_def dud_def)
      moreover have "dud os kind h (s\<lparr>children := (children s)(k \<mapsto> m)\<rparr>)" for m using \<open>k \<noteq> kind\<close> "2.prems"(2) by (simp add: dud_def)
      ultimately show ?thesis using "2.IH"(3) [OF Some _ refl refl "2.prems"(1)] True Some by (simp add: Let_def)
    next
      case False
      then show ?thesis using "2.IH"(2) [OF Some False "2.prems"] Some by simp
    qed
  qed
qed simp

lemma dud_poll:
  assumes "stays_failed os kind h reason" "dud os kind h s"
  shows "dud os kind h (poll_once os order s) \<and> count_list (sup_spawns (poll_once os order s)) kind = count_list (sup_spawns s) kind"
proof -
  let ?s = "probe_all os (filter (\<lambda>k. children s k \<noteq> None) order) s"
  let ?r = "reap_mark os order ?s"
  have d: "dud os kind h (snd ?r)" "kind \<notin> set (fst ?r)" using dud_reap [OF assms(1) dud_probe_all [OF assms]] by blast+
  from respawn_all_frame [OF d(2), of os "snd ?r"] d(1) show ?thesis
    unfolding poll_once_def reap_and_restart_def Let_def by (auto simp: dud_def reap_mark_spawns probe_all_frame)
qed

lemma dud_polls:
  assumes "stays_failed os kind h reason" "dud os kind h s"
  shows "dud os kind h (fold (poll_once os) orders s) \<and>
    count_list (sup_spawns (fold (poll_once os) orders s)) kind = count_list (sup_spawns s) kind"
  using assms(2) by (induction orders arbitrary: s) (simp_all add: dud_poll [OF assms(1)])

lemma clear_other: "k \<noteq> kind \<Longrightarrow> map_of (snd (clear_degraded k gate)) (WorkloadKind_as_str kind) = map_of gate (WorkloadKind_as_str kind)"
  using wkind.as_str_inj [of kind k] by (simp add: clear_degraded_def map_of_bt_remove)

lemma dud_recovery: "dud os kind h s \<Longrightarrow> map_of (recovery_tick order s gate) (WorkloadKind_as_str kind) = map_of gate (WorkloadKind_as_str kind)"
proof (induction order arbitrary: gate)
  case (Cons k order)
  show ?case
  proof (cases "k = kind")
    case True
    with Cons show ?thesis by (auto simp: recovery_tick_def all_health_def dud_def split: option.splits)
  next
    case False
    with Cons show ?thesis by (auto simp: recovery_tick_def clear_other split: option.split)
  qed
qed (simp add: recovery_tick_def)

lemma dud_ensure:
  assumes "stays_failed os kind h reason" "dud os kind h s"
  shows "fst (ensure os kind d s) = Inl (LoadFailed kind reason) \<and> sup_spawns (snd (ensure os kind d s)) = sup_spawns s"
proof -
  have e: "ensure_spawned os kind s = (Inr (), s)"
    using assms by (auto simp: ensure_spawned_def dud_def stays_failed_def)
  let ?s = "s\<lparr>sup_pool := snd (touch (sup_now s) kind (sup_pool s))\<rparr>"
  have "dud os kind h ?s" using assms(2) by (simp add: dud_def)
  from dud_request [OF assms(1) this] obtain hl s1 where
    r: "request os (socket_for os kind ?s) ReqHealth HEALTH_PROBE_TIMEOUT ?s = (Inr (RespHealth hl), s1)" "wh_state hl = WsFailed reason"
      "sup_spawns s1 = sup_spawns ?s" by blast
  have "probe os kind ?s = (Inr (RespHealth hl), record_health kind hl s1)" by (simp add: probe_def r(1) note_probe_def)
  then have "wait_for_ready os kind d (sup_now ?s) ?s = (Inl (LoadFailed kind reason), record_health kind hl s1)"
    by (subst wait_for_ready.simps) (simp add: r(2) Let_def)
  moreover have "sup_spawns (record_health kind hl s1) = sup_spawns s"
    using r(3) by (simp add: record_health_def Let_def split: option.split)
  ultimately show ?thesis by (simp add: ensure_def e Let_def)
qed

section \<open>Requests to a worker of the plane\<close>

lemma plane_request_served:
  assumes "pw_sockets (sup_world s) path = Some h" "pw_procs (sup_world s) h = Some wk" "serve_req req wk = (Some r, wk)" "\<not> wk_shutdown wk"
  shows "request (plane_os cfg) path req t s = (Inr r, s)"
  using assms by (simp add: request_def plane_request_def plane_serve_def fun_upd_idem)

lemma cancel_other_served: "wk_inflight wk \<noteq> Some rid \<Longrightarrow> serve_req (ReqCancel rid) wk = (Some RespCancelAck, wk)"
  by (simp add: serve_req_def)

lemma health_served: "serve_req ReqHealth wk = (Some (RespHealth (to_health (wk_state wk) (wk_inflight wk))), wk)"
  by (simp add: serve_req_def dispatch_req_def)

lemma last_batch_steps:
  "wk_batches w = bs @ [\<lparr>bt_id = n, bt_inputs = ins, bt_phase = Spawned\<rparr>] \<Longrightarrow> batch_step le ne r (length bs) w =
     w\<lparr>wk_inflight := Some n, wk_batches := bs @ [\<lparr>bt_id = n, bt_inputs = ins, bt_phase = Marked\<rparr>]\<rparr>"
  "wk_batches w = bs @ [\<lparr>bt_id = n, bt_inputs = ins, bt_phase = Marked\<rparr>] \<Longrightarrow> is_ready (workload_state (wk_state w)) \<Longrightarrow>
     batch_step le ne r (length bs) w = w\<lparr>wk_batches := bs @ [\<lparr>bt_id = n, bt_inputs = ins, bt_phase = InModel\<rparr>]\<rparr>"
  "wk_batches w = bs @ [\<lparr>bt_id = n, bt_inputs = ins, bt_phase = InModel\<rparr>] \<Longrightarrow> length outs = length ins \<Longrightarrow>
     batch_step le ne (Inr outs) (length bs) w = w\<lparr>wk_state := (wk_state w)\<lparr>ws_calls := ws_calls (wk_state w) + 1, ws_ema_ms := ne (ws_ema_ms (wk_state w))\<rparr>,
       wk_batches := bs @ [\<lparr>bt_id = n, bt_inputs = ins, bt_phase = Answering (RespRunBatch outs)\<rparr>]\<rparr>"
  "wk_batches w = bs @ [\<lparr>bt_id = n, bt_inputs = ins, bt_phase = Answering a\<rparr>] \<Longrightarrow> batch_step le ne r (length bs) w =
     w\<lparr>wk_inflight := None, wk_batches := bs @ [\<lparr>bt_id = n, bt_inputs = ins, bt_phase = Unmarked a\<rparr>]\<rparr>"
  "wk_batches w = bs @ [\<lparr>bt_id = n, bt_inputs = ins, bt_phase = Unmarked a\<rparr>] \<Longrightarrow> batch_step le ne r (length bs) w =
     w\<lparr>wk_batches := bs @ [\<lparr>bt_id = n, bt_inputs = ins, bt_phase = Replied a\<rparr>]\<rparr>"
  by (simp_all add: batch_step_def Let_def batch_finish_def flip: batch_gate_ready)

lemma run_thread_ready:
  assumes "is_ready (workload_state (wk_state wk))" "pc_model cfg ins = Inr outs" "length outs = length ins"
  shows "\<exists>wk1. plane_serve cfg (ReqRunBatch rid ins) wk = (RespRunBatch outs, wk1) \<and> wk_shutdown wk1 = wk_shutdown wk"
proof -
  define f where "f = batch_step (\<lambda>m n. ''run_batch length'') id (Inr outs) (length (wk_batches wk))"
  define w0 where "w0 = wk\<lparr>wk_batches := wk_batches wk @ [\<lparr>bt_id = rid, bt_inputs = ins, bt_phase = Spawned\<rparr>]\<rparr>"
  have "f (f (f (f (f w0)))) = w0\<lparr>wk_inflight := None, wk_state := (wk_state wk)\<lparr>ws_calls := ws_calls (wk_state wk) + 1\<rparr>,
      wk_batches := wk_batches wk @ [\<lparr>bt_id = rid, bt_inputs = ins, bt_phase = Replied (RespRunBatch outs)\<rparr>]\<rparr>"
    unfolding f_def by (simp add: last_batch_steps assms(1,3) w0_def)
  moreover have "run_thread cfg ins (length (wk_batches wk)) w0 = f (f (f (f (f w0))))"
    by (simp add: run_thread_def f_def assms(2) Let_def)
  moreover have "serve_req (ReqRunBatch rid ins) wk = (None, w0)" "bt_inputs (wk_batches w0 ! length (wk_batches wk)) = ins"
    by (simp_all add: serve_req_def w0_def)
  ultimately show ?thesis by (simp add: plane_serve_def Let_def w0_def)
qed

lemma plane_ensure_ready:
  assumes "children s kind = Some mc" "mc_socket_path mc = pc_path cfg kind" "pw_sockets (sup_world s) (pc_path cfg kind) = Some (mc_handle mc)"
    "pw_procs (sup_world s) (mc_handle mc) = Some wk" "workload_state (wk_state wk) = WsReady backend" "\<not> wk_shutdown wk"
  shows "\<exists>hl s1. ensure (plane_os cfg) kind d s = (Inr hl, s1) \<and> sup_world s1 = sup_world s \<and> socket_for (plane_os cfg) kind s1 = pc_path cfg kind"
proof -
  let ?os = "plane_os cfg"
  let ?s = "s\<lparr>sup_pool := snd (touch (sup_now s) kind (sup_pool s))\<rparr>"
  let ?hl = "to_health (wk_state wk) (wk_inflight wk)"
  have e: "ensure_spawned ?os kind s = (Inr (), s)" using assms(1,4) by (simp add: ensure_spawned_def)
  have p: "socket_for ?os kind ?s = pc_path cfg kind" using assms(1,2) by (simp add: socket_for_def)
  have "request ?os (pc_path cfg kind) ReqHealth HEALTH_PROBE_TIMEOUT ?s = (Inr (RespHealth ?hl), ?s)"
    by (rule plane_request_served) (use assms(3,4,6) health_served in simp_all)
  then have "probe ?os kind ?s = (Inr (RespHealth ?hl), record_health kind ?hl ?s)"
    unfolding probe_def p by (simp add: note_probe_def)
  then have "ensure ?os kind d s = (Inr ?hl, record_health kind ?hl ?s)"
    unfolding ensure_def e by (subst wait_for_ready.simps) (simp add: Let_def to_health_def assms(5))
  moreover have "sup_world (record_health kind ?hl ?s) = sup_world s" "socket_for ?os kind (record_health kind ?hl ?s) = pc_path cfg kind"
    using assms(1,2) by (simp_all add: record_health_def socket_for_def Let_def)
  ultimately show ?thesis by blast
qed

lemma plane_socket_absent:
  "pw_sockets (sup_world s) path = None \<Longrightarrow> \<exists>s1. wait_for_socket (plane_os cfg) path deadline start s = (False, s1) \<and>
     (pw_procs (sup_world s) h \<noteq> None \<longrightarrow> pw_procs (sup_world s1) h \<noteq> None) \<and> sup_unbound s1 = sup_unbound s"
proof (induction "Suc (start + deadline) - sup_now s" arbitrary: s rule: less_induct)
  case less
  show ?case
  proof (cases "sup_now s - start < deadline")
    case True
    let ?s = "sleep (plane_os cfg) 20 s"
    have "Suc (start + deadline) - sup_now ?s < Suc (start + deadline) - sup_now s"
      using True by (intro diff_less_mono2) auto
    moreover have "pw_sockets (sup_world ?s) path = None" "sup_unbound ?s = sup_unbound s"
        "pw_procs (sup_world ?s) h = map_option (pc_progress cfg) (pw_procs (sup_world s) h)"
      using less.prems by (simp_all add: sleep_def)
    moreover have "wait_for_socket (plane_os cfg) path deadline start s = wait_for_socket (plane_os cfg) path deadline start ?s"
      using True less.prems by (subst wait_for_socket.simps) simp
    ultimately show ?thesis using less.hyps by fastforce
  next
    case False
    then show ?thesis by (subst wait_for_socket.simps) simp
  qed
qed

lemma plane_fresh_ensure:
  assumes "build_workload kind = Some kind" "pc_binds cfg (length (sup_spawns s))" "children s kind = None"
  shows "\<exists>s1 mc. ensure (plane_os cfg) kind d s = (Inl (ModelNotPrepared kind), s1) \<and> children s1 kind = Some mc \<and>
    mc_handle mc = length (sup_spawns s) \<and>
    pw_procs (sup_world s1) (length (sup_spawns s)) = Some (worker_new kind (pc_stem cfg) (pc_pid cfg (length (sup_spawns s)))) \<and>
    sup_unbound s1 = sup_unbound s \<and> sup_spawns s1 = sup_spawns s @ [kind]"
proof -
  let ?os = "plane_os cfg" and ?h = "length (sup_spawns s)" and ?p = "pc_path cfg kind"
  let ?wk = "worker_new kind (pc_stem cfg) (pc_pid cfg ?h)"
  let ?mc = "\<lparr>mc_handle = ?h, mc_socket_path = ?p, last_health = None, last_health_at = None, restart_attempts = 0, backoff_until = None\<rparr>"
  define w where "w = (sup_world s)\<lparr>pw_procs := (pw_procs (sup_world s))(?h \<mapsto> ?wk), pw_sockets := (pw_sockets (sup_world s))(?p \<mapsto> ?h)\<rparr>"
  define s1 where "s1 = s\<lparr>children := (children s)(kind \<mapsto> ?mc), sup_spawns := sup_spawns s @ [kind], sup_world := w\<rparr>"
  define s2 where "s2 = s1\<lparr>sup_pool := snd (touch (sup_now s1) kind (sup_pool s1))\<rparr>"
  have e: "ensure_spawned ?os kind s = (Inr (), s1)"
    unfolding ensure_spawned_def using assms
    by (simp add: plane_spawn_def Let_def wait_for_socket.simps [of ?os ?p] SOCKET_BIND_DEADLINE_def s1_def w_def)
  let ?hl = "to_health (wk_state ?wk) (wk_inflight ?wk)"
  have "request ?os ?p ReqHealth HEALTH_PROBE_TIMEOUT s2 = (Inr (RespHealth ?hl), s2)"
    by (rule plane_request_served [OF _ _ health_served, of _ _ ?h]) (simp_all add: s2_def s1_def w_def worker_new_def)
  moreover have "socket_for ?os kind s2 = ?p" by (simp add: socket_for_def s2_def s1_def)
  ultimately have "probe ?os kind s2 = (Inr (RespHealth ?hl), record_health kind ?hl s2)"
    by (simp add: probe_def note_probe_def)
  then have "wait_for_ready ?os kind d (sup_now s2) s2 = (Inl (ModelNotPrepared kind), record_health kind ?hl s2)"
    by (subst wait_for_ready.simps) (simp add: Let_def to_health_def worker_new_def InternalState_new_def)
  then have "ensure ?os kind d s = (Inl (ModelNotPrepared kind), record_health kind ?hl s2)"
    unfolding ensure_def e by (simp add: Let_def s2_def)
  moreover have "children (record_health kind ?hl s2) kind = Some (?mc\<lparr>last_health := Some ?hl, last_health_at := Some (sup_now s2)\<rparr>)"
    by (simp add: record_health_def s2_def s1_def Let_def to_health_def worker_new_def InternalState_new_def)
  moreover have "pw_procs (sup_world (record_health kind ?hl s2)) ?h = Some ?wk" "sup_unbound (record_health kind ?hl s2) = sup_unbound s"
      "sup_spawns (record_health kind ?hl s2) = sup_spawns s @ [kind]"
    by (simp_all add: record_health_def s2_def s1_def w_def Let_def)
  ultimately show ?thesis by simp
qed

context child_processes
begin

lemma ensure_spawned_dead:
  assumes "\<not> os_alive os h (sup_world s)" "h \<noteq> length (sup_spawns s)"
  shows "\<not> os_alive os h (sup_world (snd (ensure_spawned os kind s)))"
proof -
  let ?p = "worker_socket_path os kind"
  obtain r w where sp: "os_spawn os kind ?p (length (sup_spawns s)) (sup_world s) = (r, w)" by fastforce
  have w: "\<not> os_alive os h w" using spawn_other [of h kind ?p "length (sup_spawns s)" "sup_world s"] sp assms by auto
  let ?s1 = "s\<lparr>children := (children s)(kind := None), sup_spawns := sup_spawns s @ [kind], sup_world := w\<rparr>"
  obtain b s2 where wt: "wait_for_socket os ?p SOCKET_BIND_DEADLINE (sup_now s) ?s1 = (b, s2)" by fastforce
  have "calm os ?s1 s2" using calm_wait_for_socket [of ?s1 ?p SOCKET_BIND_DEADLINE "sup_now s"] unfolding wt by simp
  then have "\<not> os_alive os h (sup_world s2)" using w by (auto simp: calm_def)
  with w assms(1) show ?thesis by (auto simp: ensure_spawned_def Let_def sp wt split: sum.split bool.split)
qed

lemma escalate_kills:
  assumes "children s kind = Some mc" "mc_handle mc < length (sup_spawns s)"
  shows "\<not> os_alive os (mc_handle mc) (sup_world (escalate_to_kill os kind s))"
proof -
  let ?s = "s\<lparr>sup_world := os_terminate os (mc_handle mc) (sup_world s)\<rparr>"
  have "\<not> os_alive os (mc_handle mc) (sup_world ?s)" by (simp add: terminate_kills)
  then have "\<not> os_alive os (mc_handle mc) (sup_world (snd (ensure_spawned os kind ?s)))"
    by (rule ensure_spawned_dead) (use assms(2) in simp)
  then show ?thesis by (simp add: escalate_to_kill_def assms(1))
qed

end

section \<open>Properties\<close>

text \<open>
  C12. Whatever sequence of operations the supervisor performs, it loses track of no process: one
  that runs is the child recorded for the kind it was spawned for, or is one whose socket did
  not appear in time. So there is at most one tracked worker per kind.
\<close>

theorem no_worker_leaks:
  assumes "s = sup_run (plane_os cfg) ops (sup_new t no_processes)" "pw_procs (sup_world s) h \<noteq> None" "h \<notin> set (sup_unbound s)"
  shows "h < length (sup_spawns s) \<and> (\<exists>mc. children s (sup_spawns s ! h) = Some mc \<and> mc_handle mc = h \<and>
    mc_socket_path mc = pc_path cfg (sup_spawns s ! h))"
proof -
  have inv: "sup_inv (plane_os cfg) s" using plane_good assms(1) by (simp add: plane.good_def)
  have a: "os_alive (plane_os cfg) h (sup_world s)" using assms(2) by simp
  obtain k mc where "children s k = Some mc" "mc_handle mc = h" using sup_inv_alive(2) [OF inv a assms(3)] by blast
  with sup_inv_child [OF inv, of k mc] show ?thesis by auto
qed

text \<open>
  The exponential backoff never takes effect: after every operation each child has a restart
  count of zero and no pending delay, because the entry that carries them is replaced by the
  very restart they were set for. A worker that dies is restarted by every poll.
\<close>

theorem backoff_never_grows:
  assumes "s = sup_run (plane_os cfg) ops (sup_new t no_processes)" "children s kind = Some mc"
  shows "restart_attempts mc = 0 \<and> backoff_until mc = None \<and>
    (pw_procs (sup_world s) (mc_handle mc) = None \<longrightarrow> due_for_restart (plane_os cfg) mc s)"
proof -
  have "settled (plane_os cfg) {} s" using plane_good assms(1) by (simp add: plane.good_def)
  with assms(2) show ?thesis by (simp add: settled_def due_for_restart_def)
qed

text \<open>
  A respawn that fails once is final: the entry is gone, so no later poll finds the kind, and
  none tries to start it again.
\<close>

theorem failed_respawn_never_retried:
  assumes "ensure_spawned os kind s = (Inl e, s1)"
  shows "children (fold (poll_once os) orders s1) kind = None \<and>
    count_list (sup_spawns (fold (poll_once os) orders s1)) kind = count_list (sup_spawns s1) kind"
  using ensure_spawned_failed [OF assms] by (induction orders arbitrary: s1) (simp_all add: poll_once_absent)

text \<open>
  A worker whose model failed to load is never replaced: it stays alive and reports the
  failure, so no poll restarts it, raising it again returns the same error without a spawn,
  and the recovery thread leaves the kind degraded.
\<close>

theorem failed_load_never_recovers:
  assumes "stays_failed os kind h reason" "dud os kind h s"
  shows "(\<exists>mc. children (fold (poll_once os) orders s) kind = Some mc \<and> mc_handle mc = h) \<and>
     count_list (sup_spawns (fold (poll_once os) orders s)) kind = count_list (sup_spawns s) kind \<and>
     fst (ensure os kind d (fold (poll_once os) orders s)) = Inl (LoadFailed kind reason) \<and>
     map_of (recovery_tick order (fold (poll_once os) orders s) gate) (WorkloadKind_as_str kind) = map_of gate (WorkloadKind_as_str kind)"
proof -
  let ?s = "fold (poll_once os) orders s"
  have d: "dud os kind h ?s" "count_list (sup_spawns ?s) kind = count_list (sup_spawns s) kind"
    using dud_polls [OF assms, of orders] by simp_all
  then have "\<exists>mc. children ?s kind = Some mc \<and> mc_handle mc = h" by (auto simp: dud_def)
  with d dud_ensure [OF assms(1) d(1), of d] dud_recovery [OF d(1), of order gate] show ?thesis by simp
qed


text \<open>
  C39. The watchdog's preemption does not reach the worker. The supervisor sends every batch with
  the nil id, so a worker that runs one reports the nil id in flight; a cancel for the id of
  the scheduler's request is then acknowledged, ignored, and reported as success, while the
  batch goes on running.
\<close>

theorem preempt_misses_running_batch:
  assumes "hard_escape_tick now last_cancelled d = (Some (kind, rid), lc)" "rid \<noteq> 0"
    "children s kind = Some mc" "pw_sockets (sup_world s) (mc_socket_path mc) = Some h" "pw_procs (sup_world s) h = Some wk"
    "(\<lambda>x y. worker_step x y \<and> serial y)\<^sup>*\<^sup>* (worker_new kind stem pid) wk" "\<not> wk_shutdown wk"
    "list_all (\<lambda>b. ReqRunBatch (bt_id b) (bt_inputs b) = batch_request (bt_inputs b)) (wk_batches wk)" "running_id wk \<noteq> None"
  shows "\<exists>s'. sup_cancel (plane_os cfg) kind rid s = (Inr (), s') \<and> pw_procs (sup_world s') h = Some wk \<and> running_id wk = Some 0"
proof -
  let ?os = "plane_os cfg"
  have run: "running_id wk = Some 0"
  proof -
    obtain b bs where b: "filter batch_marked (wk_batches wk) = b # bs" using assms(9) by (cases "filter batch_marked (wk_batches wk)") (auto simp: running_id_def)
    then have "b \<in> set (filter batch_marked (wk_batches wk))" by simp
    then have "b \<in> set (wk_batches wk)" by simp
    with assms(8) have "bt_id b = 0" by (auto simp: list_all_iff batch_request_def)
    with b show ?thesis by (simp add: running_id_def)
  qed
  then have inf: "wk_inflight wk = Some 0" using serial_reach_inflight [OF assms(6)] by simp
  have path: "socket_for ?os kind s = mc_socket_path mc" using assms(3) by (simp add: socket_for_def)
  let ?hl = "to_health (wk_state wk) (wk_inflight wk)"
  have c: "request ?os (mc_socket_path mc) (ReqCancel rid) HEALTH_PROBE_TIMEOUT s = (Inr RespCancelAck, s)"
    by (rule plane_request_served [OF assms(4,5) cancel_other_served assms(7)]) (use inf assms(2) in simp)
  have hl: "request ?os (mc_socket_path mc) ReqHealth HEALTH_PROBE_TIMEOUT s = (Inr (RespHealth ?hl), s)"
    by (rule plane_request_served [OF assms(4,5) health_served assms(7)])
  have "cancel_poll ?os kind (mc_socket_path mc) rid (sup_now s) s = (True, record_health kind ?hl s)"
    by (subst cancel_poll.simps) (use inf assms(2) in \<open>simp add: hl Let_def CANCEL_YIELD_DEADLINE_def to_health_def\<close>)
  then have "sup_cancel ?os kind rid s = (Inr (), record_health kind ?hl s)"
    unfolding sup_cancel_def path Let_def by (simp add: c)
  moreover have "sup_world (record_health kind ?hl s) = sup_world s" by (simp add: record_health_def assms(3) Let_def)
  ultimately show ?thesis using assms(5) run by simp
qed

text \<open>
  A batch sent to a worker whose model is loaded comes back with the model's outputs.
\<close>

theorem batch_reaches_loaded_model:
  assumes "children s kind = Some mc" "mc_socket_path mc = pc_path cfg kind" "pw_sockets (sup_world s) (pc_path cfg kind) = Some (mc_handle mc)"
    "pw_procs (sup_world s) (mc_handle mc) = Some wk" "workload_state (wk_state wk) = WsReady backend" "\<not> wk_shutdown wk"
    "pc_model cfg ins = Inr outs" "length outs = length ins"
  shows "fst (sup_run_batch (plane_os cfg) kind ins s) = Inr outs"
proof -
  obtain hl s1 where e: "ensure (plane_os cfg) kind WORKER_RAISE_DEADLINE s = (Inr hl, s1)" "sup_world s1 = sup_world s"
      "socket_for (plane_os cfg) kind s1 = pc_path cfg kind"
    using plane_ensure_ready [OF assms(1-6)] by blast
  obtain wk1 where "plane_serve cfg (ReqRunBatch 0 ins) wk = (RespRunBatch outs, wk1)"
    using run_thread_ready [OF _ assms(7,8)] assms(5) by force
  then have "fst (request (plane_os cfg) (pc_path cfg kind) (batch_request ins) RUN_BATCH_TIMEOUT s1) = Inr (RespRunBatch outs)"
    using e(2) assms(3,4) by (simp add: request_def plane_request_def batch_request_def)
  then show ?thesis unfolding sup_run_batch_def e(1,3) using e(3)
    by (auto split: prod.split)
qed

text \<open>
  A worker that binds its socket too late is dropped without being stopped: it goes on running
  untracked, and raising the kind again starts another one beside it.
\<close>

theorem unbound_worker_left_running:
  assumes "build_workload kind = Some kind" "\<And>h. \<not> pc_binds cfg h" "pw_sockets (sup_world s) (pc_path cfg kind) = None"
    "children s kind = None" "length (sup_spawns s) = n"
  shows "\<exists>s1. ensure (plane_os cfg) kind d s = (Inl (SocketNotBound kind), s1) \<and> children s1 kind = None \<and>
    pw_procs (sup_world s1) n \<noteq> None \<and> sup_unbound s1 = n # sup_unbound s"
proof -
  let ?s = "s\<lparr>children := (children s)(kind := None), sup_spawns := sup_spawns s @ [kind],
      sup_world := (sup_world s)\<lparr>pw_procs := (pw_procs (sup_world s))(n \<mapsto> worker_new kind (pc_stem cfg) (pc_pid cfg n))\<rparr>\<rparr>"
  have "pw_sockets (sup_world ?s) (pc_path cfg kind) = None" using assms(3) by simp
  from plane_socket_absent [OF this, of cfg SOCKET_BIND_DEADLINE "sup_now s" n] obtain s1 where
    w: "wait_for_socket (plane_os cfg) (pc_path cfg kind) SOCKET_BIND_DEADLINE (sup_now s) ?s = (False, s1)"
      "pw_procs (sup_world s1) n \<noteq> None" "sup_unbound s1 = sup_unbound s" by auto
  have "children s1 kind = None"
    using wait_for_socket_frame [of "plane_os cfg" "pc_path cfg kind" SOCKET_BIND_DEADLINE "sup_now s" ?s] w(1) by simp
  moreover have "ensure (plane_os cfg) kind d s = (Inl (SocketNotBound kind), s1\<lparr>sup_unbound := n # sup_unbound s1\<rparr>)"
    using w(1) assms by (simp add: ensure_def ensure_spawned_def plane_spawn_def Let_def)
  ultimately show ?thesis using w by simp
qed

text \<open>
  A new worker can be reported unprepared although its model is there: the state it starts in
  is the one for a missing model, and a probe that comes before the loader thread has run ends
  the wait with that error.
\<close>

theorem fresh_worker_reported_unprepared:
  assumes "build_workload kind = Some kind" "pc_binds cfg (length (sup_spawns s))" "children s kind = None"
  shows "fst (ensure (plane_os cfg) kind d s) = Inl (ModelNotPrepared kind) \<and>
    (\<exists>wk. pw_procs (sup_world (snd (ensure (plane_os cfg) kind d s))) (length (sup_spawns s)) = Some wk \<and>
       wk_loader wk = LoaderNew \<and> (\<exists>wk'. worker_step\<^sup>*\<^sup>* wk wk' \<and> is_ready (workload_state (wk_state wk'))))"
proof -
  let ?wk = "worker_new kind (pc_stem cfg) (pc_pid cfg (length (sup_spawns s)))"
  let ?w1 = "?wk\<lparr>wk_loader := LoaderRunning, wk_state := loader_begin (wk_state ?wk)\<rparr>"
  let ?w2 = "?w1\<lparr>wk_loader := LoaderDone, wk_state := loader_end 0 (Inr ''cpu'') (wk_state ?w1)\<rparr>"
  have l: "wk_loader ?wk = LoaderNew" by (simp add: worker_new_def)
  then have "worker_step ?wk ?w1" by (rule worker_step.load)
  moreover have "worker_step ?w1 ?w2" by (rule worker_step.loaded) simp
  ultimately have "worker_step\<^sup>*\<^sup>* ?wk ?w2" by (meson converse_rtranclp_into_rtranclp rtranclp.rtrancl_refl)
  moreover have "is_ready (workload_state (wk_state ?w2))" by (simp add: loader_end_def)
  ultimately have "\<exists>wk'. worker_step\<^sup>*\<^sup>* ?wk wk' \<and> is_ready (workload_state (wk_state wk'))" by blast
  with l plane_fresh_ensure [OF assms, of d] show ?thesis by fastforce
qed

section \<open>Witnesses\<close>

definition demo_cfg :: plane_cfg where
  "demo_cfg = \<lparr>pc_stem = ''e5'', pc_pid = (\<lambda>h. 7), pc_binds = (\<lambda>h. True), pc_progress = id,
     pc_model = (\<lambda>ins. Inr (map (\<lambda>x. OutScore 0) ins)), pc_path = WorkloadKind_as_str\<rparr>"

definition demo_mc :: ManagedChild where
  "demo_mc = \<lparr>mc_handle = 0, mc_socket_path = ''embed'', last_health = None, last_health_at = None, restart_attempts = 0, backoff_until = None\<rparr>"

definition demo_sup :: "worker \<Rightarrow> plane sup" where
  "demo_sup wk = (sup_new 0 \<lparr>pw_procs = [0 \<mapsto> wk], pw_sockets = [''embed'' \<mapsto> 0]\<rparr>)\<lparr>children := [Embed \<mapsto> demo_mc], sup_spawns := [Embed]\<rparr>"

lemma demo_raised:
  "\<exists>s mc. sup_run (plane_os demo_cfg) [OpEnsure Embed 5] (sup_new 0 no_processes) = s \<and> children s Embed = Some mc \<and> mc_handle mc = 0 \<and>
     pw_procs (sup_world s) 0 \<noteq> None \<and> sup_unbound s = [] \<and> sup_spawns s = [Embed]"
  using plane_fresh_ensure [of Embed demo_cfg "sup_new 0 no_processes" 5]
  by (auto simp: sup_run_def sup_new_def demo_cfg_def build_workload_def)

theorem no_worker_leaks_witness:
  "\<exists>mc. children (sup_run (plane_os demo_cfg) [OpEnsure Embed 5] (sup_new 0 no_processes)) Embed = Some mc \<and> mc_handle mc = 0"
proof -
  obtain s where s: "s = sup_run (plane_os demo_cfg) [OpEnsure Embed 5] (sup_new 0 no_processes)"
      "pw_procs (sup_world s) 0 \<noteq> None" "sup_unbound s = []" "sup_spawns s = [Embed]"
    using demo_raised by blast
  with no_worker_leaks [OF s(1,2)] show ?thesis by auto
qed

theorem backoff_never_grows_witness:
  "\<exists>mc. children (sup_run (plane_os demo_cfg) [OpEnsure Embed 5] (sup_new 0 no_processes)) Embed = Some mc \<and>
     restart_attempts mc = 0 \<and> backoff_until mc = None"
proof -
  obtain s mc where s: "s = sup_run (plane_os demo_cfg) [OpEnsure Embed 5] (sup_new 0 no_processes)" "children s Embed = Some mc"
    using demo_raised by blast
  with backoff_never_grows [OF s] show ?thesis by auto
qed

definition broken_os :: "unit worker_os" where
  "broken_os = \<lparr>os_spawn = (\<lambda>k p h w. (Inl ''no such file'', ())), os_alive = (\<lambda>h w. True), os_terminate = (\<lambda>h w. ()),
     os_request = (\<lambda>p r t w. (Inr (RespHealth (to_health ((InternalState_new Embed ''e5'' 7)\<lparr>workload_state := WsFailed ''no model''\<rparr>) None)), 0, ())),
     os_exists = (\<lambda>p w. True), os_sleep = (\<lambda>d w. (0, ())), worker_socket_path = WorkloadKind_as_str\<rparr>"

theorem failed_respawn_never_retried_witness:
  "children (fold (poll_once broken_os) [[Embed], [Embed]] ((sup_new 0 ())\<lparr>sup_spawns := [Embed]\<rparr>)) Embed = None"
proof -
  have "ensure_spawned broken_os Embed (sup_new 0 ()) = (Inl (SpawnFailed Embed ''no such file''), (sup_new 0 ())\<lparr>sup_spawns := [Embed]\<rparr>)"
    by (simp add: ensure_spawned_def sup_new_def broken_os_def)
  from failed_respawn_never_retried [OF this, of "[[Embed], [Embed]]"] show ?thesis by blast
qed

theorem failed_load_never_recovers_witness:
  "fst (ensure broken_os Embed 5 (fold (poll_once broken_os) [[Embed], [Embed]] ((sup_new 0 ())\<lparr>children := [Embed \<mapsto> demo_mc]\<rparr>))) =
     Inl (LoadFailed Embed ''no model'')"
proof -
  have "stays_failed broken_os Embed 0 ''no model''" by (simp add: stays_failed_def broken_os_def to_health_def)
  moreover have "dud broken_os Embed 0 ((sup_new 0 ())\<lparr>children := [Embed \<mapsto> demo_mc]\<rparr>)"
    by (simp add: dud_def demo_mc_def broken_os_def)
  ultimately show ?thesis using failed_load_never_recovers by blast
qed

lemma plane_timely: "timely (plane_os cfg) 0 0"
  by (auto simp: timely_def plane_request_def split: option.split prod.split)


theorem batch_reaches_loaded_model_witness:
  "fst (sup_run_batch (plane_os demo_cfg) Embed [InText ''a''] (demo_sup demo_ready)) = Inr [OutScore 0]"
  by (rule batch_reaches_loaded_model [of _ _ demo_mc _ demo_ready "''cpu''"])
    (simp_all add: demo_sup_def sup_new_def demo_mc_def demo_cfg_def demo_defs)

theorem unbound_worker_left_running_witness:
  "\<exists>s1. ensure (plane_os (demo_cfg\<lparr>pc_binds := \<lambda>h. False\<rparr>)) Embed 5 (sup_new 0 no_processes) = (Inl (SocketNotBound Embed), s1) \<and>
     pw_procs (sup_world s1) 0 \<noteq> None \<and> sup_unbound s1 = [0]"
  using unbound_worker_left_running [of Embed "demo_cfg\<lparr>pc_binds := \<lambda>h. False\<rparr>" "sup_new 0 no_processes" 0 5]
  by (auto simp: sup_new_def no_processes_def build_workload_def)

theorem fresh_worker_reported_unprepared_witness:
  "fst (ensure (plane_os demo_cfg) Embed 5 (sup_new 0 no_processes)) = Inl (ModelNotPrepared Embed)"
  using fresh_worker_reported_unprepared [of Embed demo_cfg "sup_new 0 no_processes" 5]
  by (simp add: build_workload_def demo_cfg_def sup_new_def)

definition demo_running :: worker where
  "demo_running = demo_step 0 (demo_req 0 demo_ready)"

lemma demo_running_reach:
  "(\<lambda>x y. worker_step x y \<and> serial y)\<^sup>*\<^sup>* (worker_new Embed ''e5'' 7) demo_running"
proof -
  define R where "R = (\<lambda>x y. worker_step x y \<and> serial y)"
  let ?w = "worker_new Embed ''e5'' 7"
  let ?v = "?w\<lparr>wk_loader := LoaderRunning, wk_state := loader_begin (wk_state ?w)\<rparr>"
  have "worker_step ?w ?v" by (rule worker_step.load) (simp add: worker_new_def)
  then have "R ?w ?v" by (simp add: R_def serial_def worker_new_def)
  moreover have "R ?v demo_ready"
    using worker_step.loaded [of ?v 1 "Inr ''cpu''"] by (simp add: R_def demo_ready_def Let_def serial_def worker_new_def)
  moreover have "R demo_ready (demo_req 0 demo_ready)"
    unfolding R_def demo_req_def by (intro conjI worker_step.serve) (simp_all add: demo_defs serial_def)
  moreover have "R (demo_req 0 demo_ready) demo_running"
    unfolding R_def demo_running_def demo_step_def by (intro conjI worker_step.batch) (simp_all add: demo_defs serial_def)
  ultimately have "R\<^sup>*\<^sup>* ?w demo_running" by (meson converse_rtranclp_into_rtranclp rtranclp.rtrancl_refl)
  then show ?thesis by (simp add: R_def)
qed

theorem preempt_misses_running_batch_witness:
  "\<exists>s'. sup_cancel (plane_os demo_cfg) Embed 9 (demo_sup demo_running) = (Inr (), s') \<and>
     pw_procs (sup_world s') 0 = Some demo_running \<and> running_id demo_running = Some 0"
proof -
  let ?info = "\<lparr>if_request_id = 9, if_workload = Embed, if_class = Background, if_started_at = 0\<rparr>"
  let ?req = "\<lparr>sr_id = 1, sr_workload = Vad, sr_inputs = [], sr_class = Realtime, sr_queued_at = 0,
              sr_deadline = None, sr_cancel = 0\<rparr>"
  let ?d = "(disp init_system)\<lparr>inflight := Some ?info, sched := Scheduler_new\<lparr>realtime_q := [?req]\<rparr>\<rparr>"
  have t: "hard_escape_tick 250 None ?d = (Some (Embed, 9), Some 9)"
    by (simp add: hard_escape_tick_def HARD_ESCAPE_THRESHOLD_def)
  have b: "wk_batches demo_running = [\<lparr>bt_id = 0, bt_inputs = [InText ''a''], bt_phase = Marked\<rparr>]" "\<not> wk_shutdown demo_running"
    by (simp_all add: demo_running_def demo_defs)
  show ?thesis
    by (rule preempt_misses_running_batch [OF t _ _ _ _ demo_running_reach, of _ demo_mc])
      (simp_all add: b demo_sup_def sup_new_def demo_mc_def batch_request_def running_id_def batch_marked_def)
qed

end
