(* ===== verification/Ai_Wire.thy ===== *)
theory Ai_Wire
  imports Ipc_Server Scheduler Knowledge_Daemon Text
begin

text \<open>
  What the AI plane and the knowledge daemon say to each other: the payloads
  (\<open>crates/sy-ipc/src/aiplane.rs\<close>, \<open>knowledge.rs\<close>, the serialised forms of
  \<open>crates/sy-core/src/workload.rs\<close>), their translation to and from IPC v1 methods and the
  client calls (\<open>crates/sy-aiplane/src/aiplane/ipc.rs\<close>). The derived serialisers and
  deserialisers are written out on JSON values. The conversion of an \<open>f32\<close> to a JSON number and
  back is \<open>serde_json\<close>'s and a parameter (\<open>float_json\<close>), with what it documents in
  \<open>float_json_ok\<close>: a finite value survives, anything else is written as \<open>null\<close>. The text of a
  deserialiser's error is a parameter too (\<open>emsg\<close>).
\<close>

section \<open>Reading derived structs\<close>

text \<open>
  A derived struct reads an object, or an array that gives the fields in order; trailing
  elements may be missing, extra ones are an error.
\<close>

fun struct_value :: "string list \<Rightarrow> json \<Rightarrow> json option" where
  "struct_value names (JObject m) = Some (JObject m)"
| "struct_value names (JArray xs) =
     (if length xs \<le> length names then Some (JObject (zip names xs)) else None)"
| "struct_value names _ = None"

definition default_field :: "(json \<Rightarrow> 'a option) \<Rightarrow> 'a \<Rightarrow> json \<Rightarrow> string \<Rightarrow> 'a option" where
  "default_field conv d v k = (case json_get v k of None \<Rightarrow> Some d | Some x \<Rightarrow> conv x)"

fun json_to_list :: "(json \<Rightarrow> 'a option) \<Rightarrow> json \<Rightarrow> 'a list option" where
  "json_to_list conv (JArray xs) = those (map conv xs)"
| "json_to_list conv _ = None"

definition json_list :: "('a \<Rightarrow> json) \<Rightarrow> 'a list \<Rightarrow> json" where
  "json_list f xs = JArray (map f xs)"

definition opt_value :: "('a \<Rightarrow> json) \<Rightarrow> 'a option \<Rightarrow> json" where
  "opt_value f x = (case x of None \<Rightarrow> JNull | Some y \<Rightarrow> f y)"

definition skip_empty :: "string \<Rightarrow> string list \<Rightarrow> (string \<times> json) list" where
  "skip_empty k xs = (if xs = [] then [] else [(k, json_list JString xs)])"

text \<open>An internally tagged enum: the tag is a field of the object or the head of the array.\<close>

fun tagged :: "string \<Rightarrow> json \<Rightarrow> (string \<times> json) option" where
  "tagged tag (JObject m) =
     (case map_of m tag of
        Some (JString t) \<Rightarrow> Some (t, JObject (filter (\<lambda>(k, _). k \<noteq> tag) m))
      | _ \<Rightarrow> None)"
| "tagged tag (JArray (JString t # xs)) = Some (t, JArray xs)"
| "tagged tag _ = None"

section \<open>Numbers\<close>

definition json_u8 :: "byte \<Rightarrow> json" where
  "json_u8 b = JNumber (PosInt (ucast b))"

definition json_to_u8 :: "json \<Rightarrow> byte option" where
  "json_to_u8 v = Option.bind (json_as_u64 v) (\<lambda>n. if unat n < 2 ^ 8 then Some (ucast n) else None)"

definition json_i16 :: "16 word \<Rightarrow> json" where
  "json_i16 w = JNumber (if 0 \<le> sint w then PosInt (ucast w) else NegInt (scast w))"

fun json_to_i16 :: "json \<Rightarrow> 16 word option" where
  "json_to_i16 (JNumber (PosInt n)) = (if unat n < 2 ^ 15 then Some (ucast n) else None)"
| "json_to_i16 (JNumber (NegInt n)) = (if - (2 ^ 15) \<le> sint n \<and> sint n < 0 then Some (ucast n) else None)"
| "json_to_i16 _ = None"

record float_json =
  fj_put :: "f32 \<Rightarrow> json"
  fj_get :: "json \<Rightarrow> f32 option"
  fj_as :: "json \<Rightarrow> f32 option"

text \<open>The exponent of a finite \<open>f32\<close> is not all ones.\<close>

definition f32_finite :: "f32 \<Rightarrow> bool" where
  "f32_finite x \<longleftrightarrow> take_bit 8 (drop_bit 23 x) \<noteq> 255"

definition float_json_ok :: "float_json \<Rightarrow> bool" where
  "float_json_ok F \<longleftrightarrow>
     (\<forall>x. if f32_finite x then fj_put F x \<noteq> JNull \<and> fj_get F (fj_put F x) = Some x \<and> fj_as F (fj_put F x) = Some x
          else fj_put F x = JNull) \<and>
     fj_get F JNull = None \<and> fj_as F JNull = None"

text \<open>One pair of conversions with these properties: the bits of the number are those of the \<open>f32\<close>.\<close>

fun bits_get :: "json \<Rightarrow> f32 option" where
  "bits_get (JNumber (Float w)) = Some (ucast w)"
| "bits_get _ = None"

definition float_bits :: float_json where
  "float_bits =
     \<lparr>fj_put = (\<lambda>x. if f32_finite x then JNumber (Float (ucast x)) else JNull), fj_get = bits_get, fj_as = bits_get\<rparr>"

section \<open>Workload payloads\<close>

definition WorkloadKind_to_value :: "WorkloadKind \<Rightarrow> json" where
  "WorkloadKind_to_value k = JString (WorkloadKind_as_str k)"

text \<open>A unit variant is its name, or an object with the name as its only key and \<open>null\<close> below it.\<close>

fun json_to_workload :: "json \<Rightarrow> WorkloadKind option" where
  "json_to_workload (JString s) = enum_from_str WorkloadKind_ALL WorkloadKind_as_str s"
| "json_to_workload (JObject [(s, JNull)]) = enum_from_str WorkloadKind_ALL WorkloadKind_as_str s"
| "json_to_workload _ = None"

fun WorkloadInput_to_value :: "WorkloadInput \<Rightarrow> json" where
  "WorkloadInput_to_value (InText t) = JObject [(''kind'', JString ''text''), (''text'', JString t)]"
| "WorkloadInput_to_value (InTextPair a b) =
     JObject [(''kind'', JString ''text-pair''), (''a'', JString a), (''b'', JString b)]"
| "WorkloadInput_to_value (InAudio pcm sr) =
     JObject [(''kind'', JString ''audio''), (''pcm'', json_list json_i16 pcm), (''sr'', json_u32 sr)]"
| "WorkloadInput_to_value (InImage bytes) =
     JObject [(''kind'', JString ''image''), (''bytes'', json_list json_u8 bytes)]"

definition WorkloadInput_from_value :: "json \<Rightarrow> WorkloadInput option" where
  "WorkloadInput_from_value v = do {
     (t, rest) \<leftarrow> tagged ''kind'' v;
     if t = ''text'' then do {
       o1 \<leftarrow> struct_value [''text''] rest; s \<leftarrow> req_field json_as_str o1 ''text''; Some (InText s) }
     else if t = ''text-pair'' then do {
       o1 \<leftarrow> struct_value [''a'', ''b''] rest;
       a \<leftarrow> req_field json_as_str o1 ''a''; b \<leftarrow> req_field json_as_str o1 ''b''; Some (InTextPair a b) }
     else if t = ''audio'' then do {
       o1 \<leftarrow> struct_value [''pcm'', ''sr''] rest;
       pcm \<leftarrow> req_field (json_to_list json_to_i16) o1 ''pcm''; sr \<leftarrow> req_field json_to_u32 o1 ''sr'';
       Some (InAudio pcm sr) }
     else if t = ''image'' then do {
       o1 \<leftarrow> struct_value [''bytes''] rest;
       bs \<leftarrow> req_field (json_to_list json_to_u8) o1 ''bytes''; Some (InImage bs) }
     else None }"

definition SpeechSpan_to_value :: "float_json \<Rightarrow> SpeechSpan \<Rightarrow> json" where
  "SpeechSpan_to_value F s = JObject
     [(''start_ms'', json_u32 (start_ms s)), (''end_ms'', json_u32 (end_ms s)), (''prob'', fj_put F (prob s))]"

definition SpeechSpan_from_value :: "float_json \<Rightarrow> json \<Rightarrow> SpeechSpan option" where
  "SpeechSpan_from_value F v = do {
     o1 \<leftarrow> struct_value [''start_ms'', ''end_ms'', ''prob''] v;
     a \<leftarrow> req_field json_to_u32 o1 ''start_ms''; b \<leftarrow> req_field json_to_u32 o1 ''end_ms'';
     p \<leftarrow> req_field (fj_get F) o1 ''prob'';
     Some \<lparr>start_ms = a, end_ms = b, prob = p\<rparr> }"

fun WorkloadOutput_to_value :: "float_json \<Rightarrow> WorkloadOutput \<Rightarrow> json" where
  "WorkloadOutput_to_value F (OutVector v) =
     JObject [(''kind'', JString ''vector''), (''vector'', json_list (fj_put F) v)]"
| "WorkloadOutput_to_value F (OutScore s) = JObject [(''kind'', JString ''score''), (''score'', fj_put F s)]"
| "WorkloadOutput_to_value F (OutText t) = JObject [(''kind'', JString ''text''), (''text'', JString t)]"
| "WorkloadOutput_to_value F (OutSpans ss) =
     JObject [(''kind'', JString ''spans''), (''spans'', json_list (SpeechSpan_to_value F) ss)]"
| "WorkloadOutput_to_value F (OutBytes bs) =
     JObject [(''kind'', JString ''bytes''), (''bytes'', json_list json_u8 bs)]"

definition WorkloadOutput_from_value :: "float_json \<Rightarrow> json \<Rightarrow> WorkloadOutput option" where
  "WorkloadOutput_from_value F v = do {
     (t, rest) \<leftarrow> tagged ''kind'' v;
     if t = ''vector'' then do {
       o1 \<leftarrow> struct_value [''vector''] rest;
       x \<leftarrow> req_field (json_to_list (fj_get F)) o1 ''vector''; Some (OutVector x) }
     else if t = ''score'' then do {
       o1 \<leftarrow> struct_value [''score''] rest; x \<leftarrow> req_field (fj_get F) o1 ''score''; Some (OutScore x) }
     else if t = ''text'' then do {
       o1 \<leftarrow> struct_value [''text''] rest; s \<leftarrow> req_field json_as_str o1 ''text''; Some (OutText s) }
     else if t = ''spans'' then do {
       o1 \<leftarrow> struct_value [''spans''] rest;
       x \<leftarrow> req_field (json_to_list (SpeechSpan_from_value F)) o1 ''spans''; Some (OutSpans x) }
     else if t = ''bytes'' then do {
       o1 \<leftarrow> struct_value [''bytes''] rest;
       x \<leftarrow> req_field (json_to_list json_to_u8) o1 ''bytes''; Some (OutBytes x) }
     else None }"

section \<open>Knowledge payloads\<close>

record SearchFilter =
  date_from :: "string option"
  date_to :: "string option"
  sf_from :: "string list"
  sf_kind :: "string list"
  include_sources :: "string list"
  exclude_sources :: "string list"
  exclude_kinds :: "string list"

definition SearchFilter_to_value :: "SearchFilter \<Rightarrow> json" where
  "SearchFilter_to_value f = JObject
     (skip_none ''date_from'' JString (date_from f) @ skip_none ''date_to'' JString (date_to f)
      @ skip_empty ''from'' (sf_from f) @ skip_empty ''kind'' (sf_kind f)
      @ skip_empty ''include_sources'' (include_sources f) @ skip_empty ''exclude_sources'' (exclude_sources f)
      @ skip_empty ''exclude_kinds'' (exclude_kinds f))"

definition strings_field :: "json \<Rightarrow> string \<Rightarrow> string list option" where
  "strings_field = default_field (json_to_list json_as_str) []"

definition SearchFilter_from_value :: "json \<Rightarrow> SearchFilter option" where
  "SearchFilter_from_value v = do {
     o1 \<leftarrow> struct_value [''date_from'', ''date_to'', ''from'', ''kind'', ''include_sources'',
            ''exclude_sources'', ''exclude_kinds''] v;
     df \<leftarrow> opt_field json_as_str o1 ''date_from''; dt \<leftarrow> opt_field json_as_str o1 ''date_to'';
     fr \<leftarrow> strings_field o1 ''from''; kd \<leftarrow> strings_field o1 ''kind'';
     inc \<leftarrow> strings_field o1 ''include_sources''; exc \<leftarrow> strings_field o1 ''exclude_sources'';
     exk \<leftarrow> strings_field o1 ''exclude_kinds'';
     Some \<lparr>date_from = df, date_to = dt, sf_from = fr, sf_kind = kd, include_sources = inc,
           exclude_sources = exc, exclude_kinds = exk\<rparr> }"

record HitRow =
  hit_score :: f32
  hit_chunk_id :: string
  hit_file_path :: string
  hit_chunk_index :: u32
  hit_chunk_text :: string
  hit_embed_score :: "f32 option"

definition HitRow_to_value :: "float_json \<Rightarrow> HitRow \<Rightarrow> json" where
  "HitRow_to_value F h = JObject
     ([(''score'', fj_put F (hit_score h))]
      @ (if hit_chunk_id h = [] then [] else [(''chunk_id'', JString (hit_chunk_id h))])
      @ [(''file_path'', JString (hit_file_path h)), (''chunk_index'', json_u32 (hit_chunk_index h)),
         (''chunk_text'', JString (hit_chunk_text h))]
      @ skip_none ''embed_score'' (fj_put F) (hit_embed_score h))"

definition HitRow_from_value :: "float_json \<Rightarrow> json \<Rightarrow> HitRow option" where
  "HitRow_from_value F v = do {
     o1 \<leftarrow> struct_value [''score'', ''chunk_id'', ''file_path'', ''chunk_index'', ''chunk_text'', ''embed_score''] v;
     sc \<leftarrow> req_field (fj_get F) o1 ''score''; ci \<leftarrow> default_field json_as_str [] o1 ''chunk_id'';
     fp \<leftarrow> req_field json_as_str o1 ''file_path''; ix \<leftarrow> req_field json_to_u32 o1 ''chunk_index'';
     tx \<leftarrow> req_field json_as_str o1 ''chunk_text''; es \<leftarrow> opt_field (fj_get F) o1 ''embed_score'';
     Some \<lparr>hit_score = sc, hit_chunk_id = ci, hit_file_path = fp, hit_chunk_index = ix, hit_chunk_text = tx,
           hit_embed_score = es\<rparr> }"

record ChunkRow =
  ch_chunk_id :: string
  ch_file_path :: string
  ch_chunk_index :: u32
  ch_kind :: "string option"
  ch_source_name :: "string option"
  ch_text :: string

definition ChunkRow_to_value :: "ChunkRow \<Rightarrow> json" where
  "ChunkRow_to_value c = JObject
     ([(''chunk_id'', JString (ch_chunk_id c)), (''file_path'', JString (ch_file_path c)),
       (''chunk_index'', json_u32 (ch_chunk_index c))]
      @ skip_none ''kind'' JString (ch_kind c) @ skip_none ''source_name'' JString (ch_source_name c)
      @ [(''text'', JString (ch_text c))])"

definition ChunkRow_from_value :: "json \<Rightarrow> ChunkRow option" where
  "ChunkRow_from_value v = do {
     o1 \<leftarrow> struct_value [''chunk_id'', ''file_path'', ''chunk_index'', ''kind'', ''source_name'', ''text''] v;
     ci \<leftarrow> req_field json_as_str o1 ''chunk_id''; fp \<leftarrow> req_field json_as_str o1 ''file_path'';
     ix \<leftarrow> req_field json_to_u32 o1 ''chunk_index''; kd \<leftarrow> opt_field json_as_str o1 ''kind'';
     sn \<leftarrow> opt_field json_as_str o1 ''source_name''; tx \<leftarrow> req_field json_as_str o1 ''text'';
     Some \<lparr>ch_chunk_id = ci, ch_file_path = fp, ch_chunk_index = ix, ch_kind = kd, ch_source_name = sn, ch_text = tx\<rparr> }"

text \<open>\<open>usize\<close> is 64 bits wide.\<close>

datatype Req =
    Req_Run WorkloadKind WorkloadInput
  | Req_Search (rq_query: string) (rq_limit: u64) (rq_prefix: "string option") (rq_priority: Priority)
      (rq_filter: "SearchFilter option") (rq_abstain: "f32 option")
  | Req_SearchRerank (rq_query: string) (rq_limit: u64) (rq_prefix: "string option") (rq_candidates: u64)
      (rq_priority: Priority) (rq_filter: "SearchFilter option") (rq_abstain: "f32 option")
  | Req_GetChunk string

datatype Resp =
    Resp_Run WorkloadOutput
  | Resp_Search "HitRow list" f32 bool
  | Resp_Chunk "ChunkRow option"
  | Resp_Error string

definition default_search_priority :: Priority where
  "default_search_priority = Interactive"

text \<open>The bits of \<open>1.0\<close>.\<close>

definition default_search_confidence :: f32 where
  "default_search_confidence = 0x3F800000"

section \<open>Methods\<close>

definition M_RUN :: string where "M_RUN = ''knowledge.run''"
definition M_SEARCH :: string where "M_SEARCH = ''knowledge.search''"
definition M_SEARCH_RERANK :: string where "M_SEARCH_RERANK = ''knowledge.search_rerank''"
definition M_GET_CHUNK :: string where "M_GET_CHUNK = ''knowledge.get_chunk''"
definition M_AIPLANE_RUN :: string where "M_AIPLANE_RUN = ''aiplane.run''"
definition M_AIPLANE_BATCH :: string where "M_AIPLANE_BATCH = ''aiplane.batch''"
definition M_AIPLANE_CANCEL :: string where "M_AIPLANE_CANCEL = ''aiplane.cancel''"
definition M_AIPLANE_STATUS :: string where "M_AIPLANE_STATUS = ''aiplane.status''"

lemmas method_names = M_RUN_def M_SEARCH_def M_SEARCH_RERANK_def M_GET_CHUNK_def M_AIPLANE_RUN_def
  M_AIPLANE_BATCH_def M_AIPLANE_CANCEL_def M_AIPLANE_STATUS_def

fun op_method :: "Op \<Rightarrow> string" where
  "op_method RefreshSources = ''knowledge.refresh_sources''"
| "op_method IndexNow = ''knowledge.index_now''"
| "op_method FullResync = ''knowledge.full_resync''"
| "op_method ReloadSchedule = ''knowledge.reload_schedule''"
| "op_method RescanDiscovery = ''knowledge.rescan_discovery''"
| "op_method Pause = ''knowledge.pause''"
| "op_method Resume = ''knowledge.resume''"
| "op_method TogglePause = ''knowledge.toggle_pause''"
| "op_method Cancel = ''knowledge.cancel''"
| "op_method Shutdown = ''knowledge.shutdown''"

definition op_to_v1 :: "Op \<Rightarrow> string \<times> json" where
  "op_to_v1 op = (op_method op, JObject [])"

definition try_method_to_op :: "string \<Rightarrow> json \<Rightarrow> Op option" where
  "try_method_to_op m params =
     (if m = ''knowledge.refresh_sources'' then Some RefreshSources
      else if m = ''knowledge.index_now'' then Some IndexNow
      else if m = ''knowledge.full_resync'' then Some FullResync
      else if m = ''knowledge.reload_schedule'' then Some ReloadSchedule
      else if m = ''knowledge.rescan_discovery'' then Some RescanDiscovery
      else if m = ''knowledge.pause'' then Some Pause
      else if m = ''knowledge.resume'' then Some Resume
      else if m = ''knowledge.toggle_pause'' then Some TogglePause
      else if m = ''knowledge.cancel'' then Some Cancel
      else if m = ''knowledge.shutdown'' then Some Shutdown
      else None)"

definition AIPLANE_METHODS :: "string list" where
  "AIPLANE_METHODS = [M_AIPLANE_BATCH, M_AIPLANE_CANCEL, M_AIPLANE_RUN, M_AIPLANE_STATUS]"

definition KNOWLEDGE_METHODS :: "string list" where
  "KNOWLEDGE_METHODS =
     [op_method Cancel, op_method FullResync, M_GET_CHUNK, op_method IndexNow, op_method Pause,
      op_method RefreshSources, op_method ReloadSchedule, op_method RescanDiscovery, op_method Resume,
      M_RUN, M_SEARCH, M_SEARCH_RERANK, op_method Shutdown, op_method TogglePause]"

fun req_to_v1 :: "float_json \<Rightarrow> Req \<Rightarrow> string \<times> json" where
  "req_to_v1 F (Req_Run w i) =
     (M_RUN, JObject [(''workload'', WorkloadKind_to_value w), (''input'', WorkloadInput_to_value i)])"
| "req_to_v1 F (Req_Search q n p prio f a) = (M_SEARCH, JObject
     [(''query'', JString q), (''limit'', json_u64 n), (''prefix'', opt_value JString p),
      (''filter'', opt_value SearchFilter_to_value f), (''abstain_threshold'', opt_value (fj_put F) a)])"
| "req_to_v1 F (Req_SearchRerank q n p c prio f a) = (M_SEARCH_RERANK, JObject
     [(''query'', JString q), (''limit'', json_u64 n), (''prefix'', opt_value JString p),
      (''candidates'', json_u64 c),
      (''filter'', opt_value SearchFilter_to_value f), (''abstain_threshold'', opt_value (fj_put F) a)])"
| "req_to_v1 F (Req_GetChunk i) = (M_GET_CHUNK, JObject [(''chunk_id'', JString i)])"

definition run_params :: "json \<Rightarrow> Req option" where
  "run_params v = do {
     o1 \<leftarrow> struct_value [''workload'', ''input''] v;
     w \<leftarrow> req_field json_to_workload o1 ''workload''; i \<leftarrow> req_field WorkloadInput_from_value o1 ''input'';
     Some (Req_Run w i) }"

definition search_params :: "float_json \<Rightarrow> json \<Rightarrow> Req option" where
  "search_params F v = do {
     o1 \<leftarrow> struct_value [''query'', ''limit'', ''prefix'', ''filter'', ''abstain_threshold''] v;
     q \<leftarrow> req_field json_as_str o1 ''query''; n \<leftarrow> req_field json_as_u64 o1 ''limit'';
     p \<leftarrow> opt_field json_as_str o1 ''prefix''; f \<leftarrow> opt_field SearchFilter_from_value o1 ''filter'';
     a \<leftarrow> opt_field (fj_get F) o1 ''abstain_threshold'';
     Some (Req_Search q n p default_search_priority f a) }"

definition rerank_params :: "float_json \<Rightarrow> json \<Rightarrow> Req option" where
  "rerank_params F v = do {
     o1 \<leftarrow> struct_value [''query'', ''limit'', ''prefix'', ''candidates'', ''filter'', ''abstain_threshold''] v;
     q \<leftarrow> req_field json_as_str o1 ''query''; n \<leftarrow> req_field json_as_u64 o1 ''limit'';
     p \<leftarrow> opt_field json_as_str o1 ''prefix''; c \<leftarrow> req_field json_as_u64 o1 ''candidates'';
     f \<leftarrow> opt_field SearchFilter_from_value o1 ''filter''; a \<leftarrow> opt_field (fj_get F) o1 ''abstain_threshold'';
     Some (Req_SearchRerank q n p c default_search_priority f a) }"

definition get_chunk_params :: "json \<Rightarrow> Req option" where
  "get_chunk_params v = do {
     o1 \<leftarrow> struct_value [''chunk_id''] v; i \<leftarrow> req_field json_as_str o1 ''chunk_id''; Some (Req_GetChunk i) }"

definition try_method_to_req :: "float_json \<Rightarrow> (string \<Rightarrow> json \<Rightarrow> string) \<Rightarrow> string \<Rightarrow> json \<Rightarrow> string + Req option" where
  "try_method_to_req F emsg m params =
     (let known = (\<lambda>r. map_sum id Some (ok_or r (emsg m params))) in
      if m = M_RUN then known (run_params params)
      else if m = M_SEARCH then known (search_params F params)
      else if m = M_SEARCH_RERANK then known (rerank_params F params)
      else if m = M_GET_CHUNK then known (get_chunk_params params)
      else Inr None)"

section \<open>Responses\<close>

definition v1_ok :: "ulid \<Rightarrow> json \<Rightarrow> Response" where
  "v1_ok rid result = RespOk SCHEMA_VERSION rid result None"

definition v1_ok_empty :: "ulid \<Rightarrow> Response" where
  "v1_ok_empty rid = v1_ok rid (JObject [])"

definition v1_err :: "ulid \<Rightarrow> ErrorCode \<Rightarrow> string \<Rightarrow> Response" where
  "v1_err rid c msg =
     RespErr SCHEMA_VERSION rid \<lparr>code = c, message = msg, retry_after_ms = None, details = JNull\<rparr>"

fun AiplaneError_str :: "AiplaneError \<Rightarrow> string" where
  "AiplaneError_str (AeOverloaded c depth ms) =
     ''queue overloaded for class='' @ Priority_as_str c @ '' depth='' @ nat_str depth
       @ '' retry_after='' @ nat_str (unat ms) @ ''ms''"
| "AiplaneError_str AeCancelled = ''cancelled''"
| "AiplaneError_str (AeWorkloadFailed e) = ''workload failed: '' @ e"

fun ae_details :: "AiplaneError \<Rightarrow> json" where
  "ae_details (AeOverloaded c depth ms) = JObject
     [(''class'', JString (Priority_as_str c)), (''queue_depth'', json_u64 (of_nat depth))]"
| "ae_details _ = JNull"

definition aiplane_error_to_v1 :: "ulid \<Rightarrow> AiplaneError \<Rightarrow> Response" where
  "aiplane_error_to_v1 rid err =
     RespErr SCHEMA_VERSION rid
       \<lparr>code = wire_code err, message = AiplaneError_str err, retry_after_ms = ae_retry_after_ms err,
        details = ae_details err\<rparr>"

fun legacy_resp_to_v1 :: "float_json \<Rightarrow> ulid \<Rightarrow> Resp \<Rightarrow> Response" where
  "legacy_resp_to_v1 F rid (Resp_Run out) = v1_ok rid (JObject [(''output'', WorkloadOutput_to_value F out)])"
| "legacy_resp_to_v1 F rid (Resp_Search hits conf abst) = v1_ok rid (JObject
     [(''hits'', json_list (HitRow_to_value F) hits), (''confidence'', fj_put F conf), (''abstained'', JBool abst)])"
| "legacy_resp_to_v1 F rid (Resp_Chunk c) = v1_ok rid (JObject [(''chunk'', opt_value ChunkRow_to_value c)])"
| "legacy_resp_to_v1 F rid (Resp_Error msg) = v1_err rid Internal msg"

text \<open>\<open>Option\<close>'s own deserialiser: \<open>null\<close> is absent.\<close>

definition json_to_option :: "(json \<Rightarrow> 'a option) \<Rightarrow> json \<Rightarrow> 'a option option" where
  "json_to_option conv v = (if v = JNull then Some None else map_option Some (conv v))"

definition get_or_null :: "json \<Rightarrow> string \<Rightarrow> json" where
  "get_or_null v k = (case json_get v k of None \<Rightarrow> JNull | Some x \<Rightarrow> x)"

fun v1_response_to_legacy :: "float_json \<Rightarrow> string \<Rightarrow> Response \<Rightarrow> string + Resp" where
  "v1_response_to_legacy F m (RespOk sv rid result blob) =
     (if m = M_RUN then
        map_sum id Resp_Run
          (ok_or (WorkloadOutput_from_value F (get_or_null result ''output'')) ''decode Resp::Run output'')
      else if m = M_SEARCH \<or> m = M_SEARCH_RERANK then
        map_sum id
          (\<lambda>hits. Resp_Search hits
             (case Option.bind (json_get result ''confidence'') (fj_as F) of
                Some c \<Rightarrow> c | None \<Rightarrow> default_search_confidence)
             (case Option.bind (json_get result ''abstained'') json_as_bool of
                Some b \<Rightarrow> b | None \<Rightarrow> False))
          (ok_or (json_to_list (HitRow_from_value F) (get_or_null result ''hits'')) ''decode Resp::Search hits'')
      else if m = M_GET_CHUNK then
        map_sum id Resp_Chunk
          (ok_or (json_to_option ChunkRow_from_value (get_or_null result ''chunk'')) ''decode Resp::Chunk'')
      else Inr (Resp_Run (OutText [])))"
| "v1_response_to_legacy F m (RespErr sv rid e) =
     Inr (Resp_Error (ErrorCode_as_str (code e) @ '': '' @ message e))"

section \<open>Client calls\<close>

text \<open>
  A connection attempt fails, or gives the exchange of one request for its answer, which fails
  with the text of the write, read or decoding error.
\<close>

type_synonym exchange = "Request \<Rightarrow> string + Response"

datatype IpcError = DaemonDown | Wire string

definition V1_DEADLINE_MS :: u64 where "V1_DEADLINE_MS = 30000"

definition BATCH_READ_TIMEOUT :: u64 where "BATCH_READ_TIMEOUT = 120000"

fun batch_timeout :: "WorkloadKind \<Rightarrow> u64" where
  "batch_timeout Stt = 1900000"
| "batch_timeout _ = BATCH_READ_TIMEOUT"

definition build_v1_request :: "ulid \<Rightarrow> string \<Rightarrow> json \<Rightarrow> Request" where
  "build_v1_request rid m params =
     \<lparr>schema_version = SCHEMA_VERSION, request_id = rid, trace_id = None, parent_span_id = None,
      deadline_ms = Some V1_DEADLINE_MS, priority = Interactive, req_method = m, req_params = params\<rparr>"

definition v1_request_with_priority :: "ulid \<Rightarrow> string \<Rightarrow> json \<Rightarrow> Priority \<Rightarrow> Request" where
  "v1_request_with_priority rid m params p = (build_v1_request rid m params)\<lparr>priority := p\<rparr>"

definition request_with_priority ::
  "float_json \<Rightarrow> ulid \<Rightarrow> exchange option \<Rightarrow> Req \<Rightarrow> Priority \<Rightarrow> IpcError + Resp" where
  "request_with_priority F rid conn req p =
     (case conn of
        None \<Rightarrow> Inl DaemonDown
      | Some exchange \<Rightarrow>
          (let (m, params) = req_to_v1 F req;
               envelope = (build_v1_request rid m params)\<lparr>priority := p\<rparr> in
           map_sum Wire id (try_bind (exchange envelope) (v1_response_to_legacy F m))))"

definition batch_params :: "WorkloadKind \<Rightarrow> WorkloadInput list \<Rightarrow> json" where
  "batch_params w inputs = JObject
     [(''workload'', WorkloadKind_to_value w), (''inputs'', json_list WorkloadInput_to_value inputs)]"

definition decode_batch_outputs ::
  "float_json \<Rightarrow> (json \<Rightarrow> string) \<Rightarrow> json \<Rightarrow> nat \<Rightarrow> AiplaneError + WorkloadOutput list" where
  "decode_batch_outputs F emsg result expected =
     (let v = (case json_get result ''outputs'' of None \<Rightarrow> JArray [] | Some x \<Rightarrow> x) in
      case json_to_list (WorkloadOutput_from_value F) v of
        None \<Rightarrow> Inl (AeWorkloadFailed (''aiplane.batch outputs: '' @ emsg v))
      | Some outputs \<Rightarrow>
          if length outputs \<noteq> expected
          then Inl (AeWorkloadFailed (''aiplane.batch returned '' @ nat_str (length outputs)
                 @ '' outputs for '' @ nat_str expected @ '' inputs''))
          else Inr outputs)"

fun v1_error_message :: "(Response \<Rightarrow> string) \<Rightarrow> Response \<Rightarrow> string" where
  "v1_error_message dbg (RespErr sv rid e) = message e"
| "v1_error_message dbg other = ''unexpected response '' @ dbg other"

definition batch_blocking_at ::
  "float_json \<Rightarrow> (json \<Rightarrow> string) \<Rightarrow> (Response \<Rightarrow> string) \<Rightarrow> ulid \<Rightarrow> string + exchange \<Rightarrow> string
   \<Rightarrow> WorkloadKind \<Rightarrow> WorkloadInput list \<Rightarrow> Priority \<Rightarrow> AiplaneError + WorkloadOutput list" where
  "batch_blocking_at F emsg dbg rid conn path w inputs p =
     (case conn of
        Inl e \<Rightarrow> Inl (AeWorkloadFailed (''aiplane daemon not running: connect '' @ path @ '': '' @ e))
      | Inr exchange \<Rightarrow>
          (let envelope = (v1_request_with_priority rid M_AIPLANE_BATCH (batch_params w inputs) p)
                 \<lparr>deadline_ms := Some (batch_timeout w)\<rparr> in
           case exchange envelope of
             Inl e \<Rightarrow> Inl (AeWorkloadFailed e)
           | Inr (RespOk sv i result blob) \<Rightarrow> decode_batch_outputs F emsg result (length inputs)
           | Inr other \<Rightarrow> Inl (AeWorkloadFailed (''aiplane.batch: '' @ v1_error_message dbg other))))"

section \<open>Round trips of the payloads\<close>

lemma those_map_Some: "(\<And>x. x \<in> set xs \<Longrightarrow> g x = Some (h x)) \<Longrightarrow> those (map g xs) = Some (map h xs)"
  by (induction xs) auto

lemma json_list_back [wire_simps]:
  "(\<And>x. x \<in> set xs \<Longrightarrow> conv (f x) = Some x) \<Longrightarrow> json_to_list conv (json_list f xs) = Some xs"
  using those_map_Some [of xs "conv \<circ> f" id] by (simp add: json_list_def)

lemma json_u8_back [wire_simps]: "json_to_u8 (json_u8 b) = Some b"
proof -
  have "unat b < 2 ^ 8"
    using unsigned_less [of b, where ?'a = nat] by simp
  then have "unat (ucast b :: u64) = unat b"
    by (simp add: unsigned_ucast_eq take_bit_nat_eq_self_iff)
  then show ?thesis
    using unsigned_less [of b, where ?'a = nat]
    by (simp add: json_to_u8_def json_u8_def ucast_up_ucast_id is_up)
qed

lemma sint_scast_16: "sint (scast (w :: 16 word) :: 64 word) = sint w"
  by (rule sint_up_scast) (simp add: is_up)

lemma json_i16_back [wire_simps]: "json_to_i16 (json_i16 w) = Some w"
proof -
  have lo: "- (2 ^ 15) \<le> sint w" and hi: "sint w < 2 ^ 15"
    using sint_ge [of w] sint_lt [of w] by simp_all
  show ?thesis
  proof (cases "0 \<le> sint w")
    case True
    have "uint w = uint (word_of_int (sint w) :: 16 word)"
      by simp
    also have "\<dots> = sint w"
      using True hi by (simp only: uint_word_of_int) (simp add: mod_pos_pos_trivial)
    finally have "uint w = sint w" .
    then have n: "unat w < 2 ^ 15"
      using hi by (simp add: unat_eq_nat_uint nat_less_iff)
    have "unat (ucast w :: u64) = unat w"
      using unsigned_less [of w, where ?'a = nat] by (simp add: unsigned_ucast_eq take_bit_nat_eq_self_iff)
    with True n show ?thesis
      by (simp add: json_i16_def ucast_up_ucast_id is_up)
  next
    case False
    have "(ucast (scast w :: 64 word) :: 16 word) = w"
      by (rule bit_word_eqI) (simp add: bit_simps)
    with False lo show ?thesis
      by (simp add: json_i16_def sint_scast_16)
  qed
qed


lemma opt_value_back [wire_simps]:
  "json_get v k = Some (opt_value f x) \<Longrightarrow> (\<And>y. x = Some y \<Longrightarrow> f y \<noteq> JNull \<and> conv (f y) = Some y) \<Longrightarrow>
   opt_field conv v k = Some x"
  by (cases x) (auto simp: opt_field_def opt_value_def split: json.splits)

lemma strings_field_back [wire_simps]:
  "json_get v k = (if xs = [] then None else Some (json_list JString xs)) \<Longrightarrow> strings_field v k = Some xs"
  by (auto simp: strings_field_def default_field_def wire_simps)

lemma map_of_skip_empty [simp]:
  "map_of (skip_empty k xs) k' = (if k = k' \<and> xs \<noteq> [] then Some (json_list JString xs) else None)"
  by (simp add: skip_empty_def)

lemma workload_back [wire_simps]: "json_to_workload (WorkloadKind_to_value k) = Some k"
  by (simp add: WorkloadKind_to_value_def wkind.from_as_str)

lemma opt_field_str [wire_simps]:
  "json_get v k = map_option JString x \<Longrightarrow> opt_field json_as_str v k = Some x"
  by (rule opt_field_ok [where f = JString]) simp_all

lemma WorkloadInput_back [wire_simps]: "WorkloadInput_from_value (WorkloadInput_to_value i) = Some i"
  by (cases i) (simp_all add: WorkloadInput_from_value_def req_field_def wire_simps)

lemma SearchFilter_back [wire_simps]: "SearchFilter_from_value (SearchFilter_to_value f) = Some f"
proof -
  have opt: "opt_field json_as_str (SearchFilter_to_value f) ''date_from'' = Some (date_from f)"
    "opt_field json_as_str (SearchFilter_to_value f) ''date_to'' = Some (date_to f)"
    by (rule opt_field_str, simp add: SearchFilter_to_value_def map_add_def split: option.splits)+
  have str: "strings_field (SearchFilter_to_value f) ''from'' = Some (sf_from f)"
    "strings_field (SearchFilter_to_value f) ''kind'' = Some (sf_kind f)"
    "strings_field (SearchFilter_to_value f) ''include_sources'' = Some (include_sources f)"
    "strings_field (SearchFilter_to_value f) ''exclude_sources'' = Some (exclude_sources f)"
    "strings_field (SearchFilter_to_value f) ''exclude_kinds'' = Some (exclude_kinds f)"
    by (rule strings_field_back, simp add: SearchFilter_to_value_def map_add_def split: option.splits)+
  have obj: "struct_value ns (SearchFilter_to_value f) = Some (SearchFilter_to_value f)" for ns
    by (simp add: SearchFilter_to_value_def)
  show ?thesis
    by (simp add: SearchFilter_from_value_def obj opt str)
qed

lemma SearchFilter_not_null: "SearchFilter_to_value f \<noteq> JNull"
  by (simp add: SearchFilter_to_value_def)

lemma ChunkRow_back [wire_simps]: "ChunkRow_from_value (ChunkRow_to_value c) = Some c"
proof -
  have opt: "opt_field json_as_str (ChunkRow_to_value c) ''kind'' = Some (ch_kind c)"
    "opt_field json_as_str (ChunkRow_to_value c) ''source_name'' = Some (ch_source_name c)"
    by (rule opt_field_str, simp add: ChunkRow_to_value_def map_add_def split: option.splits)+
  have obj: "struct_value ns (ChunkRow_to_value c) = Some (ChunkRow_to_value c)" for ns
    by (simp add: ChunkRow_to_value_def)
  have get: "json_get (ChunkRow_to_value c) ''chunk_id'' = Some (JString (ch_chunk_id c))"
    "json_get (ChunkRow_to_value c) ''file_path'' = Some (JString (ch_file_path c))"
    "json_get (ChunkRow_to_value c) ''chunk_index'' = Some (json_u32 (ch_chunk_index c))"
    "json_get (ChunkRow_to_value c) ''text'' = Some (JString (ch_text c))"
    by (simp_all add: ChunkRow_to_value_def map_add_def)
  show ?thesis
    by (simp add: ChunkRow_from_value_def obj opt req_field_def get)
qed

text \<open>What survives a float's trip: the value when finite, nothing otherwise.\<close>

definition finite_only :: "f32 option \<Rightarrow> f32 option" where
  "finite_only a = (case a of None \<Rightarrow> None | Some x \<Rightarrow> if f32_finite x then Some x else None)"

lemma float_get [wire_simps]: "float_json_ok F \<Longrightarrow> f32_finite x \<Longrightarrow> fj_get F (fj_put F x) = Some x"
  by (simp add: float_json_ok_def)

lemma float_as [wire_simps]: "float_json_ok F \<Longrightarrow> f32_finite x \<Longrightarrow> fj_as F (fj_put F x) = Some x"
  by (simp add: float_json_ok_def)

lemma float_not_null: "float_json_ok F \<Longrightarrow> fj_put F x = JNull \<longleftrightarrow> \<not> f32_finite x"
  by (auto simp: float_json_ok_def)

lemma float_null: "float_json_ok F \<Longrightarrow> fj_get F JNull = None" "float_json_ok F \<Longrightarrow> fj_as F JNull = None"
  by (simp_all add: float_json_ok_def)

lemma float_bits_ok: "float_json_ok float_bits"
proof -
  have "(ucast (ucast x :: 64 word) :: f32) = x" for x
    by (simp add: ucast_up_ucast_id is_up)
  then show ?thesis
    by (simp add: float_json_ok_def float_bits_def)
qed

lemma opt_float_back [wire_simps]:
  assumes F: "float_json_ok F" and g: "json_get v k = Some (opt_value (fj_put F) a)"
  shows "opt_field (fj_get F) v k = Some (finite_only a)"
proof (cases a)
  case (Some x)
  show ?thesis
  proof (cases "f32_finite x")
    case True
    with opt_value_back [OF g, of "fj_get F"] F Some show ?thesis
      by (simp add: finite_only_def float_not_null wire_simps)
  next
    case False
    with F have "fj_put F x = JNull"
      by (simp add: float_not_null)
    with g Some False show ?thesis
      by (simp add: opt_field_def opt_value_def finite_only_def)
  qed
qed (use g in \<open>simp add: opt_field_def opt_value_def finite_only_def\<close>)

fun finite_output :: "WorkloadOutput \<Rightarrow> bool" where
  "finite_output (OutVector v) = list_all f32_finite v"
| "finite_output (OutScore s) = f32_finite s"
| "finite_output (OutSpans ss) = list_all (f32_finite \<circ> prob) ss"
| "finite_output _ = True"

lemma SpeechSpan_back [wire_simps]:
  "float_json_ok F \<Longrightarrow> f32_finite (prob s) \<Longrightarrow> SpeechSpan_from_value F (SpeechSpan_to_value F s) = Some s"
  by (simp add: SpeechSpan_from_value_def SpeechSpan_to_value_def req_field_def wire_simps)

lemma WorkloadOutput_back [wire_simps]:
  "float_json_ok F \<Longrightarrow> finite_output x \<Longrightarrow> WorkloadOutput_from_value F (WorkloadOutput_to_value F x) = Some x"
  by (cases x) (simp_all add: WorkloadOutput_from_value_def req_field_def list_all_iff wire_simps)

definition finite_hit :: "HitRow \<Rightarrow> bool" where
  "finite_hit h \<longleftrightarrow> f32_finite (hit_score h) \<and> list_all f32_finite (case hit_embed_score h of None \<Rightarrow> [] | Some x \<Rightarrow> [x])"

lemma HitRow_back [wire_simps]:
  assumes F: "float_json_ok F" and fin: "finite_hit h"
  shows "HitRow_from_value F (HitRow_to_value F h) = Some h"
proof -
  let ?v = "HitRow_to_value F h"
  have obj: "struct_value ns ?v = Some ?v" for ns
    by (simp add: HitRow_to_value_def)
  have get: "json_get ?v ''score'' = Some (fj_put F (hit_score h))"
    "json_get ?v ''chunk_id'' = (if hit_chunk_id h = [] then None else Some (JString (hit_chunk_id h)))"
    "json_get ?v ''file_path'' = Some (JString (hit_file_path h))"
    "json_get ?v ''chunk_index'' = Some (json_u32 (hit_chunk_index h))"
    "json_get ?v ''chunk_text'' = Some (JString (hit_chunk_text h))"
    "json_get ?v ''embed_score'' = map_option (fj_put F) (hit_embed_score h)"
    by (simp_all add: HitRow_to_value_def map_add_def)
  have "opt_field (fj_get F) ?v ''embed_score'' = Some (hit_embed_score h)"
  proof (cases "hit_embed_score h")
    case None
    then show ?thesis by (simp add: opt_field_def get)
  next
    case (Some x)
    with fin have "f32_finite x" by (simp add: finite_hit_def)
    with F Some have "json_get ?v ''embed_score'' = Some (opt_value (fj_put F) (Some x))"
      by (simp add: get opt_value_def)
    from opt_float_back [OF F this] Some \<open>f32_finite x\<close> show ?thesis
      by (simp add: finite_only_def)
  qed
  moreover have "f32_finite (hit_score h)"
    using fin by (simp add: finite_hit_def)
  ultimately show ?thesis
    by (simp add: HitRow_from_value_def obj req_field_def default_field_def get float_get [OF F])
qed

section \<open>Properties of the translation\<close>

text \<open>The request a server reconstructs from the method and parameters alone.\<close>

fun as_received :: "Req \<Rightarrow> Req" where
  "as_received (Req_Search q n p prio f a) = Req_Search q n p default_search_priority f (finite_only a)"
| "as_received (Req_SearchRerank q n p c prio f a) = Req_SearchRerank q n p c default_search_priority f (finite_only a)"
| "as_received r = r"

lemma try_method_to_op_iff: "try_method_to_op m params = Some op \<longleftrightarrow> m = fst (op_to_v1 op)"
  by (cases op) (auto simp: try_method_to_op_def op_to_v1_def)

lemma req_round_trip:
  assumes F: "float_json_ok F"
  shows "try_method_to_req F emsg (fst (req_to_v1 F r)) (snd (req_to_v1 F r)) = Inr (Some (as_received r))"
proof (cases r)
  case (Req_Run w i)
  then show ?thesis
    by (simp add: try_method_to_req_def run_params_def req_field_def wire_simps)
next
  case (Req_Search q n p prio f a)
  let ?v = "snd (req_to_v1 F r)"
  have "opt_field json_as_str ?v ''prefix'' = Some p"
    by (rule opt_value_back [where f = JString]) (simp_all add: Req_Search)
  moreover have "opt_field SearchFilter_from_value ?v ''filter'' = Some f"
    by (rule opt_value_back [where f = SearchFilter_to_value]) (simp_all add: Req_Search SearchFilter_not_null wire_simps)
  moreover have "opt_field (fj_get F) ?v ''abstain_threshold'' = Some (finite_only a)"
    by (rule opt_float_back [OF F]) (simp add: Req_Search)
  ultimately show ?thesis
    by (simp add: Req_Search try_method_to_req_def method_names search_params_def req_field_def)
next
  case (Req_SearchRerank q n p c prio f a)
  let ?v = "snd (req_to_v1 F r)"
  have "opt_field json_as_str ?v ''prefix'' = Some p"
    by (rule opt_value_back [where f = JString]) (simp_all add: Req_SearchRerank)
  moreover have "opt_field SearchFilter_from_value ?v ''filter'' = Some f"
    by (rule opt_value_back [where f = SearchFilter_to_value]) (simp_all add: Req_SearchRerank SearchFilter_not_null wire_simps)
  moreover have "opt_field (fj_get F) ?v ''abstain_threshold'' = Some (finite_only a)"
    by (rule opt_float_back [OF F]) (simp add: Req_SearchRerank)
  ultimately show ?thesis
    by (simp add: Req_SearchRerank try_method_to_req_def method_names rerank_params_def req_field_def)
next
  case (Req_GetChunk i)
  then show ?thesis
    by (simp add: try_method_to_req_def method_names get_chunk_params_def req_field_def)
qed

fun finite_resp :: "Resp \<Rightarrow> bool" where
  "finite_resp (Resp_Run x) = finite_output x"
| "finite_resp (Resp_Search hits c b) = (list_all finite_hit hits \<and> f32_finite c)"
| "finite_resp _ = True"

fun fits_request :: "Req \<Rightarrow> Resp \<Rightarrow> bool" where
  "fits_request (Req_Run _ _) (Resp_Run _) = True"
| "fits_request (Req_Search _ _ _ _ _ _) (Resp_Search _ _ _) = True"
| "fits_request (Req_SearchRerank _ _ _ _ _ _ _) (Resp_Search _ _ _) = True"
| "fits_request (Req_GetChunk _) (Resp_Chunk _) = True"
| "fits_request _ _ = False"

lemma hits_back: "float_json_ok F \<Longrightarrow> list_all finite_hit hits \<Longrightarrow>
    json_to_list (HitRow_from_value F) (json_list (HitRow_to_value F) hits) = Some hits"
  by (auto simp: list_all_iff wire_simps)

lemma chunk_back: "json_to_option ChunkRow_from_value (opt_value ChunkRow_to_value c) = Some c"
  by (cases c) (simp_all add: json_to_option_def opt_value_def wire_simps, simp add: ChunkRow_to_value_def)

lemma resp_round_trip:
  assumes F: "float_json_ok F" and ans: "fits_request q r" and fin: "finite_resp r"
  shows "v1_response_to_legacy F (fst (req_to_v1 F q)) (legacy_resp_to_v1 F rid r) = Inr r"
proof (cases "(q, r)" rule: fits_request.cases)
  case (2 a b c d e f hits conf abst)
  with fin hits_back [OF F] show ?thesis
    by (simp add: v1_ok_def method_names get_or_null_def float_as [OF F])
next
  case (3 a b c d e f g hits conf abst)
  with fin hits_back [OF F] show ?thesis
    by (simp add: v1_ok_def method_names get_or_null_def float_as [OF F])
next
  case (4 i c)
  then show ?thesis
    by (simp add: v1_ok_def method_names get_or_null_def chunk_back)
qed (use F ans fin in \<open>simp_all add: v1_ok_def get_or_null_def wire_simps\<close>)

end
