(* ===== verification/Ai_Bridge.thy ===== *)
theory Ai_Bridge
  imports Ai_Wire Ipc_Frame "HOL-Library.Multiset"
begin

text \<open>
  The server of the AI plane and of the knowledge daemon (\<open>KnowledgeBridge\<close> in
  \<open>crates/sy-aiplane/src/aiplane/ipc.rs\<close>): routing of a request, the handlers of \<open>aiplane.run\<close>,
  \<open>aiplane.batch\<close> and \<open>aiplane.cancel\<close> over the cancel registry, the registry of inflight kinds
  and the scheduler, and their interleaving. The server runs on one thread, so a handler runs
  from one \<open>await\<close> to the next without interruption by another; the dispatcher runs beside it. A
  handler that waits is a \<open>task\<close>. An admission that blocks holds the thread (\<open>bs_blocked\<close>): nothing else
  is handled until there is room. Tokens are shared between the registry and the queues, so
  the scheduler's set of cancelled tokens follows the registry (\<open>with_registry\<close>).
\<close>

section \<open>The bridge\<close>

datatype BridgeMode = ModeKnowledge | ModeAiplane

text \<open>What is not the bridge's own: serialisation, ULID text, the build's version.\<close>

record bridge_env =
  be_float :: float_json
  be_emsg :: "string \<Rightarrow> json \<Rightarrow> string"
  be_ulid_parse :: "string \<Rightarrow> ulid option"
  be_ulid_str :: "ulid \<Rightarrow> string"
  be_to_value :: "HealthSnapshot \<Rightarrow> json option"
  be_version :: string
  be_git_sha :: string

text \<open>
  What a handler reads of the supervisor: the health table (its serialised form and the state of the
  embedder), the warm models, and the answer of \<open>AiplaneDispatch::cancel\<close>.
\<close>

record plane_view =
  pv_workloads :: json
  pv_embed_state :: "WorkloadState option"
  pv_warm :: json
  pv_cancel :: "WorkloadKind \<Rightarrow> ulid \<Rightarrow> string + unit"

record KnowledgeBridge =
  kb_mode :: BridgeMode
  kb_aiplane_enabled :: bool
  kb_ops :: "Op list"
  kb_reqs :: "Req list"
  kb_req_open :: bool
  kb_daemon_cancel :: bool
  kb_registry :: CancelRegistry
  kb_scheduler :: SchedSystem
  kb_inflight_kinds :: "ulid \<Rightarrow> WorkloadKind option"
  kb_worker_cancels :: "(WorkloadKind \<times> ulid) list"
  kb_system :: SystemMethods

definition advertised :: "BridgeMode \<Rightarrow> bool \<Rightarrow> string list" where
  "advertised mode enabled =
     filter (\<lambda>_. mode = ModeKnowledge) KNOWLEDGE_METHODS @ filter (\<lambda>_. enabled) AIPLANE_METHODS"

definition KnowledgeBridge_new :: "bridge_env \<Rightarrow> BridgeMode \<Rightarrow> bool \<Rightarrow> KnowledgeBridge" where
  "KnowledgeBridge_new E mode enabled =
     \<lparr>kb_mode = mode, kb_aiplane_enabled = enabled, kb_ops = [], kb_reqs = [],
      kb_req_open = True, kb_daemon_cancel = False, kb_registry = new_registry,
      kb_scheduler = init_system, kb_inflight_kinds = Map.empty, kb_worker_cancels = [],
      kb_system =
        \<lparr>sm_build_info = \<lparr>build_name = (case mode of ModeKnowledge \<Rightarrow> ''sy-knowledge'' | ModeAiplane \<Rightarrow> ''sy-aiplane''),
           build_version = be_version E, git_sha = be_git_sha E\<rparr>,
         sm_health_fn = (\<lambda>_. \<lparr>hs_state = HsReady, status_line = ''ready'', queue_depth = 0, warm_models = []\<rparr>),
         sm_capabilities = Capabilities_baseline,
         sm_daemon_methods = advertised mode enabled\<rparr>\<rparr>"

text \<open>The cancelled tokens among those handed out.\<close>

definition shared_tokens :: "CancelRegistry \<Rightarrow> nat set" where
  "shared_tokens r = set (filter (cancelled r) [0..<next_token r])"

definition with_registry :: "CancelRegistry \<Rightarrow> KnowledgeBridge \<Rightarrow> KnowledgeBridge" where
  "with_registry r kb = kb\<lparr>kb_registry := r,
     kb_scheduler := (kb_scheduler kb)\<lparr>disp := (disp (kb_scheduler kb))\<lparr>cancelled_tokens := shared_tokens r\<rparr>\<rparr>\<rparr>"

section \<open>Handlers that wait\<close>

datatype verb = VRun | VBatch

fun verb_name :: "verb \<Rightarrow> string" where
  "verb_name VRun = M_AIPLANE_RUN"
| "verb_name VBatch = M_AIPLANE_BATCH"

datatype ai_phase = AtSleep | AtWait SchedRequest

record ai_task =
  at_req :: Request
  at_verb :: verb
  at_workload :: WorkloadKind
  at_inputs :: "WorkloadInput list"
  at_guard :: CancelGuard
  at_phase :: ai_phase

datatype bridge_task = AiTask ai_task | ReqTask Request

datatype handled = Answer Response | Suspend bridge_task | BlockThread ai_task SchedRequest

text \<open>Leaving a handler: the registry's guard and the inflight entry are dropped.\<close>

definition leave :: "ai_task \<Rightarrow> KnowledgeBridge \<Rightarrow> KnowledgeBridge" where
  "leave t kb = (with_registry (drop_guard (at_guard t) (kb_registry kb)) kb)
     \<lparr>kb_inflight_kinds := (kb_inflight_kinds kb)(request_id (at_req t) := None)\<rparr>"

definition answer_cancelled :: "ai_task \<Rightarrow> Response" where
  "answer_cancelled t =
     v1_err (request_id (at_req t)) Cancelled (verb_name (at_verb t) @ '' cancelled'')"

definition token_cancelled :: "ai_task \<Rightarrow> KnowledgeBridge \<Rightarrow> bool" where
  "token_cancelled t kb = is_cancelled (guard_token (at_guard t)) (kb_registry kb)"

definition sched_request :: "ai_task \<Rightarrow> KnowledgeBridge \<Rightarrow> SchedRequest" where
  "sched_request t kb =
     \<lparr>sr_id = request_id (at_req t), sr_workload = at_workload t, sr_inputs = at_inputs t,
      sr_class = priority (at_req t), sr_queued_at = clock (kb_scheduler kb), sr_deadline = None,
      sr_cancel = guard_token (at_guard t)\<rparr>"

definition enqueue :: "SchedRequest \<Rightarrow> Scheduler \<Rightarrow> KnowledgeBridge \<Rightarrow> KnowledgeBridge" where
  "enqueue r s' kb = kb\<lparr>kb_scheduler := (kb_scheduler kb)
     \<lparr>disp := (disp (kb_scheduler kb))\<lparr>sched := s'\<rparr>, admitted := admitted (kb_scheduler kb) @ [r]\<rparr>\<rparr>"

definition admit_task :: "ai_task \<Rightarrow> SchedRequest \<Rightarrow> KnowledgeBridge \<Rightarrow> handled \<times> KnowledgeBridge" where
  "admit_task t r kb =
     (case admit r (sched (disp (kb_scheduler kb))) of
        (Admitted, s') \<Rightarrow> (Suspend (AiTask (t\<lparr>at_phase := AtWait r\<rparr>)), enqueue r s' kb)
      | (Refused e, _) \<Rightarrow> (Answer (aiplane_error_to_v1 (request_id (at_req t)) e), leave t kb)
      | (Blocks, _) \<Rightarrow> (BlockThread t r, kb))"

definition go_on :: "ai_task \<Rightarrow> KnowledgeBridge \<Rightarrow> handled \<times> KnowledgeBridge" where
  "go_on t kb =
     (if token_cancelled t kb then (Answer (answer_cancelled t), leave t kb)
      else admit_task t (sched_request t kb) kb)"

definition start_task ::
  "verb \<Rightarrow> Request \<Rightarrow> WorkloadKind \<Rightarrow> WorkloadInput list \<Rightarrow> u64 option \<Rightarrow> KnowledgeBridge \<Rightarrow> handled \<times> KnowledgeBridge" where
  "start_task v req w inputs sleep kb =
     (let (g, reg) = register (request_id req) (kb_registry kb);
          kb1 = (with_registry reg kb)\<lparr>kb_inflight_kinds := (kb_inflight_kinds kb)(request_id req \<mapsto> w)\<rparr>;
          t = \<lparr>at_req = req, at_verb = v, at_workload = w, at_inputs = inputs, at_guard = g, at_phase = AtSleep\<rparr> in
      case sleep of Some ms \<Rightarrow> (Suspend (AiTask t), kb1) | None \<Rightarrow> go_on t kb1)"

definition run_result :: "bridge_env \<Rightarrow> ulid \<Rightarrow> WorkloadOutput list \<Rightarrow> Response" where
  "run_result E rid outputs =
     (if outputs = [] then v1_err rid Internal ''aiplane.run: backend returned no output''
      else v1_ok rid (JObject [(''output'', WorkloadOutput_to_value (be_float E) (last outputs))]))"

definition batch_result :: "bridge_env \<Rightarrow> ulid \<Rightarrow> WorkloadOutput list \<Rightarrow> Response" where
  "batch_result E rid outputs =
     v1_ok rid (JObject [(''outputs'', json_list (WorkloadOutput_to_value (be_float E)) outputs)])"

definition ai_outcome :: "bridge_env \<Rightarrow> ai_task \<Rightarrow> reply \<Rightarrow> Response" where
  "ai_outcome E t reply =
     (case reply of
        Inr outputs \<Rightarrow> (case at_verb t of VRun \<Rightarrow> run_result E (request_id (at_req t)) outputs
                        | VBatch \<Rightarrow> batch_result E (request_id (at_req t)) outputs)
      | Inl e \<Rightarrow> aiplane_error_to_v1 (request_id (at_req t)) e)"

text \<open>
  A poll of a waiting handler: the token first (\<open>biased\<close>), then the timer or the reply.
  \<open>fired\<close> says whether the timer of the pre-admission sleep is over.
\<close>

definition poll_task :: "bridge_env \<Rightarrow> bool \<Rightarrow> ai_task \<Rightarrow> KnowledgeBridge \<Rightarrow> handled \<times> KnowledgeBridge" where
  "poll_task E fired t kb =
     (if token_cancelled t kb then (Answer (answer_cancelled t), leave t kb)
      else case at_phase t of
        AtSleep \<Rightarrow> if fired then go_on t kb else (Suspend (AiTask t), kb)
      | AtWait r \<Rightarrow>
          (case map_of (replies (disp (kb_scheduler kb))) r of
             Some reply \<Rightarrow> (Answer (ai_outcome E t reply), leave t kb)
           | None \<Rightarrow>
               if dpc (kb_scheduler kb) = Exited
               then (Answer (v1_err (request_id (at_req t)) Internal ''aiplane dispatcher dropped response oneshot''),
                     leave t kb)
               else (Suspend (AiTask t), kb)))"

section \<open>The handlers\<close>

definition ai_run_params :: "json \<Rightarrow> (WorkloadKind \<times> WorkloadInput \<times> u64 option) option" where
  "ai_run_params v = do {
     o1 \<leftarrow> struct_value [''workload'', ''input'', ''sleep_ms''] v;
     w \<leftarrow> req_field json_to_workload o1 ''workload''; i \<leftarrow> req_field WorkloadInput_from_value o1 ''input'';
     s \<leftarrow> opt_field json_as_u64 o1 ''sleep_ms''; Some (w, i, s) }"

definition ai_batch_params :: "json \<Rightarrow> (WorkloadKind \<times> WorkloadInput list \<times> u64 option) option" where
  "ai_batch_params v = do {
     o1 \<leftarrow> struct_value [''workload'', ''inputs'', ''sleep_ms''] v;
     w \<leftarrow> req_field json_to_workload o1 ''workload'';
     is \<leftarrow> req_field (json_to_list WorkloadInput_from_value) o1 ''inputs'';
     s \<leftarrow> opt_field json_as_u64 o1 ''sleep_ms''; Some (w, is, s) }"

definition ai_cancel_params :: "bridge_env \<Rightarrow> json \<Rightarrow> (ulid \<times> WorkloadKind option) option" where
  "ai_cancel_params E v = do {
     o1 \<leftarrow> struct_value [''target_request_id'', ''workload''] v;
     i \<leftarrow> req_field (json_to_ulid (be_ulid_parse E)) o1 ''target_request_id'';
     w \<leftarrow> opt_field json_to_workload o1 ''workload''; Some (i, w) }"

definition bad_params :: "bridge_env \<Rightarrow> Request \<Rightarrow> Response" where
  "bad_params E req = v1_err (request_id req) BadRequest
     (req_method req @ '' params: '' @ be_emsg E (req_method req) (req_params req))"

definition handle_aiplane_run :: "bridge_env \<Rightarrow> Request \<Rightarrow> KnowledgeBridge \<Rightarrow> handled \<times> KnowledgeBridge" where
  "handle_aiplane_run E req kb =
     (case ai_run_params (req_params req) of
        None \<Rightarrow> (Answer (bad_params E req), kb)
      | Some (w, i, sleep) \<Rightarrow> start_task VRun req w [i] sleep kb)"

definition handle_aiplane_batch :: "bridge_env \<Rightarrow> Request \<Rightarrow> KnowledgeBridge \<Rightarrow> handled \<times> KnowledgeBridge" where
  "handle_aiplane_batch E req kb =
     (case ai_batch_params (req_params req) of
        None \<Rightarrow> (Answer (bad_params E req), kb)
      | Some (w, is, sleep) \<Rightarrow> start_task VBatch req w is sleep kb)"

definition handle_aiplane_cancel ::
  "bridge_env \<Rightarrow> plane_view \<Rightarrow> Request \<Rightarrow> KnowledgeBridge \<Rightarrow> handled \<times> KnowledgeBridge" where
  "handle_aiplane_cancel E V req kb =
     (case ai_cancel_params E (req_params req) of
        None \<Rightarrow> (Answer (bad_params E req), kb)
      | Some (target, named) \<Rightarrow>
          (let resolved = (case named of Some w \<Rightarrow> Some w | None \<Rightarrow> kb_inflight_kinds kb target);
               (was, reg) = Ipc_Cancel.cancel target (kb_registry kb);
               kb1 = with_registry reg kb;
               (err, kb2) = (case resolved of
                   None \<Rightarrow> (None, kb1)
                 | Some w \<Rightarrow> (case pv_cancel V w target of Inl e \<Rightarrow> Some e | Inr _ \<Rightarrow> None,
                              kb1\<lparr>kb_worker_cancels := kb_worker_cancels kb1 @ [(w, target)]\<rparr>)) in
           (Answer (v1_ok (request_id req) (JObject
              [(''target_request_id'', JString (be_ulid_str E target)), (''cancelled'', JBool was),
               (''worker_cancel_error'', opt_value JString err)])), kb2)))"

definition handle_aiplane_status :: "plane_view \<Rightarrow> Request \<Rightarrow> KnowledgeBridge \<Rightarrow> Response" where
  "handle_aiplane_status V req kb = v1_ok (request_id req) (JObject
     [(''daemon_running'', JBool True),
      (''embed_backend'', JString (case pv_embed_state V of Some (WsReady backend) \<Rightarrow> backend | _ \<Rightarrow> ''unloaded'')),
      (''workloads'', pv_workloads V), (''warm_models'', pv_warm V),
      (''queue_depths'', JObject
         (map (\<lambda>p. (Priority_as_str p, json_u64 (of_nat (queue_depths (sched (disp (kb_scheduler kb))) p)))) Priority_ALL))])"

fun stamp_priority :: "Priority \<Rightarrow> Req \<Rightarrow> Req" where
  "stamp_priority prio (Req_Search q n p _ f a) = Req_Search q n p prio f a"
| "stamp_priority prio (Req_SearchRerank q n p c _ f a) = Req_SearchRerank q n p c prio f a"
| "stamp_priority prio r = r"

definition method_starts_with :: "string \<Rightarrow> string \<Rightarrow> bool" where
  "method_starts_with p s = (take (length p) s = p)"

definition handle_knowledge :: "bridge_env \<Rightarrow> Request \<Rightarrow> KnowledgeBridge \<Rightarrow> handled \<times> KnowledgeBridge" where
  "handle_knowledge E req kb =
     (case try_method_to_op (req_method req) (req_params req) of
        Some op \<Rightarrow> (Answer (v1_ok_empty (request_id req)), kb\<lparr>kb_ops := kb_ops kb @ [op]\<rparr>)
      | None \<Rightarrow>
          (case try_method_to_req (be_float E) (be_emsg E) (req_method req) (req_params req) of
             Inr (Some legacy) \<Rightarrow>
               if \<not> kb_req_open kb then (Answer (v1_err (request_id req) Internal ''req worker offline''), kb)
               else (Suspend (ReqTask req), kb\<lparr>kb_reqs := kb_reqs kb @ [stamp_priority (priority req) legacy]\<rparr>)
           | Inr None \<Rightarrow> (Answer (v1_err (request_id req) BadRequest (''unknown method: '' @ req_method req)), kb)
           | Inl e \<Rightarrow> (Answer (v1_err (request_id req) BadRequest (''bad params: '' @ e)), kb)))"

definition foreign :: "Request \<Rightarrow> KnowledgeBridge \<Rightarrow> bool" where
  "foreign req kb \<longleftrightarrow>
     kb_mode kb = ModeAiplane \<and> \<not> method_starts_with ''aiplane.'' (req_method req) \<or>
     \<not> kb_aiplane_enabled kb \<and> method_starts_with ''aiplane.'' (req_method req)"

definition kb_handle :: "bridge_env \<Rightarrow> plane_view \<Rightarrow> Request \<Rightarrow> KnowledgeBridge \<Rightarrow> handled \<times> KnowledgeBridge" where
  "kb_handle E V req kb =
     (case try_handle (be_to_value E) (be_ulid_parse E) (be_ulid_str E) (kb_system kb) (kb_registry kb) req of
        Some (resp, reg) \<Rightarrow>
          (Answer resp, (with_registry reg kb)
             \<lparr>kb_daemon_cancel := (kb_daemon_cancel kb \<or> req_method req = ''system.cancel'')\<rparr>)
      | None \<Rightarrow>
          if foreign req kb
          then (Answer (v1_err (request_id req) BadRequest ''method belongs to another plane''), kb)
          else if req_method req = M_AIPLANE_STATUS then (Answer (handle_aiplane_status V req kb), kb)
          else if req_method req = M_AIPLANE_RUN then handle_aiplane_run E req kb
          else if req_method req = M_AIPLANE_BATCH then handle_aiplane_batch E req kb
          else if req_method req = M_AIPLANE_CANCEL then handle_aiplane_cancel E V req kb
          else handle_knowledge E req kb)"

section \<open>First byte of a connection\<close>

definition is_ascii_whitespace :: "byte \<Rightarrow> bool" where
  "is_ascii_whitespace b \<longleftrightarrow> b \<in> {0x20, 0x09, 0x0A, 0x0C, 0x0D}"

datatype conn_kind = ConnEmpty | ConnLegacy | ConnV1

fun classify_connection :: "byte list \<Rightarrow> conn_kind" where
  "classify_connection [] = ConnEmpty"
| "classify_connection (b # _) = (if b = 0x7B \<or> b = 0x5B \<or> is_ascii_whitespace b then ConnLegacy else ConnV1)"

definition reject_legacy_envelope :: "ulid \<Rightarrow> Response" where
  "reject_legacy_envelope rid =
     v1_err rid IncompatibleSchema ''legacy line-JSON IPC is no longer accepted; speak sy-ipc v1''"

section \<open>The server among its callers\<close>

text \<open>
  \<open>bs_tasks\<close> are the handlers that wait, \<open>bs_blocked\<close> the admission that holds the thread,
  \<open>bs_answers\<close> what was answered. \<open>file_handled\<close> files the outcome of a handler.
\<close>

record bridge_system =
  bs_kb :: KnowledgeBridge
  bs_tasks :: "bridge_task list"
  bs_blocked :: "(ai_task \<times> SchedRequest) option"
  bs_answers :: "(Request \<times> Response) list"

fun file_handled :: "Request \<Rightarrow> handled \<times> KnowledgeBridge \<Rightarrow> bridge_system \<Rightarrow> bridge_system" where
  "file_handled req (Answer resp, kb) s = s\<lparr>bs_kb := kb, bs_answers := bs_answers s @ [(req, resp)]\<rparr>"
| "file_handled req (Suspend t, kb) s = s\<lparr>bs_kb := kb, bs_tasks := bs_tasks s @ [t]\<rparr>"
| "file_handled req (BlockThread t r, kb) s = s\<lparr>bs_kb := kb, bs_blocked := Some (t, r)\<rparr>"

definition bridge_init :: "bridge_env \<Rightarrow> BridgeMode \<Rightarrow> bool \<Rightarrow> bridge_system" where
  "bridge_init E mode enabled =
     \<lparr>bs_kb = KnowledgeBridge_new E mode enabled, bs_tasks = [], bs_blocked = None, bs_answers = []\<rparr>"

fun ai_of :: "bridge_task \<Rightarrow> ai_task list" where
  "ai_of (AiTask t) = [t]"
| "ai_of (ReqTask _) = []"

definition live :: "bridge_system \<Rightarrow> ai_task list" where
  "live s = (case bs_blocked s of None \<Rightarrow> [] | Some (t, _) \<Rightarrow> [t]) @ concat (map ai_of (bs_tasks s))"

text \<open>
  \<open>admit_blocking_batch\<close>: a thread of the daemon admits a request of its own under a token of its own.
\<close>

definition own_request ::
  "ulid \<Rightarrow> WorkloadKind \<Rightarrow> WorkloadInput list \<Rightarrow> Priority \<Rightarrow> KnowledgeBridge \<Rightarrow> SchedRequest \<times> KnowledgeBridge" where
  "own_request i w inputs p kb =
     (\<lparr>sr_id = i, sr_workload = w, sr_inputs = inputs, sr_class = p, sr_queued_at = clock (kb_scheduler kb),
       sr_deadline = None, sr_cancel = next_token (kb_registry kb)\<rparr>,
      with_registry ((kb_registry kb)\<lparr>next_token := Suc (next_token (kb_registry kb))\<rparr>) kb)"

text \<open>What the dispatcher thread does: a step of the scheduler that neither admits nor cancels.\<close>

definition dispatcher_step :: "backend \<Rightarrow> SchedSystem \<Rightarrow> SchedSystem \<Rightarrow> bool" where
  "dispatcher_step backend y z \<longleftrightarrow>
     sched_step backend y z \<and> admitted z = admitted y \<and> senders_alive z = senders_alive y \<and>
     cancelled_tokens (disp z) = cancelled_tokens (disp y)"

text \<open>With \<open>unique\<close>, no caller reuses the id of a request that is still in progress.\<close>

inductive bridge_step :: "bridge_env \<Rightarrow> backend \<Rightarrow> bool \<Rightarrow> bridge_system \<Rightarrow> bridge_system \<Rightarrow> bool"
  for E backend unique where
  arrive: "bs_blocked s = None \<Longrightarrow> (unique \<Longrightarrow> request_id req \<notin> (request_id \<circ> at_req) ` set (live s)) \<Longrightarrow>
    bridge_step E backend unique s (file_handled req (kb_handle E V req (bs_kb s)) s)"
| poll: "bs_blocked s = None \<Longrightarrow> bs_tasks s = xs @ AiTask t # ys \<Longrightarrow>
    bridge_step E backend unique s (file_handled (at_req t) (poll_task E fired t (bs_kb s)) (s\<lparr>bs_tasks := xs @ ys\<rparr>))"
| unblock: "bs_blocked s = Some (t, r) \<Longrightarrow>
    bridge_step E backend unique s (file_handled (at_req t) (admit_task t r (bs_kb s)) (s\<lparr>bs_blocked := None\<rparr>))"
| worker_answers: "bs_blocked s = None \<Longrightarrow> bs_tasks s = xs @ ReqTask req # ys \<Longrightarrow>
    bridge_step E backend unique s (s\<lparr>bs_tasks := xs @ ys,
      bs_answers := bs_answers s @ [(req, legacy_resp_to_v1 (be_float E) (request_id req) resp)]\<rparr>)"
| worker_drops: "bs_blocked s = None \<Longrightarrow> bs_tasks s = xs @ ReqTask req # ys \<Longrightarrow>
    bridge_step E backend unique s (s\<lparr>bs_tasks := xs @ ys,
      bs_answers := bs_answers s @ [(req, v1_err (request_id req) Internal ''req worker dropped'')]\<rparr>)"
| worker_exits: "bridge_step E backend unique s (s\<lparr>bs_kb := (bs_kb s)\<lparr>kb_req_open := False\<rparr>\<rparr>)"
| daemon_admits: "own_request i w inputs p (bs_kb s) = (r, kb) \<Longrightarrow>
    admit r (sched (disp (kb_scheduler kb))) = (Admitted, s') \<Longrightarrow>
    bridge_step E backend unique s (s\<lparr>bs_kb := enqueue r s' kb\<rparr>)"
| dispatches: "dispatcher_step backend (kb_scheduler (bs_kb s)) y \<Longrightarrow>
    bridge_step E backend unique s (s\<lparr>bs_kb := (bs_kb s)\<lparr>kb_scheduler := y\<rparr>\<rparr>)"

inductive bridge_reachable :: "bridge_env \<Rightarrow> backend \<Rightarrow> bool \<Rightarrow> BridgeMode \<Rightarrow> bool \<Rightarrow> bridge_system \<Rightarrow> bool"
  for E backend unique mode enabled where
  bridge_start: "bridge_reachable E backend unique mode enabled (bridge_init E mode enabled)"
| bridge_next: "bridge_reachable E backend unique mode enabled s \<Longrightarrow> bridge_step E backend unique s s' \<Longrightarrow>
    bridge_reachable E backend unique mode enabled s'"

section \<open>The registry and the scheduler agree\<close>

lemma shared_tokens_iff: "reg_wf r \<Longrightarrow> t \<in> shared_tokens r \<longleftrightarrow> cancelled r t"
  by (auto simp: shared_tokens_def reg_wf_def)

lemma shared_tokens_register: "reg_wf r \<Longrightarrow> shared_tokens (snd (register i r)) = shared_tokens r"
  by (auto simp: shared_tokens_iff register_wf register_frame)

lemma shared_tokens_drop: "shared_tokens (drop_guard g r) = shared_tokens r"
  by (simp add: shared_tokens_def drop_guard_def split: option.splits)

lemma shared_tokens_cancel:
  assumes "reg_wf r"
  shows "\<exists>ts. shared_tokens (snd (Ipc_Cancel.cancel i r)) = ts \<union> shared_tokens r \<and> (ts = {} \<or> (\<exists>t. ts = {t}))"
proof (cases "inner r i")
  case None
  then show ?thesis by (intro exI [of _ "{}"]) (simp add: Ipc_Cancel.cancel_def)
next
  case (Some e)
  then have "t \<in> shared_tokens (snd (Ipc_Cancel.cancel i r)) \<longleftrightarrow> t \<in> {entry_token e} \<union> shared_tokens r" for t
    using shared_tokens_iff [OF assms] shared_tokens_iff [OF cancel_wf [OF assms, of i]] by (simp add: Ipc_Cancel.cancel_def)
  then show ?thesis by blast
qed

lemma shared_tokens_alloc: "reg_wf r \<Longrightarrow> shared_tokens (r\<lparr>next_token := Suc (next_token r)\<rparr>) = shared_tokens r"
  by (auto simp: shared_tokens_def reg_wf_def less_Suc_eq)

lemma alloc_wf: "reg_wf r \<Longrightarrow> reg_wf (r\<lparr>next_token := Suc (next_token r)\<rparr>)"
  by (auto simp: reg_wf_def less_Suc_eq)

definition sched_ok :: "backend \<Rightarrow> KnowledgeBridge \<Rightarrow> bool" where
  "sched_ok backend kb \<longleftrightarrow>
     reg_wf (kb_registry kb) \<and> sched_reachable backend (kb_scheduler kb) \<and> senders_alive (kb_scheduler kb) \<and>
     cancelled_tokens (disp (kb_scheduler kb)) = shared_tokens (kb_registry kb)"

lemma with_registry_ok:
  assumes "sched_ok backend kb" "reg_wf r" "shared_tokens r = ts \<union> shared_tokens (kb_registry kb)"
    "ts = {} \<or> (\<exists>t. ts = {t})"
  shows "sched_ok backend (with_registry r kb)"
proof -
  let ?y = "kb_scheduler kb"
  have eq: "cancelled_tokens (disp ?y) = shared_tokens (kb_registry kb)"
    using assms(1) by (simp add: sched_ok_def)
  have "sched_reachable backend (?y\<lparr>disp := (disp ?y)\<lparr>cancelled_tokens := shared_tokens r\<rparr>\<rparr>)"
    using assms(4)
  proof (elim disjE exE)
    assume "ts = {}"
    with assms(3) eq have "?y\<lparr>disp := (disp ?y)\<lparr>cancelled_tokens := shared_tokens r\<rparr>\<rparr> = ?y"
      by simp
    with assms(1) show ?thesis by (simp only: sched_ok_def)
  next
    fix t assume "ts = {t}"
    with assms(3) eq have "shared_tokens r = insert t (cancelled_tokens (disp ?y))"
      by simp
    with sched_next [OF _ caller_cancels, of backend ?y t] assms(1) show ?thesis
      by (simp add: sched_ok_def)
  qed
  with assms show ?thesis
    by (simp add: sched_ok_def with_registry_def)
qed

lemma with_registry_same:
  "sched_ok backend kb \<Longrightarrow> reg_wf r \<Longrightarrow> shared_tokens r = shared_tokens (kb_registry kb) \<Longrightarrow>
   sched_ok backend (with_registry r kb)"
  by (rule with_registry_ok [where ts = "{}"]) simp_all

lemma sched_ok_wf: "sched_ok backend kb \<Longrightarrow> reg_wf (kb_registry kb)"
  by (simp add: sched_ok_def)

lemma sched_ok_kinds [simp]:
  "sched_ok backend (kb\<lparr>kb_inflight_kinds := m\<rparr>) = sched_ok backend kb"
  "sched_ok backend (kb\<lparr>kb_worker_cancels := c\<rparr>) = sched_ok backend kb"
  "sched_ok backend (kb\<lparr>kb_daemon_cancel := b\<rparr>) = sched_ok backend kb"
  "sched_ok backend (kb\<lparr>kb_ops := x\<rparr>) = sched_ok backend kb"
  "sched_ok backend (kb\<lparr>kb_reqs := q\<rparr>) = sched_ok backend kb"
  "sched_ok backend (kb\<lparr>kb_req_open := b\<rparr>) = sched_ok backend kb"
  by (simp_all add: sched_ok_def)

lemma leave_sched_ok: "sched_ok backend kb \<Longrightarrow> sched_ok backend (leave t kb)"
  by (simp add: leave_def with_registry_same drop_guard_wf sched_ok_wf shared_tokens_drop)

lemma cancel_sched_ok: "sched_ok backend kb \<Longrightarrow>
    sched_ok backend (with_registry (snd (Ipc_Cancel.cancel i (kb_registry kb))) kb)"
  using shared_tokens_cancel [of "kb_registry kb" i] with_registry_ok cancel_wf sched_ok_wf by meson

lemma enqueue_sched_ok:
  assumes "sched_ok backend kb" "admit r (sched (disp (kb_scheduler kb))) = (Admitted, s')"
  shows "sched_ok backend (enqueue r s' kb)"
  using assms sched_next [OF _ caller_admits [OF _ assms(2)], of backend]
  by (simp add: sched_ok_def enqueue_def)

lemma own_request_sched_ok:
  "sched_ok backend kb \<Longrightarrow> own_request i w inputs p kb = (r, kb') \<Longrightarrow> sched_ok backend kb'"
  by (auto simp: own_request_def intro!: with_registry_same alloc_wf shared_tokens_alloc dest: sched_ok_wf)

lemma dispatcher_step_ok:
  "sched_ok backend kb \<Longrightarrow> dispatcher_step backend (kb_scheduler kb) y \<Longrightarrow>
   sched_ok backend (kb\<lparr>kb_scheduler := y\<rparr>)"
  by (auto simp: sched_ok_def dispatcher_step_def intro: sched_next)

section \<open>What a handler leaves behind\<close>

text \<open>The task stands for its request: the parameters parse to its workload and inputs.\<close>

definition stands_for :: "ai_task \<Rightarrow> bool" where
  "stands_for t \<longleftrightarrow>
     guard_id (at_guard t) = request_id (at_req t) \<and> req_method (at_req t) = verb_name (at_verb t) \<and>
     (case at_verb t of
        VRun \<Rightarrow> (\<exists>i s. ai_run_params (req_params (at_req t)) = Some (at_workload t, i, s) \<and> at_inputs t = [i])
      | VBatch \<Rightarrow> (\<exists>s. ai_batch_params (req_params (at_req t)) = Some (at_workload t, at_inputs t, s)))"

definition carries :: "SchedRequest \<Rightarrow> ai_task \<Rightarrow> bool" where
  "carries r t \<longleftrightarrow> sr_workload r = at_workload t \<and> sr_inputs r = at_inputs t \<and>
     sr_class r = priority (at_req t) \<and> sr_id r = request_id (at_req t) \<and> sr_cancel r = guard_token (at_guard t)"

definition task_ok :: "ai_task \<Rightarrow> bool" where
  "task_ok t \<longleftrightarrow> stands_for t \<and> (case at_phase t of AtSleep \<Rightarrow> True | AtWait r \<Rightarrow> carries r t)"

text \<open>A success answered to an inference request is the backend's result on that request.\<close>

definition faithful :: "bridge_env \<Rightarrow> backend \<Rightarrow> Request \<times> Response \<Rightarrow> bool" where
  "faithful E backend a \<longleftrightarrow>
     (case a of
        (req, RespErr sv rid e) \<Rightarrow> True
      | (req, RespOk sv rid result blob) \<Rightarrow>
          (if req_method req = M_AIPLANE_RUN
           then \<exists>w i s outs. ai_run_params (req_params req) = Some (w, i, s) \<and> backend w [i] = Inr outs \<and> outs \<noteq> [] \<and>
                  RespOk sv rid result blob = run_result E (request_id req) outs
           else if req_method req = M_AIPLANE_BATCH
           then \<exists>w is s outs. ai_batch_params (req_params req) = Some (w, is, s) \<and> backend w is = Inr outs \<and>
                  RespOk sv rid result blob = batch_result E (request_id req) outs
           else True))"

fun handled_ok :: "bridge_env \<Rightarrow> backend \<Rightarrow> Request \<Rightarrow> handled \<Rightarrow> bool" where
  "handled_ok E backend req (Answer resp) = faithful E backend (req, resp)"
| "handled_ok E backend req (Suspend (AiTask t)) = (task_ok t \<and> at_req t = req)"
| "handled_ok E backend req (Suspend (ReqTask q)) =
     (q = req \<and> req_method req \<noteq> M_AIPLANE_RUN \<and> req_method req \<noteq> M_AIPLANE_BATCH)"
| "handled_ok E backend req (BlockThread t r) = (stands_for t \<and> carries r t \<and> at_req t = req)"

fun held :: "handled \<Rightarrow> ai_task list" where
  "held (Answer _) = []"
| "held (Suspend t) = ai_of t"
| "held (BlockThread t _) = [t]"

definition accounted :: "KnowledgeBridge \<Rightarrow> ai_task list \<Rightarrow> bool" where
  "accounted kb ts \<longleftrightarrow> reg_inv (kb_registry kb, map at_guard ts) \<and>
     dom (kb_inflight_kinds kb) \<subseteq> (request_id \<circ> at_req) ` set ts"

definition contract ::
  "bridge_env \<Rightarrow> backend \<Rightarrow> Request \<Rightarrow> ai_task list \<Rightarrow> handled \<times> KnowledgeBridge \<Rightarrow> bool" where
  "contract E backend req ts res \<longleftrightarrow>
     handled_ok E backend req (fst res) \<and> sched_ok backend (snd res) \<and> accounted (snd res) (held (fst res) @ ts)"

lemma v1_err_faithful [simp]: "faithful E backend (req, v1_err rid c m)"
  "faithful E backend (req, aiplane_error_to_v1 rid e)" "faithful E backend (req, answer_cancelled t)"
  "faithful E backend (req, bad_params E q)"
  by (simp_all add: faithful_def v1_err_def aiplane_error_to_v1_def answer_cancelled_def bad_params_def)

lemma reg_inv_cong: "set gs = set gs' \<Longrightarrow> reg_inv (r, gs) = reg_inv (r, gs')"
  by (simp add: reg_inv_def)

lemma set_remove1_head: "set (remove1 g (g # gs)) = set gs"
  by simp

lemma accounted_leave:
  assumes "accounted kb (t # ts)" "stands_for t"
  shows "accounted (leave t kb) ts"
  using reg_inv_drop [of "kb_registry kb" "at_guard t # map at_guard ts" "at_guard t"] assms
  by (auto simp: accounted_def leave_def with_registry_def)

lemma accounted_frame [simp]:
  "accounted (enqueue r s' kb) ts = accounted kb ts"
  "accounted (kb\<lparr>kb_worker_cancels := c\<rparr>) ts = accounted kb ts"
  "accounted (kb\<lparr>kb_daemon_cancel := b\<rparr>) ts = accounted kb ts"
  "accounted (kb\<lparr>kb_ops := x\<rparr>) ts = accounted kb ts"
  "accounted (kb\<lparr>kb_reqs := q\<rparr>) ts = accounted kb ts"
  "accounted (kb\<lparr>kb_req_open := b\<rparr>) ts = accounted kb ts"
  "accounted (kb\<lparr>kb_scheduler := y\<rparr>) ts = accounted kb ts"
  by (simp_all add: accounted_def enqueue_def)

lemma accounted_cancel: "accounted kb ts \<Longrightarrow>
    accounted (with_registry (snd (Ipc_Cancel.cancel i (kb_registry kb))) kb) ts"
  using reg_inv_cancel [of "kb_registry kb" "map at_guard ts" i, OF _ surjective_pairing]
  by (simp add: accounted_def with_registry_def)

lemma accounted_cong: "set ts = set ts' \<Longrightarrow> accounted kb ts = accounted kb ts'"
  using reg_inv_cong [of "map at_guard ts" "map at_guard ts'"] by (simp add: accounted_def)

lemma accounted_phase [simp]: "accounted kb (t\<lparr>at_phase := p\<rparr> # ts) = accounted kb (t # ts)"
  by (simp add: accounted_def)

lemma carries_phase [simp]: "carries r (t\<lparr>at_phase := p\<rparr>) = carries r t"
  "stands_for (t\<lparr>at_phase := p\<rparr>) = stands_for t"
  by (simp_all add: carries_def stands_for_def split: verb.split)

lemma admit_task_contract:
  assumes "sched_ok backend kb" "stands_for t" "carries r t" "accounted kb (t # ts)"
  shows "contract E backend (at_req t) ts (admit_task t r kb)"
  using assms
  by (auto simp: contract_def admit_task_def task_ok_def leave_sched_ok accounted_leave
      split: prod.splits admit_outcome.splits intro: enqueue_sched_ok)

lemma go_on_contract:
  assumes "sched_ok backend kb" "stands_for t" "accounted kb (t # ts)"
  shows "contract E backend (at_req t) ts (go_on t kb)"
proof (cases "token_cancelled t kb")
  case True
  with assms show ?thesis
    by (simp add: go_on_def contract_def leave_sched_ok accounted_leave)
next
  case False
  have "carries (sched_request t kb) t"
    by (simp add: carries_def sched_request_def)
  with admit_task_contract [OF assms(1,2) this assms(3)] False show ?thesis
    by (simp add: go_on_def)
qed

lemma honest_reply:
  assumes "sched_ok backend kb" "map_of (replies (disp (kb_scheduler kb))) r = Some reply"
    and "\<not> is_cancelled (sr_cancel r) (kb_registry kb)"
  shows "reply = map_sum AeWorkloadFailed id (backend (sr_workload r) (sr_inputs r))"
proof -
  have "honest backend (disp (kb_scheduler kb))"
    using assms(1) sched_reachable_inv by (auto simp: sched_ok_def sched_inv_def)
  moreover have "(r, reply) \<in> set (replies (disp (kb_scheduler kb)))"
    by (rule map_of_SomeD [OF assms(2)])
  moreover have "sr_cancel r \<notin> cancelled_tokens (disp (kb_scheduler kb))"
    using assms(1,3) shared_tokens_iff by (auto simp: sched_ok_def is_cancelled_def)
  ultimately show ?thesis
    by (auto simp: honest_def)
qed

lemma outcome_faithful:
  assumes "stands_for t" "carries r t"
    and "reply = map_sum AeWorkloadFailed id (backend (sr_workload r) (sr_inputs r))"
  shows "faithful E backend (at_req t, ai_outcome E t reply)"
proof (cases "backend (sr_workload r) (sr_inputs r)")
  case (Inr outs)
  show ?thesis
  proof (cases "at_verb t")
    case VRun
    with assms Inr show ?thesis
      by (cases "outs = []")
        (auto simp: ai_outcome_def stands_for_def carries_def faithful_def run_result_def v1_ok_def v1_err_def)
  next
    case VBatch
    with assms Inr show ?thesis
      by (auto simp: ai_outcome_def stands_for_def carries_def faithful_def batch_result_def v1_ok_def method_names)
  qed
qed (use assms in \<open>simp add: ai_outcome_def\<close>)

lemma poll_contract:
  assumes ok: "sched_ok backend kb" and t: "task_ok t" and acc: "accounted kb (t # ts)"
  shows "contract E backend (at_req t) ts (poll_task E fired t kb)"
proof (cases "token_cancelled t kb")
  case True
  with assms show ?thesis
    by (simp add: poll_task_def contract_def leave_sched_ok accounted_leave task_ok_def)
next
  case False
  from t have st: "stands_for t" by (simp add: task_ok_def)
  show ?thesis
  proof (cases "at_phase t")
    case AtSleep
    with False assms go_on_contract [OF ok st acc] show ?thesis
      by (simp add: poll_task_def contract_def)
  next
    case (AtWait r)
    with t have c: "carries r t" by (simp add: task_ok_def)
    show ?thesis
    proof (cases "map_of (replies (disp (kb_scheduler kb))) r")
      case None
      with False AtWait assms st show ?thesis
        by (simp add: poll_task_def contract_def leave_sched_ok accounted_leave)
    next
      case (Some reply)
      from False c have "\<not> is_cancelled (sr_cancel r) (kb_registry kb)"
        by (simp add: token_cancelled_def carries_def)
      from outcome_faithful [OF st c, of reply backend E] honest_reply [OF ok Some this]
      have "faithful E backend (at_req t, ai_outcome E t reply)" by simp
      with False AtWait Some assms st show ?thesis
        by (simp add: poll_task_def contract_def leave_sched_ok accounted_leave)
    qed
  qed
qed


lemma start_contract:
  assumes ok: "sched_ok backend kb" and acc: "accounted kb ts"
    and st: "\<And>g. guard_id g = request_id req \<Longrightarrow>
      stands_for \<lparr>at_req = req, at_verb = v, at_workload = w, at_inputs = inputs, at_guard = g, at_phase = AtSleep\<rparr>"
  shows "contract E backend req ts (start_task v req w inputs sleep kb)"
proof -
  obtain g reg where reg: "register (request_id req) (kb_registry kb) = (g, reg)" by fastforce
  define t where "t = \<lparr>at_req = req, at_verb = v, at_workload = w, at_inputs = inputs, at_guard = g, at_phase = AtSleep\<rparr>"
  define kb1 where "kb1 = (with_registry reg kb)\<lparr>kb_inflight_kinds := (kb_inflight_kinds kb)(request_id req \<mapsto> w)\<rparr>"
  have snd_reg: "reg = snd (register (request_id req) (kb_registry kb))" and fst_reg: "g = fst (register (request_id req) (kb_registry kb))"
    by (simp_all add: reg)
  from ok have "sched_ok backend kb1"
    by (simp add: kb1_def snd_reg with_registry_same register_wf sched_ok_wf shared_tokens_register)
  moreover have "stands_for t"
    unfolding t_def by (rule st) (simp add: fst_reg register_frame)
  moreover have "accounted kb1 (t # ts)"
    using reg_inv_register [OF _ reg] acc by (auto simp: accounted_def kb1_def t_def with_registry_def)
  moreover have "at_req t = req" "at_phase t = AtSleep" by (simp_all add: t_def)
  ultimately have "contract E backend req ts (go_on t kb1)" "contract E backend req ts (Suspend (AiTask t), kb1)"
    using go_on_contract [of backend kb1 t ts E] by (simp_all add: contract_def task_ok_def)
  then show ?thesis
    by (simp add: start_task_def reg t_def kb1_def Let_def split: option.split)
qed

lemma run_contract:
  assumes "sched_ok backend kb" "accounted kb ts" "req_method req = M_AIPLANE_RUN"
  shows "contract E backend req ts (handle_aiplane_run E req kb)"
proof (cases "ai_run_params (req_params req)")
  case (Some p)
  then obtain w i s where p: "ai_run_params (req_params req) = Some (w, i, s)" by (cases p) auto
  have "contract E backend req ts (start_task VRun req w [i] s kb)"
    by (rule start_contract [OF assms(1,2)]) (simp add: stands_for_def assms(3) p)
  with p show ?thesis by (simp add: handle_aiplane_run_def)
qed (use assms in \<open>simp add: handle_aiplane_run_def contract_def\<close>)

lemma batch_contract:
  assumes "sched_ok backend kb" "accounted kb ts" "req_method req = M_AIPLANE_BATCH"
  shows "contract E backend req ts (handle_aiplane_batch E req kb)"
proof (cases "ai_batch_params (req_params req)")
  case (Some p)
  then obtain w i s where p: "ai_batch_params (req_params req) = Some (w, i, s)" by (cases p) auto
  have "contract E backend req ts (start_task VBatch req w i s kb)"
    by (rule start_contract [OF assms(1,2)]) (simp add: stands_for_def assms(3) p)
  with p show ?thesis by (simp add: handle_aiplane_batch_def)
qed (use assms in \<open>simp add: handle_aiplane_batch_def contract_def\<close>)

lemma faithful_other: "req_method req \<noteq> M_AIPLANE_RUN \<Longrightarrow> req_method req \<noteq> M_AIPLANE_BATCH \<Longrightarrow>
    faithful E backend (req, resp)"
  by (auto simp: faithful_def split: Response.splits)

lemma cancel_contract:
  assumes "sched_ok backend kb" "accounted kb ts" "req_method req = M_AIPLANE_CANCEL"
  shows "contract E backend req ts (handle_aiplane_cancel E V req kb)"
proof (cases "ai_cancel_params E (req_params req)")
  case (Some p)
  then obtain target named where p: "ai_cancel_params E (req_params req) = Some (target, named)" by (cases p) auto
  obtain was reg where c: "Ipc_Cancel.cancel target (kb_registry kb) = (was, reg)" by fastforce
  have "sched_ok backend (with_registry reg kb)" "accounted (with_registry reg kb) ts"
    using cancel_sched_ok [OF assms(1), of target] accounted_cancel [OF assms(2), of target] by (simp_all add: c)
  moreover have "faithful E backend (req, r)" for r
    by (rule faithful_other) (simp_all add: assms(3) method_names)
  ultimately show ?thesis
    by (auto simp: handle_aiplane_cancel_def p c contract_def Let_def split: option.split)
qed (use assms in \<open>simp add: handle_aiplane_cancel_def contract_def\<close>)

lemma try_handle_Some:
  assumes "try_handle tv up us sm reg req = Some (resp, reg')"
  obtains (same) "reg' = reg" "req_method req \<noteq> ''system.cancel''"
  | (cancels) i where "reg' = snd (Ipc_Cancel.cancel i reg)"
  | (bad) "reg' = reg"
  using assms by (auto simp: try_handle_def sys_cancel_def split: if_splits option.splits prod.splits) (metis snd_conv)

lemma with_registry_id: "sched_ok backend kb \<Longrightarrow> with_registry (kb_registry kb) kb = kb"
  by (simp add: sched_ok_def with_registry_def)

lemma system_contract:
  assumes "sched_ok backend kb" "accounted kb ts"
    and h: "try_handle tv up us sm (kb_registry kb) req = Some (resp, reg)"
  shows "contract E backend req ts (Answer resp, (with_registry reg kb)\<lparr>kb_daemon_cancel := b\<rparr>)"
proof -
  have "sched_ok backend (with_registry reg kb) \<and> accounted (with_registry reg kb) ts"
    using h
  proof (cases rule: try_handle_Some)
    case (cancels i)
    with cancel_sched_ok [OF assms(1), of i] accounted_cancel [OF assms(2), of i] show ?thesis by simp
  qed (use assms in \<open>simp_all add: with_registry_id\<close>)
  moreover have "faithful E backend (req, resp)"
    using h by (intro faithful_other) (auto simp: try_handle_def method_names split: if_splits)
  ultimately show ?thesis
    by (simp add: contract_def)
qed

lemma knowledge_contract:
  assumes "sched_ok backend kb" "accounted kb ts"
    "req_method req \<noteq> M_AIPLANE_RUN" "req_method req \<noteq> M_AIPLANE_BATCH"
  shows "contract E backend req ts (handle_knowledge E req kb)"
  using assms
  by (auto simp: handle_knowledge_def contract_def faithful_other split: option.split sum.split)

lemma handle_contract:
  assumes "sched_ok backend kb" "accounted kb ts"
  shows "contract E backend req ts (kb_handle E V req kb)"
proof (cases "try_handle (be_to_value E) (be_ulid_parse E) (be_ulid_str E) (kb_system kb) (kb_registry kb) req")
  case None
  have "contract E backend req ts (Answer (handle_aiplane_status V req kb), kb)" if "req_method req = M_AIPLANE_STATUS"
    using assms that by (simp add: contract_def faithful_other method_names)
  with assms None show ?thesis
    by (auto simp: kb_handle_def run_contract batch_contract cancel_contract knowledge_contract)
      (simp add: contract_def)
next
  case (Some p)
  then obtain resp reg where "try_handle (be_to_value E) (be_ulid_parse E) (be_ulid_str E) (kb_system kb) (kb_registry kb) req
      = Some (resp, reg)" by (cases p) auto
  with system_contract [OF assms this] show ?thesis
    by (simp add: kb_handle_def)
qed

section \<open>Invariant of the server\<close>

fun waiting_ok :: "bridge_task \<Rightarrow> bool" where
  "waiting_ok (AiTask t) = task_ok t"
| "waiting_ok (ReqTask q) = (req_method q \<noteq> M_AIPLANE_RUN \<and> req_method q \<noteq> M_AIPLANE_BATCH)"

definition blocked_ok :: "(ai_task \<times> SchedRequest) option \<Rightarrow> bool" where
  "blocked_ok b = (case b of None \<Rightarrow> True | Some (t, r) \<Rightarrow> stands_for t \<and> carries r t)"

definition bridge_inv :: "bridge_env \<Rightarrow> backend \<Rightarrow> bridge_system \<Rightarrow> bool" where
  "bridge_inv E backend s \<longleftrightarrow>
     sched_ok backend (bs_kb s) \<and> accounted (bs_kb s) (live s) \<and> list_all waiting_ok (bs_tasks s) \<and>
     blocked_ok (bs_blocked s) \<and> list_all (faithful E backend) (bs_answers s)"

lemma settle_inv:
  assumes c: "contract E backend req (live s) res" and free: "bs_blocked s = None"
    and rest: "list_all waiting_ok (bs_tasks s)" "list_all (faithful E backend) (bs_answers s)"
  shows "bridge_inv E backend (file_handled req res s)"
proof -
  obtain out kb where res: "res = (out, kb)" by fastforce
  have tasks: "set (concat (map ai_of (ts @ [t]))) = set (ai_of t @ concat (map ai_of ts))" for ts t
    by auto
  show ?thesis
  proof (cases out)
    case (Answer resp)
    with c rest free res show ?thesis
      by (simp add: contract_def bridge_inv_def live_def blocked_ok_def)
  next
    case (Suspend t)
    have "waiting_ok t"
      using c res Suspend by (cases t) (auto simp: contract_def)
    moreover have "accounted kb (live (file_handled req res s))"
      using c res Suspend free accounted_cong [OF tasks, of kb "bs_tasks s" t]
      by (simp add: contract_def live_def)
    ultimately show ?thesis
      using c rest free res Suspend by (simp add: contract_def bridge_inv_def blocked_ok_def)
  next
    case (BlockThread t r)
    with c rest free res show ?thesis
      by (simp add: contract_def bridge_inv_def live_def blocked_ok_def)
  qed
qed

lemma live_take: "bs_blocked s = None \<Longrightarrow> bs_tasks s = xs @ AiTask t # ys \<Longrightarrow>
    set (live s) = set (t # live (s\<lparr>bs_tasks := xs @ ys\<rparr>))"
  by (auto simp: live_def)

lemma live_req: "bs_tasks s = xs @ ReqTask q # ys \<Longrightarrow>
    live (s\<lparr>bs_tasks := xs @ ys, bs_answers := a\<rparr>) = live s"
  by (simp add: live_def split: option.split)

lemma live_iff: "t \<in> set (live s) \<longleftrightarrow> AiTask t \<in> set (bs_tasks s) \<or> (\<exists>r. bs_blocked s = Some (t, r))"
proof -
  have "t \<in> set (ai_of x) \<longleftrightarrow> x = AiTask t" for x
    by (cases x) auto
  then show ?thesis
    by (cases "bs_blocked s") (auto simp: live_def)
qed

lemma live_frame [simp]: "live (s\<lparr>bs_kb := kb\<rparr>) = live s"
  by (simp add: live_def)

lemma own_request_accounted:
  assumes "accounted kb ts" "own_request i w inputs p kb = (r, kb')"
  shows "accounted kb' ts"
  using assms alloc_wf by (auto simp: accounted_def own_request_def with_registry_def reg_inv_def)

lemma bridge_step_inv:
  assumes "bridge_step E backend unique s s'" "bridge_inv E backend s"
  shows "bridge_inv E backend s'"
  using assms
proof (induction rule: bridge_step.induct)
  case (arrive s req V)
  then show ?case
    by (intro settle_inv handle_contract) (simp_all add: bridge_inv_def)
next
  case (poll s xs t ys fired)
  let ?s = "s\<lparr>bs_tasks := xs @ ys\<rparr>"
  have "accounted (bs_kb s) (t # live ?s)"
    using poll accounted_cong [OF live_take, of s xs t ys "bs_kb s"] by (simp add: bridge_inv_def)
  with poll show ?case
    by (intro settle_inv poll_contract) (simp_all add: bridge_inv_def)
next
  case (unblock s t r)
  let ?s = "s\<lparr>bs_blocked := None\<rparr>"
  have "live s = t # live ?s"
    using unblock(1) by (simp add: live_def)
  with unblock show ?case
    by (intro settle_inv admit_task_contract) (simp_all add: bridge_inv_def blocked_ok_def)
next
  case (worker_answers s xs req ys resp)
  then show ?case
    by (simp add: bridge_inv_def live_req faithful_other)
next
  case (worker_drops s xs req ys)
  then show ?case
    by (simp add: bridge_inv_def live_req faithful_other)
next
  case (worker_exits s)
  then show ?case by (simp add: bridge_inv_def)
next
  case (daemon_admits i w inputs p s r kb s')
  then have "sched_ok backend kb" "accounted kb (live s)"
    using own_request_sched_ok own_request_accounted by (auto simp: bridge_inv_def)
  with daemon_admits enqueue_sched_ok show ?case
    by (auto simp: bridge_inv_def)
next
  case (dispatches s y)
  then show ?case
    by (auto simp: bridge_inv_def intro: dispatcher_step_ok)
qed

lemma bridge_init_inv: "bridge_inv E backend (bridge_init E mode enabled)"
proof -
  have "sched_ok backend (KnowledgeBridge_new E mode enabled)"
    by (simp add: sched_ok_def KnowledgeBridge_new_def sched_init)
      (simp add: init_system_def shared_tokens_def new_registry_def)
  then show ?thesis
    by (simp add: bridge_inv_def bridge_init_def live_def blocked_ok_def accounted_def reg_inv_def KnowledgeBridge_new_def)
      (simp add: new_registry_def)
qed

lemma bridge_reachable_inv: "bridge_reachable E backend unique mode enabled s \<Longrightarrow> bridge_inv E backend s"
  by (induction rule: bridge_reachable.induct) (auto intro: bridge_init_inv bridge_step_inv)

section \<open>Callers that do not reuse a live id\<close>

abbreviation task_id :: "ai_task \<Rightarrow> ulid" where
  "task_id t \<equiv> request_id (at_req t)"

text \<open>Every request in progress can be found: by its token, and by its workload kind.\<close>

definition findable :: "KnowledgeBridge \<Rightarrow> ai_task list \<Rightarrow> bool" where
  "findable kb ts \<longleftrightarrow> distinct (map task_id ts) \<and>
     (\<forall>t \<in> set ts. guard_id (at_guard t) = task_id t \<and> current (at_guard t) (kb_registry kb) \<and>
        kb_inflight_kinds kb (task_id t) = Some (at_workload t))"

lemma findable_cong: "mset ts = mset ts' \<Longrightarrow> findable kb ts = findable kb ts'"
  using mset_eq_imp_distinct_iff [of "map task_id ts" "map task_id ts'"] mset_eq_setD [of ts ts']
  by (simp add: findable_def mset_map)

lemma findable_frame [simp]:
  "findable (enqueue r s' kb) ts = findable kb ts"
  "findable (kb\<lparr>kb_worker_cancels := c\<rparr>) ts = findable kb ts"
  "findable (kb\<lparr>kb_daemon_cancel := b\<rparr>) ts = findable kb ts"
  "findable (kb\<lparr>kb_ops := x\<rparr>) ts = findable kb ts"
  "findable (kb\<lparr>kb_reqs := q\<rparr>) ts = findable kb ts"
  "findable (kb\<lparr>kb_req_open := b\<rparr>) ts = findable kb ts"
  "findable (kb\<lparr>kb_scheduler := y\<rparr>) ts = findable kb ts"
  "findable kb (t\<lparr>at_phase := p\<rparr> # ts) = findable kb (t # ts)"
  by (simp_all add: findable_def enqueue_def)

lemma findable_leave:
  assumes "findable kb (t # ts)"
  shows "findable (leave t kb) ts"
  unfolding findable_def
proof (intro conjI ballI)
  show "distinct (map task_id ts)" using assms by (simp add: findable_def)
  fix u assume u: "u \<in> set ts"
  have ne: "task_id u \<noteq> task_id t"
  proof
    assume "task_id u = task_id t"
    with u have "task_id t \<in> task_id ` set ts" by (metis imageI)
    with assms show False by (simp add: findable_def)
  qed
  show "guard_id (at_guard u) = task_id u" using assms u by (simp add: findable_def)
  show "current (at_guard u) (kb_registry (leave t kb))"
    using assms u ne by (auto simp: findable_def leave_def with_registry_def current_def drop_guard_lookup)
  show "kb_inflight_kinds (leave t kb) (task_id u) = Some (at_workload u)"
    using assms u ne by (simp add: findable_def leave_def)
qed

lemma findable_cancel: "findable kb ts \<Longrightarrow>
    findable (with_registry (snd (Ipc_Cancel.cancel i (kb_registry kb))) kb) ts"
  by (auto simp: findable_def with_registry_def current_def cancel_lookup)

lemma findable_admit: "findable kb (t # ts) \<Longrightarrow> admit_task t r kb = (out, kb') \<Longrightarrow> findable kb' (held out @ ts)"
  by (auto simp: admit_task_def findable_leave split: prod.splits admit_outcome.splits)

lemma findable_go_on: "findable kb (t # ts) \<Longrightarrow> go_on t kb = (out, kb') \<Longrightarrow> findable kb' (held out @ ts)"
  using findable_admit by (auto simp: go_on_def findable_leave split: if_splits)

lemma findable_poll: "findable kb (t # ts) \<Longrightarrow> poll_task E fired t kb = (out, kb') \<Longrightarrow> findable kb' (held out @ ts)"
  using findable_go_on
  by (auto simp: poll_task_def findable_leave split: if_splits ai_phase.splits option.splits)

lemma findable_start:
  assumes "findable kb ts" "request_id req \<notin> task_id ` set ts" "start_task v req w inputs sleep kb = (out, kb')"
  shows "findable kb' (held out @ ts)"
proof -
  obtain g reg where reg: "register (request_id req) (kb_registry kb) = (g, reg)" by fastforce
  define t where "t = \<lparr>at_req = req, at_verb = v, at_workload = w, at_inputs = inputs, at_guard = g, at_phase = AtSleep\<rparr>"
  define kb1 where "kb1 = (with_registry reg kb)\<lparr>kb_inflight_kinds := (kb_inflight_kinds kb)(request_id req \<mapsto> w)\<rparr>"
  have g: "g = fst (register (request_id req) (kb_registry kb))" "reg = snd (register (request_id req) (kb_registry kb))"
    by (simp_all add: reg)
  have "findable kb1 (t # ts)"
    unfolding findable_def
  proof (intro conjI ballI)
    show "distinct (map task_id (t # ts))" using assms by (auto simp: findable_def t_def)
    fix u assume "u \<in> set (t # ts)"
    then consider "u = t" | "u \<in> set ts" "task_id u \<noteq> request_id req"
      using assms(2) by (metis imageI set_ConsD)
    then have "guard_id (at_guard u) = task_id u \<and> current (at_guard u) reg \<and> kb_inflight_kinds kb1 (task_id u) = Some (at_workload u)"
    proof cases
      case 1
      then show ?thesis using register_current [of "request_id req" "kb_registry kb"]
        by (simp add: t_def kb1_def g register_frame)
    next
      case 2
      then show ?thesis using assms(1) current_other by (simp add: findable_def kb1_def with_registry_def g)
    qed
    then show "guard_id (at_guard u) = task_id u" "current (at_guard u) (kb_registry kb1)"
      "kb_inflight_kinds kb1 (task_id u) = Some (at_workload u)"
      by (simp_all add: kb1_def with_registry_def)
  qed
  with assms(3) findable_go_on [of kb1 t ts out kb'] show ?thesis
    by (auto simp: start_task_def reg t_def [symmetric] kb1_def [symmetric] Let_def split: option.splits)
qed

lemma findable_handle:
  assumes f: "findable kb ts" and fresh: "request_id req \<notin> task_id ` set ts" and h: "kb_handle E V req kb = (out, kb')"
    and ok: "sched_ok backend kb"
  shows "findable kb' (held out @ ts)"
proof (cases "try_handle (be_to_value E) (be_ulid_parse E) (be_ulid_str E) (kb_system kb) (kb_registry kb) req")
  case (Some p)
  then obtain resp reg where p: "try_handle (be_to_value E) (be_ulid_parse E) (be_ulid_str E) (kb_system kb) (kb_registry kb) req
      = Some (resp, reg)" by (cases p) auto
  then have "findable (with_registry reg kb) ts"
    by (cases rule: try_handle_Some) (use f ok findable_cancel in \<open>auto simp: with_registry_id\<close>)
  with h p show ?thesis by (auto simp: kb_handle_def)
next
  case None
  have run: "findable kb' (held out @ ts)" if "handle_aiplane_run E req kb = (out, kb')"
    using that f findable_start [OF f fresh] by (auto simp: handle_aiplane_run_def split: option.splits)
  have batch: "findable kb' (held out @ ts)" if "handle_aiplane_batch E req kb = (out, kb')"
    using that f findable_start [OF f fresh] by (auto simp: handle_aiplane_batch_def split: option.splits)
  have canc: "findable kb' (held out @ ts)" if "handle_aiplane_cancel E V req kb = (out, kb')"
    using that f findable_cancel [OF f]
    by (auto simp: handle_aiplane_cancel_def Let_def split: option.splits prod.splits) (metis snd_conv)+
  have know: "findable kb' (held out @ ts)" if "handle_knowledge E req kb = (out, kb')"
    using that f by (auto simp: handle_knowledge_def split: option.splits sum.splits if_splits)
  show ?thesis
    using h None f run batch canc know by (auto simp: kb_handle_def split: if_splits)
qed

lemma settle_findable:
  assumes "findable kb (held out @ live s)" "bs_blocked s = None"
  shows "findable (bs_kb (file_handled req (out, kb) s)) (live (file_handled req (out, kb) s))"
proof (cases out)
  case (Suspend t)
  have "mset (live (file_handled req (out, kb) s)) = mset (held out @ live s)"
    by (simp add: live_def assms(2) Suspend)
  from findable_cong [OF this] assms(1) Suspend show ?thesis by simp
qed (use assms in \<open>simp_all add: live_def\<close>)

lemma bridge_findable:
  assumes "bridge_reachable E backend unique mode enabled s" unique
  shows "findable (bs_kb s) (live s)"
  using assms
proof (induction rule: bridge_reachable.induct)
  case bridge_start
  show ?case by (simp add: findable_def bridge_init_def live_def)
next
  case (bridge_next s s')
  have ok: "sched_ok backend (bs_kb s)"
    using bridge_reachable_inv [OF bridge_next(1)] by (simp add: bridge_inv_def)
  from bridge_next(2,3,4) ok show ?case
  proof (induction rule: bridge_step.induct)
    case (arrive s req V)
    obtain out kb where h: "kb_handle E V req (bs_kb s) = (out, kb)" by fastforce
    with findable_handle [OF _ _ h] arrive settle_findable show ?case by (simp add: image_comp)
  next
    case (poll s xs t ys fired)
    obtain out kb where h: "poll_task E fired t (bs_kb s) = (out, kb)" by fastforce
    have "mset (live s) = mset (t # live (s\<lparr>bs_tasks := xs @ ys\<rparr>))"
      using poll(1,2) by (simp add: live_def)
    from findable_cong [OF this] findable_poll [OF _ h] poll show ?case
      by (auto simp: h intro!: settle_findable)
  next
    case (unblock s t r)
    obtain out kb where h: "admit_task t r (bs_kb s) = (out, kb)" by fastforce
    have "live s = t # live (s\<lparr>bs_blocked := None\<rparr>)"
      using unblock(1) by (simp add: live_def)
    with findable_admit [OF _ h] unblock show ?case
      by (auto simp: h intro!: settle_findable)
  next
    case (daemon_admits i w inputs p s r kb s')
    then show ?case
      by (auto simp: own_request_def findable_def enqueue_def with_registry_def current_def)
  qed (simp_all add: live_req)
qed

section \<open>Properties\<close>

lemma ok_faithful:
  assumes "bridge_reachable E backend unique mode enabled s" "(req, resp) \<in> set (bs_answers s)"
  shows "faithful E backend (req, resp)"
  using bridge_reachable_inv [OF assms(1)] assms(2) by (auto simp: bridge_inv_def list_all_iff)

text \<open>
  C7. A success the server answers to \<open>aiplane.run\<close> or \<open>aiplane.batch\<close>, in any interleaving of callers,
  cancellations, admissions of the daemon's own and the dispatcher, is what the backend returned for the
  workload and the inputs in that request's parameters: answers are never swapped between requests.
\<close>

theorem inference_answers_are_the_backends:
  assumes "bridge_reachable E backend unique mode enabled s"
    and "(req, RespOk sv rid result blob) \<in> set (bs_answers s)"
  shows "(req_method req = M_AIPLANE_RUN \<longrightarrow>
       (\<exists>w i sl outs. ai_run_params (req_params req) = Some (w, i, sl) \<and> backend w [i] = Inr outs \<and> outs \<noteq> [] \<and>
          rid = request_id req \<and> result = JObject [(''output'', WorkloadOutput_to_value (be_float E) (last outs))])) \<and>
    (req_method req = M_AIPLANE_BATCH \<longrightarrow>
       (\<exists>w is sl outs. ai_batch_params (req_params req) = Some (w, is, sl) \<and> backend w is = Inr outs \<and>
          rid = request_id req \<and> result = JObject [(''outputs'', json_list (WorkloadOutput_to_value (be_float E)) outs)]))"
proof -
  have ne: "M_AIPLANE_BATCH \<noteq> M_AIPLANE_RUN" "M_AIPLANE_RUN \<noteq> M_AIPLANE_BATCH" by (simp_all add: method_names)
  from ok_faithful [OF assms] show ?thesis
    by (auto simp: faithful_def run_result_def batch_result_def v1_ok_def v1_err_def ne split: if_splits)
qed


text \<open>
  C24. Nothing outlives its request: every entry of the cancel registry and of the registry of inflight
  kinds belongs to a handler that is still running, so both are empty when no inference request is in progress,
  whether the last one ended in an answer, a refusal, a cancellation or a lost reply.
\<close>

theorem bridge_registries_do_not_leak:
  assumes "bridge_reachable E backend unique mode enabled s"
  shows "dom (inner (kb_registry (bs_kb s))) \<subseteq> task_id ` set (live s) \<and>
    dom (kb_inflight_kinds (bs_kb s)) \<subseteq> task_id ` set (live s)"
proof -
  from bridge_reachable_inv [OF assms] have inv: "accounted (bs_kb s) (live s)" "list_all waiting_ok (bs_tasks s)"
    "blocked_ok (bs_blocked s)"
    by (simp_all add: bridge_inv_def)
  have "guard_id (at_guard t) = task_id t" if "t \<in> set (live s)" for t
  proof -
    from that consider "AiTask t \<in> set (bs_tasks s)" | r where "bs_blocked s = Some (t, r)"
      by (auto simp: live_iff)
    then show ?thesis
      by cases (use inv in \<open>auto simp: list_all_iff task_ok_def stands_for_def blocked_ok_def\<close>)
  qed
  then have "guard_id ` at_guard ` set (live s) = task_id ` set (live s)"
    by (auto simp: image_comp)
  with inv(1) show ?thesis
    by (fastforce simp: accounted_def reg_inv_def image_comp)
qed

section \<open>An idle server serves\<close>

lemma not_foreign_ai: "kb_aiplane_enabled kb \<Longrightarrow> req_method req = verb_name v \<Longrightarrow> \<not> foreign req kb"
  by (cases v) (simp_all add: foreign_def method_starts_with_def method_names)

lemma handle_run_eq:
  "kb_aiplane_enabled kb \<Longrightarrow> req_method req = M_AIPLANE_RUN \<Longrightarrow> kb_handle E V req kb = handle_aiplane_run E req kb"
  using not_foreign_ai [of kb req VRun] by (simp add: kb_handle_def try_handle_def method_names)

lemma handle_cancel_eq:
  "kb_aiplane_enabled kb \<Longrightarrow> req_method req = M_AIPLANE_CANCEL \<Longrightarrow> kb_handle E V req kb = handle_aiplane_cancel E V req kb"
  by (simp add: kb_handle_def try_handle_def method_names foreign_def method_starts_with_def)

text \<open>The server after one \<open>aiplane.run\<close> of the highest class, admitted under the first token.\<close>

definition first_request :: "Request \<Rightarrow> WorkloadKind \<Rightarrow> WorkloadInput \<Rightarrow> SchedRequest" where
  "first_request req w i = \<lparr>sr_id = request_id req, sr_workload = w, sr_inputs = [i], sr_class = priority req,
     sr_queued_at = 0, sr_deadline = None, sr_cancel = 0\<rparr>"

definition first_task :: "Request \<Rightarrow> WorkloadKind \<Rightarrow> WorkloadInput \<Rightarrow> ai_task" where
  "first_task req w i = \<lparr>at_req = req, at_verb = VRun, at_workload = w, at_inputs = [i],
     at_guard = \<lparr>guard_id = request_id req, guard_epoch = 0, guard_token = 0\<rparr>, at_phase = AtWait (first_request req w i)\<rparr>"

lemma queues_new: "sender_for Scheduler_new c = []" "receivers_alive Scheduler_new"
  by (cases c) (simp_all add: Scheduler_new_def)

lemma first_arrival:
  assumes run: "req_method req = M_AIPLANE_RUN" "ai_run_params (req_params req) = Some (w, i, None)"
  shows "\<exists>s. bridge_reachable E backend unique mode True s \<and> bs_tasks s = [AiTask (first_task req w i)] \<and>
    bs_blocked s = None \<and> bs_answers s = [] \<and>
    \<not> cancelled (kb_registry (bs_kb s)) 0 \<and> kb_aiplane_enabled (bs_kb s) \<and>
    kb_scheduler (bs_kb s) = init_system\<lparr>disp := (disp init_system)\<lparr>sched :=
      set_queue (priority req) [first_request req w i] Scheduler_new\<rparr>, admitted := [first_request req w i]\<rparr>"
proof -
  let ?s0 = "bridge_init E mode True"
  let ?V = "\<lparr>pv_workloads = JNull, pv_embed_state = None, pv_warm = JNull, pv_cancel = (\<lambda>_ _. Inr ())\<rparr>"
  have step: "bridge_step E backend unique ?s0 (file_handled req (kb_handle E ?V req (bs_kb ?s0)) ?s0)"
    by (rule arrive) (simp_all add: bridge_init_def live_def)
  have en: "kb_aiplane_enabled (bs_kb ?s0)"
    by (simp add: bridge_init_def KnowledgeBridge_new_def)
  have adm: "admit (first_request req w i) Scheduler_new =
      (Admitted, set_queue (priority req) [first_request req w i] Scheduler_new)"
    by (simp add: admit_Admitted queues_new first_request_def)
  have "kb_handle E ?V req (bs_kb ?s0) = handle_aiplane_run E req (bs_kb ?s0)"
    by (rule handle_run_eq [OF en run(1)])
  also have "\<dots> = (Suspend (AiTask (first_task req w i)), snd (handle_aiplane_run E req (bs_kb ?s0)))"
    using adm run
    by (simp add: handle_aiplane_run_def start_task_def bridge_init_def KnowledgeBridge_new_def register_def
        new_registry_def go_on_def token_cancelled_def is_cancelled_def admit_task_def sched_request_def Let_def
        with_registry_def init_system_def first_task_def first_request_def)
  finally have h: "kb_handle E ?V req (bs_kb ?s0) = (Suspend (AiTask (first_task req w i)), snd (handle_aiplane_run E req (bs_kb ?s0)))" .
  let ?s1 = "file_handled req (kb_handle E ?V req (bs_kb ?s0)) ?s0"
  have "kb_scheduler (bs_kb ?s1) = init_system\<lparr>disp := (disp init_system)\<lparr>sched :=
      set_queue (priority req) [first_request req w i] Scheduler_new\<rparr>, admitted := [first_request req w i]\<rparr> \<and>
      \<not> cancelled (kb_registry (bs_kb ?s1)) 0 \<and> kb_aiplane_enabled (bs_kb ?s1)"
    using adm run unfolding h
    by (simp add: handle_aiplane_run_def start_task_def bridge_init_def KnowledgeBridge_new_def register_def
        new_registry_def go_on_def token_cancelled_def is_cancelled_def admit_task_def sched_request_def Let_def
        with_registry_def init_system_def first_request_def enqueue_def shared_tokens_def)
  moreover have "bs_tasks ?s1 = [AiTask (first_task req w i)]" "bs_blocked ?s1 = None" "bs_answers ?s1 = []"
    unfolding h by (simp_all add: bridge_init_def)
  ultimately show ?thesis
    using bridge_next [OF bridge_start step] by blast
qed


lemma dispatch_first:
  assumes y: "y = init_system\<lparr>disp := (disp init_system)\<lparr>sched := set_queue Realtime [r] Scheduler_new\<rparr>, admitted := [r]\<rparr>"
    and kb: "bridge_reachable E backend unique mode enabled s" "kb_scheduler (bs_kb s) = y"
    and cls: "sr_class r = Realtime" "sr_cancel r = 0" 
  shows "\<exists>z. bridge_reachable E backend unique mode enabled (s\<lparr>bs_kb := (bs_kb s)\<lparr>kb_scheduler := z\<rparr>\<rparr>) \<and>
    replies (disp z) = [(r, map_sum AeWorkloadFailed id (backend (sr_workload r) (sr_inputs r)))]"
proof -
  define d where "d = (disp y)\<lparr>sched := set_queue Realtime [] (sched (disp y))\<rparr>"
  define y1 where "y1 = begin_system r d y"
  define z where "z = y1\<lparr>disp := run_one_finish backend r (disp y1), dpc := Polling Realtime\<rparr>"
  have d: "cancelled_tokens d = {}" "replies d = []"
    by (simp_all add: d_def y init_system_def)
  have y1: "dpc y1 = dpc.Running r" "admitted y1 = admitted y" "senders_alive y1 = senders_alive y"
    "cancelled_tokens (disp y1) = cancelled_tokens (disp y)" "replies (disp y1) = []"
    by (simp_all add: y1_def begin_system_def run_one_begin_def Let_def d cls) (simp add: y init_system_def)
  have "try_recv Realtime (disp y) = Some (r, d)"
    by (simp add: try_recv_Some d_def y)
  moreover have "dpc y = Polling Realtime"
    by (simp add: y init_system_def)
  ultimately have 1: "dispatcher_step backend y y1"
    using poll_hit [of y Realtime r d backend] y1 by (simp add: dispatcher_step_def y1_def)
  have 2: "dispatcher_step backend y1 z"
    using run_ends [OF y1(1), of backend] by (simp add: dispatcher_step_def z_def run_one_finish_def Let_def)
  have "bridge_reachable E backend unique mode enabled (s\<lparr>bs_kb := (bs_kb s)\<lparr>kb_scheduler := y1\<rparr>\<rparr>)"
    by (rule bridge_next [OF kb(1) dispatches]) (simp add: kb(2) 1)
  from bridge_next [OF this dispatches, of z] 2
  have "bridge_reachable E backend unique mode enabled (s\<lparr>bs_kb := (bs_kb s)\<lparr>kb_scheduler := z\<rparr>\<rparr>)"
    by simp
  moreover have "replies (disp z) = [(r, map_sum AeWorkloadFailed id (backend (sr_workload r) (sr_inputs r)))]"
    by (simp add: z_def run_one_finish_def Let_def y1)
  ultimately show ?thesis by blast
qed

text \<open>
  A request in, an answer out: on an idle server an \<open>aiplane.run\<close> of the highest class whose parameters parse
  can be carried through admission, dispatch and reply, and is answered with the backend's last output, with
  the backend's error, or with an error when the backend returned nothing.
\<close>

theorem idle_server_answers_run:
  assumes "req_method req = M_AIPLANE_RUN" "ai_run_params (req_params req) = Some (w, i, None)"
    "priority req = Realtime"
  shows "\<exists>s. bridge_reachable E backend unique mode True s \<and> live s = [] \<and> bs_answers s =
    [(req, case backend w [i] of
        Inr outs \<Rightarrow> run_result E (request_id req) outs
      | Inl e \<Rightarrow> aiplane_error_to_v1 (request_id req) (AeWorkloadFailed e))]"
proof -
  let ?t = "first_task req w i" and ?r = "first_request req w i"
  obtain s where s: "bridge_reachable E backend unique mode True s" "bs_tasks s = [AiTask ?t]" "bs_blocked s = None"
    "bs_answers s = []" "\<not> cancelled (kb_registry (bs_kb s)) 0"
    and y: "kb_scheduler (bs_kb s) = init_system\<lparr>disp := (disp init_system)\<lparr>sched :=
      set_queue Realtime [?r] Scheduler_new\<rparr>, admitted := [?r]\<rparr>"
    using first_arrival [OF assms(1,2), of E backend unique mode] unfolding assms(3) by blast
  obtain z where z: "bridge_reachable E backend unique mode True (s\<lparr>bs_kb := (bs_kb s)\<lparr>kb_scheduler := z\<rparr>\<rparr>)"
    "replies (disp z) = [(?r, map_sum AeWorkloadFailed id (backend w [i]))]"
    using dispatch_first [OF refl s(1) y] by (auto simp: first_request_def assms(3))
  let ?s1 = "s\<lparr>bs_kb := (bs_kb s)\<lparr>kb_scheduler := z\<rparr>\<rparr>"
  have "poll_task E True ?t (bs_kb ?s1) =
      (Answer (ai_outcome E ?t (map_sum AeWorkloadFailed id (backend w [i]))), leave ?t (bs_kb ?s1))"
    using s(5) z(2) by (simp add: poll_task_def token_cancelled_def is_cancelled_def first_task_def)
  with bridge_next [OF z(1) poll [of ?s1 "[]" ?t "[]", where fired = True]] s(2,3)
  have "bridge_reachable E backend unique mode True
      (file_handled req (Answer (ai_outcome E ?t (map_sum AeWorkloadFailed id (backend w [i]))), leave ?t (bs_kb ?s1)) (?s1\<lparr>bs_tasks := []\<rparr>))"
    by (simp add: first_task_def)
  moreover have "ai_outcome E ?t (map_sum AeWorkloadFailed id (backend w [i])) =
    (case backend w [i] of Inr outs \<Rightarrow> run_result E (request_id req) outs
      | Inl e \<Rightarrow> aiplane_error_to_v1 (request_id req) (AeWorkloadFailed e))"
    by (simp add: ai_outcome_def first_task_def split: sum.split)
  ultimately show ?thesis
    using s(3,4) by (intro exI [of _ "file_handled req (Answer (ai_outcome E ?t (map_sum AeWorkloadFailed id (backend w [i]))),
        leave ?t (bs_kb ?s1)) (?s1\<lparr>bs_tasks := []\<rparr>)"] conjI) (simp_all add: live_def)
qed

section \<open>Cancelling\<close>

definition sample_env :: bridge_env where
  "sample_env = \<lparr>be_float = float_bits, be_emsg = (\<lambda>_ _. []), be_ulid_parse = (\<lambda>_. Some 7), be_ulid_str = (\<lambda>_. ''7''),
     be_to_value = (\<lambda>_. None), be_version = [], be_git_sha = []\<rparr>"

definition sample_view :: plane_view where
  "sample_view = \<lparr>pv_workloads = JNull, pv_embed_state = None, pv_warm = JNull, pv_cancel = (\<lambda>_ _. Inr ())\<rparr>"

definition sample_request :: "ulid \<Rightarrow> Priority \<Rightarrow> string \<Rightarrow> json \<Rightarrow> Request" where
  "sample_request rid p m ps = (build_v1_request rid m ps)\<lparr>priority := p\<rparr>"

definition sample_run :: "Priority \<Rightarrow> Request" where
  "sample_run p = sample_request 7 p M_AIPLANE_RUN (JObject
     [(''workload'', WorkloadKind_to_value Embed), (''input'', WorkloadInput_to_value (InText ''hi''))])"

lemma sample_run_params [simp]:
  "ai_run_params (req_params (sample_run p)) = Some (Embed, InText ''hi'', None)"
  "req_method (sample_run p) = M_AIPLANE_RUN" "priority (sample_run p) = p" "request_id (sample_run p) = 7"
  using WorkloadInput_back [of "InText ''hi''"]
  by (simp_all add: sample_run_def sample_request_def build_v1_request_def ai_run_params_def req_field_def
      opt_field_def wire_simps)

theorem idle_server_answers_run_witness:
  "\<exists>s. bridge_reachable sample_env (\<lambda>_ _. Inr [OutText ''hello'']) True ModeAiplane True s \<and> live s = [] \<and>
     bs_answers s = [(sample_run Realtime, run_result sample_env 7 [OutText ''hello''])]"
  using idle_server_answers_run [of "sample_run Realtime" Embed "InText ''hi''" sample_env "\<lambda>_ _. Inr [OutText ''hello'']" True ModeAiplane]
  by simp

theorem inference_answers_are_the_backends_witness:
  "\<exists>result. (\<exists>s rid. bridge_reachable sample_env (\<lambda>_ _. Inr [OutText ''hello'']) True ModeAiplane True s \<and>
       (sample_run Realtime, RespOk 1 rid result None) \<in> set (bs_answers s)) \<and>
     result = JObject [(''output'', WorkloadOutput_to_value float_bits (OutText ''hello''))]"
proof -
  let ?b = "\<lambda>_ _. Inr [OutText ''hello'']"
  obtain s where s: "bridge_reachable sample_env ?b True ModeAiplane True s"
    "bs_answers s = [(sample_run Realtime, run_result sample_env 7 [OutText ''hello''])]"
    using idle_server_answers_run [of "sample_run Realtime" Embed "InText ''hi''" sample_env ?b True ModeAiplane] by auto
  then obtain result where m: "(sample_run Realtime, RespOk 1 7 result None) \<in> set (bs_answers s)"
    by (simp add: run_result_def v1_ok_def SCHEMA_VERSION_def)
  from inference_answers_are_the_backends [OF s(1) m] s(1) m show ?thesis
    by (auto simp: sample_env_def)
qed


theorem bridge_registries_do_not_leak_witness:
  "\<exists>s. bridge_reachable sample_env (\<lambda>_ _. Inr [OutText ''hello'']) True ModeAiplane True s \<and> bs_answers s \<noteq> [] \<and>
     dom (inner (kb_registry (bs_kb s))) = {} \<and> dom (kb_inflight_kinds (bs_kb s)) = {}"
proof -
  obtain s where s: "bridge_reachable sample_env (\<lambda>_ _. Inr [OutText ''hello'']) True ModeAiplane True s"
    "live s = []" "bs_answers s \<noteq> []"
    using idle_server_answers_run [of "sample_run Realtime" Embed "InText ''hi''" sample_env "\<lambda>_ _. Inr [OutText ''hello'']" True ModeAiplane]
    by force
  from bridge_registries_do_not_leak [OF s(1)] s show ?thesis
    by (intro exI [of _ s]) simp
qed

lemma cancel_response:
  assumes "kb_aiplane_enabled kb" "req_method q = M_AIPLANE_CANCEL" "ai_cancel_params E (req_params q) = Some (target, None)"
  shows "kb_handle E V q kb = (let (was, reg) = Ipc_Cancel.cancel target (kb_registry kb); kb1 = with_registry reg kb in
     case kb_inflight_kinds kb target of
       None \<Rightarrow> (Answer (v1_ok (request_id q) (JObject [(''target_request_id'', JString (be_ulid_str E target)),
                 (''cancelled'', JBool was), (''worker_cancel_error'', JNull)])), kb1)
     | Some w \<Rightarrow> (Answer (v1_ok (request_id q) (JObject [(''target_request_id'', JString (be_ulid_str E target)),
                 (''cancelled'', JBool was),
                 (''worker_cancel_error'', case pv_cancel V w target of Inl e \<Rightarrow> JString e | Inr _ \<Rightarrow> JNull)])),
                 kb1\<lparr>kb_worker_cancels := kb_worker_cancels kb1 @ [(w, target)]\<rparr>))"
  using assms
  by (simp add: handle_cancel_eq handle_aiplane_cancel_def opt_value_def Let_def split: option.split prod.split sum.split)

text \<open>
  C8. A cancel that names only the request id reaches the request wherever it is, as long as callers do not reuse the id of
  a request in progress: the answer says \<open>cancelled\<close>, the worker of the request's own workload is told, and
  the next poll of the handler answers \<open>Cancelled\<close>, even if its timer has fired or its reply has
  arrived.
\<close>

theorem cancel_by_id_reaches_request:
  assumes reach: "bridge_reachable E backend True mode enabled s" and t: "t \<in> set (live s)"
    and q: "kb_aiplane_enabled (bs_kb s)" "req_method q = M_AIPLANE_CANCEL"
      "ai_cancel_params E (req_params q) = Some (task_id t, None)"
    and h: "kb_handle E V q (bs_kb s) = (out, kb)"
  shows "(\<exists>err. out = Answer (v1_ok (request_id q) (JObject [(''target_request_id'', JString (be_ulid_str E (task_id t))),
        (''cancelled'', JBool True), (''worker_cancel_error'', err)]))) \<and>
    (at_workload t, task_id t) \<in> set (kb_worker_cancels kb) \<and>
    poll_task E fired t kb = (Answer (answer_cancelled t), leave t kb)"
proof -
  from bridge_findable [OF reach TrueI] t have f: "guard_id (at_guard t) = task_id t"
    "current (at_guard t) (kb_registry (bs_kb s))" "kb_inflight_kinds (bs_kb s) (task_id t) = Some (at_workload t)"
    by (auto simp: findable_def)
  obtain was reg where c: "Ipc_Cancel.cancel (task_id t) (kb_registry (bs_kb s)) = (was, reg)" by fastforce
  with cancel_current [OF f(2)] f(1) have was: was and tok: "is_cancelled (guard_token (at_guard t)) reg"
    by simp_all
  have "poll_task E fired t kb' = (Answer (answer_cancelled t), leave t kb')" if "kb_registry kb' = reg" for kb'
    using tok that by (simp add: poll_task_def token_cancelled_def)
  with h cancel_response [OF q] c was f(3) show ?thesis
    by (auto simp: Let_def with_registry_def)
qed

lemma sample_cancel_params: "ai_cancel_params sample_env (JObject [(''target_request_id'', JString ''x'')]) = Some (7, None)"
  by (simp add: ai_cancel_params_def req_field_def opt_field_def json_to_ulid_def sample_env_def)

theorem cancel_by_id_reaches_request_witness:
  "\<exists>s t kb. bridge_reachable sample_env (\<lambda>_ _. Inr []) True ModeAiplane True s \<and> t \<in> set (live s) \<and>
     (Embed, 7) \<in> set (kb_worker_cancels kb) \<and> fst (poll_task sample_env False t kb) = Answer (answer_cancelled t)"
proof -
  let ?t = "first_task (sample_run Realtime) Embed (InText ''hi'')"
  let ?q = "sample_request 8 Realtime M_AIPLANE_CANCEL (JObject [(''target_request_id'', JString ''x'')])"
  obtain s where s: "bridge_reachable sample_env (\<lambda>_ _. Inr []) True ModeAiplane True s" "bs_tasks s = [AiTask ?t]"
    "kb_aiplane_enabled (bs_kb s)"
    using first_arrival [of "sample_run Realtime" Embed "InText ''hi''" sample_env "\<lambda>_ _. Inr []" True ModeAiplane] by auto
  have t: "?t \<in> set (live s)" by (simp add: live_iff s)
  have q: "req_method ?q = M_AIPLANE_CANCEL" "ai_cancel_params sample_env (req_params ?q) = Some (task_id ?t, None)"
    by (simp_all add: sample_request_def build_v1_request_def sample_cancel_params first_task_def)
  obtain out kb where h: "kb_handle sample_env sample_view ?q (bs_kb s) = (out, kb)" by fastforce
  have w: "(at_workload ?t, task_id ?t) = (Embed, 7)" by (simp add: first_task_def)
  from cancel_by_id_reaches_request [OF s(1) t s(3) q h, of False] s(1) t show ?thesis
    unfolding w by (intro exI [of _ s] exI [of _ ?t] exI [of _ kb]) simp
qed

text \<open>
  The two registries differ when an id is reused while its first request is in progress. The cancel registry is
  guarded by epochs, the registry of kinds is not: when the older request ends first, the newer one keeps its token
  mapping but loses its kind, so a cancel by id trips its token and no longer tells its worker; when the newer one
  ends first, the older one can no longer be found at all.
\<close>

theorem reused_id_hides_request:
  assumes "start_task v1 req1 w1 in1 (Some ms1) kb = (Suspend (AiTask t1), kb1)"
    and "start_task v2 req2 w2 in2 (Some ms2) kb1 = (Suspend (AiTask t2), kb2)"
    and "request_id req1 = i" "request_id req2 = i"
  shows "kb_inflight_kinds kb2 i = Some w2 \<and>
    current (at_guard t2) (kb_registry (leave t1 kb2)) \<and> kb_inflight_kinds (leave t1 kb2) i = None \<and>
    kb_inflight_kinds (leave t2 kb2) i = None \<and> \<not> fst (Ipc_Cancel.cancel i (kb_registry (leave t2 kb2)))"
  using assms
  by (auto simp: start_task_def register_def Let_def with_registry_def leave_def drop_guard_def current_def
      Ipc_Cancel.cancel_def)

theorem reused_id_hides_request_witness:
  "\<exists>t1 (t2 :: ai_task) kb2. kb_inflight_kinds kb2 7 = Some Embed \<and> current (at_guard t2) (kb_registry (leave t1 kb2)) \<and>
     kb_inflight_kinds (leave t1 kb2) 7 = None"
proof -
  let ?kb = "KnowledgeBridge_new sample_env ModeAiplane True"
  have sleeps: "\<exists>t kb'. start_task VRun (sample_run Realtime) Embed [] (Some 5) kb = (Suspend (AiTask t), kb')" for kb
    by (simp add: start_task_def register_def Let_def)
  obtain t1 kb1 where 1: "start_task VRun (sample_run Realtime) Embed [] (Some 5) ?kb = (Suspend (AiTask t1), kb1)"
    using sleeps by blast
  obtain t2 kb2 where 2: "start_task VRun (sample_run Realtime) Embed [] (Some 5) kb1 = (Suspend (AiTask t2), kb2)"
    using sleeps by blast
  from reused_id_hides_request [OF 1 2, of 7]
  have "kb_inflight_kinds kb2 7 = Some Embed \<and> current (at_guard t2) (kb_registry (leave t1 kb2)) \<and>
     kb_inflight_kinds (leave t1 kb2) 7 = None" by simp
  then show ?thesis by blast
qed

section \<open>A full queue holds the server\<close>


lemma fill_background:
  "n \<le> 256 \<Longrightarrow> \<exists>s. bridge_reachable E backend unique mode enabled s \<and> bs_tasks s = [] \<and> bs_blocked s = None \<and>
     kb_aiplane_enabled (bs_kb s) = enabled \<and> receivers_alive (sched (disp (kb_scheduler (bs_kb s)))) \<and>
     length (background_q (sched (disp (kb_scheduler (bs_kb s))))) = n"
proof (induction n)
  case 0
  have "bridge_reachable E backend unique mode enabled (bridge_init E mode enabled)" by (rule bridge_start)
  then show ?case
    by (intro exI [of _ "bridge_init E mode enabled"])
      (simp add: bridge_init_def KnowledgeBridge_new_def init_system_def Scheduler_new_def)
next
  case (Suc n)
  then obtain s where s: "bridge_reachable E backend unique mode enabled s" "bs_tasks s = []" "bs_blocked s = None"
    "kb_aiplane_enabled (bs_kb s) = enabled" "receivers_alive (sched (disp (kb_scheduler (bs_kb s))))"
    "length (background_q (sched (disp (kb_scheduler (bs_kb s))))) = n"
    by auto
  obtain r kb where o1: "own_request 0 Embed [] Background (bs_kb s) = (r, kb)" by fastforce
  let ?S = "sched (disp (kb_scheduler (bs_kb s)))"
  from o1 have r: "sr_class r = Background" "sched (disp (kb_scheduler kb)) = ?S"
    "kb_aiplane_enabled kb = kb_aiplane_enabled (bs_kb s)"
    by (auto simp: own_request_def with_registry_def)
  have "admit r (sched (disp (kb_scheduler kb))) = (Admitted, set_queue Background (background_q ?S @ [r]) ?S)"
    using s Suc.prems by (simp add: admit_Admitted r CAP_BACKGROUND_def)
  from bridge_next [OF s(1) daemon_admits [OF o1 this]] s r show ?case
    by (intro exI [of _ "s\<lparr>bs_kb := enqueue r (set_queue Background (background_q ?S @ [r]) ?S) kb\<rparr>"])
      (simp add: enqueue_def)
qed

lemma full_background_blocks:
  "\<exists>s t r. bridge_reachable sample_env backend unique mode True s \<and> bs_blocked s = Some (t, r) \<and>
     fst (admit r (sched (disp (kb_scheduler (bs_kb s))))) = Blocks"
proof -
  obtain s where s: "bridge_reachable sample_env backend unique mode True s" "bs_tasks s = []" "bs_blocked s = None"
    "kb_aiplane_enabled (bs_kb s)" "receivers_alive (sched (disp (kb_scheduler (bs_kb s))))"
    "length (background_q (sched (disp (kb_scheduler (bs_kb s))))) = 256"
    using fill_background [of 256 sample_env backend unique mode True] by auto
  from bridge_reachable_inv [OF s(1)] have wf: "reg_wf (kb_registry (bs_kb s))"
    by (auto simp: bridge_inv_def intro: sched_ok_wf)
  let ?req = "sample_run Background"
  have full: "admit r (sched (disp (kb_scheduler (bs_kb s)))) = (Blocks, sched (disp (kb_scheduler (bs_kb s))))"
    if "sr_class r = Background" for r
    using s that by (simp add: admit_def Let_def CAP_BACKGROUND_def)
  have live: "live s = []" by (simp add: live_def s)
  have fresh: "\<not> cancelled (kb_registry (bs_kb s)) (next_token (kb_registry (bs_kb s)))"
    using wf by (auto simp: reg_wf_def)
  have "\<exists>t r kb. kb_handle sample_env sample_view ?req (bs_kb s) = (BlockThread t r, kb) \<and> sr_class r = Background \<and>
      sched (disp (kb_scheduler kb)) = sched (disp (kb_scheduler (bs_kb s)))"
    using s fresh full
    by (simp add: handle_run_eq handle_aiplane_run_def start_task_def register_def Let_def go_on_def token_cancelled_def
        is_cancelled_def with_registry_def admit_task_def sched_request_def)
  then obtain t r kb where h: "kb_handle sample_env sample_view ?req (bs_kb s) = (BlockThread t r, kb)"
    "sr_class r = Background" "sched (disp (kb_scheduler kb)) = sched (disp (kb_scheduler (bs_kb s)))"
    by blast
  have "bridge_step sample_env backend unique s (file_handled ?req (kb_handle sample_env sample_view ?req (bs_kb s)) s)"
    by (rule arrive) (simp_all add: s live)
  from bridge_next [OF s(1) this] h full [OF h(2)] show ?thesis
    by (intro exI [of _ "file_handled ?req (BlockThread t r, kb) s"] exI [of _ t] exI [of _ r]) simp
qed


section \<open>Routing\<close>

lemma try_method_to_op_known: "try_method_to_op m params \<noteq> None \<longleftrightarrow> m \<in> op_method ` set
    [RefreshSources, IndexNow, FullResync, ReloadSchedule, RescanDiscovery, Pause, Resume, TogglePause, Cancel, Shutdown]"
  by (auto simp: try_method_to_op_def)

lemma try_method_to_req_known:
  "try_method_to_req F emsg m params \<noteq> Inr None \<longleftrightarrow> m \<in> {M_RUN, M_SEARCH, M_SEARCH_RERANK, M_GET_CHUNK}"
proof -
  have "map_sum id Some (ok_or x e) \<noteq> Inr None" for x :: "Req option" and e :: string
    by (cases x) simp_all
  then show ?thesis
    by (auto simp: try_method_to_req_def Let_def)
qed

text \<open>
  What the server advertises is what it serves: a method is in the list \<open>system.describe\<close> extends exactly when
  the plane it belongs to is served here and one of the tables has a handler for it.
\<close>

theorem advertised_methods_are_served:
  "req_method req \<in> set (advertised (kb_mode kb) (kb_aiplane_enabled kb)) \<longleftrightarrow>
   \<not> foreign req kb \<and>
   (req_method req \<in> set AIPLANE_METHODS \<or> try_method_to_op (req_method req) params \<noteq> None \<or>
    try_method_to_req F emsg (req_method req) params \<noteq> Inr None)"
proof -
  have ai: "method_starts_with ''aiplane.'' m" if "m \<in> set AIPLANE_METHODS" for m
    using that by (auto simp: AIPLANE_METHODS_def method_names method_starts_with_def)
  have kn: "m \<in> set KNOWLEDGE_METHODS \<longleftrightarrow> try_method_to_op m params \<noteq> None \<or> try_method_to_req F emsg m params \<noteq> Inr None" for m
    unfolding try_method_to_op_known try_method_to_req_known by (auto simp: KNOWLEDGE_METHODS_def)
  have not_ai: "\<not> method_starts_with ''aiplane.'' m" if "m \<in> set KNOWLEDGE_METHODS" for m
    using that by (auto simp: KNOWLEDGE_METHODS_def method_names method_starts_with_def)
  show ?thesis
    unfolding kn [symmetric] using ai [of "req_method req"] not_ai [of "req_method req"]
    by (cases "kb_mode kb"; cases "kb_aiplane_enabled kb") (auto simp: advertised_def foreign_def)
qed

lemma held_start_plane:
  "kb_mode (snd (start_task v req w is sl kb)) = kb_mode kb"
  "kb_aiplane_enabled (snd (start_task v req w is sl kb)) = kb_aiplane_enabled kb"
  "kb_ops (snd (start_task v req w is sl kb)) = kb_ops kb"
  "kb_reqs (snd (start_task v req w is sl kb)) = kb_reqs kb"
  "kb_daemon_cancel (snd (start_task v req w is sl kb)) = kb_daemon_cancel kb"
  by (simp_all add: start_task_def Let_def go_on_def admit_task_def leave_def with_registry_def enqueue_def
      split: prod.split option.split admit_outcome.split)

lemma poll_plane:
  "kb_mode (snd (admit_task t r kb)) = kb_mode kb"
  "kb_aiplane_enabled (snd (admit_task t r kb)) = kb_aiplane_enabled kb"
  "kb_ops (snd (admit_task t r kb)) = kb_ops kb" "kb_reqs (snd (admit_task t r kb)) = kb_reqs kb"
  "kb_mode (snd (poll_task E fired t kb)) = kb_mode kb"
  "kb_aiplane_enabled (snd (poll_task E fired t kb)) = kb_aiplane_enabled kb"
  "kb_ops (snd (poll_task E fired t kb)) = kb_ops kb" "kb_reqs (snd (poll_task E fired t kb)) = kb_reqs kb"
  by (simp_all add: poll_task_def go_on_def admit_task_def leave_def with_registry_def enqueue_def
      split: prod.split option.split admit_outcome.split ai_phase.split)

lemma ai_handlers_plane:
  assumes "H \<in> {handle_aiplane_run E req, handle_aiplane_batch E req, handle_aiplane_cancel E V req}"
  shows "kb_mode (snd (H kb)) = kb_mode kb \<and> kb_aiplane_enabled (snd (H kb)) = kb_aiplane_enabled kb \<and>
    kb_ops (snd (H kb)) = kb_ops kb \<and> kb_reqs (snd (H kb)) = kb_reqs kb \<and>
    kb_daemon_cancel (snd (H kb)) = kb_daemon_cancel kb"
  using assms
proof (elim insertE emptyE)
  assume "H = handle_aiplane_cancel E V req"
  then show ?thesis
    by (simp add: handle_aiplane_cancel_def with_registry_def Let_def split: option.split prod.split)
qed (simp_all add: handle_aiplane_run_def handle_aiplane_batch_def held_start_plane split: option.split prod.split)

lemma knowledge_plane:
  "kb_mode (snd (handle_knowledge E req kb)) = kb_mode kb"
  "kb_aiplane_enabled (snd (handle_knowledge E req kb)) = kb_aiplane_enabled kb"
  "kb_daemon_cancel (snd (handle_knowledge E req kb)) = kb_daemon_cancel kb"
  "held (fst (handle_knowledge E req kb)) = []"
  by (simp_all add: handle_knowledge_def split: option.split sum.split)

lemma handle_plane:
  "kb_mode (snd (kb_handle E V req kb)) = kb_mode kb"
  "kb_aiplane_enabled (snd (kb_handle E V req kb)) = kb_aiplane_enabled kb"
  using ai_handlers_plane [of _ E req V kb]
  by (simp_all add: kb_handle_def knowledge_plane with_registry_def split: option.split prod.split)

text \<open>
  The daemon's running pass is told to stop by every \<open>system.cancel\<close>, whatever it targets and even when
  its parameters do not parse, and by no other method: \<open>aiplane.cancel\<close> leaves the flag alone.
\<close>

theorem only_system_cancel_aborts_pass:
  "kb_daemon_cancel (snd (kb_handle E V req kb)) \<longleftrightarrow> kb_daemon_cancel kb \<or> req_method req = ''system.cancel''"
proof (cases "try_handle (be_to_value E) (be_ulid_parse E) (be_ulid_str E) (kb_system kb) (kb_registry kb) req")
  case None
  then have "req_method req \<noteq> ''system.cancel''"
    by (auto simp: try_handle_def split: if_splits)
  with None ai_handlers_plane [of _ E req V kb] show ?thesis
    by (auto simp: kb_handle_def knowledge_plane)
qed (auto simp: kb_handle_def)

lemma aiplane_mode_routes:
  assumes "kb_mode kb = ModeAiplane"
  shows "kb_ops (snd (kb_handle E V req kb)) = kb_ops kb \<and> kb_reqs (snd (kb_handle E V req kb)) = kb_reqs kb \<and>
    fst (kb_handle E V req kb) \<noteq> Suspend (ReqTask q)"
proof -
  let ?k = "handle_knowledge E req kb"
  have known: "req_method req \<notin> set KNOWLEDGE_METHODS" if "method_starts_with ''aiplane.'' (req_method req)"
    using that by (auto simp: KNOWLEDGE_METHODS_def method_names method_starts_with_def)
  have k: "kb_ops (snd ?k) = kb_ops kb \<and> kb_reqs (snd ?k) = kb_reqs kb \<and> fst ?k \<noteq> Suspend (ReqTask q)"
    if "method_starts_with ''aiplane.'' (req_method req)"
  proof -
    from known [OF that] try_method_to_op_known [of "req_method req" "req_params req"]
      try_method_to_req_known [of "be_float E" "be_emsg E" "req_method req" "req_params req"]
    have "try_method_to_op (req_method req) (req_params req) = None"
      "try_method_to_req (be_float E) (be_emsg E) (req_method req) (req_params req) = Inr None"
      by (auto simp: KNOWLEDGE_METHODS_def)
    then show ?thesis by (simp add: handle_knowledge_def)
  qed
  have start: "fst (start_task v req w is sl kb) \<noteq> Suspend (ReqTask q)" for v w "is" sl
    by (simp add: start_task_def Let_def go_on_def admit_task_def split: prod.split option.split admit_outcome.split)
  have ai: "fst (handle_aiplane_run E req kb) \<noteq> Suspend (ReqTask q)" "fst (handle_aiplane_batch E req kb) \<noteq> Suspend (ReqTask q)"
    "fst (handle_aiplane_cancel E V req kb) \<noteq> Suspend (ReqTask q)"
    by (simp_all add: handle_aiplane_run_def handle_aiplane_batch_def handle_aiplane_cancel_def start Let_def
        split: option.split prod.split)
  show ?thesis
  proof (cases "try_handle (be_to_value E) (be_ulid_parse E) (be_ulid_str E) (kb_system kb) (kb_registry kb) req")
    case None
    with assms k ai ai_handlers_plane [of _ E req V kb] show ?thesis
      by (simp add: kb_handle_def foreign_def)
  qed (auto simp: kb_handle_def with_registry_def)
qed

lemma disabled_routes:
  assumes "\<not> kb_aiplane_enabled kb"
  shows "held (fst (kb_handle E V req kb)) = []"
proof -
  have "method_starts_with ''aiplane.'' (verb_name v)" for v
    by (cases v) (simp_all add: method_names method_starts_with_def)
  from this [of VRun] this [of VBatch] show ?thesis
    using assms
    by (auto simp: kb_handle_def foreign_def knowledge_plane handle_aiplane_cancel_def Let_def
        split: option.splits prod.splits)
qed


definition plane_inv :: "BridgeMode \<Rightarrow> bool \<Rightarrow> bridge_system \<Rightarrow> bool" where
  "plane_inv mode enabled s \<longleftrightarrow>
     kb_mode (bs_kb s) = mode \<and> kb_aiplane_enabled (bs_kb s) = enabled \<and>
     (mode = ModeAiplane \<longrightarrow> kb_ops (bs_kb s) = [] \<and> kb_reqs (bs_kb s) = [] \<and> (\<forall>q. ReqTask q \<notin> set (bs_tasks s))) \<and>
     (\<not> enabled \<longrightarrow> live s = [])"

lemma settle_kb [simp]: "bs_kb (file_handled req res s) = snd res"
  by (cases "(req, res, s)" rule: file_handled.cases) simp_all

lemma settle_tasks: "set (bs_tasks (file_handled req res s)) \<subseteq> set (bs_tasks s) \<union> {t. fst res = Suspend t}"
  by (cases "(req, res, s)" rule: file_handled.cases) auto

lemma settle_live: "held (fst res) = [] \<Longrightarrow> live s = [] \<Longrightarrow> bs_blocked s = None \<Longrightarrow> live (file_handled req res s) = []"
  by (cases "(req, res, s)" rule: file_handled.cases) (auto simp: live_def)

lemma poll_no_req: "fst (admit_task t r kb) \<noteq> Suspend (ReqTask q)" "fst (poll_task E fired t kb) \<noteq> Suspend (ReqTask q)"
  by (auto simp: poll_task_def go_on_def admit_task_def split: prod.split option.split admit_outcome.split ai_phase.split)

lemma bridge_step_plane:
  assumes "bridge_step E backend unique s s'" "plane_inv mode enabled s"
  shows "plane_inv mode enabled s'"
  using assms
proof (induction rule: bridge_step.induct)
  case (arrive s req V)
  then show ?case
    using settle_tasks [of req "kb_handle E V req (bs_kb s)" s] aiplane_mode_routes [of "bs_kb s" E V req]
      disabled_routes [of "bs_kb s" E V req] settle_live [of "kb_handle E V req (bs_kb s)" s req]
    by (auto simp: plane_inv_def handle_plane)
next
  case (poll s xs t ys fired)
  have "enabled"
    using poll by (auto simp: plane_inv_def live_def)
  with poll show ?case
    using settle_tasks [of "at_req t" "poll_task E fired t (bs_kb s)" "s\<lparr>bs_tasks := xs @ ys\<rparr>"] poll_no_req(2) [of E fired t "bs_kb s"]
    by (auto simp: plane_inv_def poll_plane)
next
  case (unblock s t r)
  have "enabled"
    using unblock by (auto simp: plane_inv_def live_def)
  with unblock show ?case
    using settle_tasks [of "at_req t" "admit_task t r (bs_kb s)" "s\<lparr>bs_blocked := None\<rparr>"] poll_no_req(1) [of t r "bs_kb s"]
    by (auto simp: plane_inv_def poll_plane)
next
  case (daemon_admits i w inputs p s r kb s')
  then show ?case by (auto simp: plane_inv_def own_request_def enqueue_def with_registry_def)
qed (auto simp: plane_inv_def live_def)

text \<open>
  C25. The planes stay apart. The standalone inference socket never forwards anything to the knowledge daemon, and a knowledge
  socket beside a standalone inference daemon never has an inference request of a caller in progress: it
  cannot start a second session on the device.
\<close>

theorem planes_stay_apart:
  assumes "bridge_reachable E backend unique mode enabled s"
  shows "(mode = ModeAiplane \<longrightarrow> kb_ops (bs_kb s) = [] \<and> kb_reqs (bs_kb s) = []) \<and> (\<not> enabled \<longrightarrow> live s = [])"
proof -
  have "plane_inv mode enabled s"
    using assms
  proof (induction rule: bridge_reachable.induct)
    case bridge_start
    show ?case by (simp add: plane_inv_def bridge_init_def KnowledgeBridge_new_def live_def)
  next
    case (bridge_next s s')
    then show ?case by (blast intro: bridge_step_plane)
  qed
  then show ?thesis by (simp add: plane_inv_def)
qed

theorem planes_stay_apart_witness:
  "kb_ops (bs_kb (bridge_init sample_env ModeAiplane True)) = [] \<and> live (bridge_init sample_env ModeKnowledge False) = []"
  using planes_stay_apart [OF bridge_start [of sample_env "\<lambda>_ _. Inr []" True ModeAiplane True]]
    planes_stay_apart [OF bridge_start [of sample_env "\<lambda>_ _. Inr []" True ModeKnowledge False]] by simp



text \<open>
  A confidence that is not a finite number reaches the client as full confidence: it is written as \<open>null\<close>,
  which the client reads as a missing field and replaces by the default \<open>1.0\<close>.
\<close>

theorem nonfinite_confidence_reads_as_one:
  assumes "float_json_ok F" "\<not> f32_finite conf"
  shows "v1_response_to_legacy F M_SEARCH (legacy_resp_to_v1 F rid (Resp_Search [] conf abst)) =
    Inr (Resp_Search [] default_search_confidence abst)"
proof -
  from assms have "fj_put F conf = JNull" by (simp add: float_not_null)
  with float_null(2) [OF assms(1)] show ?thesis
    by (simp add: v1_ok_def method_names get_or_null_def json_list_def)
qed

theorem nonfinite_confidence_reads_as_one_witness:
  "v1_response_to_legacy float_bits M_SEARCH (legacy_resp_to_v1 float_bits 1 (Resp_Search [] 0x7FC00000 False)) =
    Inr (Resp_Search [] default_search_confidence False)"
  using nonfinite_confidence_reads_as_one [OF float_bits_ok, of "0x7FC00000"] by (simp add: f32_finite_def)


text \<open>
  A batch is all or nothing. The server reads back the workload and the inputs the client encoded; the client returns the
  backend's outputs when there is one for each input, and an error naming both counts otherwise, so a short
  answer is never taken for a shorter batch.
\<close>

theorem batch_is_all_or_nothing:
  assumes F: "float_json_ok (be_float E)" and fin: "list_all finite_output outs"
  shows "ai_batch_params (batch_params w inputs) = Some (w, inputs, None) \<and>
    batch_blocking_at (be_float E) emsg dbg rid (Inr (\<lambda>_. Inr (batch_result E rid outs))) path w inputs p =
      (if length outs = length inputs then Inr outs
       else Inl (AeWorkloadFailed (''aiplane.batch returned '' @ nat_str (length outs) @ '' outputs for ''
              @ nat_str (length inputs) @ '' inputs'')))"
proof -
  have "json_to_list (WorkloadOutput_from_value (be_float E)) (json_list (WorkloadOutput_to_value (be_float E)) outs) = Some outs"
    using fin by (auto simp: list_all_iff wire_simps F)
  moreover have "json_to_list WorkloadInput_from_value (json_list WorkloadInput_to_value inputs) = Some inputs"
    by (simp add: wire_simps)
  ultimately show ?thesis
    by (simp add: ai_batch_params_def batch_params_def req_field_def opt_field_def workload_back batch_blocking_at_def
        batch_result_def v1_ok_def decode_batch_outputs_def Let_def)
qed

theorem batch_is_all_or_nothing_witness:
  "batch_blocking_at float_bits (\<lambda>_. []) (\<lambda>_. []) 1 (Inr (\<lambda>_. Inr (batch_result sample_env 1 [OutText ''a'']))) ''s''
     Embed [InText ''a'', InText ''b''] Batch =
   Inl (AeWorkloadFailed (''aiplane.batch returned '' @ nat_str 1 @ '' outputs for '' @ nat_str 2 @ '' inputs''))"
  using batch_is_all_or_nothing [of sample_env "[OutText ''a'']" Embed "[InText ''a'', InText ''b'']"
      "\<lambda>_. []" "\<lambda>_. []" 1 "''s''" Batch] float_bits_ok
  by (simp add: sample_env_def numeral_2_eq_2)

lemma be_first_byte: "u32_to_be_bytes w = of_nat (unat w div 2 ^ 24) # tl (u32_to_be_bytes w)"
proof -
  have "unat w div 256 div 256 div 256 = unat w div 2 ^ 24"
    by (simp only: div_mult2_eq [symmetric]) simp
  moreover have "unat w div 2 ^ 24 mod 256 = unat w div 2 ^ 24"
    using u32_lt [of w] by (intro mod_less) (simp add: less_mult_imp_div_less)
  ultimately show ?thesis
    by (simp add: u32_to_be_bytes_def le_digits_4)
qed

text \<open>
  A frame is not mistaken for the old line protocol: the first byte of a connection is the top byte of the
  frame's length, which is a brace, a bracket or white space only for frames of 144 MiB and more.
\<close>

theorem frames_are_not_taken_for_legacy:
  assumes "write_frame [] payload = Inr w" "length payload < 9 * 2 ^ 24"
  shows "classify_connection (w @ rest) = ConnV1"
proof -
  define n where "n = unat (of_nat (length payload) :: u32)"
  from assms have w: "w = u32_to_be_bytes (of_nat (length payload)) @ payload" and len: "n = length payload"
    by (simp_all add: write_frame_def n_def unat_of_nat take_bit_nat_eq_self_iff split: if_splits)
  have "n div 2 ^ 24 < 9"
    using assms(2) len by (intro less_mult_imp_div_less) simp
  then have "n div 2 ^ 24 \<in> {0, 1, 2, 3, 4, 5, 6, 7, 8}"
    by auto
  moreover obtain bs where "w @ rest = of_nat (n div 2 ^ 24) # bs"
    using be_first_byte [of "of_nat (length payload)"] by (metis append_Cons n_def w)
  ultimately show ?thesis
    by (auto simp: is_ascii_whitespace_def)
qed

theorem frames_are_not_taken_for_legacy_witness:
  "classify_connection [0, 0, 0, 2, 123, 125] = ConnV1 \<and> classify_connection [123, 125] = ConnLegacy"
proof -
  have "write_frame [] [123, 125] = Inr [0, 0, 0, 2, 123, 125]"
    by (simp add: write_frame_def u32_to_be_bytes_def le_digits_4)
  from frames_are_not_taken_for_legacy [OF this, of "[]"] show ?thesis
    by simp
qed

end
