(* ===== verification/Spec2Isabelle.thy ===== *)
theory Spec2Isabelle
  imports Ipc_Server Scheduler Ring Warm_Pool Permission Plugin_Transport Plugin_Host
    Plugin_Proc Plugin_Registry File_App Uri_List Stack_State
    Knowledge_Pass Knowledge_Daemon Ai_Supervisor Ai_Bridge
begin

text \<open>
  A verification library for sy, the desktop tool set of this repository. sy is a workspace of
  Rust crates: a shared core (\<open>sy-core\<close>), a local protocol (\<open>sy-ipc\<close>), and on top of them the AI
  plane, which runs models in worker processes (\<open>sy-aiplane\<close>), the knowledge plane, which keeps
  files searchable (\<open>sy-knowledge\<close>), the agent daemon with its consent and audit machinery
  (\<open>sy-agent\<close>), the file manager with its plugin host (\<open>sy-filemanager\<close>), the monitor and the
  desktop shell. Every definition below is a translation of source under \<open>src/crates\<close>; the names
  are the source's where HOL allows it.

  \<^bold>\<open>How the code is rendered.\<close> Structs are records, enums datatypes, machine integers words,
  strings lists of characters or bytes, and Unicode text lists of scalar values. Errors are
  values of a sum type. State is passed explicitly; code that runs in several threads is an
  inductive step relation whose steps are the accesses to shared state, with the locks of the
  source as atomic steps. Loops are total functions with their termination proof. Code outside
  the repository (serde, tokio, globset, BLAKE3, zstd, ONNX Runtime, Qdrant, the kernel, the
  clock) is an argument of the definitions that use it; what a theorem needs of it is a premise
  in its statement, with a witness that the premise can hold. No bound or fuel is chosen in the
  definitions: the only numeric limits are the constants of the source.

  \<^bold>\<open>Shared ground.\<close> \<open>Prelude\<close> holds words and byte strings, sums as results, slices, and the
  interfaces \<open>wire_enum\<close> (an enum with its wire names) and \<open>frame_codec\<close> (self-delimiting frames).
  \<open>Text\<close> has UTF-8 validation, trimming, decimal numbers; \<open>Paths\<close> the components, joins and
  parents of \<open>std::path\<close>; \<open>Btree_Map\<close> sorted association lists behind \<open>ordered_map\<close>; \<open>Json\<close> JSON
  values and typed field access; \<open>Base64\<close> the codec that \<open>plugin/host_fns.rs\<close> inlines.
  \<open>Core_Vocab\<close> has the enums of \<open>sy-core\<close>, three interpretations of \<open>wire_enum\<close>.

  \<^bold>\<open>The protocol\<close> (\<open>sy-ipc/src\<close>). \<open>Ipc_Frame\<close> (\<open>blocking.rs\<close>, \<open>codec.rs\<close>): length-prefixed frames
  survive any concatenation and truncation is noticed. \<open>Ipc_Envelope\<close> (\<open>envelope.rs\<close>,
  \<open>client.rs\<close>, \<open>stream.rs\<close>): requests and responses round-trip, other schema versions are
  refused. \<open>Ipc_Cancel\<close> (\<open>cancel.rs\<close>): a cancel that follows a registration wins over every later
  poll, in all interleavings of registrations, cancels and guard drops. \<open>Ipc_Server\<close>
  (\<open>server.rs\<close>, \<open>reserved.rs\<close>, \<open>paths.rs\<close>): a connection serves exactly the decoded prefix of
  its input.

  \<^bold>\<open>The AI plane\<close> (\<open>sy-aiplane/src/aiplane\<close>). \<open>Scheduler\<close> (\<open>scheduler.rs\<close>): no request is lost,
  duplicated or reordered within its class, replies are the backend's, the watchdog asks for a
  preemption when it should. \<open>Warm_Pool\<close> (\<open>warm_pool.rs\<close>, \<open>degraded.rs\<close>): the warm set is a
  function of the history; the gate of degraded workers. \<open>Ai_Worker\<close> (\<open>worker/runner.rs\<close>,
  \<open>worker_ipc.rs\<close>): the threads of one worker process; outputs come from a loaded model, one per
  input; a cancel is exact when batches come one at a time. \<open>Ai_Supervisor\<close>
  (\<open>supervisor/*.rs\<close>, and the raise and recovery code of \<open>knowledge/daemon.rs\<close>): spawning,
  readiness, cancellation, polling, shutdown over the interface \<open>child_processes\<close>, which is
  interpreted on processes that run the worker of \<open>Ai_Worker\<close>; no running process is lost track
  of, a cancel is settled within its guard, and the composition of watchdog, supervisor and
  worker shows that a preemption misses the batch it is meant for. \<open>Ai_Wire\<close> (\<open>ipc.rs\<close>,
  \<open>sy-ipc/src/aiplane.rs\<close>) has the payloads, their serialised forms and the translation between
  requests and methods, which round-trips; \<open>Ai_Bridge\<close> (\<open>ipc.rs\<close>) the server of both planes over
  the registry of \<open>Ipc_Cancel\<close> and the queues of \<open>Scheduler\<close>: it refines the scheduler, a success it
  answers is the backend's result on that very request, a cancel by id finds its request, and
  nothing outlives its request.

  \<^bold>\<open>The knowledge plane\<close> (\<open>sy-knowledge/src/knowledge\<close>). \<open>Chunker\<close> (\<open>chunk.rs\<close>,
  \<open>pipeline/generic.rs\<close>): chunks respect both budgets and cover the text in order.
  \<open>Knowledge_Index\<close> (\<open>run_index\<close> and \<open>flush_batch\<close> of \<open>cli.rs\<close>, \<open>state.rs\<close>) has the pass as the code
  runs it and the lemmas that describe its effect on index and store; \<open>Knowledge_Pass\<close> (the
  passes of \<open>daemon.rs\<close>) states what they give: index and store stay in step, a pass implements
  the specification \<open>wanted\<close> file by file and a second pass changes nothing. \<open>Knowledge_Daemon\<close>:
  the control loop and the bridge thread, interleaved.

  \<^bold>\<open>The agent\<close> (\<open>sy-agent/src/agt\<close>). \<open>Policy\<close> (\<open>policy/schema.rs\<close>, \<open>resolver.rs\<close>, \<open>grant.rs\<close>),
  \<open>Permission\<close> (\<open>policy/consent.rs\<close>, \<open>permission.rs\<close> and the approval path of \<open>daemon.rs\<close>): an
  allow answer on a gated call needs an approval of that very token within its five minutes.
  \<open>Audit_Log\<close> (\<open>audit/*.rs\<close>): the log and its archives hold the newest records in order.

  \<^bold>\<open>The file manager\<close> (\<open>sy-filemanager/src\<close>). \<open>Copy_Engine\<close> (\<open>file/fs/copy.rs\<close>): byte-level copies
  against a kernel that may answer anything; both copiers implement \<open>file_copier\<close>. \<open>File_State\<close>
  and \<open>File_App\<close> (\<open>file/state\<close>, \<open>file/app.rs\<close>): the reducer keeps its state well formed while
  tasks end in any order; the selection is behind \<open>ordered_set\<close>. \<open>Uri_List\<close> (\<open>file/dnd.rs\<close>,
  \<open>file/bookmarks.rs\<close>). \<open>Plugin_Transport\<close> (\<open>plugin/transport.rs\<close>): the decoder is \<open>incremental\<close>,
  so the chunks in which bytes arrive do not matter. \<open>Plugin_Manifest\<close>, \<open>Plugin_Registry\<close>
  (\<open>plugin/manifest.rs\<close>, \<open>capability.rs\<close>, \<open>registry.rs\<close>): which plugin may handle what.
  \<open>Plugin_Host\<close> (\<open>plugin/host_fns.rs\<close>): effects need grants. \<open>Plugin_Proc\<close> (\<open>plugin/proc.rs\<close>):
  the actor that supervises a plugin; every call is answered at most once, the restart ladder
  is bounded, and the effect guarantee of \<open>Plugin_Host\<close> carries over to the running system.

  \<^bold>\<open>Monitor and desktop.\<close> \<open>Ring\<close> (\<open>sy-core/src/mon/ring.rs\<close>): the ring file byte by byte, with
  crashes in the middle of a push. \<open>Stack_State\<close> (\<open>sy-desktop-shell/src/stack\<close>): the item list and
  its payload files agree after every command.

  \<^bold>\<open>Kinds of statement.\<close> Most properties say that the code does what it means to. Some prove
  that it does not: there the statement describes the run, and the text above it says what the
  source promises instead.

  \<^bold>\<open>Not modelled.\<close> Rendering and widgets (iced), D-Bus, Wayland, inotify, PAM, landlock and
  seccomp: sequences of calls into the system with no state of their own. The workloads, search
  ranking and evaluation of the planes: floating-point arithmetic over tensors. The command
  lines, the doctor checks and MCP servers: argument parsing and printing around the modelled
  operations. The chat-export and transcript pipelines, text extraction and the sparse encoder
  are parameters of the index pass. Sockets are byte streams, not connections. Of the JSON
  bridges between the wire and the daemons of files and agents (\<open>file/ipc.rs\<close>, \<open>agt/acp.rs\<close>) only
  the envelope is modelled.
\<close>

end
